(* ===== verification/Prelude.thy ===== *)
theory Prelude
  imports Main "HOL-Library.Word"
begin

text \<open>
  Shared vocabulary of the development: the machine types of the C code, the faults an
  operation can end in, reading and writing a range of a byte buffer, the byte order of
  32-bit values, and the comparisons \<^verbatim>\<open>strncmp\<close> and \<^verbatim>\<open>memcmp\<close> on fixed char arrays.
\<close>

unbundle bit_operations_syntax

type_synonym byte = "8 word"
type_synonym u16 = "16 word"
type_synonym u32 = "32 word"

section \<open>Faults\<close>

text \<open>
  An operation that the C code would not survive ends in a fault: a null pointer is
  dereferenced, freed memory or memory outside an object is used, an \<^verbatim>\<open>assert\<close> fails,
  the process exits, or a mutex is never released.
\<close>

datatype fault =
    NullDeref | UseAfterFree | OutOfBounds | AssertFail | ProcessExit | LockHeld

type_synonym 'a res = "fault + 'a"

fun bind_res :: "'a res \<Rightarrow> ('a \<Rightarrow> 'b res) \<Rightarrow> 'b res" where
  "bind_res (Inl e) f = Inl e"
| "bind_res (Inr x) f = f x"

lemma bind_res_Inr_iff:
  "bind_res r f = Inr y \<longleftrightarrow> (\<exists>x. r = Inr x \<and> f x = Inr y)"
  by (cases r) auto

lemma bind_res_split:
  "P (bind_res r f) \<longleftrightarrow> (\<forall>e. r = Inl e \<longrightarrow> P (Inl e)) \<and> (\<forall>x. r = Inr x \<longrightarrow> P (f x))"
  by (cases r) auto

text \<open>The same for an operation that may not return, which is \<open>None\<close>.\<close>

fun bind_ro :: "'a res option \<Rightarrow> ('a \<Rightarrow> 'b res option) \<Rightarrow> 'b res option" where
  "bind_ro None f = None"
| "bind_ro (Some (Inl e)) f = Some (Inl e)"
| "bind_ro (Some (Inr x)) f = f x"

lemma bind_ro_Inr_iff:
  "bind_ro r f = Some (Inr y) \<longleftrightarrow> (\<exists>x. r = Some (Inr x) \<and> f x = Some (Inr y))"
  by (cases "(r, f)" rule: bind_ro.cases) auto

section \<open>Byte buffers\<close>

named_theorems buffer_simps "reading and writing ranges of byte buffers"

definition slice :: "nat \<Rightarrow> nat \<Rightarrow> 'a list \<Rightarrow> 'a list" where
  "slice off n xs = take n (drop off xs)"

definition put_at :: "nat \<Rightarrow> 'a list \<Rightarrow> 'a list \<Rightarrow> 'a list" where
  "put_at off bs xs = take off xs @ bs @ drop (off + length bs) xs"

lemma length_slice [buffer_simps]: "off + n \<le> length xs \<Longrightarrow> length (slice off n xs) = n"
  by (simp add: slice_def)

lemma length_put_at [buffer_simps]:
  "off + length bs \<le> length xs \<Longrightarrow> length (put_at off bs xs) = length xs"
  by (simp add: put_at_def)

lemma slice_put_at_same [buffer_simps]:
  "off \<le> length xs \<Longrightarrow> slice off (length bs) (put_at off bs xs) = bs"
  by (simp add: slice_def put_at_def)

lemma put_at_put_at_same [buffer_simps]:
  "length bs = length cs \<Longrightarrow> off \<le> length xs \<Longrightarrow>
   put_at off cs (put_at off bs xs) = put_at off cs xs"
  by (simp add: put_at_def)

lemma put_at_slice_id [buffer_simps]:
  "off + n \<le> length xs \<Longrightarrow> put_at off (slice off n xs) xs = xs"
  by (simp add: put_at_def slice_def)
    (metis append_take_drop_id drop_drop add.commute)

lemma take_put_at [buffer_simps]:
  "off + length bs \<le> n \<Longrightarrow> off \<le> length xs \<Longrightarrow>
   take n (put_at off bs xs) = put_at off bs (take n xs)"
  by (simp add: put_at_def drop_take)

lemma slice_put_at_before [buffer_simps]:
  "i + n \<le> off \<Longrightarrow> off \<le> length xs \<Longrightarrow> slice i n (put_at off bs xs) = slice i n xs"
  by (simp add: slice_def put_at_def take_drop min_def)

lemma slice_put_at_after [buffer_simps]:
  "off + length bs \<le> i \<Longrightarrow> off \<le> length xs \<Longrightarrow> slice i n (put_at off bs xs) = slice i n xs"
  by (simp add: slice_def put_at_def)

lemma slice_split: "a \<le> n \<Longrightarrow> slice i n xs = slice i a xs @ slice (i + a) (n - a) xs"
  by (metis add.commute drop_drop le_add_diff_inverse slice_def take_add)

lemma slice_append_skip [buffer_simps]:
  "length a = off \<Longrightarrow> slice (off + i) n (a @ b) = slice i n b"
  by (simp add: slice_def)

lemma slice_append_here [buffer_simps]: "length a = n \<Longrightarrow> slice 0 n (a @ b) = a"
  by (simp add: slice_def)

section \<open>Byte order\<close>

text \<open>Both ends run on a little-endian machine; a 32-bit value lies low byte first.\<close>

definition le32 :: "u32 \<Rightarrow> byte list" where
  "le32 w = [ucast w, ucast (drop_bit 8 w), ucast (drop_bit 16 w), ucast (drop_bit 24 w)]"

definition of_le32 :: "byte list \<Rightarrow> u32" where
  "of_le32 bs = (case bs of
      b0 # b1 # b2 # b3 # _ \<Rightarrow>
        ucast b0 OR push_bit 8 (ucast b1) OR push_bit 16 (ucast b2) OR push_bit 24 (ucast b3)
    | _ \<Rightarrow> 0)"

lemma length_le32 [simp]: "length (le32 w) = 4"
  by (simp add: le32_def)

lemma of_le32_le32 [simp]: "of_le32 (le32 w @ rest) = w"
proof (rule bit_word_eqI)
  fix n assume "n < LENGTH(32)"
  then have "n < 8 \<or> (8 \<le> n \<and> n < 16) \<or> (16 \<le> n \<and> n < 24) \<or> (24 \<le> n \<and> n < 32)"
    by auto
  then show "bit (of_le32 (le32 w @ rest)) n = bit w n"
    by (elim disjE; simp add: of_le32_def le32_def bit_simps; auto)
qed

lemma of_le32_le32_nil [simp]: "of_le32 (le32 w) = w"
  using of_le32_le32 [of w "[]"] by simp

lemma le32_inject [simp]: "le32 v = le32 w \<longleftrightarrow> v = w"
  by (metis of_le32_le32_nil)

lemma le32_of_le32 [simp]: "length bs = 4 \<Longrightarrow> le32 (of_le32 bs) = bs"
proof -
  assume "length bs = 4"
  then obtain a b c d where bs: "bs = [a, b, c, d]"
    by (auto simp: length_Suc_conv numeral_eq_Suc)
  have "ucast (of_le32 bs) = a"
    by (rule bit_word_eqI) (auto simp: bs of_le32_def bit_simps)
  moreover have "ucast (drop_bit 8 (of_le32 bs)) = b"
    by (rule bit_word_eqI) (auto simp: bs of_le32_def bit_simps dest: bit_imp_le_length)
  moreover have "ucast (drop_bit 16 (of_le32 bs)) = c"
    by (rule bit_word_eqI) (auto simp: bs of_le32_def bit_simps dest: bit_imp_le_length)
  moreover have "ucast (drop_bit 24 (of_le32 bs)) = d"
    by (rule bit_word_eqI) (auto simp: bs of_le32_def bit_simps dest: bit_imp_le_length)
  ultimately show ?thesis
    by (simp add: le32_def bs)
qed

text \<open>\<^verbatim>\<open>htonl\<close> and \<^verbatim>\<open>ntohl\<close> on a little-endian machine.\<close>

definition bswap32 :: "u32 \<Rightarrow> u32" where
  "bswap32 w = of_le32 (rev (le32 w))"

lemma bswap32_bswap32 [simp]: "bswap32 (bswap32 w) = w"
  by (simp add: bswap32_def)

lemma bswap32_inject [simp]: "bswap32 v = bswap32 w \<longleftrightarrow> v = w"
  by (metis bswap32_bswap32)

lemma bswap32_zero [simp]: "bswap32 0 = 0"
  by (simp add: bswap32_def le32_def of_le32_def)

definition le16 :: "u16 \<Rightarrow> byte list" where
  "le16 w = [ucast w, ucast (drop_bit 8 w)]"

definition of_le16 :: "byte list \<Rightarrow> u16" where
  "of_le16 bs = (case bs of
      b0 # b1 # _ \<Rightarrow> ucast b0 OR push_bit 8 (ucast b1)
    | _ \<Rightarrow> 0)"

lemma length_le16 [simp]: "length (le16 w) = 2"
  by (simp add: le16_def)

lemma of_le16_le16 [simp]: "of_le16 (le16 w) = w"
proof (rule bit_word_eqI)
  fix n assume "n < LENGTH(16)"
  then have "n < 8 \<or> (8 \<le> n \<and> n < 16)" by auto
  then show "bit (of_le16 (le16 w)) n = bit w n"
    by (auto simp: of_le16_def le16_def bit_simps)
qed

section \<open>Arithmetic on C integers\<close>

lemma unat_shr: "unat (drop_bit k (w :: 'a::len word)) = unat w div 2 ^ k"
  by (subst unat_drop_bit_eq) (simp only: drop_bit_eq_div)

lemma div_add_carry:
  fixes a b M :: nat
  assumes "0 < M"
  shows "(a + b) div M = a div M + (if (a + b) mod M < b mod M then 1 else 0) + b div M"
proof -
  let ?x = "a mod M" and ?y = "b mod M"
  have lt: "?x < M" "?y < M" using assms by simp_all
  have m: "(a + b) mod M = (?x + ?y) mod M" by (simp add: mod_add_eq)
  have "(?x + ?y) div M = (if (?x + ?y) mod M < ?y then 1 else 0)"
  proof (cases "?x + ?y < M")
    case True
    then show ?thesis by simp
  next
    case False
    moreover have "?x + ?y - M < M" using lt by arith
    ultimately have "(?x + ?y) mod M = ?x + ?y - M" "(?x + ?y) div M = 1"
      using assms by (simp_all add: le_mod_geq le_div_geq)
    moreover have "?x + ?y - M < ?y" using lt False by arith
    ultimately show ?thesis by simp
  qed
  then show ?thesis using m by (simp add: div_add1_eq [of a b])
qed

lemma msg_len_ok:
  assumes "int n \<le> len" "len < 2 ^ 31"
  shows "\<not> (word_of_int len :: 64 word) < of_nat n"
proof -
  have u: "uint (word_of_int x :: 64 word) = x" if "0 \<le> x" "x < 2 ^ 31" for x
    by (subst uint_word_of_int) (use that in simp)
  have "(of_nat n :: 64 word) = word_of_int (int n)" by simp
  then have "uint (of_nat n :: 64 word) = int n" using u [of "int n"] assms by simp
  moreover have "uint (word_of_int len :: 64 word) = len" by (rule u) (use assms in simp_all)
  ultimately show ?thesis using assms(1) unfolding word_less_def by linarith
qed

section \<open>Comparison of char arrays\<close>

text \<open>
  \<^verbatim>\<open>strncmp(a, b, n) == 0\<close>: the first \<open>n\<close> chars agree, or the arrays agree up to and
  including a common NUL. The arrays of the code have at least \<open>n\<close> chars.
\<close>

fun strncmp_eq :: "nat \<Rightarrow> byte list \<Rightarrow> byte list \<Rightarrow> bool" where
  "strncmp_eq 0 xs ys = True"
| "strncmp_eq (Suc n) (x # xs) (y # ys) =
     (x = y \<and> (x = 0 \<or> strncmp_eq n xs ys))"
| "strncmp_eq (Suc n) xs ys = (xs = ys)"

lemma strncmp_eq_refl [simp]: "strncmp_eq n xs xs"
proof (induction n arbitrary: xs)
  case (Suc n)
  then show ?case by (cases xs) auto
qed simp

lemma strncmp_eq_sym: "strncmp_eq n xs ys \<Longrightarrow> strncmp_eq n ys xs"
  by (induction n xs ys rule: strncmp_eq.induct) auto

text \<open>Without a NUL among the first \<open>n\<close> chars, \<^verbatim>\<open>strncmp\<close> agrees with \<^verbatim>\<open>memcmp\<close>.\<close>

lemma strncmp_eq_no_nul:
  "0 \<notin> set (take n xs) \<Longrightarrow> n \<le> length xs \<Longrightarrow> n \<le> length ys \<Longrightarrow>
   strncmp_eq n xs ys \<longleftrightarrow> take n xs = take n ys"
  by (induction n xs ys rule: strncmp_eq.induct) auto

definition memcmp_eq :: "nat \<Rightarrow> byte list \<Rightarrow> byte list \<Rightarrow> bool" where
  "memcmp_eq n xs ys \<longleftrightarrow> take n xs = take n ys"

end
