(* ===== verification/Md5.thy ===== *)
theory Md5
  imports Prelude
begin

text \<open>
  The message digest of \<^verbatim>\<open>lib/md5.c\<close> and \<^verbatim>\<open>include/md5.h\<close>: the context with its 64-bit
  bit counter and 64-byte buffer, the block transform as the sequence of its 64 macro
  calls, and \<^verbatim>\<open>MD5Init\<close>, \<^verbatim>\<open>MD5Update\<close>, \<^verbatim>\<open>MD5Final\<close>. The theory proves that the
  unrolled transform is the loop of RFC 1321 and that any sequence of updates computes
  the digest of the concatenated input.
\<close>

section \<open>The context and the basic functions\<close>

record md5_ctx =
  count0 :: u32
  count1 :: u32
  md5_state :: "u32 list"
  md5_buffer :: "byte list"

definition F :: "u32 \<Rightarrow> u32 \<Rightarrow> u32 \<Rightarrow> u32" where
  "F x y z = ((x AND y) OR (NOT x AND z))"

definition G :: "u32 \<Rightarrow> u32 \<Rightarrow> u32 \<Rightarrow> u32" where
  "G x y z = ((x AND z) OR (y AND NOT z))"

definition H :: "u32 \<Rightarrow> u32 \<Rightarrow> u32 \<Rightarrow> u32" where
  "H x y z = (x XOR y XOR z)"

definition I :: "u32 \<Rightarrow> u32 \<Rightarrow> u32 \<Rightarrow> u32" where
  "I x y z = (y XOR (x OR NOT z))"

definition ROTATE_LEFT :: "u32 \<Rightarrow> nat \<Rightarrow> u32" where
  "ROTATE_LEFT x n = (push_bit n x OR drop_bit (32 - n) x)"

definition FF :: "u32 \<Rightarrow> u32 \<Rightarrow> u32 \<Rightarrow> u32 \<Rightarrow> u32 \<Rightarrow> nat \<Rightarrow> u32 \<Rightarrow> u32" where
  "FF a b c d x s ac =
     (let a = a + (F b c d + x + ac); a = ROTATE_LEFT a s in a + b)"

definition GG :: "u32 \<Rightarrow> u32 \<Rightarrow> u32 \<Rightarrow> u32 \<Rightarrow> u32 \<Rightarrow> nat \<Rightarrow> u32 \<Rightarrow> u32" where
  "GG a b c d x s ac =
     (let a = a + (G b c d + x + ac); a = ROTATE_LEFT a s in a + b)"

definition HH :: "u32 \<Rightarrow> u32 \<Rightarrow> u32 \<Rightarrow> u32 \<Rightarrow> u32 \<Rightarrow> nat \<Rightarrow> u32 \<Rightarrow> u32" where
  "HH a b c d x s ac =
     (let a = a + (H b c d + x + ac); a = ROTATE_LEFT a s in a + b)"

definition II :: "u32 \<Rightarrow> u32 \<Rightarrow> u32 \<Rightarrow> u32 \<Rightarrow> u32 \<Rightarrow> nat \<Rightarrow> u32 \<Rightarrow> u32" where
  "II a b c d x s ac =
     (let a = a + (I b c d + x + ac); a = ROTATE_LEFT a s in a + b)"

section \<open>Bytes and words\<close>

text \<open>
  \<^verbatim>\<open>MD5Encode\<close> writes \<open>len\<close> bytes, four per word, low byte first; \<^verbatim>\<open>MD5Decode\<close> reads
  \<open>len\<close> bytes into words. Each recursive call is one round of the loop.
\<close>

fun MD5Encode :: "u32 list \<Rightarrow> nat \<Rightarrow> byte list" where
  "MD5Encode [] len = []"
| "MD5Encode (w # ws) len =
     (if len = 0 then []
      else [ucast (w AND 0xFF), ucast (drop_bit 8 w AND 0xFF),
            ucast (drop_bit 16 w AND 0xFF), ucast (drop_bit 24 w AND 0xFF)]
           @ MD5Encode ws (len - 4))"

fun MD5Decode :: "byte list \<Rightarrow> nat \<Rightarrow> u32 list" where
  "MD5Decode (b0 # b1 # b2 # b3 # bs) len =
     (if len = 0 then []
      else (ucast b0 OR push_bit 8 (ucast b1) OR push_bit 16 (ucast b2) OR
            push_bit 24 (ucast b3)) # MD5Decode bs (len - 4))"
| "MD5Decode bs len = []"

section \<open>The block transform\<close>

text \<open>
  The body of \<^verbatim>\<open>MD5Transform\<close> is a straight sequence of macro calls on the four
  variables \<open>a\<close>, \<open>b\<close>, \<open>c\<close>, \<open>d\<close>. A call \<^verbatim>\<open>FF(d, a, b, c, x[1], 12, K)\<close> is the
  entry \<open>(mFF, RD, RA, RB, RC, 1, 12, K)\<close> and assigns its first variable.
\<close>

datatype reg = RA | RB | RC | RD
datatype mac = mFF | mGG | mHH | mII

type_synonym mcall = "mac \<times> reg \<times> reg \<times> reg \<times> reg \<times> nat \<times> nat \<times> u32"
type_synonym quad = "u32 \<times> u32 \<times> u32 \<times> u32"

fun get_reg :: "quad \<Rightarrow> reg \<Rightarrow> u32" where
  "get_reg (a, b, c, d) RA = a"
| "get_reg (a, b, c, d) RB = b"
| "get_reg (a, b, c, d) RC = c"
| "get_reg (a, b, c, d) RD = d"

fun set_reg :: "quad \<Rightarrow> reg \<Rightarrow> u32 \<Rightarrow> quad" where
  "set_reg (a, b, c, d) RA v = (v, b, c, d)"
| "set_reg (a, b, c, d) RB v = (a, v, c, d)"
| "set_reg (a, b, c, d) RC v = (a, b, v, d)"
| "set_reg (a, b, c, d) RD v = (a, b, c, v)"

fun mac_fun :: "mac \<Rightarrow> u32 \<Rightarrow> u32 \<Rightarrow> u32 \<Rightarrow> u32 \<Rightarrow> u32 \<Rightarrow> nat \<Rightarrow> u32 \<Rightarrow> u32" where
  "mac_fun mFF = FF"
| "mac_fun mGG = GG"
| "mac_fun mHH = HH"
| "mac_fun mII = II"

fun exec_call :: "u32 list \<Rightarrow> quad \<Rightarrow> mcall \<Rightarrow> quad" where
  "exec_call x q (m, r0, r1, r2, r3, k, s, ac) =
     set_reg q r0 (mac_fun m (get_reg q r0) (get_reg q r1) (get_reg q r2) (get_reg q r3)
                     (x ! k) s ac)"

definition md5_calls :: "mcall list" where
  "md5_calls = [
    (mFF, RA, RB, RC, RD, 0, 7, 0xd76aa478),
    (mFF, RD, RA, RB, RC, 1, 12, 0xe8c7b756),
    (mFF, RC, RD, RA, RB, 2, 17, 0x242070db),
    (mFF, RB, RC, RD, RA, 3, 22, 0xc1bdceee),
    (mFF, RA, RB, RC, RD, 4, 7, 0xf57c0faf),
    (mFF, RD, RA, RB, RC, 5, 12, 0x4787c62a),
    (mFF, RC, RD, RA, RB, 6, 17, 0xa8304613),
    (mFF, RB, RC, RD, RA, 7, 22, 0xfd469501),
    (mFF, RA, RB, RC, RD, 8, 7, 0x698098d8),
    (mFF, RD, RA, RB, RC, 9, 12, 0x8b44f7af),
    (mFF, RC, RD, RA, RB, 10, 17, 0xffff5bb1),
    (mFF, RB, RC, RD, RA, 11, 22, 0x895cd7be),
    (mFF, RA, RB, RC, RD, 12, 7, 0x6b901122),
    (mFF, RD, RA, RB, RC, 13, 12, 0xfd987193),
    (mFF, RC, RD, RA, RB, 14, 17, 0xa679438e),
    (mFF, RB, RC, RD, RA, 15, 22, 0x49b40821),
    (mGG, RA, RB, RC, RD, 1, 5, 0xf61e2562),
    (mGG, RD, RA, RB, RC, 6, 9, 0xc040b340),
    (mGG, RC, RD, RA, RB, 11, 14, 0x265e5a51),
    (mGG, RB, RC, RD, RA, 0, 20, 0xe9b6c7aa),
    (mGG, RA, RB, RC, RD, 5, 5, 0xd62f105d),
    (mGG, RD, RA, RB, RC, 10, 9, 0x2441453),
    (mGG, RC, RD, RA, RB, 15, 14, 0xd8a1e681),
    (mGG, RB, RC, RD, RA, 4, 20, 0xe7d3fbc8),
    (mGG, RA, RB, RC, RD, 9, 5, 0x21e1cde6),
    (mGG, RD, RA, RB, RC, 14, 9, 0xc33707d6),
    (mGG, RC, RD, RA, RB, 3, 14, 0xf4d50d87),
    (mGG, RB, RC, RD, RA, 8, 20, 0x455a14ed),
    (mGG, RA, RB, RC, RD, 13, 5, 0xa9e3e905),
    (mGG, RD, RA, RB, RC, 2, 9, 0xfcefa3f8),
    (mGG, RC, RD, RA, RB, 7, 14, 0x676f02d9),
    (mGG, RB, RC, RD, RA, 12, 20, 0x8d2a4c8a),
    (mHH, RA, RB, RC, RD, 5, 4, 0xfffa3942),
    (mHH, RD, RA, RB, RC, 8, 11, 0x8771f681),
    (mHH, RC, RD, RA, RB, 11, 16, 0x6d9d6122),
    (mHH, RB, RC, RD, RA, 14, 23, 0xfde5380c),
    (mHH, RA, RB, RC, RD, 1, 4, 0xa4beea44),
    (mHH, RD, RA, RB, RC, 4, 11, 0x4bdecfa9),
    (mHH, RC, RD, RA, RB, 7, 16, 0xf6bb4b60),
    (mHH, RB, RC, RD, RA, 10, 23, 0xbebfbc70),
    (mHH, RA, RB, RC, RD, 13, 4, 0x289b7ec6),
    (mHH, RD, RA, RB, RC, 0, 11, 0xeaa127fa),
    (mHH, RC, RD, RA, RB, 3, 16, 0xd4ef3085),
    (mHH, RB, RC, RD, RA, 6, 23, 0x4881d05),
    (mHH, RA, RB, RC, RD, 9, 4, 0xd9d4d039),
    (mHH, RD, RA, RB, RC, 12, 11, 0xe6db99e5),
    (mHH, RC, RD, RA, RB, 15, 16, 0x1fa27cf8),
    (mHH, RB, RC, RD, RA, 2, 23, 0xc4ac5665),
    (mII, RA, RB, RC, RD, 0, 6, 0xf4292244),
    (mII, RD, RA, RB, RC, 7, 10, 0x432aff97),
    (mII, RC, RD, RA, RB, 14, 15, 0xab9423a7),
    (mII, RB, RC, RD, RA, 5, 21, 0xfc93a039),
    (mII, RA, RB, RC, RD, 12, 6, 0x655b59c3),
    (mII, RD, RA, RB, RC, 3, 10, 0x8f0ccc92),
    (mII, RC, RD, RA, RB, 10, 15, 0xffeff47d),
    (mII, RB, RC, RD, RA, 1, 21, 0x85845dd1),
    (mII, RA, RB, RC, RD, 8, 6, 0x6fa87e4f),
    (mII, RD, RA, RB, RC, 15, 10, 0xfe2ce6e0),
    (mII, RC, RD, RA, RB, 6, 15, 0xa3014314),
    (mII, RB, RC, RD, RA, 13, 21, 0x4e0811a1),
    (mII, RA, RB, RC, RD, 4, 6, 0xf7537e82),
    (mII, RD, RA, RB, RC, 11, 10, 0xbd3af235),
    (mII, RC, RD, RA, RB, 2, 15, 0x2ad7d2bb),
    (mII, RB, RC, RD, RA, 9, 21, 0xeb86d391)]"

definition MD5Transform :: "u32 list \<Rightarrow> byte list \<Rightarrow> u32 list" where
  "MD5Transform st block =
     (let x = MD5Decode block 64;
          (a, b, c, d) = foldl (exec_call x) (st ! 0, st ! 1, st ! 2, st ! 3) md5_calls
      in [st ! 0 + a, st ! 1 + b, st ! 2 + c, st ! 3 + d])"

section \<open>The context operations\<close>

definition MD5Init :: "md5_ctx \<Rightarrow> md5_ctx" where
  "MD5Init ctx = ctx\<lparr>count0 := 0, count1 := 0,
     md5_state := [0x67452301, 0xEFCDAB89, 0x98BADCFE, 0x10325476]\<rparr>"

text \<open>The loop over the whole blocks of the input; it returns the state and the index \<open>i\<close>.\<close>

function md5_blocks :: "u32 list \<Rightarrow> byte list \<Rightarrow> nat \<Rightarrow> nat \<Rightarrow> u32 list \<times> nat" where
  "md5_blocks st input i inputlen =
     (if i + 64 \<le> inputlen
      then md5_blocks (MD5Transform st (slice i 64 input)) input (i + 64) inputlen
      else (st, i))"
  by pat_completeness auto
termination
  by (relation "measure (\<lambda>(st, input, i, n). n - i)") auto

declare md5_blocks.simps [simp del]

definition MD5Update :: "md5_ctx \<Rightarrow> byte list \<Rightarrow> nat \<Rightarrow> md5_ctx" where
  "MD5Update ctx input inputlen =
     (let index = unat (drop_bit 3 (count0 ctx) AND 0x3F);
          partlen = 64 - index;
          c0 = count0 ctx + push_bit 3 (of_nat inputlen);
          c1 = (if c0 < push_bit 3 (of_nat inputlen) then count1 ctx + 1 else count1 ctx);
          c1 = c1 + drop_bit 29 (of_nat inputlen);
          ctx = ctx\<lparr>count0 := c0, count1 := c1\<rparr>
      in if inputlen \<ge> partlen
         then let buf = put_at index (slice 0 partlen input) (md5_buffer ctx);
                  st = MD5Transform (md5_state ctx) buf;
                  (st, i) = md5_blocks st input partlen inputlen
              in ctx\<lparr>md5_state := st,
                     md5_buffer := put_at 0 (slice i (inputlen - i) input) buf\<rparr>
         else ctx\<lparr>md5_buffer := put_at index (slice 0 inputlen input) (md5_buffer ctx)\<rparr>)"

definition PADDING :: "byte list" where
  "PADDING = 0x80 # replicate 63 0"

definition MD5Final :: "md5_ctx \<Rightarrow> md5_ctx \<times> byte list" where
  "MD5Final ctx =
     (let index = unat (drop_bit 3 (count0 ctx) AND 0x3F);
          padlen = (if index < 56 then 56 - index else 120 - index);
          bits = MD5Encode [count0 ctx, count1 ctx] 8;
          ctx = MD5Update ctx PADDING padlen;
          ctx = MD5Update ctx bits 8
      in (ctx, MD5Encode (md5_state ctx) 16))"

section \<open>The unrolled transform is the loop of RFC 1321\<close>

lemma ROTATE_LEFT_word_rotl:
  assumes "n < 32"
  shows "ROTATE_LEFT x n = word_rotl n x"
proof (rule bit_word_eqI)
  fix m assume m: "m < LENGTH(32)"
  show "bit (ROTATE_LEFT x n) m = bit (word_rotl n x) m"
  proof (cases "n \<le> m")
    case True
    then have "m + 32 - n = (m - n) + 32" by simp
    moreover have "(m - n) mod 32 = m - n" using m by simp
    ultimately have "(m + 32 - n) mod 32 = m - n" by (metis mod_add_self2)
    with True m assms show ?thesis
      by (auto simp: ROTATE_LEFT_def bit_simps dest: bit_imp_le_length)
  next
    case False
    then have "32 + m - n = m + 32 - n" "(m + 32 - n) mod 32 = m + 32 - n"
      using m by simp_all
    with False m assms show ?thesis
      by (auto simp: ROTATE_LEFT_def bit_simps)
  qed
qed

definition md5_K :: "u32 list" where
  "md5_K = [
    0xd76aa478, 0xe8c7b756, 0x242070db, 0xc1bdceee,
    0xf57c0faf, 0x4787c62a, 0xa8304613, 0xfd469501,
    0x698098d8, 0x8b44f7af, 0xffff5bb1, 0x895cd7be,
    0x6b901122, 0xfd987193, 0xa679438e, 0x49b40821,
    0xf61e2562, 0xc040b340, 0x265e5a51, 0xe9b6c7aa,
    0xd62f105d, 0x2441453, 0xd8a1e681, 0xe7d3fbc8,
    0x21e1cde6, 0xc33707d6, 0xf4d50d87, 0x455a14ed,
    0xa9e3e905, 0xfcefa3f8, 0x676f02d9, 0x8d2a4c8a,
    0xfffa3942, 0x8771f681, 0x6d9d6122, 0xfde5380c,
    0xa4beea44, 0x4bdecfa9, 0xf6bb4b60, 0xbebfbc70,
    0x289b7ec6, 0xeaa127fa, 0xd4ef3085, 0x4881d05,
    0xd9d4d039, 0xe6db99e5, 0x1fa27cf8, 0xc4ac5665,
    0xf4292244, 0x432aff97, 0xab9423a7, 0xfc93a039,
    0x655b59c3, 0x8f0ccc92, 0xffeff47d, 0x85845dd1,
    0x6fa87e4f, 0xfe2ce6e0, 0xa3014314, 0x4e0811a1,
    0xf7537e82, 0xbd3af235, 0x2ad7d2bb, 0xeb86d391]"


definition md5_g :: "nat \<Rightarrow> nat" where
  "md5_g i = (if i < 16 then i else if i < 32 then (5 * i + 1) mod 16
              else if i < 48 then (3 * i + 5) mod 16 else (7 * i) mod 16)"

definition md5_s :: "nat \<Rightarrow> nat" where
  "md5_s i = (if i < 16 then [7, 12, 17, 22] ! (i mod 4)
              else if i < 32 then [5, 9, 14, 20] ! (i mod 4)
              else if i < 48 then [4, 11, 16, 23] ! (i mod 4)
              else [6, 10, 15, 21] ! (i mod 4))"

definition md5_fn :: "nat \<Rightarrow> u32 \<Rightarrow> u32 \<Rightarrow> u32 \<Rightarrow> u32" where
  "md5_fn i = (if i < 16 then F else if i < 32 then G else if i < 48 then H else I)"

fun md5_step :: "u32 list \<Rightarrow> quad \<Rightarrow> nat \<Rightarrow> quad" where
  "md5_step x (a, b, c, d) i =
     (d, b + word_rotl (md5_s i) (a + md5_fn i b c d + x ! md5_g i + md5_K ! i), b, c)"

definition md5_transform_loop :: "u32 list \<Rightarrow> byte list \<Rightarrow> u32 list" where
  "md5_transform_loop st block =
     (let (a, b, c, d) = foldl (md5_step (MD5Decode block 64))
            (st ! 0, st ! 1, st ! 2, st ! 3) [0..<64]
      in [st ! 0 + a, st ! 1 + b, st ! 2 + c, st ! 3 + d])"

text \<open>The i-th macro call of the code, generated.\<close>

definition gen_mac :: "nat \<Rightarrow> mac" where
  "gen_mac i = (if i < 16 then mFF else if i < 32 then mGG else if i < 48 then mHH else mII)"

definition gen_call :: "nat \<Rightarrow> mcall" where
  "gen_call i = (gen_mac i, [RA, RD, RC, RB] ! (i mod 4), [RB, RA, RD, RC] ! (i mod 4),
     [RC, RB, RA, RD] ! (i mod 4), [RD, RC, RB, RA] ! (i mod 4), md5_g i, md5_s i, md5_K ! i)"

lemma md5_calls_generated: "md5_calls = map gen_call [0..<64]"
  by code_simp

lemma md5_s_bound: "md5_s i < 32"
proof -
  have "i mod 4 \<in> {0, 1, 2, 3}" by auto
  then show ?thesis by (auto simp: md5_s_def)
qed

lemma mac_fun_gen:
  "mac_fun (gen_mac i) a b c d v (md5_s i) k = b + word_rotl (md5_s i) (a + md5_fn i b c d + v + k)"
  by (simp add: gen_mac_def md5_fn_def FF_def GG_def HH_def II_def Let_def
      ROTATE_LEFT_word_rotl md5_s_bound ac_simps)

fun reg_view :: "nat \<Rightarrow> quad \<Rightarrow> quad" where
  "reg_view i (a, b, c, d) =
     (if i mod 4 = 0 then (a, b, c, d) else if i mod 4 = 1 then (d, a, b, c)
      else if i mod 4 = 2 then (c, d, a, b) else (b, c, d, a))"

lemma reg_view_step: "reg_view (Suc i) (exec_call x q (gen_call i)) = md5_step x (reg_view i q) i"
proof -
  obtain a b c d where q: "q = (a, b, c, d)" by (cases q)
  have "i mod 4 = 0 \<or> i mod 4 = 1 \<or> i mod 4 = 2 \<or> i mod 4 = 3" by auto
  then show ?thesis
    by (elim disjE) (simp_all add: q gen_call_def mac_fun_gen mod_Suc)
qed

lemma reg_view_fold:
  "reg_view n (foldl (exec_call x) q (map gen_call [0..<n])) = foldl (md5_step x) q [0..<n]"
proof (induction n)
  case 0
  then show ?case by (cases q) simp
next
  case (Suc n)
  then show ?case by (simp del: reg_view.simps add: reg_view_step)
qed

lemma reg_view_64: "reg_view 64 q = q"
  by (cases q) simp

lemma MD5Transform_unrolled: "MD5Transform st block = md5_transform_loop st block"
  using reg_view_fold [of 64 "MD5Decode block 64" "(st ! 0, st ! 1, st ! 2, st ! 3)"]
  by (simp add: MD5Transform_def md5_transform_loop_def md5_calls_generated reg_view_64 Let_def
      del: reg_view.simps upt_Suc)

section \<open>Blocks and padding\<close>

function chunks64 :: "byte list \<Rightarrow> byte list list" where
  "chunks64 xs = (if length xs < 64 then [] else take 64 xs # chunks64 (drop 64 xs))"
  by pat_completeness auto
termination
  by (relation "measure length") auto

declare chunks64.simps [simp del]

lemma chunks64_short [simp]: "length xs < 64 \<Longrightarrow> chunks64 xs = []"
  by (subst chunks64.simps) simp

lemma chunks64_step: "length b = 64 \<Longrightarrow> chunks64 (b @ xs) = b # chunks64 xs"
  by (subst chunks64.simps) simp

lemma chunks64_append:
  "length xs mod 64 = 0 \<Longrightarrow> chunks64 (xs @ ys) = chunks64 xs @ chunks64 ys"
proof (induction xs rule: chunks64.induct)
  case (1 xs)
  show ?case
  proof (cases "length xs < 64")
    case True
    with "1.prems" have "xs = []" by simp
    then show ?thesis by simp
  next
    case False
    then have xs: "xs = take 64 xs @ drop 64 xs" "length (take 64 xs) = 64" by auto
    have "length (drop 64 xs) mod 64 = 0"
      using "1.prems" False by (simp add: mod_diff_right_eq le_mod_geq [symmetric])
    then have IH: "chunks64 (drop 64 xs @ ys) = chunks64 (drop 64 xs) @ chunks64 ys"
      using "1.IH" False by simp
    have "chunks64 (xs @ ys) = take 64 xs # chunks64 (drop 64 xs @ ys)"
      using xs chunks64_step [of "take 64 xs" "drop 64 xs @ ys"]
      by (metis append.assoc)
    also have "\<dots> = chunks64 xs @ chunks64 ys"
      using False by (simp add: IH chunks64.simps [of xs])
    finally show ?thesis .
  qed
qed

text \<open>The part of the input that has not filled a block yet.\<close>

definition tail64 :: "byte list \<Rightarrow> byte list" where
  "tail64 xs = drop (length xs - length xs mod 64) xs"

lemma length_tail64 [simp]: "length (tail64 xs) = length xs mod 64"
  by (simp add: tail64_def)

lemma chunks_tail:
  obtains h where "xs = h @ tail64 xs" "length h mod 64 = 0" "chunks64 xs = chunks64 h"
proof -
  define h where "h = take (length xs - length xs mod 64) xs"
  have eq: "xs = h @ tail64 xs" by (simp add: h_def tail64_def)
  have len: "length h mod 64 = 0" by (simp add: h_def)
  have "chunks64 (h @ tail64 xs) = chunks64 h" using len by (simp add: chunks64_append)
  with eq len that show ?thesis by metis
qed

lemma tail64_append: "length h mod 64 = 0 \<Longrightarrow> tail64 (h @ ys) = tail64 ys"
  by (simp add: tail64_def mod_add_left_eq [symmetric] add_diff_assoc2 mod_less_eq_dividend)

section \<open>The context represents the bytes fed so far\<close>

definition md5_iv :: "u32 list" where
  "md5_iv = [0x67452301, 0xEFCDAB89, 0x98BADCFE, 0x10325476]"

definition md5_repr :: "md5_ctx \<Rightarrow> byte list \<Rightarrow> bool" where
  "md5_repr ctx xs \<longleftrightarrow>
     length (md5_buffer ctx) = 64 \<and>
     count0 ctx = of_nat (8 * length xs) \<and>
     count1 ctx = of_nat (8 * length xs div 2 ^ 32) \<and>
     md5_state ctx = foldl MD5Transform md5_iv (chunks64 xs) \<and>
     take (length xs mod 64) (md5_buffer ctx) = tail64 xs"

lemma md5_reprI:
  "length (md5_buffer ctx) = 64 \<Longrightarrow> count0 ctx = of_nat (8 * length xs) \<Longrightarrow>
   count1 ctx = of_nat (8 * length xs div 2 ^ 32) \<Longrightarrow>
   md5_state ctx = foldl MD5Transform md5_iv (chunks64 xs) \<Longrightarrow>
   take (length xs mod 64) (md5_buffer ctx) = tail64 xs \<Longrightarrow> md5_repr ctx xs"
  by (simp only: md5_repr_def)

lemma md5_repr_init: "length (md5_buffer ctx) = 64 \<Longrightarrow> md5_repr (MD5Init ctx) []"
  by (simp add: md5_repr_def MD5Init_def md5_iv_def tail64_def)

lemma md5_index:
  "unat (drop_bit 3 (of_nat (8 * n) :: u32) AND 0x3F) = n mod 64"
proof -
  have "unat (drop_bit 3 (of_nat (8 * n) :: u32)) = 8 * n mod 2 ^ 32 div 8"
    by (simp only: unat_shr unat_of_nat) simp
  also have "\<dots> = n mod 2 ^ 29"
    by (simp add: mod_mult_mult1 [of 8 n "2 ^ 29", simplified])
  finally have d: "unat (drop_bit 3 (of_nat (8 * n) :: u32)) = n mod 2 ^ 29" .
  have "(0x3F :: u32) = mask 6"
    by (simp add: mask_eq_exp_minus_1)
  then have "unat (drop_bit 3 (of_nat (8 * n) :: u32) AND 0x3F) =
      unat (take_bit 6 (drop_bit 3 (of_nat (8 * n) :: u32)))"
    by (simp only: take_bit_eq_mask)
  also have "\<dots> = n mod 2 ^ 29 mod 2 ^ 6"
    unfolding unsigned_take_bit_eq d by (rule take_bit_eq_mod)
  also have "\<dots> = n mod 64"
    by (simp add: mod_mod_cancel)
  finally show ?thesis .
qed

lemma MD5Update_counts:
  "count0 (MD5Update ctx input n) = count0 ctx + push_bit 3 (of_nat n)"
  "count1 (MD5Update ctx input n) =
     (if count0 ctx + push_bit 3 (of_nat n) < push_bit 3 (of_nat n) then count1 ctx + 1
      else count1 ctx) + drop_bit 29 (of_nat n)"
  by (simp_all add: MD5Update_def Let_def split: prod.split)

lemma md5_count_carry:
  fixes l n :: nat
  assumes "n < 2 ^ 32"
  defines "c0 \<equiv> of_nat (8 * l) + push_bit 3 (of_nat n) :: u32"
  shows "c0 = of_nat (8 * (l + n))"
    and "(if c0 < push_bit 3 (of_nat n) then of_nat (8 * l div 2 ^ 32) + 1
          else of_nat (8 * l div 2 ^ 32)) + drop_bit 29 (of_nat n)
         = (of_nat (8 * (l + n) div 2 ^ 32) :: u32)"
proof -
  have pb: "push_bit 3 (of_nat n :: u32) = of_nat (8 * n)"
    by (simp add: push_bit_eq_mult)
  show c0: "c0 = of_nat (8 * (l + n))"
    by (simp add: c0_def pb)
  let ?M = "2 ^ 32 :: nat"
  have db: "drop_bit 29 (of_nat n :: u32) = of_nat (8 * n div ?M)"
  proof (rule word_unat_eq_iff [THEN iffD2])
    have "unat (drop_bit 29 (of_nat n :: u32)) = n div 2 ^ 29"
      using assms by (simp only: unat_shr unat_of_nat) simp
    moreover have "8 * n div ?M = n div 2 ^ 29"
      by simp
    moreover have "n div 2 ^ 29 < 2 ^ 32"
      using assms by (meson div_le_dividend le_less_trans)
    ultimately show "unat (drop_bit 29 (of_nat n :: u32)) = unat (of_nat (8 * n div ?M) :: u32)"
      by (simp add: unat_of_nat)
  qed
  have less: "c0 < push_bit 3 (of_nat n) \<longleftrightarrow> (8 * l + 8 * n) mod ?M < 8 * n mod ?M"
    unfolding c0 pb word_less_nat_alt unat_of_nat by (simp add: distrib_left)
  have div: "8 * (l + n) div ?M =
      8 * l div ?M + (if (8 * l + 8 * n) mod ?M < 8 * n mod ?M then 1 else 0) + 8 * n div ?M"
    using div_add_carry [of ?M "8 * l" "8 * n"] by (simp only: distrib_left) simp
  show "(if c0 < push_bit 3 (of_nat n) then of_nat (8 * l div 2 ^ 32) + 1
          else of_nat (8 * l div 2 ^ 32)) + drop_bit 29 (of_nat n)
         = (of_nat (8 * (l + n) div 2 ^ 32) :: u32)"
    unfolding less db div by simp
qed

lemma md5_blocks_eq:
  "i \<le> n \<Longrightarrow> n \<le> length input \<Longrightarrow>
   md5_blocks st input i n =
     (foldl MD5Transform st (chunks64 (slice i (n - i) input)), n - (n - i) mod 64)"
proof (induction st input i n rule: md5_blocks.induct)
  case (1 st input i n)
  show ?case
  proof (cases "i + 64 \<le> n")
    case True
    have sl: "slice i (n - i) input = slice i 64 input @ slice (i + 64) (n - (i + 64)) input"
      using True slice_split [of 64 "n - i" i input] by simp
    have "length (slice i 64 input) = 64"
      using True "1.prems" by (simp add: length_slice)
    then have ch: "chunks64 (slice i (n - i) input) =
        slice i 64 input # chunks64 (slice (i + 64) (n - (i + 64)) input)"
      by (simp add: sl chunks64_step)
    have "n - (n - (i + 64)) mod 64 = n - (n - i) mod 64"
      using True by (metis diff_diff_left le_add_diff_inverse2 le_diff_conv2 add_leD1 le_mod_geq
          add.commute)
    with True "1.prems" "1.IH" ch show ?thesis
      by (simp add: md5_blocks.simps [of st])
  next
    case False
    with "1.prems" show ?thesis
      by (simp add: md5_blocks.simps [of st] length_slice)
  qed
qed

lemma foldl_chunks_full:
  assumes "length xs mod 64 = r" "length xs + p = length xs div 64 * 64 + 64"
    and "length fill = p"
  shows "chunks64 (xs @ fill @ rest) = chunks64 xs @ (tail64 xs @ fill) # chunks64 rest"
    and "tail64 (xs @ fill @ rest) = tail64 rest"
proof -
  obtain h where h: "xs = h @ tail64 xs" "length h mod 64 = 0" "chunks64 xs = chunks64 h"
    by (rule chunks_tail)
  have len: "length (tail64 xs @ fill) = 64"
  proof -
    have "length xs div 64 * 64 + r = length xs"
      using assms(1) by (metis div_mult_mod_eq)
    then have "r + p = 64" using assms(2) by arith
    then show ?thesis using assms by simp
  qed
  have eq: "xs @ fill @ rest = (h @ (tail64 xs @ fill)) @ rest"
    using h(1) by (metis append.assoc)
  show "chunks64 (xs @ fill @ rest) = chunks64 xs @ (tail64 xs @ fill) # chunks64 rest"
  proof -
    have "chunks64 (xs @ fill @ rest) = chunks64 h @ chunks64 ((tail64 xs @ fill) @ rest)"
      unfolding eq append.assoc [of h] using h(2) by (rule chunks64_append)
    also have "chunks64 ((tail64 xs @ fill) @ rest) = (tail64 xs @ fill) # chunks64 rest"
      using len by (rule chunks64_step)
    finally show ?thesis by (simp only: h(3))
  qed
  have "length (h @ (tail64 xs @ fill)) mod 64 = 0"
    using h(2) len by simp
  then show "tail64 (xs @ fill @ rest) = tail64 rest"
    unfolding eq by (rule tail64_append)
qed

lemma md5_repr_update:
  assumes repr: "md5_repr ctx xs" and n: "n \<le> length input" "n < 2 ^ 32"
  shows "md5_repr (MD5Update ctx input n) (xs @ take n input)"
proof -
  let ?r = "length xs mod 64" and ?p = "64 - length xs mod 64"
  let ?b = "md5_buffer ctx"
  have b: "length ?b = 64" and tl: "take ?r ?b = tail64 xs"
    and st: "md5_state ctx = foldl MD5Transform md5_iv (chunks64 xs)"
    and c0: "count0 ctx = of_nat (8 * length xs)"
    and c1: "count1 ctx = of_nat (8 * length xs div 2 ^ 32)"
    using repr by (auto simp: md5_repr_def)
  have index: "unat (drop_bit 3 (count0 ctx) AND 0x3F) = ?r"
    by (simp only: c0 md5_index)
  have cnt: "count0 (MD5Update ctx input n) = of_nat (8 * (length xs + n))"
      "count1 (MD5Update ctx input n) = of_nat (8 * (length xs + n) div 2 ^ 32)"
    unfolding MD5Update_counts c0 c1 using md5_count_carry [OF n(2), of "length xs"] by blast+
  have lxs: "length (xs @ take n input) = length xs + n"
    using n by simp
  show ?thesis
  proof (cases "?p \<le> n")
    case True
    let ?fill = "take ?p input" and ?rest = "slice ?p (n - ?p) input"
    let ?i = "n - (n - ?p) mod 64"
    have lfill: "length ?fill = ?p" using True n by simp
    have buf: "put_at ?r (slice 0 ?p input) ?b = tail64 xs @ ?fill"
      using lfill b tl by (simp add: put_at_def slice_def)
    have take: "take n input = ?fill @ ?rest"
      using True by (simp add: slice_def flip: take_add)
    have upd: "md5_state (MD5Update ctx input n) =
          foldl MD5Transform (md5_state ctx) ((tail64 xs @ ?fill) # chunks64 ?rest)"
        "md5_buffer (MD5Update ctx input n) =
          put_at 0 (slice ?i (n - ?i) input) (tail64 xs @ ?fill)"
      using True n by (simp_all add: MD5Update_def Let_def index buf md5_blocks_eq)
    have lenr: "length ?rest = n - ?p" using True n by (simp add: length_slice)
    have full: "length xs + ?p = length xs div 64 * 64 + 64"
      by (metis add.assoc add_diff_inverse_nat div_mult_mod_eq mod_less_divisor
          not_less_iff_gr_or_eq zero_less_numeral)
    have ch: "chunks64 (xs @ take n input) = chunks64 xs @ (tail64 xs @ ?fill) # chunks64 ?rest"
      and tt: "tail64 (xs @ take n input) = tail64 ?rest"
      using foldl_chunks_full [OF refl full lfill, of ?rest] by (simp_all only: take)
    have sl: "slice ?i (n - ?i) input = tail64 ?rest"
      using True n lenr by (simp add: tail64_def slice_def drop_take add.commute)
    have lt: "length (tail64 ?rest) \<le> 64" by simp
    have "length (tail64 (xs @ take n input)) = length (tail64 ?rest)"
      by (simp only: tt)
    then have "(length xs + n) mod 64 = length (tail64 ?rest)"
      using n by (simp add: min.absorb2)
    moreover have "md5_buffer (MD5Update ctx input n) = put_at 0 (tail64 ?rest) (tail64 xs @ ?fill)"
      by (simp only: upd sl)
    moreover have "length (tail64 xs @ ?fill) = 64" using lfill by simp
    moreover have "md5_state (MD5Update ctx input n) =
        foldl MD5Transform md5_iv (chunks64 (xs @ take n input))"
      by (simp only: upd st ch foldl_append foldl_Cons)
    moreover have "length (put_at 0 (tail64 ?rest) (tail64 xs @ ?fill)) = 64"
      using lt \<open>length (tail64 xs @ ?fill) = 64\<close> by (subst length_put_at) simp_all
    moreover have "take ((length xs + n) mod 64) (put_at 0 (tail64 ?rest) (tail64 xs @ ?fill)) =
        tail64 ?rest"
      unfolding \<open>(length xs + n) mod 64 = length (tail64 ?rest)\<close> by (simp add: put_at_def)
    ultimately show ?thesis
      using cnt by (intro md5_reprI) (simp_all only: lxs tt)
  next
    case False
    then have small: "?r + n < 64" by simp
    have upd: "md5_state (MD5Update ctx input n) = md5_state ctx"
        "md5_buffer (MD5Update ctx input n) = put_at ?r (take n input) ?b"
      using False by (simp_all add: MD5Update_def Let_def index slice_def)
    obtain h where h: "xs = h @ tail64 xs" "length h mod 64 = 0" "chunks64 xs = chunks64 h"
      by (rule chunks_tail)
    have eq: "xs @ take n input = h @ (tail64 xs @ take n input)"
      using h(1) by (metis append.assoc)
    have len: "length (tail64 xs @ take n input) < 64" using small n by simp
    have ch: "chunks64 (xs @ take n input) = chunks64 xs"
      using len h by (simp add: eq chunks64_append)
    have tt: "tail64 (xs @ take n input) = tail64 xs @ take n input"
      using len h(2) by (simp add: eq tail64_append) (simp add: tail64_def)
    have md: "(length xs + n) mod 64 = ?r + n"
      using small by (metis mod_add_left_eq mod_less)
    have "md5_state (MD5Update ctx input n) =
        foldl MD5Transform md5_iv (chunks64 (xs @ take n input))"
      by (simp only: upd st ch)
    moreover have "length (put_at ?r (take n input) ?b) = 64"
      using b small n by (simp add: length_put_at)
    moreover have "take (?r + n) (put_at ?r (take n input) ?b) = tail64 xs @ take n input"
      using b small n tl by (simp add: put_at_def)
    ultimately show ?thesis
      using cnt by (intro md5_reprI) (simp_all only: lxs tt upd md)
  qed
qed

section \<open>The digest of a byte sequence\<close>

definition md5_padding :: "nat \<Rightarrow> byte list" where
  "md5_padding n = 0x80 # replicate ((119 - n mod 64) mod 64) 0
     @ MD5Encode [of_nat (8 * n), of_nat (8 * n div 2 ^ 32)] 8"

definition md5_digest :: "byte list \<Rightarrow> byte list" where
  "md5_digest xs =
     MD5Encode (foldl MD5Transform md5_iv (chunks64 (xs @ md5_padding (length xs)))) 16"

lemma length_PADDING: "length PADDING = 64"
  by (simp add: PADDING_def)

lemma take_PADDING:
  assumes "index < 64"
  defines "padlen \<equiv> if index < 56 then 56 - index else 120 - index"
  shows "take padlen PADDING = 0x80 # replicate ((119 - index) mod 64) 0" and "padlen \<le> 64"
proof -
  show le: "padlen \<le> 64" using assms by auto
  have "0 < padlen" using assms by auto
  then have "take padlen PADDING = 0x80 # replicate (padlen - 1) 0"
    using le by (cases padlen) (simp_all add: PADDING_def)
  moreover have "padlen - 1 = (119 - index) mod 64"
    using assms by (auto simp: le_mod_geq)
  ultimately show "take padlen PADDING = 0x80 # replicate ((119 - index) mod 64) 0" by simp
qed

lemma length_MD5Encode_2 [simp]: "length (MD5Encode [a, b] 8) = 8"
  by simp

lemma md5_repr_final:
  assumes "md5_repr ctx xs"
  shows "snd (MD5Final ctx) = md5_digest xs"
proof -
  let ?index = "length xs mod 64"
  let ?padlen = "if ?index < 56 then 56 - ?index else 120 - ?index"
  let ?bits = "MD5Encode [count0 ctx, count1 ctx] 8"
  have c: "count0 ctx = of_nat (8 * length xs)" "count1 ctx = of_nat (8 * length xs div 2 ^ 32)"
    using assms by (auto simp only: md5_repr_def)
  have index: "unat (drop_bit 3 (count0 ctx) AND 0x3F) = ?index"
    by (simp only: c md5_index)
  have lt: "?index < 64" by simp
  have padlen: "?padlen \<le> length PADDING" "?padlen < 2 ^ 32"
    using take_PADDING(2) [OF lt] by (simp_all only: length_PADDING) simp
  let ?c1 = "MD5Update ctx PADDING ?padlen"
  have "md5_repr ?c1 (xs @ take ?padlen PADDING)"
    by (rule md5_repr_update [OF assms padlen])
  moreover have "(8 :: nat) \<le> length ?bits" "(8 :: nat) < 2 ^ 32"
    by (simp_all only: length_MD5Encode_2) simp_all
  ultimately have "md5_repr (MD5Update ?c1 ?bits 8) ((xs @ take ?padlen PADDING) @ take 8 ?bits)"
    by (rule md5_repr_update)
  then have "md5_state (MD5Update ?c1 ?bits 8) =
      foldl MD5Transform md5_iv (chunks64 ((xs @ take ?padlen PADDING) @ take 8 ?bits))"
    by (simp only: md5_repr_def)
  also have "(xs @ take ?padlen PADDING) @ take 8 ?bits = xs @ md5_padding (length xs)"
    unfolding take_PADDING(1) [OF lt] md5_padding_def c by simp
  finally show ?thesis
    unfolding MD5Final_def md5_digest_def Let_def index by simp
qed

text \<open>Any way of cutting the input into updates computes the same digest.\<close>

definition md5_feed :: "md5_ctx \<Rightarrow> byte list list \<Rightarrow> md5_ctx" where
  "md5_feed ctx parts = foldl (\<lambda>ctx part. MD5Update ctx part (length part)) ctx parts"

lemma md5_repr_feed:
  "md5_repr ctx xs \<Longrightarrow> \<forall>p \<in> set parts. length p < 2 ^ 32 \<Longrightarrow>
   md5_repr (md5_feed ctx parts) (xs @ concat parts)"
proof (induction parts arbitrary: ctx xs)
  case Nil
  then show ?case by (simp add: md5_feed_def)
next
  case (Cons p parts)
  have "md5_repr (MD5Update ctx p (length p)) (xs @ take (length p) p)"
    using Cons.prems by (intro md5_repr_update) auto
  with Cons.IH [of _ "xs @ p"] Cons.prems(2) show ?case
    by (simp add: md5_feed_def)
qed

lemma length_MD5Encode_4: "length ws = 4 \<Longrightarrow> length (MD5Encode ws 16) = 16"
proof -
  assume "length ws = 4"
  then obtain a b c d where "ws = [a, b, c, d]"
    by (auto simp: length_Suc_conv eval_nat_numeral)
  then show ?thesis by simp
qed

lemma length_MD5Transform [simp]: "length (MD5Transform st b) = 4"
  by (simp add: MD5Transform_def Let_def split: prod.split)

lemma length_md5_blocks:
  "length st = 4 \<Longrightarrow> length (fst (md5_blocks st input i n)) = 4"
proof (induction st input i n rule: md5_blocks.induct)
  case (1 st input i n)
  then show ?case by (simp add: md5_blocks.simps [of st])
qed

lemma length_state_update:
  "length (md5_state ctx) = 4 \<Longrightarrow> length (md5_state (MD5Update ctx input n)) = 4"
  using length_md5_blocks by (auto simp: MD5Update_def Let_def split: prod.split)
    (metis fst_conv length_MD5Transform)

lemma length_state_init: "length (md5_state (MD5Init ctx)) = 4"
  by (simp add: MD5Init_def)

lemma length_md5_final: "length (md5_state ctx) = 4 \<Longrightarrow> length (snd (MD5Final ctx)) = 16"
  by (simp add: MD5Final_def Let_def length_MD5Encode_4 length_state_update)

lemma length_md5_digest [simp]: "length (md5_digest xs) = 16"
proof -
  have "length (foldl MD5Transform md5_iv bs) = 4" for bs
    by (induction bs rule: rev_induct) (simp_all add: md5_iv_def)
  then show ?thesis
    unfolding md5_digest_def by (rule length_MD5Encode_4)
qed

section \<open>Properties\<close>

text \<open>
  C23. The 64 macro calls of \<^verbatim>\<open>MD5Transform\<close> compute the four-round loop of RFC 1321: step
  \<open>i\<close> takes the word \<open>md5_g i\<close>, rotates by \<open>md5_s i\<close> and rotates the four variables, for
  every state and block.
\<close>

theorem MD5Transform_is_rfc1321_loop:
  "MD5Transform st block = md5_transform_loop st block"
  by (rule MD5Transform_unrolled)

text \<open>
  C22. Feeding a byte sequence to \<^verbatim>\<open>MD5Update\<close> in any number of parts and then calling
  \<^verbatim>\<open>MD5Final\<close> gives the digest of the whole sequence: padded with 0x80, zeros and the
  64-bit bit length, cut in blocks and compressed from the initial state. A part is short
  enough for the index \<^verbatim>\<open>i + 64\<close> of the block loop not to wrap around.
\<close>

theorem md5_streaming:
  assumes "length (md5_buffer ctx) = 64"
    and "\<forall>p \<in> set parts. length p + 64 \<le> 2 ^ 32"
  shows "snd (MD5Final (md5_feed (MD5Init ctx) parts)) = md5_digest (concat parts)"
proof -
  have "md5_repr (md5_feed (MD5Init ctx) parts) ([] @ concat parts)"
    using assms(2) by (intro md5_repr_feed md5_repr_init assms(1)) auto
  then show ?thesis by (simp add: md5_repr_final)
qed

definition md5_ctx0 :: md5_ctx where
  "md5_ctx0 = \<lparr>count0 = 0, count1 = 0, md5_state = [0, 0, 0, 0], md5_buffer = replicate 64 0\<rparr>"

lemma md5_final_abc:
  "snd (MD5Final (md5_feed (MD5Init md5_ctx0) [[97], [98, 99]])) =
     [0x90, 0x01, 0x50, 0x98, 0x3c, 0xd2, 0x4f, 0xb0, 0xd6, 0x96, 0x3f, 0x7d, 0x28, 0xe1,
      0x7f, 0x72]"
  by code_simp

theorem md5_streaming_witness:
  "md5_digest [97, 98, 99] =
     [0x90, 0x01, 0x50, 0x98, 0x3c, 0xd2, 0x4f, 0xb0, 0xd6, 0x96, 0x3f, 0x7d, 0x28, 0xe1,
      0x7f, 0x72]"
  using md5_streaming [of md5_ctx0 "[[97], [98, 99]]"] md5_final_abc
  by (simp add: md5_ctx0_def)

end
