(* ===== verification/Msg.thy ===== *)
theory Msg
  imports Prelude
begin

text \<open>
  The packets of \<^verbatim>\<open>include/msg.h\<close>: the packed C structs as records, the bytes that such a struct
  occupies in memory (\<open>enc_*\<close>), the cast of a buffer to a struct (\<open>dec_*\<close>), and
  \<^verbatim>\<open>fill_msg_header\<close>. The code sends and receives the memory of the structs as it is, so these two
  functions stand for the compiler: fields in the order of the declaration, without padding because of
  \<^verbatim>\<open>__attribute__((packed))\<close>, integers low byte first. A struct that starts with \<^verbatim>\<open>struct msg_head_t header\<close> extends the
  record of the header.
\<close>

section \<open>Constants\<close>

definition UUID_LEN :: nat where "UUID_LEN = 50"
definition CHAP_LEN :: nat where "CHAP_LEN = 16"
definition ETH_ALEN :: nat where "ETH_ALEN = 6"

definition MSG_AC_BRD :: u32 where "MSG_AC_BRD = 1000"
definition MSG_AC_CMD :: u32 where "MSG_AC_CMD = 1001"
definition MSG_AC_REG_RESP :: u32 where "MSG_AC_REG_RESP = 1002"
definition MSG_AP_REG :: u32 where "MSG_AP_REG = 1003"
definition MAS_AP_ERR :: u32 where "MAS_AP_ERR = 1004"
definition MSG_AP_RESP :: u32 where "MSG_AP_RESP = 1005"
definition MSG_AP_STATUS :: u32 where "MSG_AP_STATUS = 1006"

lemmas msg_types = MSG_AC_BRD_def MSG_AC_CMD_def MSG_AC_REG_RESP_def MSG_AP_REG_def
  MAS_AP_ERR_def MSG_AP_RESP_def MSG_AP_STATUS_def

lemmas msg_lens = UUID_LEN_def CHAP_LEN_def ETH_ALEN_def

section \<open>Structs\<close>

text \<open>\<^verbatim>\<open>struct sockaddr_in\<close>: port and address stay in network byte order, as in memory.\<close>

record sockaddr_in =
  sin_family :: u16
  sin_port :: u16
  s_addr :: u32
  sin_zero :: "byte list"

record msg_head_t =
  random :: u32
  chap :: "byte list"
  acuuid :: "byte list"
  mac :: "byte list"
  msg_type :: u32

record msg_ac_brd_t = msg_head_t +
  takeover :: "byte list"

record msg_ac_cmd_t = msg_head_t +
  cmd :: "byte list"

record msg_ac_reg_resp_t = msg_head_t +
  acaddr :: sockaddr_in
  apaddr :: sockaddr_in

record msg_ap_reg_t = msg_head_t +
  ipv4 :: sockaddr_in

record msg_ap_status_t = msg_head_t +
  status :: "byte list"

definition zero_sockaddr :: sockaddr_in where
  "zero_sockaddr = \<lparr>sin_family = 0, sin_port = 0, s_addr = 0, sin_zero = replicate 8 0\<rparr>"

text \<open>Sizes of the packed structs.\<close>

definition sizeof_head :: nat where "sizeof_head = 80"
definition sizeof_ac_brd :: nat where "sizeof_ac_brd = 130"
definition sizeof_ac_reg_resp :: nat where "sizeof_ac_reg_resp = 112"
definition sizeof_ap_reg :: nat where "sizeof_ap_reg = 96"

lemmas msg_sizes = sizeof_head_def sizeof_ac_brd_def sizeof_ac_reg_resp_def sizeof_ap_reg_def

section \<open>Layout\<close>

definition enc_sockaddr :: "sockaddr_in \<Rightarrow> byte list" where
  "enc_sockaddr a = le16 (sin_family a) @ le16 (sin_port a) @ le32 (s_addr a) @ sin_zero a"

definition dec_sockaddr :: "byte list \<Rightarrow> sockaddr_in" where
  "dec_sockaddr bs = \<lparr>sin_family = of_le16 (slice 0 2 bs), sin_port = of_le16 (slice 2 2 bs),
     s_addr = of_le32 (slice 4 4 bs), sin_zero = slice 8 8 bs\<rparr>"

definition wf_sockaddr :: "sockaddr_in \<Rightarrow> bool" where
  "wf_sockaddr a \<longleftrightarrow> length (sin_zero a) = 8"

definition enc_head :: "'a msg_head_t_scheme \<Rightarrow> byte list" where
  "enc_head m = le32 (random m) @ chap m @ acuuid m @ mac m @ le32 (msg_type m)"

definition dec_head :: "byte list \<Rightarrow> msg_head_t" where
  "dec_head bs = \<lparr>random = of_le32 (slice 0 4 bs), chap = slice 4 CHAP_LEN bs,
     acuuid = slice 20 UUID_LEN bs, mac = slice 70 ETH_ALEN bs,
     msg_type = of_le32 (slice 76 4 bs)\<rparr>"

definition wf_head :: "'a msg_head_t_scheme \<Rightarrow> bool" where
  "wf_head m \<longleftrightarrow> length (chap m) = CHAP_LEN \<and> length (acuuid m) = UUID_LEN \<and>
     length (mac m) = ETH_ALEN"

definition enc_ac_brd :: "msg_ac_brd_t \<Rightarrow> byte list" where
  "enc_ac_brd m = enc_head m @ takeover m"

definition dec_ac_brd :: "byte list \<Rightarrow> msg_ac_brd_t" where
  "dec_ac_brd bs = msg_head_t.extend (dec_head bs)
     (msg_ac_brd_t.fields (slice 80 UUID_LEN bs))"

definition enc_ac_reg_resp :: "msg_ac_reg_resp_t \<Rightarrow> byte list" where
  "enc_ac_reg_resp m = enc_head m @ enc_sockaddr (acaddr m) @ enc_sockaddr (apaddr m)"

definition dec_ac_reg_resp :: "byte list \<Rightarrow> msg_ac_reg_resp_t" where
  "dec_ac_reg_resp bs = msg_head_t.extend (dec_head bs)
     (msg_ac_reg_resp_t.fields (dec_sockaddr (slice 80 16 bs)) (dec_sockaddr (slice 96 16 bs)))"

definition enc_ap_reg :: "msg_ap_reg_t \<Rightarrow> byte list" where
  "enc_ap_reg m = enc_head m @ enc_sockaddr (ipv4 m)"

definition dec_ap_reg :: "byte list \<Rightarrow> msg_ap_reg_t" where
  "dec_ap_reg bs = msg_head_t.extend (dec_head bs)
     (msg_ap_reg_t.fields (dec_sockaddr (slice 80 16 bs)))"

definition enc_ac_cmd :: "msg_ac_cmd_t \<Rightarrow> byte list" where
  "enc_ac_cmd m = enc_head m @ cmd m"

definition enc_ap_status :: "msg_ap_status_t \<Rightarrow> byte list" where
  "enc_ap_status m = enc_head m @ status m"

section \<open>fill\_msg\_header\<close>

text \<open>
  The header of a packet to send; \<open>uuid\<close> is \<open>None\<close> for a null pointer, \<open>my_mac\<close> is
  \<^verbatim>\<open>argument.mac\<close>. The field \<open>chap\<close> keeps what the memory held.
\<close>

definition fill_msg_header ::
  "byte list \<Rightarrow> 'a msg_head_t_scheme \<Rightarrow> u32 \<Rightarrow> byte list option \<Rightarrow> u32 \<Rightarrow> 'a msg_head_t_scheme"
where
  "fill_msg_header my_mac msg msgtype uuid rnd =
     (let msg = msg\<lparr>random := rnd\<rparr>;
          msg = (case uuid of None \<Rightarrow> msg | Some u \<Rightarrow> msg\<lparr>acuuid := take UUID_LEN u\<rparr>);
          msg = msg\<lparr>mac := take ETH_ALEN my_mac\<rparr>
      in msg\<lparr>msg_type := msgtype\<rparr>)"

section \<open>Layout lemmas\<close>

lemma length_enc_sockaddr [simp]: "wf_sockaddr a \<Longrightarrow> length (enc_sockaddr a) = 16"
  by (simp add: enc_sockaddr_def wf_sockaddr_def)

lemma length_enc_head [simp]: "wf_head m \<Longrightarrow> length (enc_head m) = 80"
  by (simp add: enc_head_def wf_head_def msg_lens)

lemma dec_enc_sockaddr [simp]: "wf_sockaddr a \<Longrightarrow> dec_sockaddr (enc_sockaddr a @ rest) = a"
  by (simp add: dec_sockaddr_def enc_sockaddr_def wf_sockaddr_def slice_def)

lemma dec_enc_sockaddr_nil [simp]: "wf_sockaddr a \<Longrightarrow> dec_sockaddr (enc_sockaddr a) = a"
  using dec_enc_sockaddr [of a "[]"] by simp

lemma dec_enc_head [simp]:
  "wf_head m \<Longrightarrow> dec_head (enc_head m @ rest) = msg_head_t.truncate m"
  by (simp add: dec_head_def enc_head_def wf_head_def slice_def msg_lens msg_head_t.defs)

lemma slice_after_head:
  "wf_head m \<Longrightarrow> slice (80 + i) n (enc_head m @ rest) = slice i n rest"
  by (intro slice_append_skip length_enc_head)

lemma slice_at_head: "wf_head m \<Longrightarrow> slice 80 n (enc_head m @ rest) = slice 0 n rest"
  using slice_after_head [of m 0] by simp

lemma dec_enc_ac_brd:
  "wf_head m \<Longrightarrow> length (takeover m) = UUID_LEN \<Longrightarrow> dec_ac_brd (enc_ac_brd m @ rest) = m"
  by (simp add: dec_ac_brd_def enc_ac_brd_def slice_at_head slice_append_here)
    (simp add: msg_head_t.defs msg_ac_brd_t.defs)

lemma dec_enc_ap_reg:
  "wf_head m \<Longrightarrow> wf_sockaddr (ipv4 m) \<Longrightarrow> dec_ap_reg (enc_ap_reg m @ rest) = m"
  by (simp add: dec_ap_reg_def enc_ap_reg_def slice_at_head slice_append_here)
    (simp add: msg_head_t.defs msg_ap_reg_t.defs)

lemma dec_enc_ac_reg_resp:
  "wf_head m \<Longrightarrow> wf_sockaddr (acaddr m) \<Longrightarrow> wf_sockaddr (apaddr m) \<Longrightarrow>
   dec_ac_reg_resp (enc_ac_reg_resp m @ rest) = m"
  using slice_after_head [of m 16 16] slice_append_skip [of "enc_sockaddr (acaddr m)" 16 0]
  by (simp add: dec_ac_reg_resp_def enc_ac_reg_resp_def slice_at_head slice_append_here)
    (simp add: msg_head_t.defs msg_ac_reg_resp_t.defs)

lemma dec_ac_brd_sel [simp]: "mac (dec_ac_brd bs) = mac (dec_head bs)"
  "acuuid (dec_ac_brd bs) = acuuid (dec_head bs)" "random (dec_ac_brd bs) = random (dec_head bs)"
  "takeover (dec_ac_brd bs) = slice 80 UUID_LEN bs"
  by (simp_all add: dec_ac_brd_def msg_head_t.defs msg_ac_brd_t.defs)

lemma dec_ac_reg_resp_sel [simp]: "mac (dec_ac_reg_resp bs) = mac (dec_head bs)"
  "acuuid (dec_ac_reg_resp bs) = acuuid (dec_head bs)" "random (dec_ac_reg_resp bs) = random (dec_head bs)"
  by (simp_all add: dec_ac_reg_resp_def msg_head_t.defs msg_ac_reg_resp_t.defs)

lemma dec_ap_reg_sel [simp]: "mac (dec_ap_reg bs) = mac (dec_head bs)"
  "acuuid (dec_ap_reg bs) = acuuid (dec_head bs)" "random (dec_ap_reg bs) = random (dec_head bs)"
  "chap (dec_ap_reg bs) = chap (dec_head bs)" "msg_type (dec_ap_reg bs) = msg_type (dec_head bs)"
  by (simp_all add: dec_ap_reg_def msg_head_t.defs msg_ap_reg_t.defs)

lemma dec_head_lengths:
  assumes "80 \<le> length bs"
  shows "length (chap (dec_head bs)) = CHAP_LEN" "length (acuuid (dec_head bs)) = UUID_LEN"
    "length (mac (dec_head bs)) = ETH_ALEN"
  using assms by (simp_all add: dec_head_def length_slice msg_lens)

lemma mac_dec_head_length: "76 \<le> length bs \<Longrightarrow> length (mac (dec_head bs)) = ETH_ALEN"
  by (simp add: dec_head_def length_slice ETH_ALEN_def)

text \<open>The digest field within the bytes of a packet.\<close>

lemma slice_chap_enc [simp]: "wf_head m \<Longrightarrow> slice 4 CHAP_LEN (enc_head m @ rest) = chap m"
  by (simp add: enc_head_def wf_head_def slice_def msg_lens)

lemma put_chap_enc [simp]:
  "wf_head m \<Longrightarrow> length c = CHAP_LEN \<Longrightarrow>
   put_at 4 c (enc_head m @ rest) = enc_head (m\<lparr>chap := c\<rparr>) @ rest"
  by (simp add: enc_head_def wf_head_def put_at_def msg_lens)

lemma wf_head_fill [simp]:
  "length (chap m) = CHAP_LEN \<Longrightarrow> length (acuuid m) = UUID_LEN \<Longrightarrow> ETH_ALEN \<le> length my \<Longrightarrow>
   (\<forall>u. uuid = Some u \<longrightarrow> UUID_LEN \<le> length u) \<Longrightarrow>
   wf_head (fill_msg_header my m ty uuid r)"
  by (simp add: wf_head_def fill_msg_header_def Let_def split: option.split)

lemma fill_msg_header_sel [simp]:
  "random (fill_msg_header my m ty uuid r) = r"
  "msg_type (fill_msg_header my m ty uuid r) = ty"
  "mac (fill_msg_header my m ty uuid r) = take ETH_ALEN my"
  "chap (fill_msg_header my m ty uuid r) = chap m"
  "acuuid (fill_msg_header my m ty (Some u) r) = take UUID_LEN u"
  "acuuid (fill_msg_header my m ty None r) = acuuid m"
  by (simp_all add: fill_msg_header_def Let_def split: option.split)

section \<open>Properties\<close>

text \<open>Where the fields of a header and of a socket address lie in the bytes.\<close>

definition head_bytes :: "byte list \<Rightarrow> 'a msg_head_t_scheme \<Rightarrow> bool" where
  "head_bytes bs m \<longleftrightarrow> slice 0 4 bs = le32 (random m) \<and> slice 4 16 bs = chap m \<and>
     slice 20 50 bs = acuuid m \<and> slice 70 6 bs = mac m \<and> slice 76 4 bs = le32 (msg_type m)"

definition sockaddr_bytes :: "nat \<Rightarrow> byte list \<Rightarrow> sockaddr_in \<Rightarrow> bool" where
  "sockaddr_bytes off bs a \<longleftrightarrow> slice off 2 bs = le16 (sin_family a) \<and> slice (off + 2) 2 bs = le16 (sin_port a) \<and>
     slice (off + 4) 4 bs = le32 (s_addr a) \<and> slice (off + 8) 8 bs = sin_zero a"

lemma head_bytes_enc: "wf_head m \<Longrightarrow> head_bytes (enc_head m @ rest) m"
  by (simp add: head_bytes_def enc_head_def wf_head_def slice_def msg_lens)

lemma sockaddr_bytes_enc:
  "wf_sockaddr a \<Longrightarrow> length xs = off \<Longrightarrow> sockaddr_bytes off (xs @ enc_sockaddr a @ rest) a"
  by (auto simp: sockaddr_bytes_def enc_sockaddr_def wf_sockaddr_def slice_def)

text \<open>
  C38. The wire layout of the packets: the bytes of each struct are those that the packed declarations of
  \<^verbatim>\<open>msg.h\<close> fix. \<^verbatim>\<open>random\<close> lies at 0, \<^verbatim>\<open>chap\<close> at 4, \<^verbatim>\<open>acuuid\<close> at 20, \<^verbatim>\<open>mac\<close> at 70 and \<^verbatim>\<open>msg_type\<close> at 76 of every
  packet; behind the 80 bytes of the header follow \<^verbatim>\<open>takeover\<close>, \<^verbatim>\<open>ipv4\<close>, or \<^verbatim>\<open>acaddr\<close> at 80 and \<^verbatim>\<open>apaddr\<close> at
  96, a socket address with family, port and address at 0, 2 and 4. The sizes are 130, 96 and 112. The cast of
  a received buffer reads the same struct back, whatever follows in the buffer.
\<close>

theorem packet_layout_roundtrip:
  assumes "wf_head b" "length (takeover b) = UUID_LEN"
    and "wf_head q" "wf_sockaddr (ipv4 q)"
    and "wf_head p" "wf_sockaddr (acaddr p)" "wf_sockaddr (apaddr p)"
  shows "(let bs = enc_ac_brd b @ rest in length (enc_ac_brd b) = 130 \<and> head_bytes bs b \<and>
       slice 80 50 bs = takeover b \<and> dec_ac_brd bs = b) \<and>
     (let bs = enc_ap_reg q @ rest in length (enc_ap_reg q) = 96 \<and> head_bytes bs q \<and>
       sockaddr_bytes 80 bs (ipv4 q) \<and> dec_ap_reg bs = q) \<and>
     (let bs = enc_ac_reg_resp p @ rest in length (enc_ac_reg_resp p) = 112 \<and> head_bytes bs p \<and>
       sockaddr_bytes 80 bs (acaddr p) \<and> sockaddr_bytes 96 bs (apaddr p) \<and> dec_ac_reg_resp bs = p)"
proof -
  have "slice 80 50 (enc_ac_brd b @ rest) = takeover b"
    using assms(1,2) by (simp add: enc_ac_brd_def slice_at_head slice_append_here msg_lens)
  moreover have "sockaddr_bytes 96 (enc_ac_reg_resp p @ rest) (apaddr p)"
    using sockaddr_bytes_enc [OF assms(7), of "enc_head p @ enc_sockaddr (acaddr p)" 96 rest] assms(5,6)
    by (simp add: enc_ac_reg_resp_def)
  ultimately show ?thesis
    using assms dec_enc_ac_brd dec_enc_ap_reg dec_enc_ac_reg_resp
    by (simp add: Let_def enc_ac_brd_def enc_ap_reg_def enc_ac_reg_resp_def head_bytes_enc sockaddr_bytes_enc msg_lens)
qed

definition ex_brd :: msg_ac_brd_t where
  "ex_brd = \<lparr>random = 7, chap = replicate 16 1, acuuid = replicate 50 65,
     mac = [1, 2, 3, 4, 5, 6], msg_type = MSG_AC_BRD, takeover = replicate 50 0\<rparr>"

definition ex_reg :: msg_ap_reg_t where
  "ex_reg = \<lparr>random = 7, chap = replicate 16 1, acuuid = replicate 50 65,
     mac = [1, 2, 3, 4, 5, 6], msg_type = MSG_AP_REG, ipv4 = zero_sockaddr\<lparr>s_addr := 0x0100A8C0\<rparr>\<rparr>"

definition ex_resp :: msg_ac_reg_resp_t where
  "ex_resp = \<lparr>random = 7, chap = replicate 16 1, acuuid = replicate 50 65,
     mac = [1, 2, 3, 4, 5, 6], msg_type = MSG_AC_REG_RESP, acaddr = zero_sockaddr,
     apaddr = zero_sockaddr\<lparr>s_addr := 0x0200A8C0\<rparr>\<rparr>"

lemmas ex_packets = ex_brd_def ex_reg_def ex_resp_def

theorem packet_layout_roundtrip_witness:
  "dec_ac_brd (enc_ac_brd ex_brd @ [9]) = ex_brd \<and> dec_ap_reg (enc_ap_reg ex_reg @ [9]) = ex_reg \<and>
   slice 76 4 (enc_ap_reg ex_reg) = [0xEB, 3, 0, 0] \<and> slice 84 4 (enc_ap_reg ex_reg) = [192, 168, 0, 1] \<and>
   slice 100 4 (enc_ac_reg_resp ex_resp) = [192, 168, 0, 2]"
proof -
  note l = packet_layout_roundtrip [of ex_brd ex_reg ex_resp, unfolded Let_def head_bytes_def sockaddr_bytes_def]
  have w: "wf_head ex_brd" "length (takeover ex_brd) = UUID_LEN" "wf_head ex_reg" "wf_sockaddr (ipv4 ex_reg)"
    "wf_head ex_resp" "wf_sockaddr (acaddr ex_resp)" "wf_sockaddr (apaddr ex_resp)"
    by (simp_all add: ex_packets wf_head_def wf_sockaddr_def zero_sockaddr_def msg_lens)
  have "slice 76 4 (enc_ap_reg ex_reg) = le32 (msg_type ex_reg)" "slice 84 4 (enc_ap_reg ex_reg) = le32 (s_addr (ipv4 ex_reg))"
    "slice 100 4 (enc_ac_reg_resp ex_resp) = le32 (s_addr (apaddr ex_resp))"
    using l [OF w, of "[]"] by simp_all
  then show ?thesis
    using l [OF w, of "[9]"] by (simp add: ex_reg_def ex_resp_def zero_sockaddr_def msg_types le32_def)
qed

end
