(* ===== verification/Chap.thy ===== *)
theory Chap
  imports Md5 Msg
begin

text \<open>
  The packet authentication of \<^verbatim>\<open>lib/chap.c\<close>: the digest over packet, challenge and
  password, its comparison and its insertion in a packet. \<open>passwd\<close> is the build parameter
  \<^verbatim>\<open>PASSWD\<close>. The laws of the digest are the locale \<open>packet_digest\<close>; its client lemmas
  reduce forged and replayed packets to hash collisions.
\<close>

section \<open>The operations\<close>

text \<open>
  The context lives on the stack: \<^verbatim>\<open>MD5Init\<close> leaves its buffer as it is, here the one of
  \<open>md5_ctx0\<close>; \<open>chap_independent\<close> shows that its content is irrelevant. \<open>data\<close> is the memory
  at the pointer, of which \<open>len\<close> bytes are hashed.
\<close>

definition chap_get_md5 :: "byte list \<Rightarrow> byte list \<Rightarrow> nat \<Rightarrow> u32 \<Rightarrow> byte list" where
  "chap_get_md5 passwd data len rnd =
     (let md5 = MD5Init md5_ctx0;
          md5 = MD5Update md5 data len;
          md5 = MD5Update md5 (le32 rnd) 4;
          md5 = MD5Update md5 passwd (length passwd)
      in snd (MD5Final md5))"

text \<open>\<^verbatim>\<open>memcmp\<close>: zero for equal bytes, otherwise the sign of the first difference.\<close>

fun memcmp :: "nat \<Rightarrow> byte list \<Rightarrow> byte list \<Rightarrow> int" where
  "memcmp (Suc n) (x # xs) (y # ys) =
     (if x = y then memcmp n xs ys else if x < y then -1 else 1)"
| "memcmp n xs ys = 0"

text \<open>\<open>malloc_ok\<close> is false when \<^verbatim>\<open>malloc(CHAP_LEN)\<close> returns null.\<close>

definition chap_cmp_md5 ::
  "byte list \<Rightarrow> bool \<Rightarrow> byte list \<Rightarrow> nat \<Rightarrow> u32 \<Rightarrow> byte list \<Rightarrow> int" where
  "chap_cmp_md5 passwd malloc_ok data len rnd oldmd5 =
     (if \<not> malloc_ok then -1
      else memcmp CHAP_LEN (chap_get_md5 passwd data len rnd) oldmd5)"

text \<open>The packet is an in-out argument: its digest field is zeroed for the comparison.\<close>

definition chap_msg_cmp_md5 ::
  "byte list \<Rightarrow> bool \<Rightarrow> byte list \<Rightarrow> nat \<Rightarrow> u32 \<Rightarrow> byte list \<times> int" where
  "chap_msg_cmp_md5 passwd malloc_ok msg len rnd =
     (let oldmd5 = slice 4 CHAP_LEN msg;
          msg = put_at 4 (replicate CHAP_LEN 0) msg
      in (msg, chap_cmp_md5 passwd malloc_ok msg len rnd oldmd5))"

definition chap_fill_msg_md5 :: "byte list \<Rightarrow> byte list \<Rightarrow> nat \<Rightarrow> u32 \<Rightarrow> byte list" where
  "chap_fill_msg_md5 passwd msg len rnd =
     (let msg = put_at 4 (replicate CHAP_LEN 0) msg
      in put_at 4 (chap_get_md5 passwd msg len rnd) msg)"

text \<open>
  \<^verbatim>\<open>chap_get_random\<close> reads four bytes of \<^verbatim>\<open>/dev/random\<close> over a variable that is not initialised: the bytes
  that the device gives (none when \<^verbatim>\<open>open\<close> or \<^verbatim>\<open>read\<close> fails) and what the variable holds are an input.
\<close>

type_synonym dev_read = "byte list \<times> u32"

definition chap_get_random :: "dev_read \<Rightarrow> u32" where
  "chap_get_random dev = of_le32 (put_at 0 (take 4 (fst dev)) (le32 (snd dev)))"

section \<open>The digest is the hash of packet, challenge and password\<close>

lemma memcmp_0_iff:
  "length xs = n \<Longrightarrow> length ys = n \<Longrightarrow> memcmp n xs ys = 0 \<longleftrightarrow> xs = ys"
  by (induction n xs ys rule: memcmp.induct) auto

lemma chap_independent:
  assumes "length (md5_buffer ctx) = 64"
    and "len \<le> length data" "len + 64 \<le> 2 ^ 32" "length passwd + 64 \<le> 2 ^ 32"
  shows "snd (MD5Final (MD5Update (MD5Update (MD5Update (MD5Init ctx) data len) (le32 rnd) 4)
           passwd (length passwd))) = md5_digest (take len data @ le32 rnd @ passwd)"
proof -
  have "md5_repr (MD5Update (MD5Init ctx) data len) ([] @ take len data)"
    using assms by (intro md5_repr_update md5_repr_init) auto
  then have "md5_repr (MD5Update (MD5Update (MD5Init ctx) data len) (le32 rnd) 4)
      (([] @ take len data) @ take 4 (le32 rnd))"
    by (rule md5_repr_update) simp_all
  from this have "md5_repr (MD5Update (MD5Update (MD5Update (MD5Init ctx) data len) (le32 rnd) 4)
      passwd (length passwd)) ((([] @ take len data) @ take 4 (le32 rnd)) @ take (length passwd) passwd)"
    by (rule md5_repr_update) (use assms in auto)
  then show ?thesis by (simp add: md5_repr_final)
qed

lemma chap_get_md5_digest:
  "len \<le> length data \<Longrightarrow> len + 64 \<le> 2 ^ 32 \<Longrightarrow> length passwd + 64 \<le> 2 ^ 32 \<Longrightarrow>
   chap_get_md5 passwd data len rnd = md5_digest (take len data @ le32 rnd @ passwd)"
  unfolding chap_get_md5_def Let_def by (rule chap_independent) (simp_all add: md5_ctx0_def)

lemma length_chap_get_md5 [simp]: "length (chap_get_md5 passwd data len rnd) = CHAP_LEN"
  unfolding chap_get_md5_def Let_def CHAP_LEN_def
  by (intro length_md5_final length_state_update length_state_init)

section \<open>The interface: a keyed digest over a packet and a challenge\<close>

text \<open>
  What the handlers rely on: the digest of \<open>n\<close> bytes of a packet under a challenge is a
  fixed-length hash of these bytes, the challenge and a secret. \<open>bounded\<close> says for which
  lengths.
\<close>

locale packet_digest =
  fixes digest :: "byte list \<Rightarrow> nat \<Rightarrow> u32 \<Rightarrow> byte list"
    and hash :: "byte list \<Rightarrow> byte list"
    and secret :: "byte list"
    and bounded :: "nat \<Rightarrow> bool"
  assumes digest_hash:
      "n \<le> length d \<Longrightarrow> bounded n \<Longrightarrow> digest d n r = hash (take n d @ le32 r @ secret)"
    and digest_length: "length (digest d n r) = CHAP_LEN"
begin

lemma same_digest_same_input:
  assumes "digest d n r = digest e n s" "n \<le> length d" "n \<le> length e" "bounded n"
    and "inj_on hash {take n d @ le32 r @ secret, take n e @ le32 s @ secret}"
  shows "take n d = take n e \<and> r = s"
proof -
  have "hash (take n d @ le32 r @ secret) = hash (take n e @ le32 s @ secret)"
    by (rule trans [OF trans [OF digest_hash [OF assms(2,4), symmetric] assms(1)]
          digest_hash [OF assms(3,4)]])
  then have "take n d @ le32 r @ secret = take n e @ le32 s @ secret"
    by (rule inj_onD [OF assms(5)]) simp_all
  moreover have "length (take n d) = length (take n e)" "length (le32 r) = length (le32 s)"
    using assms(2,3) by simp_all
  ultimately show ?thesis
    by (metis append_eq_append_conv le32_inject)
qed

lemma digest_prefix_only:
  "take n d = take n e \<Longrightarrow> n \<le> length d \<Longrightarrow> n \<le> length e \<Longrightarrow> bounded n \<Longrightarrow>
   digest d n r = digest e n r"
  by (simp add: digest_hash)

end

text \<open>The code's digest keeps the interface, for every password shorter than 4 GiB.\<close>

definition chap_bounded :: "byte list \<Rightarrow> nat \<Rightarrow> bool" where
  "chap_bounded passwd n \<longleftrightarrow> n + 64 \<le> 2 ^ 32 \<and> length passwd + 64 \<le> 2 ^ 32"

interpretation chapd: packet_digest "chap_get_md5 passwd" md5_digest passwd "chap_bounded passwd"
  for passwd
  by unfold_locales (simp_all add: chap_get_md5_digest chap_bounded_def)

section \<open>Acceptance of a packet\<close>

definition zero_chap :: "byte list \<Rightarrow> byte list" where
  "zero_chap msg = put_at 4 (replicate CHAP_LEN 0) msg"

lemma zero_chap_put [simp]:
  "length c = CHAP_LEN \<Longrightarrow> 4 \<le> length msg \<Longrightarrow> zero_chap (put_at 4 c msg) = zero_chap msg"
  by (simp add: zero_chap_def put_at_put_at_same)

lemma length_zero_chap [simp]: "20 \<le> length msg \<Longrightarrow> length (zero_chap msg) = length msg"
  by (simp add: zero_chap_def length_put_at CHAP_LEN_def)

lemma chap_msg_cmp_accepts_iff:
  assumes "20 \<le> length msg"
  shows "snd (chap_msg_cmp_md5 passwd ok msg len rnd) = 0 \<longleftrightarrow>
     ok \<and> chap_get_md5 passwd (zero_chap msg) len rnd = slice 4 CHAP_LEN msg"
proof -
  have "length (slice 4 CHAP_LEN msg) = CHAP_LEN"
    using assms by (simp add: length_slice CHAP_LEN_def)
  then show ?thesis
    by (simp add: chap_msg_cmp_md5_def chap_cmp_md5_def Let_def memcmp_0_iff zero_chap_def)
qed

text \<open>
  The packet \<open>bs\<close> of \<open>len\<close> bytes carries the digest under the password for the challenge
  \<open>rnd\<close>; it is a registration response, or a registration request.
\<close>

definition signed :: "byte list \<Rightarrow> byte list \<Rightarrow> nat \<Rightarrow> u32 \<Rightarrow> bool" where
  "signed passwd bs len rnd \<longleftrightarrow> slice 4 CHAP_LEN bs = chap_get_md5 passwd (zero_chap bs) len rnd"

definition authentic_resp :: "byte list \<Rightarrow> byte list \<Rightarrow> u32 \<Rightarrow> bool" where
  "authentic_resp passwd bs rnd \<longleftrightarrow> msg_type (dec_head bs) = MSG_AC_REG_RESP \<and>
     signed passwd bs sizeof_ac_reg_resp rnd"

definition authentic_req :: "byte list \<Rightarrow> byte list \<Rightarrow> u32 \<Rightarrow> bool" where
  "authentic_req passwd bs rnd \<longleftrightarrow> msg_type (dec_head bs) = MSG_AP_REG \<and>
     signed passwd bs sizeof_ap_reg rnd"

lemma signed_accepted:
  "20 \<le> length bs \<Longrightarrow> snd (chap_msg_cmp_md5 passwd ok bs len rnd) = 0 \<longleftrightarrow> ok \<and> signed passwd bs len rnd"
  by (auto simp: chap_msg_cmp_accepts_iff signed_def)

lemma fst_chap_msg_cmp [simp]: "fst (chap_msg_cmp_md5 passwd ok msg len rnd) = zero_chap msg"
  by (simp add: chap_msg_cmp_md5_def Let_def zero_chap_def)

lemma chap_fill_eq:
  "chap_fill_msg_md5 passwd msg len rnd =
     put_at 4 (chap_get_md5 passwd (zero_chap msg) len rnd) (zero_chap msg)"
  by (simp add: chap_fill_msg_md5_def Let_def zero_chap_def)

lemma chap_fill_accepted:
  assumes "20 \<le> length msg"
  shows "chap_msg_cmp_md5 passwd True (chap_fill_msg_md5 passwd msg len rnd) len rnd =
           (zero_chap msg, 0)"
proof -
  let ?f = "chap_fill_msg_md5 passwd msg len rnd"
  have zz: "zero_chap (zero_chap msg) = zero_chap msg"
    using assms by (simp add: zero_chap_def put_at_put_at_same)
  have z: "zero_chap ?f = zero_chap msg"
    using assms by (simp add: chap_fill_eq zz)
  have "length ?f = length msg"
    using assms by (simp add: chap_fill_eq length_put_at CHAP_LEN_def)
  moreover have "slice 4 CHAP_LEN ?f = chap_get_md5 passwd (zero_chap msg) len rnd"
    using assms slice_put_at_same [of 4 "zero_chap msg" "chap_get_md5 passwd (zero_chap msg) len rnd"]
    by (simp add: chap_fill_eq)
  ultimately have "snd (chap_msg_cmp_md5 passwd True ?f len rnd) = 0"
    using assms by (simp add: chap_msg_cmp_accepts_iff z)
  then show ?thesis
    by (intro prod_eqI) (simp_all add: z)
qed

lemma dec_head_zero_chap [simp]:
  assumes "20 \<le> length bs"
  shows "acuuid (dec_head (zero_chap bs)) = acuuid (dec_head bs)" "mac (dec_head (zero_chap bs)) = mac (dec_head bs)"
    "msg_type (dec_head (zero_chap bs)) = msg_type (dec_head bs)" "random (dec_head (zero_chap bs)) = random (dec_head bs)"
  using assms by (simp_all add: dec_head_def zero_chap_def slice_put_at_after slice_put_at_before msg_lens)

lemma slice_zero_chap: "20 \<le> i \<Longrightarrow> 20 \<le> length bs \<Longrightarrow> slice i n (zero_chap bs) = slice i n bs"
  by (simp add: zero_chap_def slice_put_at_after CHAP_LEN_def)

lemma dec_ac_reg_resp_zero_chap:
  assumes "20 \<le> length bs"
  shows "acaddr (dec_ac_reg_resp (zero_chap bs)) = acaddr (dec_ac_reg_resp bs)"
    "apaddr (dec_ac_reg_resp (zero_chap bs)) = apaddr (dec_ac_reg_resp bs)"
  using assms by (simp_all add: dec_ac_reg_resp_def msg_head_t.defs msg_ac_reg_resp_t.defs slice_zero_chap)

lemma length_chap_fill [simp]:
  "20 \<le> length msg \<Longrightarrow> length (chap_fill_msg_md5 passwd msg len rnd) = length msg"
  by (simp add: chap_fill_eq length_put_at CHAP_LEN_def)

lemma chap_fill_enc:
  "wf_head q \<Longrightarrow> chap_fill_msg_md5 passwd (enc_head q @ rest) len rnd =
     enc_head (q\<lparr>chap := chap_get_md5 passwd (enc_head (q\<lparr>chap := replicate CHAP_LEN 0\<rparr>) @ rest) len rnd\<rparr>) @ rest"
  by (simp add: chap_fill_msg_md5_def wf_head_def)

lemma restore_chap:
  assumes "20 \<le> len" "len \<le> length m"
  shows "take len m = put_at 4 (slice 4 CHAP_LEN m) (take len (zero_chap m))"
proof -
  have s: "length (slice 4 CHAP_LEN m) = CHAP_LEN"
    using assms by (simp add: length_slice CHAP_LEN_def)
  have "put_at 4 (slice 4 CHAP_LEN m) (zero_chap m) = put_at 4 (slice 4 CHAP_LEN m) m"
    unfolding zero_chap_def using s assms by (intro put_at_put_at_same) simp_all
  also have "\<dots> = m"
    using assms by (intro put_at_slice_id) (simp add: CHAP_LEN_def)
  finally show ?thesis
    using assms s take_put_at [of 4 "slice 4 CHAP_LEN m" len "zero_chap m"]
    by (simp add: CHAP_LEN_def)
qed

section \<open>Signed packets on the wire\<close>

lemma signed_fill:
  "20 \<le> length bs \<Longrightarrow> signed passwd (chap_fill_msg_md5 passwd bs len rnd) len rnd"
  using chap_fill_accepted [of bs passwd len rnd]
    signed_accepted [of "chap_fill_msg_md5 passwd bs len rnd" passwd True len rnd]
  by simp

text \<open>The digest does not depend on what follows the packet in memory.\<close>

lemma zero_chap_append: "20 \<le> length bs \<Longrightarrow> zero_chap (bs @ rest) = zero_chap bs @ rest"
  by (simp add: zero_chap_def put_at_def CHAP_LEN_def)

lemma signed_append:
  assumes "length bs = len" "20 \<le> len" "chap_bounded passwd len"
  shows "signed passwd (bs @ rest) len rnd \<longleftrightarrow> signed passwd bs len rnd"
proof -
  have "chap_get_md5 passwd (zero_chap (bs @ rest)) len rnd = chap_get_md5 passwd (zero_chap bs) len rnd"
    using assms by (intro chapd.digest_prefix_only) (simp_all add: zero_chap_append)
  moreover have "slice 4 CHAP_LEN (bs @ rest) = slice 4 CHAP_LEN bs"
    using assms by (simp add: slice_def CHAP_LEN_def)
  ultimately show ?thesis by (simp add: signed_def)
qed

lemma dec_head_append: "80 \<le> length bs \<Longrightarrow> dec_head (bs @ rest) = dec_head bs"
  by (simp add: dec_head_def slice_def msg_lens)

text \<open>A packet that was filled is read back as the record with its digest.\<close>

lemma resp_on_wire:
  assumes w: "wf_head q" "wf_sockaddr (acaddr q)" "wf_sockaddr (apaddr q)"
    and out_def: "out = chap_fill_msg_md5 passwd (enc_ac_reg_resp q @ rest) sizeof_ac_reg_resp rnd"
  shows "length out = sizeof_ac_reg_resp + length rest"
    "dec_ac_reg_resp out = q\<lparr>chap := slice 4 CHAP_LEN out\<rparr>"
    "msg_type q = MSG_AC_REG_RESP \<Longrightarrow> authentic_resp passwd out rnd"
proof -
  have l: "length (enc_ac_reg_resp q) = sizeof_ac_reg_resp"
    using w unfolding enc_ac_reg_resp_def sizeof_ac_reg_resp_def
    by (simp only: length_append length_enc_head length_enc_sockaddr)
  then show "length out = sizeof_ac_reg_resp + length rest" by (simp add: out_def sizeof_ac_reg_resp_def)
  obtain c where c: "out = enc_head (q\<lparr>chap := c\<rparr>) @ enc_sockaddr (acaddr q) @ enc_sockaddr (apaddr q) @ rest"
    "length c = CHAP_LEN"
    unfolding out_def enc_ac_reg_resp_def append_assoc using chap_fill_enc [OF w(1)] length_chap_get_md5 by blast
  have w': "wf_head (q\<lparr>chap := c\<rparr>)" using w(1) c(2) by (simp add: wf_head_def)
  have o: "out = enc_ac_reg_resp (q\<lparr>chap := c\<rparr>) @ rest" using c(1) by (simp add: enc_ac_reg_resp_def)
  have "slice 4 CHAP_LEN out = chap (q\<lparr>chap := c\<rparr>)" unfolding c(1) by (rule slice_chap_enc [OF w'])
  moreover have "dec_ac_reg_resp (enc_ac_reg_resp (q\<lparr>chap := c\<rparr>) @ rest) = q\<lparr>chap := c\<rparr>"
    using w w' by (intro dec_enc_ac_reg_resp) simp_all
  ultimately show dec: "dec_ac_reg_resp out = q\<lparr>chap := slice 4 CHAP_LEN out\<rparr>" by (simp add: o)
  have "dec_head out = msg_head_t.truncate (q\<lparr>chap := c\<rparr>)" unfolding c(1) by (rule dec_enc_head [OF w'])
  then have "msg_type (dec_head out) = msg_type q" by (simp add: msg_head_t.defs)
  moreover have "signed passwd out sizeof_ac_reg_resp rnd"
    unfolding out_def using l by (intro signed_fill) (simp add: sizeof_ac_reg_resp_def)
  ultimately show "msg_type q = MSG_AC_REG_RESP \<Longrightarrow> authentic_resp passwd out rnd"
    by (simp add: authentic_resp_def)
qed

lemma req_on_wire:
  assumes w: "wf_head q" "wf_sockaddr (ipv4 q)"
    and out_def: "out = chap_fill_msg_md5 passwd (enc_ap_reg q @ rest) sizeof_ap_reg rnd"
  shows "length out = sizeof_ap_reg + length rest"
    "dec_ap_reg out = q\<lparr>chap := slice 4 CHAP_LEN out\<rparr>"
    "msg_type q = MSG_AP_REG \<Longrightarrow> authentic_req passwd out rnd"
proof -
  have l: "length (enc_ap_reg q) = sizeof_ap_reg"
    using w unfolding enc_ap_reg_def sizeof_ap_reg_def
    by (simp only: length_append length_enc_head length_enc_sockaddr)
  then show "length out = sizeof_ap_reg + length rest" by (simp add: out_def sizeof_ap_reg_def)
  obtain c where c: "out = enc_head (q\<lparr>chap := c\<rparr>) @ enc_sockaddr (ipv4 q) @ rest" "length c = CHAP_LEN"
    unfolding out_def enc_ap_reg_def append_assoc using chap_fill_enc [OF w(1)] length_chap_get_md5 by blast
  have w': "wf_head (q\<lparr>chap := c\<rparr>)" using w(1) c(2) by (simp add: wf_head_def)
  have o: "out = enc_ap_reg (q\<lparr>chap := c\<rparr>) @ rest" using c(1) by (simp add: enc_ap_reg_def)
  have "slice 4 CHAP_LEN out = chap (q\<lparr>chap := c\<rparr>)" unfolding c(1) by (rule slice_chap_enc [OF w'])
  moreover have "dec_ap_reg (enc_ap_reg (q\<lparr>chap := c\<rparr>) @ rest) = q\<lparr>chap := c\<rparr>"
    using w w' by (intro dec_enc_ap_reg) simp_all
  ultimately show "dec_ap_reg out = q\<lparr>chap := slice 4 CHAP_LEN out\<rparr>" by (simp add: o)
  have "dec_head out = msg_head_t.truncate (q\<lparr>chap := c\<rparr>)" unfolding c(1) by (rule dec_enc_head [OF w'])
  then have "msg_type (dec_head out) = msg_type q" by (simp add: msg_head_t.defs)
  moreover have "signed passwd out sizeof_ap_reg rnd"
    unfolding out_def using l by (intro signed_fill) (simp add: sizeof_ap_reg_def)
  ultimately show "msg_type q = MSG_AP_REG \<Longrightarrow> authentic_req passwd out rnd"
    by (simp add: authentic_req_def)
qed

section \<open>Properties\<close>

text \<open>
  The receiver accepts what the sender filled: a packet completed by
  \<^verbatim>\<open>chap_fill_msg_md5\<close> passes \<^verbatim>\<open>chap_msg_cmp_md5\<close> under the same challenge and
  password, and the check leaves the packet with a zeroed digest field.
\<close>

theorem chap_roundtrip:
  assumes "20 \<le> length msg"
  shows "chap_msg_cmp_md5 passwd True (chap_fill_msg_md5 passwd msg len rnd) len rnd =
           (put_at 4 (replicate 16 0) msg, 0)"
  using chap_fill_accepted [OF assms] by (simp add: zero_chap_def CHAP_LEN_def)

theorem chap_roundtrip_witness:
  "chap_msg_cmp_md5 [119] True (chap_fill_msg_md5 [119] (replicate 80 5) 80 7) 80 7 =
     (put_at 4 (replicate 16 0) (replicate 80 5), 0)"
  by (rule chap_roundtrip) simp

text \<open>
  What the receiver accepts: exactly the packets whose digest field is the MD5 digest of
  the packet with a zeroed digest field, followed by the challenge and the password, and
  nothing when the comparison buffer cannot be allocated.
\<close>

theorem chap_accepts_exactly:
  assumes "20 \<le> len" "len \<le> length msg" "len + 64 \<le> 2 ^ 32" "length passwd + 64 \<le> 2 ^ 32"
  shows "snd (chap_msg_cmp_md5 passwd ok msg len rnd) = 0 \<longleftrightarrow>
     ok \<and> slice 4 CHAP_LEN msg = md5_digest (take len (zero_chap msg) @ le32 rnd @ passwd)"
  using assms by (auto simp: chap_msg_cmp_accepts_iff chap_get_md5_digest)

theorem chap_accepts_exactly_witness:
  "snd (chap_msg_cmp_md5 [119] False (replicate 80 0) 80 7) \<noteq> 0"
  using chap_accepts_exactly [of 80 "replicate 80 0" "[119]" False 7] by simp

text \<open>
  C6. A digest field binds the whole packet and the challenge: two accepted packets with the
  same digest field were made for the same challenge and agree in every byte, unless their
  two hash inputs are an MD5 collision. In particular a packet cannot be replayed to
  another challenge and no byte of it can be changed.
\<close>

theorem chap_binds_packet_and_challenge:
  assumes acc1: "snd (chap_msg_cmp_md5 passwd ok1 msg1 len r1) = 0"
    and acc2: "snd (chap_msg_cmp_md5 passwd ok2 msg2 len r2) = 0"
    and same: "slice 4 CHAP_LEN msg1 = slice 4 CHAP_LEN msg2"
    and len: "20 \<le> len" "len \<le> length msg1" "len \<le> length msg2"
      "len + 64 \<le> 2 ^ 32" "length passwd + 64 \<le> 2 ^ 32"
    and no_collision: "inj_on md5_digest {take len (zero_chap msg1) @ le32 r1 @ passwd,
                                          take len (zero_chap msg2) @ le32 r2 @ passwd}"
  shows "r1 = r2 \<and> take len msg1 = take len msg2"
proof -
  have "chap_get_md5 passwd (zero_chap msg1) len r1 = chap_get_md5 passwd (zero_chap msg2) len r2"
    using acc1 acc2 same len by (simp add: chap_msg_cmp_accepts_iff)
  then have "take len (zero_chap msg1) = take len (zero_chap msg2) \<and> r1 = r2"
    by (rule chapd.same_digest_same_input [OF _ _ _ _ no_collision])
      (use len in \<open>simp_all add: chap_bounded_def\<close>)
  then show ?thesis
    using restore_chap [OF len(1,2)] restore_chap [OF len(1,3)] same by simp
qed

text \<open>Three inputs of the hash: a packet, the packet with another challenge, and with another last byte.\<close>

definition ex_packet :: "byte list" where "ex_packet = replicate 24 5"

definition ex_input :: "byte list \<Rightarrow> u32 \<Rightarrow> byte list" where
  "ex_input msg r = take 24 (zero_chap msg) @ le32 r @ [119]"

lemma ex_input_eq:
  "ex_input ex_packet 7 = [5, 5, 5, 5, 0, 0, 0, 0, 0, 0, 0, 0, 0, 0, 0, 0, 0, 0, 0, 0, 5, 5, 5, 5, 7, 0, 0, 0, 119]"
  "ex_input ex_packet 8 = [5, 5, 5, 5, 0, 0, 0, 0, 0, 0, 0, 0, 0, 0, 0, 0, 0, 0, 0, 0, 5, 5, 5, 5, 8, 0, 0, 0, 119]"
  "ex_input (ex_packet[23 := 6]) 7 =
     [5, 5, 5, 5, 0, 0, 0, 0, 0, 0, 0, 0, 0, 0, 0, 0, 0, 0, 0, 0, 5, 5, 5, 6, 7, 0, 0, 0, 119]"
  by code_simp+

lemma ex_digest1:
  "snd (MD5Final (md5_feed (MD5Init md5_ctx0) [[5, 5, 5, 5, 0, 0, 0, 0, 0, 0, 0, 0, 0, 0, 0, 0, 0, 0, 0, 0, 5, 5, 5, 5, 7, 0, 0, 0, 119]])) =
     [159, 231, 29, 76, 98, 54, 17, 42, 47, 57, 81, 6, 49, 93, 189, 49]"
  by code_simp

lemma ex_digest2:
  "snd (MD5Final (md5_feed (MD5Init md5_ctx0) [[5, 5, 5, 5, 0, 0, 0, 0, 0, 0, 0, 0, 0, 0, 0, 0, 0, 0, 0, 0, 5, 5, 5, 5, 8, 0, 0, 0, 119]])) =
     [241, 73, 47, 230, 151, 254, 28, 119, 150, 188, 232, 28, 109, 233, 234, 150]"
  by code_simp

lemma ex_digest3:
  "snd (MD5Final (md5_feed (MD5Init md5_ctx0) [[5, 5, 5, 5, 0, 0, 0, 0, 0, 0, 0, 0, 0, 0, 0, 0, 0, 0, 0, 0, 5, 5, 5, 6, 7, 0, 0, 0, 119]])) =
     [211, 224, 148, 210, 200, 52, 232, 255, 65, 216, 209, 200, 255, 77, 4, 190]"
  by code_simp

lemma ex_digest: "md5_digest xs = snd (MD5Final (md5_feed (MD5Init md5_ctx0) [xs]))" if "length xs + 64 \<le> 2 ^ 32"
proof -
  have "md5_repr (md5_feed (MD5Init md5_ctx0) [xs]) ([] @ concat [xs])"
    by (intro md5_repr_feed md5_repr_init) (use that in \<open>auto simp: md5_ctx0_def\<close>)
  then show ?thesis by (simp add: md5_repr_final)
qed

lemma ex_digests_differ:
  "md5_digest (ex_input ex_packet 7) \<noteq> md5_digest (ex_input ex_packet 8)"
  "md5_digest (ex_input ex_packet 7) \<noteq> md5_digest (ex_input (ex_packet[23 := 6]) 7)"
  unfolding ex_input_eq by (simp_all add: ex_digest ex_digest1 ex_digest2 ex_digest3)

definition ex_sent :: "byte list" where "ex_sent = chap_fill_msg_md5 [119] ex_packet 24 7"

text \<open>
  The packet is accepted under its challenge; replayed to another challenge, or with another last byte, it is refused.
\<close>

theorem chap_binds_packet_and_challenge_witness:
  "snd (chap_msg_cmp_md5 [119] True ex_sent 24 7) = 0 \<and> snd (chap_msg_cmp_md5 [119] True ex_sent 24 8) \<noteq> 0 \<and>
   snd (chap_msg_cmp_md5 [119] True (ex_sent[23 := 6]) 24 7) \<noteq> 0"
proof -
  have l: "length ex_sent = 24" "length (ex_sent[23 := 6]) = 24"
    by (simp_all add: ex_sent_def chap_fill_eq length_put_at CHAP_LEN_def ex_packet_def)
  have acc: "snd (chap_msg_cmp_md5 [119] True ex_sent 24 7) = 0"
    by (simp add: ex_sent_def chap_fill_accepted ex_packet_def)
  obtain c where c: "ex_sent = put_at 4 c (zero_chap ex_packet)" "length c = 16"
    by (simp add: ex_sent_def chap_fill_eq length_chap_get_md5 CHAP_LEN_def)
  have e: "(zero_chap ex_packet)[23 := 6] = zero_chap (ex_packet[23 := 6])" by code_simp
  have u: "ex_sent[23 := 6] = put_at 4 c (zero_chap (ex_packet[23 := 6]))"
    unfolding e [symmetric] using c(2) by (simp add: c(1) put_at_def zero_chap_def list_update_append drop_update_swap ex_packet_def CHAP_LEN_def)
  have z: "zero_chap ex_sent = zero_chap ex_packet" "zero_chap (ex_sent[23 := 6]) = zero_chap (ex_packet[23 := 6])"
    "slice 4 CHAP_LEN (ex_sent[23 := 6]) = slice 4 CHAP_LEN ex_sent"
    unfolding u unfolding c(1) using c(2) slice_put_at_same [of 4 _ c]
    by (simp_all add: CHAP_LEN_def length_zero_chap ex_packet_def) (simp_all add: zero_chap_def put_at_put_at_same CHAP_LEN_def)
  have n: "ex_sent ! 23 = 5" using c(2) by (simp add: c(1) put_at_def zero_chap_def nth_append ex_packet_def CHAP_LEN_def)
  have i: "inj_on md5_digest {take 24 (zero_chap ex_sent) @ le32 7 @ [119], take 24 (zero_chap ex_sent) @ le32 8 @ [119]}"
    "inj_on md5_digest {take 24 (zero_chap ex_sent) @ le32 7 @ [119], take 24 (zero_chap (ex_sent[23 := 6])) @ le32 7 @ [119]}"
    using ex_digests_differ by (auto simp: z ex_input_def inj_on_def)
  have "snd (chap_msg_cmp_md5 [119] True ex_sent 24 8) \<noteq> 0"
  proof
    assume "snd (chap_msg_cmp_md5 [119] True ex_sent 24 8) = 0"
    from chap_binds_packet_and_challenge [OF acc this refl _ _ _ _ _ i(1)] l show False by simp
  qed
  moreover have "snd (chap_msg_cmp_md5 [119] True (ex_sent[23 := 6]) 24 7) \<noteq> 0"
  proof
    assume "snd (chap_msg_cmp_md5 [119] True (ex_sent[23 := 6]) 24 7) = 0"
    from chap_binds_packet_and_challenge [OF acc this z(3)[symmetric] _ _ _ _ _ i(2)] l
    have "take 24 ex_sent = take 24 (ex_sent[23 := 6])" by simp
    then have "ex_sent ! 23 = ex_sent[23 := 6] ! 23" using l by simp
    then show False using n l by simp
  qed
  ultimately show ?thesis using acc by blast
qed

end
