(* ===== verification/Msg_Queue.thy ===== *)
theory Msg_Queue
  imports Slist
begin

text \<open>
  The message of \<^verbatim>\<open>struct message_t\<close>, the queue record that the access point
  (\<^verbatim>\<open>ap/message.c\<close>) and every hash node of the controller (\<^verbatim>\<open>ac/aphash.c\<close>) keep, and the
  contract of such a queue as the locale \<open>message_queue\<close>: what \<^verbatim>\<open>message_insert\<close>,
  \<^verbatim>\<open>message_delete\<close> and \<^verbatim>\<open>message_free\<close> promise, and what follows for a run of them in any
  order and for the loop that drains the queue.
\<close>

record message_t =
  proto :: int
  msg_len :: int
  data :: "byte list"

text \<open>
  \<open>hd_ptr\<close> and \<open>next_of\<close> are the \<^verbatim>\<open>head\<close> pointer and the \<^verbatim>\<open>next\<close> fields, \<open>tail\<close> the pointer
  to a pointer, \<open>num\<close> the counter and \<open>cells\<close> the messages that are allocated.
\<close>

record msg_queue = chain +
  tail :: slot
  num :: int
  cells :: "ptr \<rightharpoonup> message_t"

definition queue_rel :: "msg_queue \<Rightarrow> ptr list \<Rightarrow> bool" where
  "queue_rel q ps \<longleftrightarrow> chain_rel q (tail q) ps \<and> num q = int (length ps) \<and> set ps \<subseteq> dom (cells q)"

definition queue_holds :: "msg_queue \<Rightarrow> (ptr \<times> message_t) list \<Rightarrow> bool" where
  "queue_holds q pms \<longleftrightarrow> queue_rel q (map fst pms) \<and> (\<forall>(p, m) \<in> set pms. cells q p = Some m)"

section \<open>Allocation of messages\<close>

text \<open>\<^verbatim>\<open>malloc\<close> of a message at the node \<open>p\<close>, with its content; \<^verbatim>\<open>free\<close> of a message.\<close>

definition message_malloc :: "ptr \<Rightarrow> message_t \<Rightarrow> msg_queue \<Rightarrow> msg_queue" where
  "message_malloc p m q = q\<lparr>cells := (cells q)(p \<mapsto> m)\<rparr>"

definition message_free :: "ptr \<Rightarrow> msg_queue \<Rightarrow> msg_queue res" where
  "message_free msg q =
     (if cells q msg = None then Inl UseAfterFree
      else Inr (q\<lparr>cells := (cells q)(msg := None)\<rparr>))"

text \<open>A slot can be used while the node it lies in is allocated.\<close>

definition slot_ok :: "msg_queue \<Rightarrow> slot \<Rightarrow> bool" where
  "slot_ok q t = (case t of HeadSlot \<Rightarrow> True | NextSlot p \<Rightarrow> cells q p \<noteq> None)"

definition queue_fresh :: "msg_queue \<Rightarrow> ptr \<Rightarrow> bool" where
  "queue_fresh q p \<longleftrightarrow> cells q p = None"

lemma write_slot_fields [simp]:
  "tail (write_slot q t v) = tail q" "num (write_slot q t v) = num q"
  "cells (write_slot q t v) = cells q"
  by (cases t; simp)+

lemma slot_ok_end: "set ps \<subseteq> dom (cells q) \<Longrightarrow> slot_ok q (end_slot ps)"
  using last_in_set [of ps] by (auto simp: slot_ok_def end_slot_def dest!: subsetD)

lemma queue_rel_malloc:
  "queue_rel q ps \<Longrightarrow> queue_rel (message_malloc p m q) ps"
  by (auto simp: queue_rel_def message_malloc_def chain_rel_def)

lemma message_free_rel:
  assumes "queue_rel q ps" "p \<notin> set ps" "cells q p \<noteq> None"
  shows "\<exists>q'. message_free p q = Inr q' \<and> queue_rel q' ps \<and> cells q' = (cells q)(p := None)"
  using assms by (auto simp: message_free_def queue_rel_def chain_rel_def)

lemma queue_holds_Nil: "queue_holds q [] \<longleftrightarrow> queue_rel q []"
  by (simp add: queue_holds_def)

lemma queue_holds_ConsD:
  assumes "queue_holds q ((p, m) # pms)"
  shows "queue_rel q (p # map fst pms)" "p \<notin> set (map fst pms)" "cells q p = Some m"
  using assms by (auto simp: queue_holds_def queue_rel_def chain_rel_def)

text \<open>
  A queue operation that moves the node list as expected and leaves the message cells alone
  keeps the contents; these two lemmas lift the pointer facts of both programs.
\<close>

lemma queue_holds_snoc:
  assumes "queue_holds q pms" "queue_fresh q p"
    and "queue_rel q' (map fst pms @ [p])" "cells q' = cells (message_malloc p m q)"
  shows "queue_holds q' (pms @ [(p, m)])"
proof -
  have "cells q' a = Some b" if "(a, b) \<in> set pms" for a b
  proof -
    have "cells q a = Some b" using that assms(1) by (auto simp: queue_holds_def)
    with assms(2,4) show ?thesis by (auto simp: queue_fresh_def message_malloc_def)
  qed
  with assms(3,4) show ?thesis by (auto simp: queue_holds_def message_malloc_def)
qed

text \<open>The first message is out of the list and not freed yet.\<close>

definition queue_taken :: "msg_queue \<Rightarrow> ptr \<Rightarrow> message_t \<Rightarrow> (ptr \<times> message_t) list \<Rightarrow> bool" where
  "queue_taken q p m pms \<longleftrightarrow> queue_holds q pms \<and> p \<notin> fst ` set pms \<and> cells q p = Some m"

lemma queue_taken_free:
  assumes "queue_taken q p m pms"
  shows "\<exists>q'. message_free p q = Inr q' \<and> queue_holds q' pms"
proof -
  have p: "p \<notin> set (map fst pms)" "cells q p \<noteq> None" and q: "queue_holds q pms"
    using assms by (auto simp: queue_taken_def)
  have "queue_rel q (map fst pms)" using q by (simp add: queue_holds_def)
  then obtain q' where q': "message_free p q = Inr q'" "queue_rel q' (map fst pms)"
    "cells q' = (cells q)(p := None)"
    using message_free_rel p by blast
  have "cells q' a = Some b" if "(a, b) \<in> set pms" for a b
  proof -
    have "a \<noteq> p" using that p(1) by force
    with that q'(3) q show ?thesis by (auto simp: queue_holds_def)
  qed
  with q' show ?thesis by (auto simp: queue_holds_def)
qed

lemma queue_taken_del:
  assumes "queue_holds q ((p, m) # pms)" "queue_rel q' (map fst pms)" "cells q' = cells q"
  shows "queue_taken q' p m pms"
  using assms queue_holds_ConsD [OF assms(1)] by (auto simp: queue_taken_def queue_holds_def)

section \<open>Runs and the draining loop\<close>

text \<open>
  A run of the receiving and the processing thread: a message arrives in the node \<open>p\<close> that
  \<^verbatim>\<open>malloc\<close> returned (an event whose node is not fresh cannot happen and is skipped), or
  the first message is taken. The result holds the messages accepted, the messages taken
  and the queue.
\<close>

datatype 'm qevent = Arrive ptr 'm | Take

fun run_events ::
  "('q \<Rightarrow> ptr \<Rightarrow> bool) \<Rightarrow> (ptr \<Rightarrow> 'm \<Rightarrow> 'q \<Rightarrow> 'q res) \<Rightarrow> ('q \<Rightarrow> (ptr option \<times> 'q) res) \<Rightarrow>
   ('q \<Rightarrow> ptr \<Rightarrow> 'm option) \<Rightarrow> (ptr \<Rightarrow> 'q \<Rightarrow> 'q res) \<Rightarrow> 'm qevent list \<Rightarrow> 'q \<Rightarrow>
   ('m list \<times> 'm list \<times> 'q) res" where
  "run_events fresh ins del load rel [] q = Inr ([], [], q)"
| "run_events fresh ins del load rel (Arrive p m # evs) q =
     (if fresh q p
      then bind_res (ins p m q) (\<lambda>q1.
             bind_res (run_events fresh ins del load rel evs q1) (\<lambda>(acc, dlv, q2).
               Inr (m # acc, dlv, q2)))
      else run_events fresh ins del load rel evs q)"
| "run_events fresh ins del load rel (Take # evs) q =
     bind_res (del q) (\<lambda>(r, q1).
       case r of
         None \<Rightarrow> run_events fresh ins del load rel evs q1
       | Some p \<Rightarrow> (case load q1 p of
           None \<Rightarrow> Inl UseAfterFree
         | Some m \<Rightarrow> bind_res (rel p q1) (\<lambda>q2.
             bind_res (run_events fresh ins del load rel evs q2) (\<lambda>(acc, dlv, q3).
               Inr (acc, m # dlv, q3)))))"

text \<open>
  The loop \<^verbatim>\<open>while((msg = message_delete())) { msg_proc(msg); message_free(msg); }\<close> with
  \<open>proc\<close> for \<^verbatim>\<open>msg_proc\<close>. \<open>None\<close> is a loop that does not end.
\<close>

partial_function (option) drain ::
  "('s \<Rightarrow> (ptr option \<times> 's) res) \<Rightarrow> ('s \<Rightarrow> ptr \<Rightarrow> 'm option) \<Rightarrow> (ptr \<Rightarrow> 's \<Rightarrow> 's res) \<Rightarrow>
   ('m \<Rightarrow> 's \<Rightarrow> 's res) \<Rightarrow> 's \<Rightarrow> 's res option" where
  "drain del load rel proc s =
     (case del s of
        Inl e \<Rightarrow> Some (Inl e)
      | Inr rs \<Rightarrow> (case rs of (r, s1) \<Rightarrow> (case r of
          None \<Rightarrow> Some (Inr s1)
        | Some p \<Rightarrow> (case load s1 p of
            None \<Rightarrow> Some (Inl UseAfterFree)
          | Some m \<Rightarrow> (case proc m s1 of
              Inl e \<Rightarrow> Some (Inl e)
            | Inr s2 \<Rightarrow> (case rel p s2 of
                Inl e \<Rightarrow> Some (Inl e)
              | Inr s3 \<Rightarrow> drain del load rel proc s3))))))"

text \<open>Processing a list of messages in order, up to the first fault.\<close>

fun process_all :: "('m \<Rightarrow> 's \<Rightarrow> 's res) \<Rightarrow> 'm list \<Rightarrow> 's \<Rightarrow> 's res" where
  "process_all proc [] s = Inr s"
| "process_all proc (m # ms) s = bind_res (proc m s) (process_all proc ms)"

section \<open>The contract of a message queue\<close>

text \<open>
  \<open>ins p m\<close> is the receiver's step: a fresh message \<open>p\<close> with content \<open>m\<close> is allocated and
  inserted. \<open>del\<close> removes the first message, which stays allocated while it is processed;
  \<open>rel\<close> frees it.
\<close>

locale message_queue =
  fixes holds :: "'s \<Rightarrow> (ptr \<times> 'm) list \<Rightarrow> bool"
    and taken :: "'s \<Rightarrow> ptr \<Rightarrow> 'm \<Rightarrow> (ptr \<times> 'm) list \<Rightarrow> bool"
    and fresh :: "'s \<Rightarrow> ptr \<Rightarrow> bool"
    and ins :: "ptr \<Rightarrow> 'm \<Rightarrow> 's \<Rightarrow> 's res"
    and del :: "'s \<Rightarrow> (ptr option \<times> 's) res"
    and load :: "'s \<Rightarrow> ptr \<Rightarrow> 'm option"
    and rel :: "ptr \<Rightarrow> 's \<Rightarrow> 's res"
  assumes ins_law:
      "holds s pms \<Longrightarrow> fresh s p \<Longrightarrow> \<exists>s'. ins p m s = Inr s' \<and> holds s' (pms @ [(p, m)])"
    and del_empty: "holds s [] \<Longrightarrow> \<exists>s'. del s = Inr (None, s') \<and> holds s' []"
    and del_law: "holds s ((p, m) # pms) \<Longrightarrow> \<exists>s'. del s = Inr (Some p, s') \<and> taken s' p m pms"
    and load_law: "taken s p m pms \<Longrightarrow> load s p = Some m"
    and rel_law: "taken s p m pms \<Longrightarrow> \<exists>s'. rel p s = Inr s' \<and> holds s' pms"
begin

lemma run_events_fifo:
  "holds s pms \<Longrightarrow>
   \<exists>acc dlv s' pms'. run_events fresh ins del load rel evs s = Inr (acc, dlv, s') \<and>
     holds s' pms' \<and> map snd pms @ acc = dlv @ map snd pms'"
proof (induction evs arbitrary: s pms)
  case Nil
  then show ?case by auto
next
  case (Cons ev evs)
  show ?case
  proof (cases ev)
    case (Arrive p m)
    show ?thesis
    proof (cases "fresh s p")
      case True
      then obtain s' where s': "ins p m s = Inr s'" "holds s' (pms @ [(p, m)])"
        using Cons.prems ins_law by blast
      from Cons.IH [OF s'(2)] show ?thesis
        using True s'(1) by (fastforce simp: Arrive)
    next
      case False
      with Cons.IH [OF Cons.prems] show ?thesis by (simp add: Arrive)
    qed
  next
    case Take
    show ?thesis
    proof (cases pms)
      case Nil
      then obtain s' where s': "del s = Inr (None, s')" "holds s' []"
        using Cons.prems del_empty by blast
      from Cons.IH [OF s'(2)] s'(1) show ?thesis by (simp add: Take Nil)
    next
      case (Cons pm rest)
      obtain p m where pm: "pm = (p, m)" by (cases pm)
      obtain s' s'' where s': "del s = Inr (Some p, s')" "load s' p = Some m"
        "rel p s' = Inr s''" "holds s'' rest"
        using Cons.prems del_law load_law rel_law unfolding Cons pm by blast
      from Cons.IH [OF s'(4)] s'(1-3) show ?thesis by (fastforce simp: Take Cons pm)
    qed
  qed
qed

end

text \<open>
  A consumer: \<open>proc\<close> handles one message on the whole state, and acts on the rest of the
  state, seen through \<open>view\<close>, as \<open>pr\<close>; taking and freeing a message is invisible there.
\<close>

locale message_consumer = message_queue holds taken fresh ins del load rel
  for holds :: "'s \<Rightarrow> (ptr \<times> 'm) list \<Rightarrow> bool" and taken and fresh and ins and del and load and rel +
  fixes proc :: "'m \<Rightarrow> 's \<Rightarrow> 's res"
    and view :: "'s \<Rightarrow> 'w"
    and pr :: "'m \<Rightarrow> 'w \<Rightarrow> 'w res"
  assumes proc_fault: "taken s p m pms \<Longrightarrow> pr m (view s) = Inl e \<Longrightarrow> proc m s = Inl e"
    and proc_law: "taken s p m pms \<Longrightarrow> pr m (view s) = Inr w \<Longrightarrow>
      \<exists>s'. proc m s = Inr s' \<and> view s' = w \<and> taken s' p m pms"
    and del_view: "del s = Inr (r, s') \<Longrightarrow> view s' = view s"
    and rel_view: "rel p s = Inr s' \<Longrightarrow> view s' = view s"
begin

lemma drain_processes_all:
  "holds s pms \<Longrightarrow>
   (case process_all pr (map snd pms) (view s) of
      Inl e \<Rightarrow> drain del load rel proc s = Some (Inl e)
    | Inr w \<Rightarrow> \<exists>s'. drain del load rel proc s = Some (Inr s') \<and> view s' = w \<and> holds s' [])"
proof (induction pms arbitrary: s)
  case Nil
  then obtain s' where "del s = Inr (None, s')" "holds s' []"
    using del_empty by blast
  then show ?case
    using del_view by (auto simp: drain.simps [of del])
next
  case (Cons pm pms)
  obtain p m where pm: "pm = (p, m)" by (cases pm)
  obtain s1 where s1: "del s = Inr (Some p, s1)" "taken s1 p m pms" "load s1 p = Some m"
    using Cons.prems del_law load_law unfolding pm by blast
  have v: "view s1 = view s" using s1(1) by (rule del_view)
  show ?case
  proof (cases "pr m (view s)")
    case (Inl e)
    then have "proc m s1 = Inl e" using proc_fault [OF s1(2)] v by simp
    with Inl s1 show ?thesis by (simp add: pm drain.simps [of del])
  next
    case (Inr w)
    then obtain s2 where s2: "proc m s1 = Inr s2" "view s2 = w" "taken s2 p m pms"
      using proc_law [OF s1(2), of w] v by auto
    obtain s3 where s3: "rel p s2 = Inr s3" "holds s3 pms"
      using rel_law [OF s2(3)] by blast
    have "view s3 = w" using rel_view [OF s3(1)] s2(2) by simp
    moreover have "drain del load rel proc s = drain del load rel proc s3"
      using s1 s2 s3 by (subst drain.simps) simp
    ultimately show ?thesis
      using Inr Cons.IH [OF s3(2)] by (simp add: pm split: sum.splits)
  qed
qed

end

end
