(* ===== verification/Ap_Message.thy ===== *)
theory Ap_Message
  imports Msg_Queue
begin

text \<open>
  The message queue of the access point, \<^verbatim>\<open>ap/message.c\<close>: insertion by the receiving
  thread, deletion and the processing loop \<^verbatim>\<open>message_travel\<close>. Every operation runs under
  \<^verbatim>\<open>message_lock\<close> and is one step. The theory proves the contract of a message queue for
  it.
\<close>

section \<open>The operations\<close>

text \<open>\<^verbatim>\<open>head = NULL\<close>, \<^verbatim>\<open>tail = &head\<close>, \<^verbatim>\<open>message_num = 0\<close>.\<close>

definition ap_queue_init :: msg_queue where
  "ap_queue_init =
     \<lparr>hd_ptr = None, next_of = (\<lambda>_. None), tail = HeadSlot, num = 0, cells = (\<lambda>_. None)\<rparr>"

definition ap_message_insert :: "ptr \<Rightarrow> msg_queue \<Rightarrow> msg_queue res" where
  "ap_message_insert msg q =
     (if cells q msg = None then Inl UseAfterFree else
      let q = q\<lparr>next_of := (next_of q)(msg := None)\<rparr>;
          q = q\<lparr>num := num q + 1\<rparr>
      in if \<not> slot_ok q (tail q) then Inl UseAfterFree
         else Inr ((write_slot q (tail q) (Some msg))\<lparr>tail := NextSlot msg\<rparr>))"

definition ap_message_delete :: "msg_queue \<Rightarrow> (ptr option \<times> msg_queue) res" where
  "ap_message_delete q =
     (if num q = 0 then
        (if \<not> slot_ok q (tail q) then Inl UseAfterFree
         else if read_slot q (tail q) \<noteq> hd_ptr q then Inl AssertFail
         else Inr (None, q))
      else case hd_ptr q of
        None \<Rightarrow> Inl NullDeref
      | Some tmp \<Rightarrow>
          if cells q tmp = None then Inl UseAfterFree
          else let q = q\<lparr>num := num q - 1\<rparr>;
                   q = q\<lparr>hd_ptr := next_of q tmp\<rparr>;
                   q = (if tail q = NextSlot tmp then q\<lparr>tail := HeadSlot\<rparr> else q)
               in Inr (Some tmp, q))"

text \<open>What the receive callbacks do with a packet: allocate a message and insert it.\<close>

definition ap_receive :: "ptr \<Rightarrow> message_t \<Rightarrow> msg_queue \<Rightarrow> msg_queue res" where
  "ap_receive p m q = ap_message_insert p (message_malloc p m q)"

text \<open>
  One round of the thread \<^verbatim>\<open>message_travel\<close>, after its \<^verbatim>\<open>sleep\<close>. The state pairs the rest
  of the program, on which \<open>msg_proc\<close> acts, with the queue.
\<close>

definition on_queue :: "(msg_queue \<Rightarrow> ('r \<times> msg_queue) res) \<Rightarrow> 'w \<times> msg_queue \<Rightarrow>
    ('r \<times> ('w \<times> msg_queue)) res" where
  "on_queue f wq = bind_res (f (snd wq)) (\<lambda>(r, q). Inr (r, (fst wq, q)))"

definition ap_travel_free :: "ptr \<Rightarrow> 'w \<times> msg_queue \<Rightarrow> ('w \<times> msg_queue) res" where
  "ap_travel_free p wq = bind_res (message_free p (snd wq)) (\<lambda>q. Inr (fst wq, q))"

definition ap_travel_proc ::
  "(message_t \<Rightarrow> 'w \<Rightarrow> 'w res) \<Rightarrow> message_t \<Rightarrow> 'w \<times> msg_queue \<Rightarrow> ('w \<times> msg_queue) res" where
  "ap_travel_proc msg_proc m wq = bind_res (msg_proc m (fst wq)) (\<lambda>w. Inr (w, snd wq))"

definition ap_message_travel ::
  "(message_t \<Rightarrow> 'w \<Rightarrow> 'w res) \<Rightarrow> 'w \<times> msg_queue \<Rightarrow> ('w \<times> msg_queue) res option" where
  "ap_message_travel msg_proc wq =
     (if hd_ptr (snd wq) = None then Some (Inr wq)
      else drain (on_queue ap_message_delete) (cells \<circ> snd) ap_travel_free
             (ap_travel_proc msg_proc) wq)"

section \<open>The contract\<close>

lemma ap_message_insert_rel:
  assumes "queue_rel q ps" "p \<notin> set ps" "cells q p = Some m"
  shows "\<exists>q'. ap_message_insert p q = Inr q' \<and> queue_rel q' (ps @ [p]) \<and> cells q' = cells q"
proof -
  from assms(1) have c: "chain_rel q (tail q) ps" and n: "num q = int (length ps)"
    and d: "set ps \<subseteq> dom (cells q)"
    by (auto simp: queue_rel_def)
  let ?q = "q\<lparr>next_of := (next_of q)(p := None), num := num q + 1\<rparr>"
  let ?r = "(write_slot ?q (tail q) (Some p))\<lparr>tail := NextSlot p\<rparr>"
  have "slot_ok ?q (tail q)"
    using c d slot_ok_end [of ps ?q] by (simp add: chain_rel_def)
  then have eq: "ap_message_insert p q = Inr ?r"
    using assms(3) by (simp add: ap_message_insert_def Let_def)
  have "chain_rel (write_slot (q\<lparr>next_of := (next_of q)(p := None)\<rparr>) (tail q) (Some p))
      (NextSlot p) (ps @ [p])"
    using c assms(2) by (rule chain_rel_append)
  then have "chain_rel ?r (NextSlot p) (ps @ [p])"
    by (cases "tail q") (simp_all add: chain_rel_def)
  then show ?thesis
    using eq n d assms(3) by (auto simp: queue_rel_def)
qed

lemma ap_message_delete_empty:
  "queue_rel q [] \<Longrightarrow> ap_message_delete q = Inr (None, q)"
  by (simp add: queue_rel_def ap_message_delete_def chain_rel_def slot_ok_def)

lemma ap_message_delete_rel:
  assumes "queue_rel q (p # ps)"
  shows "\<exists>q'. ap_message_delete q = Inr (Some p, q') \<and> queue_rel q' ps \<and> cells q' = cells q"
proof -
  from assms have c: "chain_rel q (tail q) (p # ps)" and n: "num q = int (length ps) + 1"
    and d: "insert p (set ps) \<subseteq> dom (cells q)"
    by (auto simp: queue_rel_def)
  note pop = chain_rel_pop [OF c]
  show ?thesis
    using pop n d
    by (auto simp: ap_message_delete_def Let_def queue_rel_def chain_rel_def)
qed

lemma ap_receive_cells: "ap_receive p m q = Inr q' \<Longrightarrow> cells q' = (cells q)(p \<mapsto> m)"
  unfolding ap_receive_def ap_message_insert_def message_malloc_def Let_def
  by (cases "tail q") (auto split: if_splits)

lemma queue_holds_ap_receive:
  assumes "queue_holds q pms" "queue_fresh q p"
  shows "\<exists>q'. ap_receive p m q = Inr q' \<and> queue_holds q' (pms @ [(p, m)])"
proof -
  have "p \<notin> set (map fst pms)"
    using assms by (auto simp: queue_holds_def queue_fresh_def)
  moreover have "queue_rel (message_malloc p m q) (map fst pms)"
    using assms by (simp add: queue_holds_def queue_rel_malloc)
  ultimately obtain q' where q': "ap_message_insert p (message_malloc p m q) = Inr q'"
    "queue_rel q' (map fst pms @ [p])" "cells q' = cells (message_malloc p m q)"
    using ap_message_insert_rel [of "message_malloc p m q" "map fst pms" p m]
    by (auto simp: message_malloc_def)
  then show ?thesis
    using queue_holds_snoc [OF assms q'(2,3)] by (simp add: ap_receive_def)
qed

lemma queue_holds_ap_delete:
  assumes "queue_holds q ((p, m) # pms)"
  shows "\<exists>q'. ap_message_delete q = Inr (Some p, q') \<and> queue_taken q' p m pms"
proof -
  obtain q' where "ap_message_delete q = Inr (Some p, q')" "queue_rel q' (map fst pms)"
    "cells q' = cells q"
    using ap_message_delete_rel [OF queue_holds_ConsD(1) [OF assms]] by auto
  with queue_taken_del [OF assms] show ?thesis by blast
qed

interpretation apq: message_queue queue_holds queue_taken queue_fresh ap_receive
  ap_message_delete cells message_free
  by unfold_locales
    (auto simp: queue_holds_Nil ap_message_delete_empty queue_taken_def
      intro: queue_holds_ap_receive queue_holds_ap_delete queue_taken_free [unfolded queue_taken_def]
      dest: queue_holds_ap_delete)

text \<open>The processing thread is a consumer, for every handler.\<close>

interpretation apt: message_consumer
  "\<lambda>wq. queue_holds (snd wq)" "\<lambda>wq. queue_taken (snd wq)" "\<lambda>wq. queue_fresh (snd wq)"
  "\<lambda>p m wq. bind_res (ap_receive p m (snd wq)) (\<lambda>q. Inr (fst wq, q))"
  "on_queue ap_message_delete" "cells \<circ> snd" ap_travel_free "ap_travel_proc msg_proc" fst msg_proc
  for msg_proc :: "message_t \<Rightarrow> 'w \<Rightarrow> 'w res"
proof (unfold_locales, goal_cases)
  case (1 s pms p m)
  then show ?case using apq.ins_law [of "snd s" pms p m] by auto
next
  case (2 s)
  then show ?case using apq.del_empty [of "snd s"] by (auto simp: on_queue_def)
next
  case (3 s p m pms)
  then show ?case using apq.del_law [of "snd s" p m pms] by (auto simp: on_queue_def)
next
  case (4 s p m pms)
  then show ?case by (simp add: queue_taken_def)
next
  case (5 s p m pms)
  then show ?case using apq.rel_law [of "snd s" p m pms] by (auto simp: ap_travel_free_def)
qed (auto simp: ap_travel_proc_def on_queue_def ap_travel_free_def bind_res_Inr_iff)

section \<open>Properties\<close>

text \<open>
  C10. The queue is first in, first out and loses nothing: in every run of the receiving
  and the processing thread, started from the empty queue, no step faults, and the
  messages accepted are the messages taken followed by the messages still queued, in order.
\<close>

theorem ap_queue_fifo:
  "\<exists>acc dlv q pms.
     run_events queue_fresh ap_receive ap_message_delete cells message_free evs ap_queue_init
       = Inr (acc, dlv, q) \<and> queue_holds q pms \<and> acc = dlv @ map snd pms"
proof -
  have "queue_holds ap_queue_init []"
    by (simp add: ap_queue_init_def queue_holds_Nil queue_rel_def chain_rel_def)
  from apq.run_events_fifo [OF this, of evs] show ?thesis by simp
qed

text \<open>
  A round of \<^verbatim>\<open>message_travel\<close> terminates: when the handler faults on none of the queued
  messages, every one is handled once, in the order of arrival, freed, and the queue is
  empty; when the handler faults, the round ends with that fault.
\<close>

theorem ap_message_travel_drains:
  assumes "queue_holds q pms"
  shows "case process_all msg_proc (map snd pms) w of
      Inl e \<Rightarrow> ap_message_travel msg_proc (w, q) = Some (Inl e)
    | Inr w' \<Rightarrow> \<exists>q'. ap_message_travel msg_proc (w, q) = Some (Inr (w', q')) \<and> queue_holds q' []"
proof (cases pms)
  case Nil
  then have "hd_ptr q = None"
    using assms by (simp add: queue_holds_Nil queue_rel_def chain_rel_def)
  then show ?thesis using assms Nil by (simp add: ap_message_travel_def)
next
  case (Cons pm rest)
  then have "hd_ptr q \<noteq> None"
    using assms by (auto simp: queue_holds_def queue_rel_def chain_rel_def)
  then show ?thesis
    using apt.drain_processes_all [of "(w, q)" pms msg_proc] assms
    by (auto simp: ap_message_travel_def split: sum.splits)
qed

text \<open>Two messages, the handler collects their lengths.\<close>

definition ex_queue :: msg_queue where
  "ex_queue = \<lparr>hd_ptr = Some 1, next_of = (\<lambda>_. None)(1 := Some 2), tail = NextSlot 2, num = 2,
     cells = [1 \<mapsto> \<lparr>proto = 8000, msg_len = 96, data = []\<rparr>, 2 \<mapsto> \<lparr>proto = 8001, msg_len = 80, data = []\<rparr>]\<rparr>"

theorem ap_message_travel_drains_witness:
  "\<exists>q'. ap_message_travel (\<lambda>m w. Inr (w @ [msg_len m])) ([], ex_queue) = Some (Inr ([96, 80], q')) \<and>
        queue_holds q' []"
proof -
  have "queue_holds ex_queue [(1, \<lparr>proto = 8000, msg_len = 96, data = []\<rparr>),
      (2, \<lparr>proto = 8001, msg_len = 80, data = []\<rparr>)]"
    by (simp add: ex_queue_def queue_holds_def queue_rel_def chain_rel_def end_slot_def)
  from ap_message_travel_drains [OF this, of "\<lambda>m w. Inr (w @ [msg_len m])" "[]"]
  show ?thesis by simp
qed

end
