(* ===== verification/Aphash.thy ===== *)
theory Aphash
  imports Msg_Queue Msg
begin

text \<open>
  The table of access points of the controller, \<^verbatim>\<open>ac/aphash.h\<close> and \<^verbatim>\<open>ac/aphash.c\<close>: the hash
  of a MAC address, \<^verbatim>\<open>hash_init\<close>, the lookup-or-insert \<^verbatim>\<open>hash_ap\<close>, and the message queue
  that every node carries. A node is an element of the bucket array or a node from
  \<^verbatim>\<open>calloc\<close>. The theory proves what \<^verbatim>\<open>hash_ap\<close> does on every branch, the invariant of the
  table, and the contract of the queues.
\<close>

section \<open>The hash of a MAC address\<close>

definition MAX_BUCKET :: nat where "MAX_BUCKET = 16384"
definition IDLE_AP :: nat where "IDLE_AP = MAX_BUCKET + 1"

text \<open>One character; \<^verbatim>\<open>char\<close> is signed, so it is sign extended before the addition.\<close>

definition elf_step :: "u32 \<Rightarrow> byte \<Rightarrow> u32" where
  "elf_step hash c =
     (let hash = push_bit 4 hash + scast c;
          x = hash AND 0xF0000000;
          hash = (if x \<noteq> 0 then hash XOR drop_bit 24 x else hash)
      in hash AND NOT x)"

definition elfhash :: "byte list \<Rightarrow> nat \<Rightarrow> u32" where
  "elfhash str len = foldl elf_step 0 (take len str)"

text \<open>\<^verbatim>\<open>assert(data != NULL && len > 0)\<close> holds in its only call, with \<open>len = 6\<close>.\<close>

definition hash_key :: "byte list \<Rightarrow> nat \<Rightarrow> nat" where
  "hash_key str len = unat (elfhash str len) mod MAX_BUCKET"

section \<open>The table\<close>

record ap_status_t =
  st_isreg :: int
  st_reguuid :: "byte list"
  st_level :: int

record ap_t =
  ap_mac :: "byte list"
  ap_sock :: int
  ap_status :: ap_status_t
  ap_random :: u32

datatype nref = Bucket nat | Node ptr

record ap_hash_t =
  key :: nat
  ap :: ap_t
  queue :: msg_queue
  timestamp :: int
  apnext :: "nref option"

text \<open>
  \<open>buckets\<close> is the array \<^verbatim>\<open>aphead\<close>, \<open>node_heap\<close> holds the nodes from \<^verbatim>\<open>calloc\<close>, and \<open>held\<close>
  tells which bucket locks are never released again. The counters are unsigned and wrap.
\<close>

record hash_state =
  buckets :: "nat \<Rightarrow> ap_hash_t"
  node_heap :: "ptr \<rightharpoonup> ap_hash_t"
  held :: "nat \<Rightarrow> bool"
  conflict_count :: u32
  ap_innet_cnt :: u32

definition zero_queue :: msg_queue where
  "zero_queue =
     \<lparr>hd_ptr = None, next_of = (\<lambda>_. None), tail = HeadSlot, num = 0, cells = (\<lambda>_. None)\<rparr>"

text \<open>
  Memory from \<^verbatim>\<open>calloc\<close>. The tail slot of a zeroed node is a null pointer; it is set before
  any use, so the model starts it at its value after \<^verbatim>\<open>ptail = &next\<close>.
\<close>

definition zero_node :: ap_hash_t where
  "zero_node = \<lparr>key = 0,
     ap = \<lparr>ap_mac = replicate ETH_ALEN 0, ap_sock = 0,
           ap_status = \<lparr>st_isreg = 0, st_reguuid = replicate UUID_LEN 0, st_level = 0\<rparr>,
           ap_random = 0\<rparr>,
     queue = zero_queue, timestamp = 0, apnext = None\<rparr>"

definition hash_init :: hash_state where
  "hash_init = \<lparr>buckets = (\<lambda>i. zero_node\<lparr>key := IDLE_AP\<rparr>), node_heap = (\<lambda>_. None),
     held = (\<lambda>_. False), conflict_count = 0, ap_innet_cnt = 0\<rparr>"

fun get_node :: "hash_state \<Rightarrow> nref \<Rightarrow> ap_hash_t option" where
  "get_node st (Bucket i) = Some (buckets st i)"
| "get_node st (Node p) = node_heap st p"

fun upd_node :: "nref \<Rightarrow> (ap_hash_t \<Rightarrow> ap_hash_t) \<Rightarrow> hash_state \<Rightarrow> hash_state" where
  "upd_node (Bucket i) f st = st\<lparr>buckets := (buckets st)(i := f (buckets st i))\<rparr>"
| "upd_node (Node p) f st = st\<lparr>node_heap := (node_heap st)(p := map_option f (node_heap st p))\<rparr>"

text \<open>
  The loop that travels the bucket list; it returns the node with the same MAC address,
  if there is one, and the conflict counter. \<open>None\<close> is a loop that does not end.
\<close>

partial_function (option) hash_travel ::
  "hash_state \<Rightarrow> byte list \<Rightarrow> nref option \<Rightarrow> u32 \<Rightarrow> (nref option \<times> u32) res option" where
  "hash_travel st hw aphash cnt =
     (case aphash of
        None \<Rightarrow> Some (Inr (None, cnt))
      | Some r \<Rightarrow> (case get_node st r of
          None \<Rightarrow> Some (Inl UseAfterFree)
        | Some n \<Rightarrow>
            if strncmp_eq ETH_ALEN (ap_mac (ap n)) hw then Some (Inr (Some r, cnt))
            else hash_travel st hw (apnext n) (cnt + 1)))"

text \<open>
  The part from the label \<^verbatim>\<open>new\<close>: \<open>r\<close> is the node, \<open>i\<close> the bucket whose MAC field \<^verbatim>\<open>dest\<close>
  points to.
\<close>

definition hash_new :: "nref \<Rightarrow> nat \<Rightarrow> byte list \<Rightarrow> hash_state \<Rightarrow> hash_state" where
  "hash_new r i hw st =
     (let st = upd_node r (\<lambda>n. n\<lparr>key := i, queue := (queue n)\<lparr>tail := HeadSlot\<rparr>\<rparr>) st;
          st = upd_node (Bucket i) (\<lambda>n. n\<lparr>ap := (ap n)\<lparr>ap_mac := take 6 hw\<rparr>\<rparr>) st
      in st\<lparr>ap_innet_cnt := ap_innet_cnt st + 1\<rparr>)"

text \<open>
  \<open>alloc\<close> is what \<^verbatim>\<open>calloc\<close> returns. After the loop \<open>pprev\<close> is the address of the local
  variable \<open>aphash\<close>, so \<^verbatim>\<open>(*pprev)->apnext = aphash\<close> links the new node to itself. When
  \<^verbatim>\<open>calloc\<close> fails the bucket lock stays locked.
\<close>

definition hash_ap ::
  "byte list \<Rightarrow> ptr option \<Rightarrow> hash_state \<Rightarrow> (nref option \<times> hash_state) res option" where
  "hash_ap hw alloc st =
     (let i = hash_key hw 6 in
      if held st i then Some (Inl LockHeld)
      else if key (buckets st i) = IDLE_AP
      then Some (Inr (Some (Bucket i), hash_new (Bucket i) i hw st))
      else case hash_travel st hw (Some (Bucket i)) (conflict_count st) of
        None \<Rightarrow> None
      | Some (Inl e) \<Rightarrow> Some (Inl e)
      | Some (Inr (Some r, cnt)) \<Rightarrow> Some (Inr (Some r, st\<lparr>conflict_count := cnt\<rparr>))
      | Some (Inr (None, cnt)) \<Rightarrow>
          (let st = st\<lparr>conflict_count := cnt\<rparr> in
           case alloc of
             None \<Rightarrow> Some (Inr (None, st\<lparr>held := (held st)(i := True)\<rparr>))
           | Some p \<Rightarrow>
               (let st = st\<lparr>node_heap := (node_heap st)(p \<mapsto> zero_node)\<rparr>;
                    st = upd_node (Node p) (\<lambda>n. n\<lparr>apnext := Some (Node p)\<rparr>) st
                in Some (Inr (Some (Node p), hash_new (Node p) i hw st)))))"

section \<open>The message queue of a node\<close>

definition ac_message_insert :: "ptr \<Rightarrow> msg_queue \<Rightarrow> msg_queue res" where
  "ac_message_insert msg q =
     (if cells q msg = None then Inl UseAfterFree else
      let q = q\<lparr>next_of := (next_of q)(msg := None)\<rparr>
      in if \<not> slot_ok q (tail q) then Inl UseAfterFree
         else let q = write_slot q (tail q) (Some msg);
                  q = q\<lparr>tail := NextSlot msg\<rparr>
              in Inr (q\<lparr>num := num q + 1\<rparr>))"

definition ac_message_delete :: "msg_queue \<Rightarrow> (ptr option \<times> msg_queue) res" where
  "ac_message_delete q =
     (case hd_ptr q of
        None \<Rightarrow> Inr (None, q)
      | Some msg \<Rightarrow>
          if cells q msg = None then Inl UseAfterFree
          else let q = q\<lparr>hd_ptr := next_of q msg\<rparr>;
                   q = q\<lparr>num := num q - 1\<rparr>;
                   q = (if NextSlot msg = tail q then q\<lparr>tail := HeadSlot\<rparr> else q)
               in Inr (Some msg, q))"

section \<open>The hash stays below 28 bits\<close>

lemma elf_step_high_clear: "elf_step hash c AND 0xF0000000 = 0"
proof -
  define h where "h = push_bit 4 hash + scast c"
  define x where "x = h AND 0xF0000000"
  have m: "bit (0xF0000000 :: u32) n \<Longrightarrow> 28 \<le> n" for n
  proof -
    have "(0xF0000000 :: u32) = push_bit 28 15" by simp
    then show "bit (0xF0000000 :: u32) n \<Longrightarrow> 28 \<le> n"
      by (simp only: bit_push_bit_iff)
  qed
  have eq: "elf_step hash c = (if x \<noteq> 0 then h XOR drop_bit 24 x else h) AND NOT x"
    by (simp only: elf_step_def Let_def h_def x_def)
  show ?thesis
  proof (rule bit_word_eqI)
    fix n assume "n < LENGTH(32)"
    show "bit (elf_step hash c AND 0xF0000000) n = bit (0 :: u32) n"
    proof (cases "bit (0xF0000000 :: u32) n")
      case True
      then have n: "28 \<le> n" by (rule m)
      have "\<not> bit (drop_bit 24 x) n"
        using n by (auto simp: bit_simps x_def dest: bit_imp_le_length)
      then have "\<not> bit ((if x \<noteq> 0 then h XOR drop_bit 24 x else h) AND NOT x) n"
        using True by (auto simp: bit_simps x_def)
      then show ?thesis
        unfolding eq by (simp only: bit_and_iff) simp
    next
      case False
      then show ?thesis by (simp add: bit_and_iff)
    qed
  qed
qed

lemma word32_high_clear: "(w :: u32) AND 0xF0000000 = 0 \<Longrightarrow> unat w < 2 ^ 28"
proof -
  assume a: "w AND 0xF0000000 = 0"
  have f: "(0xF0000000 :: u32) = push_bit 28 (mask 4)" by (simp add: mask_eq_exp_minus_1)
  have "drop_bit 28 w = 0"
  proof (rule bit_word_eqI)
    fix n assume "n < LENGTH(32)"
    have "\<not> bit (w AND push_bit 28 (mask 4)) (28 + n)"
      using a unfolding f by simp
    then show "bit (drop_bit 28 w) n = bit (0 :: u32) n"
      by (auto simp: bit_simps dest: bit_imp_le_length)
  qed
  then have "unat w div 2 ^ 28 = 0"
    using unat_shr [of 28 w] by simp
  then show ?thesis by (simp add: div_eq_0_iff)
qed

lemma elfhash_bound: "unat (elfhash str len) < 2 ^ 28"
proof -
  have "foldl elf_step 0 cs AND 0xF0000000 = 0" for cs
    by (induction cs rule: rev_induct) (simp_all add: elf_step_high_clear)
  then show ?thesis unfolding elfhash_def by (intro word32_high_clear)
qed

lemma hash_key_bound: "hash_key str len < MAX_BUCKET"
  by (simp add: hash_key_def MAX_BUCKET_def)

section \<open>The invariant of the table\<close>

text \<open>
  A bucket element is idle or carries its own index and has no successor; a node from
  \<^verbatim>\<open>calloc\<close> is its own successor.
\<close>

definition hash_inv :: "hash_state \<Rightarrow> bool" where
  "hash_inv st \<longleftrightarrow>
     (\<forall>i. apnext (buckets st i) = None \<and> length (ap_mac (ap (buckets st i))) = ETH_ALEN \<and>
          (key (buckets st i) = IDLE_AP \<or> key (buckets st i) = i)) \<and>
     (\<forall>p n. node_heap st p = Some n \<longrightarrow>
          apnext n = Some (Node p) \<and> length (ap_mac (ap n)) = ETH_ALEN)"

text \<open>The nodes that the traversal of bucket \<open>i\<close> visits.\<close>

inductive listed :: "hash_state \<Rightarrow> nat \<Rightarrow> nref \<Rightarrow> bool" for st i where
  listed_head: "listed st i (Bucket i)"
| listed_next: "listed st i r \<Longrightarrow> get_node st r = Some n \<Longrightarrow> apnext n = Some r' \<Longrightarrow> listed st i r'"

lemma listed_inv: "hash_inv st \<Longrightarrow> listed st i r \<longleftrightarrow> r = Bucket i"
proof
  assume inv: "hash_inv st" and "listed st i r"
  from this(2) show "r = Bucket i"
    by (induction rule: listed.induct) (use inv in \<open>auto simp: hash_inv_def\<close>)
qed (auto intro: listed_head)

lemma hash_inv_init: "hash_inv hash_init"
  by (simp add: hash_inv_def hash_init_def zero_node_def)

lemma hash_inv_bucket:
  "hash_inv st \<Longrightarrow> apnext (buckets st i) = None"
  "hash_inv st \<Longrightarrow> length (ap_mac (ap (buckets st i))) = ETH_ALEN"
  by (simp_all add: hash_inv_def)

lemma hash_inv_counters [simp]:
  "hash_inv (st\<lparr>conflict_count := c\<rparr>) = hash_inv st"
  "hash_inv (st\<lparr>ap_innet_cnt := d\<rparr>) = hash_inv st"
  "hash_inv (st\<lparr>held := h\<rparr>) = hash_inv st"
  by (simp_all add: hash_inv_def)

lemma hash_inv_new_bucket:
  "hash_inv st \<Longrightarrow> 6 \<le> length hw \<Longrightarrow> hash_inv (hash_new (Bucket i) i hw st)"
  by (simp add: hash_inv_def hash_new_def Let_def ETH_ALEN_def)

definition hash_alloc :: "ptr \<Rightarrow> hash_state \<Rightarrow> hash_state" where
  "hash_alloc p st = st\<lparr>node_heap := (node_heap st)(p \<mapsto> zero_node\<lparr>apnext := Some (Node p)\<rparr>)\<rparr>"

lemma hash_inv_new_node:
  "hash_inv st \<Longrightarrow> 6 \<le> length hw \<Longrightarrow> key (buckets st i) \<noteq> IDLE_AP \<Longrightarrow>
   hash_inv (hash_new (Node p) i hw (hash_alloc p st))"
  by (auto simp: hash_inv_def hash_new_def hash_alloc_def Let_def ETH_ALEN_def zero_node_def)

section \<open>What hash\_ap does\<close>

lemma hash_travel_bucket:
  assumes "hash_inv st"
  shows "hash_travel st hw (Some (Bucket i)) cnt =
     (if strncmp_eq ETH_ALEN (ap_mac (ap (buckets st i))) hw then Some (Inr (Some (Bucket i), cnt))
      else Some (Inr (None, cnt + 1)))"
  using hash_inv_bucket(1) [OF assms] by (simp add: hash_travel.simps)

lemma hash_ap_held: "held st (hash_key hw 6) \<Longrightarrow> hash_ap hw alloc st = Some (Inl LockHeld)"
  by (simp add: hash_ap_def Let_def)

lemma hash_ap_idle:
  "\<not> held st (hash_key hw 6) \<Longrightarrow> key (buckets st (hash_key hw 6)) = IDLE_AP \<Longrightarrow>
   hash_ap hw alloc st =
     Some (Inr (Some (Bucket (hash_key hw 6)), hash_new (Bucket (hash_key hw 6)) (hash_key hw 6) hw st))"
  by (simp add: hash_ap_def Let_def)

lemma hash_ap_hit:
  "hash_inv st \<Longrightarrow> \<not> held st i \<Longrightarrow> i = hash_key hw 6 \<Longrightarrow> key (buckets st i) \<noteq> IDLE_AP \<Longrightarrow>
   strncmp_eq ETH_ALEN (ap_mac (ap (buckets st i))) hw \<Longrightarrow>
   hash_ap hw alloc st = Some (Inr (Some (Bucket i), st))"
  by (simp add: hash_ap_def Let_def hash_travel_bucket)

lemma hash_ap_miss:
  "hash_inv st \<Longrightarrow> \<not> held st i \<Longrightarrow> i = hash_key hw 6 \<Longrightarrow> key (buckets st i) \<noteq> IDLE_AP \<Longrightarrow>
   \<not> strncmp_eq ETH_ALEN (ap_mac (ap (buckets st i))) hw \<Longrightarrow>
   hash_ap hw alloc st = (let st1 = st\<lparr>conflict_count := conflict_count st + 1\<rparr> in
     case alloc of
       None \<Rightarrow> Some (Inr (None, st1\<lparr>held := (held st)(i := True)\<rparr>))
     | Some p \<Rightarrow> Some (Inr (Some (Node p), hash_new (Node p) i hw (hash_alloc p st1))))"
  by (auto simp: hash_ap_def Let_def hash_travel_bucket hash_alloc_def split: option.split)

lemmas hash_ap_cases = hash_ap_idle hash_ap_hit hash_ap_miss

lemma hash_new_buckets:
  "buckets (hash_new (Bucket i) i hw st) i =
     (buckets st i)\<lparr>key := i, queue := (queue (buckets st i))\<lparr>tail := HeadSlot\<rparr>,
                    ap := (ap (buckets st i))\<lparr>ap_mac := take 6 hw\<rparr>\<rparr>"
  "buckets (hash_new (Node p) i hw st) i =
     (buckets st i)\<lparr>ap := (ap (buckets st i))\<lparr>ap_mac := take 6 hw\<rparr>\<rparr>"
  "j \<noteq> i \<Longrightarrow> buckets (hash_new r i hw st) j = (case r of Bucket k \<Rightarrow>
      (if k = j then buckets (hash_new r i hw st) j else buckets st j) | Node p \<Rightarrow> buckets st j)"
  "held (hash_new r i hw st) = held st"
  "ap_innet_cnt (hash_new r i hw st) = ap_innet_cnt st + 1"
  by (cases r; simp add: hash_new_def Let_def)+

section \<open>Properties\<close>

text \<open>Two MAC addresses of the same bucket, and two that start with a zero byte.\<close>

definition ex_mac1 :: "byte list" where "ex_mac1 = [16, 26, 43, 3, 4, 5]"
definition ex_mac2 :: "byte list" where "ex_mac2 = [16, 26, 43, 3, 3, 21]"
definition ex_mac3 :: "byte list" where "ex_mac3 = [0, 1, 2, 3, 4, 5]"
definition ex_mac4 :: "byte list" where "ex_mac4 = [0, 2, 2, 3, 4, 5]"

lemmas ex_macs = ex_mac1_def ex_mac2_def ex_mac3_def ex_mac4_def

lemma ex_elfhash:
  "elfhash ex_mac1 6 = 0x11cb345" "elfhash ex_mac2 6 = 0x11cb345"
  "elfhash ex_mac3 6 AND 0x3FFF = 9029" "elfhash ex_mac4 6 AND 0x3FFF = 9029"
  by code_simp+

lemma hash_key_and: "hash_key str len = unat (elfhash str len AND 0x3FFF)"
proof -
  have "(0x3FFF :: u32) = mask 14" by (simp add: mask_eq_exp_minus_1)
  then have "unat (elfhash str len AND 0x3FFF) = unat (take_bit 14 (elfhash str len))"
    by (simp only: take_bit_eq_mask)
  also have "\<dots> = unat (elfhash str len) mod 2 ^ 14"
    unfolding unsigned_take_bit_eq by (rule take_bit_eq_mod)
  finally show ?thesis by (simp add: hash_key_def MAX_BUCKET_def)
qed

lemma ex_hash_key:
  "hash_key ex_mac1 6 = 13125" "hash_key ex_mac2 6 = 13125"
  "hash_key ex_mac3 6 = 9029" "hash_key ex_mac4 6 = 9029"
  by (simp_all add: hash_key_and ex_elfhash)

definition ex_table :: "byte list \<Rightarrow> hash_state" where
  "ex_table hw = hash_new (Bucket (hash_key hw 6)) (hash_key hw 6) hw hash_init"

lemma ex_table:
  "length hw = 6 \<Longrightarrow> hash_inv (ex_table hw)"
  "\<not> held (ex_table hw) i" "node_heap (ex_table hw) p = None"
  "key (buckets (ex_table hw) (hash_key hw 6)) = hash_key hw 6"
  "length hw = 6 \<Longrightarrow> ap_mac (ap (buckets (ex_table hw) (hash_key hw 6))) = hw"
proof -
  show "length hw = 6 \<Longrightarrow> hash_inv (ex_table hw)"
    unfolding ex_table_def by (rule hash_inv_new_bucket [OF hash_inv_init]) simp
qed (simp_all add: ex_table_def hash_new_def hash_init_def Let_def)

text \<open>
  The hash of any address, of any length and with any signed characters, stays below
  28 bits, and its key always indexes the bucket array.
\<close>

theorem hash_key_in_table: "unat (elfhash str len) < 2 ^ 28 \<and> hash_key str len < MAX_BUCKET"
  using elfhash_bound [of str len] hash_key_bound by simp

text \<open>
  C33. On every table that keeps the invariant, \<^verbatim>\<open>hash_ap\<close> returns if and only if the lock of the bucket is free:
  then its traversal ends and no step faults, whatever \<^verbatim>\<open>calloc\<close> answers, and the table keeps the
  invariant. A result that is not null releases the lock. Null is returned when a node was needed and
  \<^verbatim>\<open>calloc\<close> failed, and then the lock of the bucket stays locked: every later call on this bucket
  waits forever.
\<close>

theorem hash_ap_returns:
  assumes inv: "hash_inv st" and hw: "length hw = 6"
  shows "if held st (hash_key hw 6) then hash_ap hw alloc st = Some (Inl LockHeld)
     else \<exists>r st'. hash_ap hw alloc st = Some (Inr (r, st')) \<and> hash_inv st' \<and>
       (case r of Some n \<Rightarrow> held st' = held st
        | None \<Rightarrow> alloc = None \<and> key (buckets st (hash_key hw 6)) \<noteq> IDLE_AP \<and>
            held st' = (held st)(hash_key hw 6 := True) \<and>
            (\<forall>hw' alloc'. hash_key hw' 6 = hash_key hw 6 \<longrightarrow> hash_ap hw' alloc' st' = Some (Inl LockHeld)))"
proof -
  let ?i = "hash_key hw 6"
  consider (held) "held st ?i" | (idle) "\<not> held st ?i" "key (buckets st ?i) = IDLE_AP"
    | (hit) "\<not> held st ?i" "key (buckets st ?i) \<noteq> IDLE_AP" "strncmp_eq ETH_ALEN (ap_mac (ap (buckets st ?i))) hw"
    | (miss) "\<not> held st ?i" "key (buckets st ?i) \<noteq> IDLE_AP" "\<not> strncmp_eq ETH_ALEN (ap_mac (ap (buckets st ?i))) hw"
    by blast
  then show ?thesis
  proof cases
    case held
    then show ?thesis by (simp add: hash_ap_held)
  next
    case idle
    then show ?thesis using inv hw by (simp add: hash_ap_idle hash_inv_new_bucket hash_new_buckets)
  next
    case hit
    then show ?thesis using hash_ap_hit [OF inv hit(1) refl] inv by auto
  next
    case miss
    note eq = hash_ap_miss [OF inv miss(1) refl miss(2,3)]
    show ?thesis
    proof (cases alloc)
      case None
      then show ?thesis using inv miss by (simp add: eq Let_def hash_ap_held)
    next
      case (Some p)
      have "hash_inv (st\<lparr>conflict_count := conflict_count st + 1\<rparr>)" using inv by simp
      from hash_inv_new_node [OF this] miss hw Some show ?thesis
        by (simp add: eq Let_def hash_new_buckets hash_alloc_def)
    qed
  qed
qed

theorem hash_ap_returns_witness:
  "(\<exists>r st'. hash_ap ex_mac1 None hash_init = Some (Inr (Some r, st')) \<and> hash_inv st' \<and> held st' = held hash_init) \<and>
   (\<exists>st'. hash_ap ex_mac2 None (ex_table ex_mac1) = Some (Inr (None, st')) \<and>
      hash_ap ex_mac1 (Some 7) st' = Some (Inl LockHeld))"
proof
  have idle: "key (buckets hash_init (hash_key ex_mac1 6)) = IDLE_AP" "\<not> held hash_init (hash_key ex_mac1 6)"
    by (simp_all add: hash_init_def)
  have "length ex_mac1 = 6" by (simp add: ex_macs)
  from hash_ap_returns [OF hash_inv_init this, of None] idle
  show "\<exists>r st'. hash_ap ex_mac1 None hash_init = Some (Inr (Some r, st')) \<and> hash_inv st' \<and> held st' = held hash_init"
    by (auto split: option.splits)
next
  have len: "length ex_mac2 = 6" "length ex_mac1 = 6" by (simp_all add: ex_macs)
  then have inv: "hash_inv (ex_table ex_mac1)" and k: "hash_key ex_mac1 6 = hash_key ex_mac2 6"
    and free: "\<not> held (ex_table ex_mac1) (hash_key ex_mac2 6)"
    by (simp_all add: ex_table ex_hash_key)
  have "key (buckets (ex_table ex_mac1) (hash_key ex_mac2 6)) \<noteq> IDLE_AP"
    using ex_table(4) [of ex_mac1] by (simp add: ex_hash_key IDLE_AP_def MAX_BUCKET_def)
  moreover have "ap_mac (ap (buckets (ex_table ex_mac1) (hash_key ex_mac2 6))) = ex_mac1"
    using ex_table(5) [of ex_mac1] by (simp add: ex_hash_key) (simp add: ex_mac1_def)
  moreover have "\<not> strncmp_eq ETH_ALEN ex_mac1 ex_mac2" by code_simp
  ultimately have "\<exists>st'. hash_ap ex_mac2 None (ex_table ex_mac1) = Some (Inr (None, st'))"
    using hash_ap_miss [OF inv free refl] by (simp add: Let_def)
  with hash_ap_returns [OF inv len(1), of None] free k
  show "\<exists>st'. hash_ap ex_mac2 None (ex_table ex_mac1) = Some (Inr (None, st')) \<and>
      hash_ap ex_mac1 (Some 7) st' = Some (Inl LockHeld)"
    by auto
qed

text \<open>
  An access point that meets an idle bucket is stored there: the bucket carries its
  address and key, the counter of access points grows by one, no other bucket changes, and
  from then on the lookup of the same address finds this bucket and changes nothing.
\<close>

theorem hash_ap_insert_lookup:
  assumes "hash_inv st" "length hw = 6" "\<not> held st (hash_key hw 6)"
    and "key (buckets st (hash_key hw 6)) = IDLE_AP"
  shows "\<exists>st'. hash_ap hw alloc st = Some (Inr (Some (Bucket (hash_key hw 6)), st')) \<and>
     ap_mac (ap (buckets st' (hash_key hw 6))) = hw \<and>
     key (buckets st' (hash_key hw 6)) = hash_key hw 6 \<and>
     ap_innet_cnt st' = ap_innet_cnt st + 1 \<and>
     (\<forall>j. j \<noteq> hash_key hw 6 \<longrightarrow> buckets st' j = buckets st j) \<and>
     hash_ap hw alloc' st' = Some (Inr (Some (Bucket (hash_key hw 6)), st'))"
proof -
  let ?i = "hash_key hw 6"
  let ?st = "hash_new (Bucket ?i) ?i hw st"
  have inv: "hash_inv ?st" using assms by (simp add: hash_inv_new_bucket)
  have k: "key (buckets ?st ?i) = ?i" "ap_mac (ap (buckets ?st ?i)) = hw" "\<not> held ?st ?i"
    using assms by (simp_all add: hash_new_buckets)
  have "?i \<noteq> IDLE_AP" using hash_key_bound [of hw 6] by (simp add: IDLE_AP_def)
  then have "hash_ap hw alloc' ?st = Some (Inr (Some (Bucket ?i), ?st))"
    using hash_ap_hit [OF inv k(3) refl] k by simp
  then show ?thesis
    using assms k by (simp add: hash_ap_idle hash_new_buckets)
qed

theorem hash_ap_insert_lookup_witness:
  "\<exists>st'. hash_ap ex_mac1 None hash_init = Some (Inr (Some (Bucket 13125), st')) \<and>
     ap_mac (ap (buckets st' 13125)) = ex_mac1 \<and>
     hash_ap ex_mac1 None st' = Some (Inr (Some (Bucket 13125), st'))"
proof -
  have "\<not> held hash_init (hash_key ex_mac1 6)" "key (buckets hash_init (hash_key ex_mac1 6)) = IDLE_AP"
    "length ex_mac1 = 6"
    by (simp_all add: hash_init_def ex_mac1_def)
  from hash_ap_insert_lookup [OF hash_inv_init this(3,1,2), of None None]
  show ?thesis by (simp add: ex_hash_key) blast
qed

text \<open>
  C34. A second access point in an occupied bucket is not added to its list: \<^verbatim>\<open>hash_ap\<close>
  returns a new node that no traversal of any bucket visits, whose own address is still
  zero, and overwrites the address stored in the bucket. The access point that was stored
  there is lost: its next lookup misses and allocates another detached node.
\<close>

theorem hash_ap_collision_loses_ap:
  assumes inv: "hash_inv st" and len: "length hw = 6" "length old = 6"
    and free: "\<not> held st i" and keys: "i = hash_key hw 6" "i = hash_key old 6"
    and occupied: "key (buckets st i) \<noteq> IDLE_AP" "ap_mac (ap (buckets st i)) = old"
    and differ: "\<not> strncmp_eq ETH_ALEN old hw"
  shows "\<exists>st' n. hash_ap hw (Some p) st = Some (Inr (Some (Node p), st')) \<and>
     (\<forall>j. \<not> listed st' j (Node p)) \<and>
     node_heap st' p = Some n \<and> ap_mac (ap n) = replicate 6 0 \<and>
     ap_mac (ap (buckets st' i)) = hw \<and>
     (\<exists>st''. hash_ap old (Some p') st' = Some (Inr (Some (Node p'), st'')))"
proof -
  let ?st1 = "st\<lparr>conflict_count := conflict_count st + 1\<rparr>"
  let ?st' = "hash_new (Node p) i hw (hash_alloc p ?st1)"
  have miss: "hash_ap hw (Some p) st = Some (Inr (Some (Node p), ?st'))"
    using hash_ap_miss [OF inv free keys(1) occupied(1)] differ occupied(2) by (simp add: Let_def)
  have inv': "hash_inv ?st'"
    using inv len occupied by (intro hash_inv_new_node) simp_all
  have b: "key (buckets ?st' i) \<noteq> IDLE_AP" "ap_mac (ap (buckets ?st' i)) = hw" "\<not> held ?st' i"
    using occupied len free by (simp_all add: hash_new_buckets hash_alloc_def)
  have "\<not> strncmp_eq ETH_ALEN hw old"
    using differ strncmp_eq_sym by blast
  then have miss': "\<exists>st''. hash_ap old (Some p') ?st' = Some (Inr (Some (Node p'), st''))"
    using hash_ap_miss [OF inv' b(3) keys(2) b(1)] b(2) by (simp add: Let_def)
  have "node_heap ?st' p = Some (zero_node\<lparr>apnext := Some (Node p), key := i,
      queue := (queue zero_node)\<lparr>tail := HeadSlot\<rparr>\<rparr>)"
    by (simp add: hash_new_def hash_alloc_def Let_def)
  moreover have "\<forall>j. \<not> listed ?st' j (Node p)"
    using listed_inv [OF inv'] by simp
  ultimately show ?thesis
    using miss miss' b(2) by (auto simp: zero_node_def ETH_ALEN_def)
qed

theorem hash_ap_collision_loses_ap_witness:
  "\<exists>st' n. hash_ap ex_mac2 (Some 7) (ex_table ex_mac1) = Some (Inr (Some (Node 7), st')) \<and>
     (\<forall>j. \<not> listed st' j (Node 7)) \<and>
     node_heap st' 7 = Some n \<and> ap_mac (ap n) = replicate 6 0 \<and>
     ap_mac (ap (buckets st' 13125)) = ex_mac2 \<and>
     (\<exists>st''. hash_ap ex_mac1 (Some 8) st' = Some (Inr (Some (Node 8), st'')))"
proof (rule hash_ap_collision_loses_ap)
  show "key (buckets (ex_table ex_mac1) 13125) \<noteq> IDLE_AP"
    using ex_table(4) [of ex_mac1] by (simp add: ex_hash_key IDLE_AP_def MAX_BUCKET_def)
  show "ap_mac (ap (buckets (ex_table ex_mac1) 13125)) = ex_mac1"
    using ex_table(5) [of ex_mac1] by (simp add: ex_hash_key) (simp add: ex_mac1_def)
  show "\<not> strncmp_eq ETH_ALEN ex_mac1 ex_mac2"
    by code_simp
  show "hash_inv (ex_table ex_mac1)" "length ex_mac2 = 6" "length ex_mac1 = 6"
    by (simp_all add: ex_table ex_macs)
qed (simp_all add: ex_hash_key ex_table)

text \<open>
  Addresses that start with a zero byte are confused: \<^verbatim>\<open>strncmp\<close> stops at the first
  byte, so any such address finds the access point of another one in the same bucket.
\<close>

theorem hash_ap_confuses_zero_prefix:
  assumes "hash_inv st" "\<not> held st i" "i = hash_key hw 6" "key (buckets st i) \<noteq> IDLE_AP"
    and "ap_mac (ap (buckets st i)) = 0 # rest" "hw = 0 # rest'"
  shows "hash_ap hw alloc st = Some (Inr (Some (Bucket i), st))"
  using assms by (intro hash_ap_hit) (simp_all add: ETH_ALEN_def eval_nat_numeral)

theorem hash_ap_confuses_zero_prefix_witness:
  "ex_mac3 \<noteq> ex_mac4 \<and>
   hash_ap ex_mac4 None (ex_table ex_mac3) = Some (Inr (Some (Bucket 9029), ex_table ex_mac3))"
proof -
  have t: "key (buckets (ex_table ex_mac3) 9029) = 9029"
    "ap_mac (ap (buckets (ex_table ex_mac3) 9029)) = ex_mac3"
    using ex_table(4,5) [of ex_mac3] by (simp_all add: ex_hash_key) (simp_all add: ex_mac3_def)
  have "hash_ap ex_mac4 None (ex_table ex_mac3) = Some (Inr (Some (Bucket 9029), ex_table ex_mac3))"
    by (rule hash_ap_confuses_zero_prefix [where rest = "tl ex_mac3" and rest' = "tl ex_mac4"])
      (simp_all add: t ex_table ex_hash_key, simp_all add: ex_macs IDLE_AP_def MAX_BUCKET_def ex_table)
  then show ?thesis by (simp add: ex_macs)
qed

end
