(* ===== verification/Ac_Travel.thy ===== *)
theory Ac_Travel
  imports Aphash
begin

text \<open>
  The message queues of the table of access points, \<^verbatim>\<open>ac/aphash.c\<close>: the contract of a
  message queue for the operations of one node, and the processing thread
  \<^verbatim>\<open>message_travel\<close>, which visits every bucket, travels its list and drains each queue.
\<close>

section \<open>The queue of a node\<close>

text \<open>Allocation and insertion of a received message, \<^verbatim>\<open>__net_dllrecv\<close> and \<^verbatim>\<open>__net_netrcv\<close>.\<close>

definition ac_receive :: "ptr \<Rightarrow> message_t \<Rightarrow> msg_queue \<Rightarrow> msg_queue res" where
  "ac_receive p m q = ac_message_insert p (message_malloc p m q)"

lemma ac_message_insert_rel:
  assumes "queue_rel q ps" "p \<notin> set ps" "cells q p = Some m"
  shows "\<exists>q'. ac_message_insert p q = Inr q' \<and> queue_rel q' (ps @ [p]) \<and> cells q' = cells q"
proof -
  from assms(1) have c: "chain_rel q (tail q) ps" and n: "num q = int (length ps)"
    and d: "set ps \<subseteq> dom (cells q)"
    by (auto simp: queue_rel_def)
  let ?q = "q\<lparr>next_of := (next_of q)(p := None)\<rparr>"
  let ?r = "(write_slot ?q (tail q) (Some p))\<lparr>tail := NextSlot p, num := num q + 1\<rparr>"
  have "slot_ok ?q (tail q)"
    using c d slot_ok_end [of ps ?q] by (simp add: chain_rel_def)
  then have eq: "ac_message_insert p q = Inr ?r"
    using assms(3) by (simp add: ac_message_insert_def Let_def)
  have "chain_rel (write_slot ?q (tail q) (Some p)) (NextSlot p) (ps @ [p])"
    using c assms(2) by (rule chain_rel_append)
  then have "chain_rel ?r (NextSlot p) (ps @ [p])"
    by (cases "tail q") (simp_all add: chain_rel_def)
  then show ?thesis
    using eq n d assms(3) by (auto simp: queue_rel_def)
qed

lemma ac_message_delete_empty: "queue_rel q [] \<Longrightarrow> ac_message_delete q = Inr (None, q)"
  by (simp add: queue_rel_def ac_message_delete_def chain_rel_def)

lemma ac_message_delete_rel:
  assumes "queue_rel q (p # ps)"
  shows "\<exists>q'. ac_message_delete q = Inr (Some p, q') \<and> queue_rel q' ps \<and> cells q' = cells q"
proof -
  from assms have c: "chain_rel q (tail q) (p # ps)" and n: "num q = int (length ps) + 1"
    and d: "insert p (set ps) \<subseteq> dom (cells q)"
    by (auto simp: queue_rel_def)
  note pop = chain_rel_pop [OF c]
  show ?thesis
    using pop n d
    by (auto simp: ac_message_delete_def Let_def queue_rel_def chain_rel_def
        eq_commute [of "NextSlot p" "tail q"])
qed

lemma queue_holds_ac_receive:
  assumes "queue_holds q pms" "queue_fresh q p"
  shows "\<exists>q'. ac_receive p m q = Inr q' \<and> queue_holds q' (pms @ [(p, m)])"
proof -
  have "p \<notin> set (map fst pms)"
    using assms by (auto simp: queue_holds_def queue_fresh_def)
  moreover have "queue_rel (message_malloc p m q) (map fst pms)"
    using assms by (simp add: queue_holds_def queue_rel_malloc)
  ultimately obtain q' where q': "ac_message_insert p (message_malloc p m q) = Inr q'"
    "queue_rel q' (map fst pms @ [p])" "cells q' = cells (message_malloc p m q)"
    using ac_message_insert_rel [of "message_malloc p m q" "map fst pms" p m]
    by (auto simp: message_malloc_def)
  then show ?thesis
    using queue_holds_snoc [OF assms q'(2,3)] by (simp add: ac_receive_def)
qed

lemma queue_holds_ac_delete:
  assumes "queue_holds q ((p, m) # pms)"
  shows "\<exists>q'. ac_message_delete q = Inr (Some p, q') \<and> queue_taken q' p m pms"
proof -
  obtain q' where "ac_message_delete q = Inr (Some p, q')" "queue_rel q' (map fst pms)"
    "cells q' = cells q"
    using ac_message_delete_rel [OF queue_holds_ConsD(1) [OF assms]] by auto
  with queue_taken_del [OF assms] show ?thesis by blast
qed

interpretation acq: message_queue queue_holds queue_taken queue_fresh ac_receive
  ac_message_delete cells message_free
  by unfold_locales
    (auto simp: queue_holds_Nil ac_message_delete_empty queue_taken_def
      intro: queue_holds_ac_receive queue_holds_ac_delete queue_taken_free [unfolded queue_taken_def]
      dest: queue_holds_ac_delete)

section \<open>The processing thread\<close>

text \<open>
  The state of \<^verbatim>\<open>message_travel\<close>: the rest of the program and the table. The handler
  \<^verbatim>\<open>msg_proc\<close> acts on the program and on the \<^verbatim>\<open>ap\<close> of the node it is called with, the only
  part of the node it uses.
\<close>

type_synonym 'w ap_handler = "message_t \<Rightarrow> 'w \<times> ap_t \<Rightarrow> ('w \<times> ap_t) res"

definition on_node :: "nref \<Rightarrow> (msg_queue \<Rightarrow> ('r \<times> msg_queue) res) \<Rightarrow> 'w \<times> hash_state \<Rightarrow>
    ('r \<times> ('w \<times> hash_state)) res" where
  "on_node r f ws =
     (case get_node (snd ws) r of
        None \<Rightarrow> Inl UseAfterFree
      | Some n \<Rightarrow> bind_res (f (queue n)) (\<lambda>(x, q).
          Inr (x, (fst ws, upd_node r (\<lambda>n. n\<lparr>queue := q\<rparr>) (snd ws)))))"

definition node_cell :: "nref \<Rightarrow> 'w \<times> hash_state \<Rightarrow> ptr \<Rightarrow> message_t option" where
  "node_cell r ws p =
     (case get_node (snd ws) r of None \<Rightarrow> None | Some n \<Rightarrow> cells (queue n) p)"

definition node_free :: "nref \<Rightarrow> ptr \<Rightarrow> 'w \<times> hash_state \<Rightarrow> ('w \<times> hash_state) res" where
  "node_free r p ws =
     bind_res (on_node r (\<lambda>q. bind_res (message_free p q) (\<lambda>q. Inr ((), q))) ws)
       (\<lambda>(_, ws). Inr ws)"

definition node_receive :: "nref \<Rightarrow> ptr \<Rightarrow> message_t \<Rightarrow> 'w \<times> hash_state \<Rightarrow> ('w \<times> hash_state) res" where
  "node_receive r p m ws =
     bind_res (on_node r (\<lambda>q. bind_res (ac_receive p m q) (\<lambda>q. Inr ((), q))) ws)
       (\<lambda>(_, ws). Inr ws)"

definition node_proc :: "'w ap_handler \<Rightarrow> nref \<Rightarrow> message_t \<Rightarrow> 'w \<times> hash_state \<Rightarrow>
    ('w \<times> hash_state) res" where
  "node_proc msg_proc r m ws =
     (case get_node (snd ws) r of
        None \<Rightarrow> Inl UseAfterFree
      | Some n \<Rightarrow> bind_res (msg_proc m (fst ws, ap n)) (\<lambda>(w, a).
          Inr (w, upd_node r (\<lambda>n. n\<lparr>ap := a\<rparr>) (snd ws))))"

partial_function (option) ac_travel_list ::
  "'w ap_handler \<Rightarrow> nref option \<Rightarrow> 'w \<times> hash_state \<Rightarrow> ('w \<times> hash_state) res option" where
  "ac_travel_list msg_proc aphash ws =
     (case aphash of
        None \<Rightarrow> Some (Inr ws)
      | Some r \<Rightarrow> (case drain (on_node r ac_message_delete) (node_cell r) (node_free r)
                            (node_proc msg_proc r) ws of
          None \<Rightarrow> None
        | Some rs \<Rightarrow> (case rs of
            Inl e \<Rightarrow> Some (Inl e)
          | Inr ws \<Rightarrow> (case get_node (snd ws) r of
              None \<Rightarrow> Some (Inl UseAfterFree)
            | Some n \<Rightarrow> ac_travel_list msg_proc (apnext n) ws))))"

fun ac_travel_buckets ::
  "'w ap_handler \<Rightarrow> nat list \<Rightarrow> 'w \<times> hash_state \<Rightarrow> ('w \<times> hash_state) res option" where
  "ac_travel_buckets msg_proc [] ws = Some (Inr ws)"
| "ac_travel_buckets msg_proc (i # is) ws =
     (case ac_travel_list msg_proc (Some (Bucket i)) ws of
        None \<Rightarrow> None
      | Some (Inl e) \<Rightarrow> Some (Inl e)
      | Some (Inr ws) \<Rightarrow> ac_travel_buckets msg_proc is ws)"

text \<open>One round of the thread, after its \<^verbatim>\<open>sleep\<close>.\<close>

definition ac_message_travel ::
  "'w ap_handler \<Rightarrow> 'w \<times> hash_state \<Rightarrow> ('w \<times> hash_state) res option" where
  "ac_message_travel msg_proc ws = ac_travel_buckets msg_proc [0..<MAX_BUCKET] ws"

section \<open>A bucket is drained\<close>

text \<open>The table with the access point and the queue of one bucket masked.\<close>

definition mask_bucket :: "nat \<Rightarrow> hash_state \<Rightarrow> hash_state" where
  "mask_bucket i st = upd_node (Bucket i) (\<lambda>n. n\<lparr>ap := ap zero_node, queue := zero_queue\<rparr>) st"

definition bucket_view :: "nat \<Rightarrow> 'w \<times> hash_state \<Rightarrow> ('w \<times> ap_t) \<times> hash_state" where
  "bucket_view i ws = ((fst ws, ap (buckets (snd ws) i)), mask_bucket i (snd ws))"

definition on_fst :: "('m \<Rightarrow> 'a \<Rightarrow> 'a res) \<Rightarrow> 'm \<Rightarrow> 'a \<times> 'b \<Rightarrow> ('a \<times> 'b) res" where
  "on_fst f m ab = bind_res (f m (fst ab)) (\<lambda>a. Inr (a, snd ab))"

lemma process_all_on_fst:
  "process_all (on_fst f) ms (a, b) = bind_res (process_all f ms a) (\<lambda>a. Inr (a, b))"
  by (induction ms arbitrary: a) (auto simp: on_fst_def split: sum.splits bind_res_split)

lemma mask_bucket_upd [simp]:
  "mask_bucket i (upd_node (Bucket i) (\<lambda>n. n\<lparr>queue := q\<rparr>) st) = mask_bucket i st"
  "mask_bucket i (upd_node (Bucket i) (\<lambda>n. n\<lparr>ap := a\<rparr>) st) = mask_bucket i st"
  by (simp_all add: mask_bucket_def)

lemma mask_bucket_eqD:
  assumes "mask_bucket i st' = mask_bucket i st"
  shows "st' = upd_node (Bucket i)
     (\<lambda>n. n\<lparr>ap := ap (buckets st' i), queue := queue (buckets st' i)\<rparr>) st"
proof -
  have b: "(buckets st')(i := (buckets st' i)\<lparr>ap := ap zero_node, queue := zero_queue\<rparr>) =
      (buckets st)(i := (buckets st i)\<lparr>ap := ap zero_node, queue := zero_queue\<rparr>)"
    using arg_cong [OF assms, of buckets] by (simp add: mask_bucket_def)
  have r: "node_heap st' = node_heap st" "held st' = held st"
      "conflict_count st' = conflict_count st" "ap_innet_cnt st' = ap_innet_cnt st"
    using arg_cong [OF assms, of node_heap] arg_cong [OF assms, of held]
      arg_cong [OF assms, of conflict_count] arg_cong [OF assms, of ap_innet_cnt]
    by (simp_all add: mask_bucket_def)
  have o: "buckets st' j = buckets st j" if "j \<noteq> i" for j
    using fun_cong [OF b, of j] that by simp
  have e: "(buckets st' i)\<lparr>ap := ap zero_node, queue := zero_queue\<rparr> =
      (buckets st i)\<lparr>ap := ap zero_node, queue := zero_queue\<rparr>"
    using fun_cong [OF b, of i] by simp
  have "key (buckets st' i) = key (buckets st i)" "timestamp (buckets st' i) = timestamp (buckets st i)"
    "apnext (buckets st' i) = apnext (buckets st i)"
    using arg_cong [OF e, of key] arg_cong [OF e, of timestamp] arg_cong [OF e, of apnext]
    by simp_all
  then have "buckets st' = (buckets st)(i := (buckets st i)
      \<lparr>ap := ap (buckets st' i), queue := queue (buckets st' i)\<rparr>)"
    using o by (auto simp: fun_eq_iff intro!: ap_hash_t.equality)
  then show ?thesis using r by (auto intro!: hash_state.equality)
qed

lemmas node_defs = on_node_def node_cell_def node_free_def node_receive_def node_proc_def

interpretation act: message_consumer
  "\<lambda>ws. queue_holds (queue (buckets (snd ws) i))" "\<lambda>ws. queue_taken (queue (buckets (snd ws) i))"
  "\<lambda>ws. queue_fresh (queue (buckets (snd ws) i))" "node_receive (Bucket i)"
  "on_node (Bucket i) ac_message_delete" "node_cell (Bucket i)" "node_free (Bucket i)"
  "node_proc msg_proc (Bucket i)" "bucket_view i" "on_fst msg_proc"
  for i :: nat and msg_proc :: "'w ap_handler"
proof (unfold_locales, goal_cases)
  case (1 s pms p m)
  then show ?case using acq.ins_law [of "queue (buckets (snd s) i)" pms p m] by (auto simp: node_defs)
next
  case (2 s)
  then show ?case using acq.del_empty [of "queue (buckets (snd s) i)"] by (auto simp: node_defs)
next
  case (3 s p m pms)
  then show ?case using acq.del_law [of "queue (buckets (snd s) i)" p m pms] by (auto simp: node_defs)
next
  case (4 s p m pms)
  then show ?case by (simp add: queue_taken_def node_defs)
next
  case (5 s p m pms)
  then show ?case using acq.rel_law [of "queue (buckets (snd s) i)" p m pms] by (auto simp: node_defs)
next
  case (6 s p m pms e)
  then show ?case by (auto simp: node_proc_def on_fst_def bucket_view_def split: bind_res_split)
next
  case (7 s p m pms w)
  then show ?case
    by (auto simp: node_proc_def on_fst_def bucket_view_def mask_bucket_def bind_res_Inr_iff)
next
  case (8 s r s')
  then show ?case by (auto simp: on_node_def bucket_view_def mask_bucket_def bind_res_Inr_iff)
next
  case (9 p s s')
  then show ?case 
    by (auto simp: on_node_def node_free_def bucket_view_def mask_bucket_def bind_res_Inr_iff)
qed

lemma ac_travel_list_bucket:
  assumes q: "queue_holds (queue (buckets st i)) pms" and n: "apnext (buckets st i) = None"
  shows "case process_all msg_proc (map snd pms) (w, ap (buckets st i)) of
      Inl e \<Rightarrow> ac_travel_list msg_proc (Some (Bucket i)) (w, st) = Some (Inl e)
    | Inr (w', a) \<Rightarrow> \<exists>q. ac_travel_list msg_proc (Some (Bucket i)) (w, st) =
        Some (Inr (w', upd_node (Bucket i) (\<lambda>n. n\<lparr>ap := a, queue := q\<rparr>) st)) \<and> queue_holds q []"
proof -
  let ?dr = "drain (on_node (Bucket i) ac_message_delete) (node_cell (Bucket i))
      (node_free (Bucket i)) (node_proc msg_proc (Bucket i)) (w, st)"
  have v: "bucket_view i (w, st) = ((w, ap (buckets st i)), mask_bucket i st)"
    by (simp add: bucket_view_def)
  have d: "case process_all (on_fst msg_proc) (map snd pms) (bucket_view i (w, st)) of
      Inl e \<Rightarrow> ?dr = Some (Inl e)
    | Inr v \<Rightarrow> \<exists>s'. ?dr = Some (Inr s') \<and> bucket_view i s' = v \<and>
        queue_holds (queue (buckets (snd s') i)) []"
    using q by (intro act.drain_processes_all) simp
  show ?thesis
  proof (cases "process_all msg_proc (map snd pms) (w, ap (buckets st i))")
    case (Inl e)
    then show ?thesis
      using d by (simp add: v process_all_on_fst ac_travel_list.simps)
  next
    case (Inr wa)
    obtain w' a where wa: "wa = (w', a)" by (cases wa)
    obtain w2 st2 where s: "?dr = Some (Inr (w2, st2))"
      "bucket_view i (w2, st2) = ((w', a), mask_bucket i st)" "queue_holds (queue (buckets st2 i)) []"
      using d by (auto simp: v process_all_on_fst Inr wa)
    from s(2) have m: "w2 = w'" "ap (buckets st2 i) = a" "mask_bucket i st2 = mask_bucket i st"
      by (simp_all add: bucket_view_def)
    have st2: "st2 = upd_node (Bucket i) (\<lambda>n. n\<lparr>ap := a, queue := queue (buckets st2 i)\<rparr>) st"
      using mask_bucket_eqD [OF m(3)] m(2) by simp
    have "apnext (buckets st2 i) = None"
      using n arg_cong [OF st2, of "\<lambda>s. apnext (buckets s i)"] by simp
    then have "ac_travel_list msg_proc (Some (Bucket i)) (w, st) = Some (Inr (w', st2))"
      using s(1) m(1) by (simp add: ac_travel_list.simps)
    then show ?thesis
      unfolding Inr wa sum.case prod.case using s(3) st2 by metis
  qed
qed

text \<open>The specification: the messages of the table, bucket by bucket, in order of arrival.\<close>

definition ap_process :: "'w ap_handler \<Rightarrow> nat \<times> message_t \<Rightarrow> 'w \<times> (nat \<Rightarrow> ap_t) \<Rightarrow>
    ('w \<times> (nat \<Rightarrow> ap_t)) res" where
  "ap_process msg_proc im s =
     bind_res (msg_proc (snd im) (fst s, snd s (fst im)))
       (\<lambda>(w, a). Inr (w, (snd s)(fst im := a)))"

definition bucket_messages :: "(nat \<Rightarrow> (ptr \<times> message_t) list) \<Rightarrow> nat list \<Rightarrow> (nat \<times> message_t) list" where
  "bucket_messages pms is = concat (map (\<lambda>i. map (\<lambda>pm. (i, snd pm)) (pms i)) is)"

lemma bucket_messages_simps [simp]:
  "bucket_messages pms [] = []"
  "bucket_messages pms (i # is) = map (\<lambda>pm. (i, snd pm)) (pms i) @ bucket_messages pms is"
  by (simp_all add: bucket_messages_def)

lemma process_all_append:
  "process_all f (xs @ ys) s = bind_res (process_all f xs s) (process_all f ys)"
  by (induction xs arbitrary: s) (auto split: bind_res_split)

lemma process_bucket:
  "process_all (ap_process f) (map (\<lambda>pm. (i, snd pm)) pms) (w, aps) =
     bind_res (process_all f (map snd pms) (w, aps i)) (\<lambda>(w, a). Inr (w, aps(i := a)))"
  by (induction pms arbitrary: w aps) (auto simp: ap_process_def split: sum.splits bind_res_split)

lemma upd_bucket_heap: "node_heap (upd_node (Bucket i) f st) = node_heap st"
  by simp

lemma ac_travel_buckets_drains:
  assumes "\<forall>i\<in>set is. queue_holds (queue (buckets st i)) (pms i) \<and> apnext (buckets st i) = None"
    and "distinct is"
  shows "case process_all (ap_process msg_proc) (bucket_messages pms is) (w, \<lambda>i. ap (buckets st i)) of
      Inl e \<Rightarrow> ac_travel_buckets msg_proc is (w, st) = Some (Inl e)
    | Inr (w', aps) \<Rightarrow> \<exists>st'. ac_travel_buckets msg_proc is (w, st) = Some (Inr (w', st')) \<and>
        (\<forall>i. ap (buckets st' i) = aps i) \<and> node_heap st' = node_heap st \<and>
        (\<forall>i. queue_holds (queue (buckets st' i)) [] \<or> i \<notin> set is \<and> buckets st' i = buckets st i)"
  using assms
proof (induction "is" arbitrary: w st)
  case Nil
  then show ?case by simp
next
  case (Cons i "is")
  from Cons.prems have q: "queue_holds (queue (buckets st i)) (pms i)" "apnext (buckets st i) = None"
    "i \<notin> set is" "distinct is"
    by simp_all
  note b = ac_travel_list_bucket [OF q(1,2), of msg_proc w]
  show ?case
  proof (cases "process_all msg_proc (map snd (pms i)) (w, ap (buckets st i))")
    case (Inl e)
    then show ?thesis
      using b by (simp add: process_all_append process_bucket)
  next
    case (Inr wa)
    obtain w1 a where wa: "wa = (w1, a)" by (cases wa)
    obtain q1 where t: "ac_travel_list msg_proc (Some (Bucket i)) (w, st) =
        Some (Inr (w1, upd_node (Bucket i) (\<lambda>n. n\<lparr>ap := a, queue := q1\<rparr>) st))" "queue_holds q1 []"
      using b by (auto simp: Inr wa)
    let ?st = "upd_node (Bucket i) (\<lambda>n. n\<lparr>ap := a, queue := q1\<rparr>) st"
    have aps: "(\<lambda>j. ap (buckets st j))(i := a) = (\<lambda>j. ap (buckets ?st j))"
      by (simp add: fun_eq_iff)
    have "\<forall>i\<in>set is. queue_holds (queue (buckets ?st i)) (pms i) \<and> apnext (buckets ?st i) = None"
      using Cons.prems(1) q(3) by auto
    note ih = Cons.IH [OF this q(4), of w1]
    have eq: "process_all (ap_process msg_proc) (bucket_messages pms (i # is)) (w, \<lambda>i. ap (buckets st i))
        = process_all (ap_process msg_proc) (bucket_messages pms is) (w1, \<lambda>i. ap (buckets ?st i))"
      unfolding aps [symmetric] by (simp add: process_all_append process_bucket Inr wa)
    have tr: "ac_travel_buckets msg_proc (i # is) (w, st) = ac_travel_buckets msg_proc is (w1, ?st)"
      by (simp only: ac_travel_buckets.simps t(1) option.case sum.case)
    have keep: "queue_holds (queue (buckets ?st j)) [] \<or> j \<notin> set (i # is) \<and> buckets ?st j = buckets st j"
      if "j \<notin> set is" for j
      using that t(2) by simp
    show ?thesis
    proof (cases "process_all (ap_process msg_proc) (bucket_messages pms is)
        (w1, \<lambda>i. ap (buckets ?st i))")
      case (Inl e)
      then show ?thesis using ih unfolding eq tr by (simp only: sum.case)
    next
      case (Inr r)
      obtain w2 aps2 where r: "r = (w2, aps2)" by (cases r)
      from ih obtain st2 where st2: "ac_travel_buckets msg_proc is (w1, ?st) = Some (Inr (w2, st2))"
        "\<forall>i. ap (buckets st2 i) = aps2 i" "node_heap st2 = node_heap ?st"
        and h: "\<forall>j. queue_holds (queue (buckets st2 j)) [] \<or> j \<notin> set is \<and> buckets st2 j = buckets ?st j"
        unfolding Inr r sum.case prod.case by blast
      have h': "queue_holds (queue (buckets st2 j)) [] \<or> j \<notin> set (i # is) \<and> buckets st2 j = buckets st j"
        for j
      proof (cases "queue_holds (queue (buckets st2 j)) []")
        case False
        then have "j \<notin> set is" "buckets st2 j = buckets ?st j" using h by blast+
        with False keep [of j] show ?thesis by presburger
      qed simp
      show ?thesis
        unfolding eq tr Inr r sum.case prod.case
        using st2(1,2) h' st2(3) [unfolded upd_bucket_heap] by blast
    qed
  qed
qed

section \<open>Properties of the queues\<close>

text \<open>
  The queue of every node is first in, first out and loses nothing: in every run of
  the receiving and the processing thread from the empty queue no step faults, and the
  messages accepted are the messages taken followed by the messages still queued, in order.
\<close>

theorem ac_queue_fifo:
  "\<exists>acc dlv q pms.
     run_events queue_fresh ac_receive ac_message_delete cells message_free evs zero_queue
       = Inr (acc, dlv, q) \<and> queue_holds q pms \<and> acc = dlv @ map snd pms"
proof -
  have "queue_holds zero_queue []"
    by (simp add: zero_queue_def queue_holds_Nil queue_rel_def chain_rel_def)
  from acq.run_events_fifo [OF this, of evs] show ?thesis by simp
qed

text \<open>
  C5. A round of \<^verbatim>\<open>message_travel\<close> over a table that keeps the invariant terminates: it
  handles every message queued in the 16384 buckets once, bucket by bucket and in order of
  arrival, with the access point of its bucket, and leaves these queues empty; a fault of
  the handler ends it. The nodes from \<^verbatim>\<open>calloc\<close>, with whatever is queued there, are never
  touched.
\<close>

theorem ac_message_travel_drains:
  assumes "hash_inv st"
    and "\<forall>i<MAX_BUCKET. queue_holds (queue (buckets st i)) (pms i)"
  shows "case process_all (ap_process msg_proc) (bucket_messages pms [0..<MAX_BUCKET])
        (w, \<lambda>i. ap (buckets st i)) of
      Inl e \<Rightarrow> ac_message_travel msg_proc (w, st) = Some (Inl e)
    | Inr (w', aps) \<Rightarrow> \<exists>st'. ac_message_travel msg_proc (w, st) = Some (Inr (w', st')) \<and>
        (\<forall>i. ap (buckets st' i) = aps i) \<and> node_heap st' = node_heap st \<and>
        (\<forall>i<MAX_BUCKET. queue_holds (queue (buckets st' i)) [])"
proof -
  have "\<forall>i\<in>set [0..<MAX_BUCKET]. queue_holds (queue (buckets st i)) (pms i) \<and>
      apnext (buckets st i) = None"
    using assms by (simp add: hash_inv_def)
  note d = ac_travel_buckets_drains [OF this, of msg_proc w]
  show ?thesis
  proof (cases "process_all (ap_process msg_proc) (bucket_messages pms [0..<MAX_BUCKET])
      (w, \<lambda>i. ap (buckets st i))")
    case (Inl e)
    then show ?thesis using d by (simp add: ac_message_travel_def)
  next
    case (Inr r)
    obtain w' aps where "r = (w', aps)" by (cases r)
    with Inr d show ?thesis by (fastforce simp: ac_message_travel_def)
  qed
qed

text \<open>One message in bucket 13125; the handler counts, and marks the access point.\<close>

definition ex_handler :: "nat ap_handler" where
  "ex_handler m wa = Inr (fst wa + 1, (snd wa)\<lparr>ap_random := 5\<rparr>)"

definition ex_message :: message_t where
  "ex_message = \<lparr>proto = 8000, msg_len = 96, data = []\<rparr>"

definition ex_pms :: "nat \<Rightarrow> (ptr \<times> message_t) list" where
  "ex_pms i = (if i = 13125 then [(1, ex_message)] else [])"

definition ex_loaded :: hash_state where
  "ex_loaded = upd_node (Bucket 13125) (\<lambda>n. n\<lparr>queue := zero_queue\<lparr>hd_ptr := Some 1,
     tail := NextSlot 1, num := 1, cells := [1 \<mapsto> ex_message]\<rparr>\<rparr>) (ex_table ex_mac1)"

lemma bucket_messages_ex:
  "distinct is \<Longrightarrow> bucket_messages ex_pms is = (if 13125 \<in> set is then [(13125, ex_message)] else [])"
  by (induction "is") (auto simp: ex_pms_def)

theorem ac_message_travel_drains_witness:
  "\<exists>st'. ac_message_travel ex_handler (0, ex_loaded) = Some (Inr (1, st')) \<and>
     ap_random (ap (buckets st' 13125)) = 5 \<and> queue_holds (queue (buckets st' 13125)) []"
proof -
  have q: "\<forall>i<MAX_BUCKET. queue_holds (queue (buckets ex_loaded i)) (ex_pms i)"
    by (auto simp: ex_loaded_def ex_pms_def queue_holds_def queue_rel_def chain_rel_def ex_table_def
      hash_new_def hash_init_def zero_node_def zero_queue_def end_slot_def ex_hash_key)
  have "hash_inv (ex_table ex_mac1)" by (simp add: ex_table ex_mac1_def)
  then have "hash_inv ex_loaded" by (simp add: ex_loaded_def hash_inv_def)
  from ac_message_travel_drains [OF this q, of ex_handler 0] show ?thesis
    by (fastforce simp: bucket_messages_ex MAX_BUCKET_def ap_process_def ex_handler_def)
qed

end
