(* ===== verification/List_Head.thy ===== *)
theory List_Head
  imports Slist
begin

text \<open>
  The circular doubly linked lists of \<^verbatim>\<open>include/list.h\<close> that \<^verbatim>\<open>ac/resource.c\<close> uses. A list
  head or an entry is the address of a \<^verbatim>\<open>struct list_head\<close>; the two maps hold the \<^verbatim>\<open>next\<close> and
  \<^verbatim>\<open>prev\<close> fields of those that are allocated, and an access to another address faults. The
  relation \<open>dlist\<close> ties a list to the sequence of its entries, and each operation is proved
  to be the expected operation on sequences with a frame.
\<close>

record list_heap =
  next_p :: "ptr \<rightharpoonup> ptr"
  prev_p :: "ptr \<rightharpoonup> ptr"

definition load_ptr :: "(ptr \<rightharpoonup> ptr) \<Rightarrow> ptr \<Rightarrow> ptr res" where
  "load_ptr m p = (case m p of None \<Rightarrow> Inl UseAfterFree | Some q \<Rightarrow> Inr q)"

definition set_next :: "ptr \<Rightarrow> ptr \<Rightarrow> list_heap \<Rightarrow> list_heap res" where
  "set_next p v h = (if next_p h p = None then Inl UseAfterFree
     else Inr (h\<lparr>next_p := (next_p h)(p \<mapsto> v)\<rparr>))"

definition set_prev :: "ptr \<Rightarrow> ptr \<Rightarrow> list_heap \<Rightarrow> list_heap res" where
  "set_prev p v h = (if prev_p h p = None then Inl UseAfterFree
     else Inr (h\<lparr>prev_p := (prev_p h)(p \<mapsto> v)\<rparr>))"

section \<open>The operations\<close>

definition INIT_LIST_HEAD :: "ptr \<Rightarrow> list_heap \<Rightarrow> list_heap res" where
  "INIT_LIST_HEAD l h = bind_res (set_next l l h) (set_prev l l)"

definition list_add_between :: "ptr \<Rightarrow> ptr \<Rightarrow> ptr \<Rightarrow> list_heap \<Rightarrow> list_heap res" where
  "list_add_between new prv nxt h =
     bind_res (set_prev nxt new h) (\<lambda>h.
     bind_res (set_next new nxt h) (\<lambda>h.
     bind_res (set_prev new prv h) (set_next prv new)))"

definition list_add :: "ptr \<Rightarrow> ptr \<Rightarrow> list_heap \<Rightarrow> list_heap res" where
  "list_add new head h = bind_res (load_ptr (next_p h) head) (\<lambda>nxt. list_add_between new head nxt h)"

definition list_add_tail :: "ptr \<Rightarrow> ptr \<Rightarrow> list_heap \<Rightarrow> list_heap res" where
  "list_add_tail new head h = bind_res (load_ptr (prev_p h) head) (\<lambda>prv. list_add_between new prv head h)"

definition list_del_between :: "ptr \<Rightarrow> ptr \<Rightarrow> list_heap \<Rightarrow> list_heap res" where
  "list_del_between prv nxt h = bind_res (set_prev nxt prv h) (set_next prv nxt)"

definition list_del_entry :: "ptr \<Rightarrow> list_heap \<Rightarrow> list_heap res" where
  "list_del_entry e h =
     bind_res (load_ptr (prev_p h) e) (\<lambda>prv.
     bind_res (load_ptr (next_p h) e) (\<lambda>nxt. list_del_between prv nxt h))"

definition list_move :: "ptr \<Rightarrow> ptr \<Rightarrow> list_heap \<Rightarrow> list_heap res" where
  "list_move l head h = bind_res (list_del_entry l h) (list_add l head)"

definition list_empty :: "ptr \<Rightarrow> list_heap \<Rightarrow> bool res" where
  "list_empty head h = bind_res (load_ptr (next_p h) head) (\<lambda>nxt. Inr (nxt = head))"

text \<open>
  \<^verbatim>\<open>list_for_each_entry(pos, head) if(test(pos)) return pos;\<close> where \<open>test\<close> reads the entry and
  faults when the entry is freed. \<open>list_find_from\<close> is the loop, \<open>None\<close> that it does not end.
\<close>

partial_function (option) list_find_from ::
  "(ptr \<Rightarrow> bool res) \<Rightarrow> ptr \<Rightarrow> list_heap \<Rightarrow> ptr \<Rightarrow> ptr option res option" where
  "list_find_from test head h pos =
     (if pos = head then Some (Inr None)
      else case test pos of
        Inl e \<Rightarrow> Some (Inl e)
      | Inr b \<Rightarrow> if b then Some (Inr (Some pos))
          else (case load_ptr (next_p h) pos of
              Inl e \<Rightarrow> Some (Inl e)
            | Inr nxt \<Rightarrow> list_find_from test head h nxt))"

definition list_find :: "(ptr \<Rightarrow> bool res) \<Rightarrow> ptr \<Rightarrow> list_heap \<Rightarrow> ptr option res option" where
  "list_find test head h =
     (case load_ptr (next_p h) head of
        Inl e \<Rightarrow> Some (Inl e)
      | Inr pos \<Rightarrow> list_find_from test head h pos)"

section \<open>The sequence of a list\<close>

fun dseg :: "list_heap \<Rightarrow> ptr list \<Rightarrow> bool" where
  "dseg h (a # b # cs) \<longleftrightarrow> next_p h a = Some b \<and> prev_p h b = Some a \<and> dseg h (b # cs)"
| "dseg h _ \<longleftrightarrow> True"

definition dlist :: "list_heap \<Rightarrow> ptr \<Rightarrow> ptr list \<Rightarrow> bool" where
  "dlist h head ps \<longleftrightarrow> dseg h (head # ps @ [head]) \<and> distinct (head # ps)"

text \<open>An address is allocated when both fields are.\<close>

definition linked :: "list_heap \<Rightarrow> ptr \<Rightarrow> bool" where
  "linked h p \<longleftrightarrow> next_p h p \<noteq> None \<and> prev_p h p \<noteq> None"

text \<open>\<open>h'\<close> differs from \<open>h\<close> only at the addresses \<open>S\<close> and allocates the same.\<close>

definition heap_frame :: "ptr set \<Rightarrow> list_heap \<Rightarrow> list_heap \<Rightarrow> bool" where
  "heap_frame S h h' \<longleftrightarrow>
     (\<forall>p. p \<notin> S \<longrightarrow> next_p h' p = next_p h p \<and> prev_p h' p = prev_p h p) \<and>
     (\<forall>p. linked h' p = linked h p)"

lemma dseg_append: "dseg h (xs @ m # ys) \<longleftrightarrow> dseg h (xs @ [m]) \<and> dseg h (m # ys)"
proof (induction xs)
  case (Cons a xs)
  then show ?case by (cases xs) auto
qed simp

lemma dseg_cong:
  "(\<And>x. x \<in> set (butlast c) \<Longrightarrow> next_p h' x = next_p h x) \<Longrightarrow>
   (\<And>x. x \<in> set (tl c) \<Longrightarrow> prev_p h' x = prev_p h x) \<Longrightarrow> dseg h' c = dseg h c"
proof (induction c rule: dseg.induct)
  case (1 h a b cs)
  then show ?case by (simp split: if_splits)
qed simp_all

lemma dlist_frame:
  "dlist h head ps \<Longrightarrow> heap_frame S h h' \<Longrightarrow> S \<inter> insert head (set ps) = {} \<Longrightarrow> dlist h' head ps"
proof -
  assume a: "dlist h head ps" "heap_frame S h h'" "S \<inter> insert head (set ps) = {}"
  have "dseg h' (head # ps @ [head]) = dseg h (head # ps @ [head])"
    using a(2,3) by (intro dseg_cong) (auto simp: heap_frame_def butlast_append split: if_splits)
  with a(1) show ?thesis by (simp add: dlist_def)
qed

lemma heap_frame_trans:
  "heap_frame S h h' \<Longrightarrow> heap_frame T h' h'' \<Longrightarrow> heap_frame (S \<union> T) h h''"
  by (auto simp: heap_frame_def)

lemma heap_frame_mono: "heap_frame S h h' \<Longrightarrow> S \<subseteq> T \<Longrightarrow> heap_frame T h h'"
  by (auto simp: heap_frame_def)

lemma heap_frame_linked: "heap_frame S h h' \<Longrightarrow> linked h' p = linked h p"
  by (simp add: heap_frame_def)

lemma dlist_linked: "dlist h head ps \<Longrightarrow> p \<in> insert head (set ps) \<Longrightarrow> linked h p"
proof -
  have "dseg h c \<Longrightarrow> p \<in> set (butlast c) \<Longrightarrow> next_p h p \<noteq> None" for c
    by (induction c rule: dseg.induct) (auto split: if_splits)
  moreover have "dseg h c \<Longrightarrow> p \<in> set (tl c) \<Longrightarrow> prev_p h p \<noteq> None" for c
    by (induction c rule: dseg.induct) (auto split: if_splits)
  ultimately show "dlist h head ps \<Longrightarrow> p \<in> insert head (set ps) \<Longrightarrow> linked h p"
    by (fastforce simp: dlist_def linked_def butlast_append)
qed

lemma dlist_next: "dlist h head ps \<Longrightarrow> load_ptr (next_p h) head = Inr (case ps of [] \<Rightarrow> head | p # _ \<Rightarrow> p)"
  by (cases ps) (simp_all add: dlist_def load_ptr_def)

lemma dseg_last: "dseg h (c @ [b]) \<Longrightarrow> c \<noteq> [] \<Longrightarrow> prev_p h b = Some (last c)"
  by (induction c rule: dseg.induct) auto

lemma dlist_prev: "dlist h head ps \<Longrightarrow> load_ptr (prev_p h) head = Inr (last (head # ps))"
  using dseg_last [of h "head # ps" head] by (simp add: dlist_def load_ptr_def)


section \<open>Refinement of the operations\<close>

lemma set_next_frame:
  "linked h p \<Longrightarrow> set_next p v h = Inr (h\<lparr>next_p := (next_p h)(p \<mapsto> v)\<rparr>)"
  "linked h p \<Longrightarrow> set_prev p v h = Inr (h\<lparr>prev_p := (prev_p h)(p \<mapsto> v)\<rparr>)"
  by (simp_all add: set_next_def set_prev_def linked_def)

definition add_between :: "ptr \<Rightarrow> ptr \<Rightarrow> ptr \<Rightarrow> list_heap \<Rightarrow> list_heap" where
  "add_between new prv nxt h =
     \<lparr>next_p = (next_p h)(new \<mapsto> nxt, prv \<mapsto> new), prev_p = (prev_p h)(nxt \<mapsto> new, new \<mapsto> prv)\<rparr>"

lemma list_add_between_eq:
  assumes "linked h new" "linked h prv" "linked h nxt"
  shows "list_add_between new prv nxt h = Inr (add_between new prv nxt h)"
    and "heap_frame {new, prv, nxt} h (add_between new prv nxt h)"
  using assms
  by (auto simp: list_add_between_def set_next_def set_prev_def linked_def add_between_def heap_frame_def)

lemma in_set_tl: "x \<in> set (tl xs) \<Longrightarrow> x \<in> set xs"
  by (cases xs) auto

lemma dseg_insert:
  assumes "dseg h (xs @ p # q # ys)" "distinct (xs @ [p])" "distinct (q # ys)"
    and "new \<notin> set (xs @ p # q # ys)" "p \<notin> set (butlast (q # ys))" "q \<notin> set (tl (xs @ [p]))"
  shows "dseg (add_between new p q h) (xs @ p # new # q # ys)"
proof -
  let ?h = "add_between new p q h"
  from assms(1) have d: "dseg h (xs @ [p])" "dseg h (q # ys)"
    using dseg_append [of h xs p "q # ys"] dseg_append [of h "xs @ [p]" q ys] by auto
  have "dseg ?h (xs @ [p]) = dseg h (xs @ [p])"
    using assms by (intro dseg_cong) (auto simp: add_between_def dest: in_set_butlastD in_set_tl)
  moreover have "dseg ?h (q # ys) = dseg h (q # ys)"
    using assms
    by (intro dseg_cong) (auto simp: add_between_def split: if_splits dest: in_set_butlastD)
  ultimately have "dseg ?h (xs @ [p])" "dseg ?h (p # new # q # ys)"
    using d assms(4) by (auto simp: add_between_def)
  then show ?thesis by (subst dseg_append) blast
qed

lemma list_add_dlist:
  assumes "dlist h head ps" "linked h new" "new \<notin> insert head (set ps)"
  shows "\<exists>h'. list_add new head h = Inr h' \<and> dlist h' head (new # ps) \<and>
     heap_frame (insert new (insert head (set ps))) h h'"
proof -
  let ?n = "case ps of [] \<Rightarrow> head | p # _ \<Rightarrow> p"
  have n: "?n \<in> insert head (set ps)" by (auto split: list.split)
  then have l: "linked h head" "linked h ?n"
    using dlist_linked [OF assms(1)] by simp_all
  note eq = list_add_between_eq [OF assms(2) l]
  obtain rest where r: "ps @ [head] = ?n # rest" by (cases ps) simp_all
  have d: "dseg h ([] @ head # ?n # rest)" "distinct (head # ps)"
    using assms(1) r by (simp_all add: dlist_def)
  have dist: "distinct (?n # rest)" and m: "set (?n # rest) = insert head (set ps)"
    "butlast (?n # rest) = ps"
    using d(2) unfolding r [symmetric] by auto
  have "dseg (add_between new head ?n h) ([] @ head # new # ?n # rest)"
  proof (rule dseg_insert)
    show "head \<notin> set (butlast (?n # rest))" using d(2) m(2) by simp
    show "new \<notin> set ([] @ head # ?n # rest)" using assms(3) m(1) by simp
  qed (use d dist in simp_all)
  then have "dlist (add_between new head ?n h) head (new # ps)"
    using d(2) assms(3) unfolding dlist_def by (simp add: r)
  moreover have "list_add new head h = Inr (add_between new head ?n h)"
    using dlist_next [OF assms(1)] eq(1) by (simp add: list_add_def)
  ultimately show ?thesis
    using heap_frame_mono [OF eq(2)] n by blast
qed

lemma list_add_tail_dlist:
  assumes "dlist h head ps" "linked h new" "new \<notin> insert head (set ps)"
  shows "\<exists>h'. list_add_tail new head h = Inr h' \<and> dlist h' head (ps @ [new]) \<and>
     heap_frame (insert new (insert head (set ps))) h h'"
proof -
  obtain xs l where s: "head # ps = xs @ [l]" by (metis rev_exhaust list.distinct(1))
  have m: "l \<in> insert head (set ps)" using arg_cong [OF s, of set] by auto
  have tl: "tl (xs @ [l]) = ps" unfolding s [symmetric] by simp
  from m have l: "linked h l" "linked h head"
    using dlist_linked [OF assms(1)] by simp_all
  note eq = list_add_between_eq [OF assms(2) l]
  have "head # ps @ [head] = xs @ l # head # []"
    using arg_cong [OF s, of "\<lambda>c. c @ [head]"] by simp
  then have d: "dseg h (xs @ l # head # [])" "distinct (xs @ [l])"
    using assms(1) s by (simp_all only: dlist_def)
  have x: "set xs \<subseteq> insert head (set ps)"
    using arg_cong [OF s, of set] by auto
  have "dseg (add_between new l head h) (xs @ l # new # head # [])"
  proof (rule dseg_insert)
    show "new \<notin> set (xs @ l # head # [])" using assms(3) m x by auto
    show "head \<notin> set (tl (xs @ [l]))" using assms(1) tl by (simp add: dlist_def)
  qed (use d in simp_all)
  moreover have "xs @ l # new # head # [] = head # (ps @ [new]) @ [head]"
    using arg_cong [OF s, of "\<lambda>c. c @ [new, head]"] by simp
  ultimately have "dlist (add_between new l head h) head (ps @ [new])"
    using assms by (simp add: dlist_def)
  moreover have "last (head # ps) = l" unfolding s by simp
  then have "list_add_tail new head h = Inr (add_between new l head h)"
    using dlist_prev [OF assms(1)] eq(1) by (simp add: list_add_tail_def)
  ultimately show ?thesis
    using heap_frame_mono [OF eq(2), of "insert new (insert head (set ps))"] m by auto
qed

definition del_between :: "ptr \<Rightarrow> ptr \<Rightarrow> list_heap \<Rightarrow> list_heap" where
  "del_between prv nxt h =
     \<lparr>next_p = (next_p h)(prv \<mapsto> nxt), prev_p = (prev_p h)(nxt \<mapsto> prv)\<rparr>"

lemma list_del_between_eq:
  assumes "linked h prv" "linked h nxt"
  shows "list_del_between prv nxt h = Inr (del_between prv nxt h)"
    and "heap_frame {prv, nxt} h (del_between prv nxt h)"
  using assms
  by (auto simp: list_del_between_def set_next_def set_prev_def linked_def del_between_def heap_frame_def)

lemma dseg_delete:
  assumes "dseg h (xs @ p # e # q # ys)" "p \<notin> set xs" "q \<notin> set ys"
    and "p \<notin> set (butlast (q # ys))" "q \<notin> set (tl (xs @ [p]))"
  shows "dseg (del_between p q h) (xs @ p # q # ys)"
proof -
  let ?h = "del_between p q h"
  from assms(1) have d: "dseg h (xs @ [p])" "dseg h (q # ys)"
    using dseg_append [of h xs p "e # q # ys"] dseg_append [of h "xs @ [p, e]" q ys] by auto
  have "dseg ?h (xs @ [p]) = dseg h (xs @ [p])"
    using assms by (intro dseg_cong) (auto simp: del_between_def)
  moreover have "dseg ?h (q # ys) = dseg h (q # ys)"
    using assms by (intro dseg_cong) (auto simp: del_between_def)
  ultimately have "dseg ?h (xs @ [p])" "dseg ?h (p # q # ys)"
    using d by (auto simp: del_between_def)
  then show ?thesis by (subst dseg_append) blast
qed

lemma list_del_entry_dlist:
  assumes "dlist h head (xs @ e # ys)"
  shows "\<exists>h'. list_del_entry e h = Inr h' \<and> dlist h' head (xs @ ys) \<and>
     heap_frame (insert head (set (xs @ ys))) h h'"
proof -
  obtain us p where u: "head # xs = us @ [p]" by (metis rev_exhaust list.distinct(1))
  obtain q vs where v: "ys @ [head] = q # vs" by (cases ys) simp_all
  have eqs: "head # (xs @ e # ys) @ [head] = us @ p # e # q # vs"
    "head # (xs @ ys) @ [head] = us @ p # q # vs"
    using arg_cong [OF u, of "\<lambda>c. c @ e # ys @ [head]"] arg_cong [OF u, of "\<lambda>c. c @ ys @ [head]"] v
    by simp_all
  have d: "dseg h (us @ p # e # q # vs)" and dist: "distinct (head # xs @ e # ys)"
    using assms eqs(1) by (simp_all only: dlist_def append_Cons append_assoc)
  have m: "p \<in> insert head (set xs)" "q \<in> insert head (set ys)"
    using arg_cong [OF u, of set] arg_cong [OF v, of set] by auto
  then have l: "linked h p" "linked h q"
    using dlist_linked [OF assms] by auto
  have pe: "prev_p h e = Some p" "next_p h e = Some q"
    using d dseg_append [of h us p "e # q # vs"] by simp_all
  note eq = list_del_between_eq [OF l]
  have "dseg (del_between p q h) (us @ p # q # vs)"
  proof (rule dseg_delete [OF d])
    have "distinct (us @ [p])" using dist unfolding u [symmetric] by simp
    then show "p \<notin> set us" by simp
    have "distinct (q # vs)" using dist unfolding v [symmetric] by simp
    then show "q \<notin> set vs" by simp
    have "butlast (q # vs) = ys" unfolding v [symmetric] by simp
    then show "p \<notin> set (butlast (q # vs))" using dist m(1) by auto
    have "tl (us @ [p]) = xs" unfolding u [symmetric] by simp
    then show "q \<notin> set (tl (us @ [p]))" using dist m(2) by auto
  qed
  then have "dlist (del_between p q h) head (xs @ ys)"
    using dist eqs(2) by (simp only: dlist_def) auto
  moreover have "list_del_entry e h = Inr (del_between p q h)"
    using eq(1) pe by (simp add: list_del_entry_def load_ptr_def)
  moreover have "{p, q} \<subseteq> insert head (set (xs @ ys))" using m by auto
  ultimately show ?thesis
    using heap_frame_mono [OF eq(2)] by blast
qed

lemma list_move_dlist:
  assumes "dlist h a (xs @ e # ys)" "dlist h b qs"
    and disj: "insert a (set (xs @ e # ys)) \<inter> insert b (set qs) = {}"
  shows "\<exists>h'. list_move e b h = Inr h' \<and> dlist h' a (xs @ ys) \<and> dlist h' b (e # qs) \<and>
     heap_frame (insert a (set (xs @ e # ys)) \<union> insert b (set qs)) h h'"
proof -
  obtain h1 where h1: "list_del_entry e h = Inr h1" "dlist h1 a (xs @ ys)"
    "heap_frame (insert a (set (xs @ ys))) h h1"
    using list_del_entry_dlist [OF assms(1)] by blast
  have b: "dlist h1 b qs"
    by (rule dlist_frame [OF assms(2) h1(3)]) (use disj in auto)
  have "linked h1 e"
    using dlist_linked [OF assms(1), of e] heap_frame_linked [OF h1(3)] by simp
  moreover have "e \<notin> insert b (set qs)" using disj by auto
  ultimately obtain h2 where h2: "list_add e b h1 = Inr h2" "dlist h2 b (e # qs)"
    "heap_frame (insert e (insert b (set qs))) h1 h2"
    using list_add_dlist [OF b] by blast
  have "dlist h2 a (xs @ ys)"
    by (rule dlist_frame [OF h1(2) h2(3)]) (use disj assms(1) in \<open>auto simp: dlist_def\<close>)
  moreover have "heap_frame (insert a (set (xs @ e # ys)) \<union> insert b (set qs)) h h2"
    by (rule heap_frame_mono [OF heap_frame_trans [OF h1(3) h2(3)]]) auto
  ultimately show ?thesis
    using h1(1) h2(1,2) by (simp add: list_move_def)
qed

lemma list_empty_dlist: "dlist h head ps \<Longrightarrow> list_empty head h = Inr (ps = [])"
  by (cases ps) (auto simp: list_empty_def load_ptr_def dlist_def)

lemma list_find_dlist:
  assumes "dlist h head ps" "\<forall>p\<in>set ps. test p = Inr (P p)"
  shows "list_find test head h = Some (Inr (find P ps))"
proof -
  have "dseg h (p # qs @ [head]) \<Longrightarrow> head \<notin> set (p # qs) \<Longrightarrow> \<forall>p\<in>set (p # qs). test p = Inr (P p) \<Longrightarrow>
      list_find_from test head h p = Some (Inr (find P (p # qs)))" for p qs
  proof (induction qs arbitrary: p)
    case Nil
    then show ?case by (simp add: list_find_from.simps load_ptr_def)
  next
    case (Cons q qs)
    have n: "next_p h p = Some q" using Cons.prems(1) by simp
    have "list_find_from test head h q = Some (Inr (find P (q # qs)))"
      by (rule Cons.IH) (use Cons.prems in auto)
    then show ?case
      using Cons.prems(2,3) n by (subst list_find_from.simps) (simp add: load_ptr_def)
  qed
  with assms show ?thesis
    by (cases ps)
      (auto simp: list_find_def load_ptr_def dlist_def list_find_from.simps [of test head h head])
qed

text \<open>An entry that faults ends the loop, when no entry before it matches.\<close>

lemma list_find_fault:
  assumes "load_ptr (next_p h) head = Inr p" "p \<noteq> head" "test p = Inl e"
  shows "list_find test head h = Some (Inl e)"
  using assms by (simp add: list_find_def list_find_from.simps)

lemma INIT_LIST_HEAD_dlist:
  assumes "linked h l"
  shows "\<exists>h'. INIT_LIST_HEAD l h = Inr h' \<and> dlist h' l [] \<and> heap_frame {l} h h'"
  using assms by (auto simp: INIT_LIST_HEAD_def set_next_def set_prev_def linked_def dlist_def heap_frame_def)

end
