(* ===== verification/Resource.thy ===== *)
theory Resource
  imports List_Head Msg
begin

text \<open>
  The pool of IP addresses of the controller, \<^verbatim>\<open>ac/resource.h\<close> and \<^verbatim>\<open>ac/resource.c\<close>: two
  circular lists of \<^verbatim>\<open>struct _ip_t\<close>, the free addresses and the leased ones, with their
  counters; leasing, the conflict check, and the reload of the range from the database.
  The theory proves that the lists, the counters and the leases stay consistent, what each
  operation does, and where the code leaves this invariant.
\<close>

section \<open>State\<close>

record ip_t =
  ip_apmac :: "byte list"
  ip_ipv4 :: sockaddr_in

text \<open>
  \<open>links\<close> holds the \<^verbatim>\<open>struct list_head\<close> of the two list heads and of the nodes, \<open>ips\<close> the
  nodes that are allocated. The heads lie inside \<^verbatim>\<open>struct _ippool_t\<close>; an entry computed from
  a head by \<^verbatim>\<open>container_of\<close> lies outside every node.
\<close>

record ippool_t =
  links :: list_heap
  ips :: "ptr \<rightharpoonup> ip_t"
  total :: int
  left :: int

definition POOL :: ptr where "POOL = 1"
definition ALLOC :: ptr where "ALLOC = 2"

lemmas pool_heads = POOL_def ALLOC_def

definition ip_at :: "ippool_t \<Rightarrow> ptr \<Rightarrow> ip_t res" where
  "ip_at st p = (case ips st p of
      Some i \<Rightarrow> Inr i
    | None \<Rightarrow> Inl (if p = POOL \<or> p = ALLOC then OutOfBounds else UseAfterFree))"

definition res_ip_init :: ippool_t where
  "res_ip_init = \<lparr>links = \<lparr>next_p = [POOL \<mapsto> POOL, ALLOC \<mapsto> ALLOC],
      prev_p = [POOL \<mapsto> POOL, ALLOC \<mapsto> ALLOC]\<rparr>, ips = Map.empty, total = 0, left = 0\<rparr>"

section \<open>Leases\<close>

definition addrequ :: "sockaddr_in \<Rightarrow> sockaddr_in \<Rightarrow> bool" where
  "addrequ src dest \<longleftrightarrow> s_addr src = s_addr dest"

definition ip_test :: "ippool_t \<Rightarrow> sockaddr_in \<Rightarrow> ptr \<Rightarrow> bool res" where
  "ip_test st addr p = bind_res (ip_at st p) (\<lambda>i. Inr (addrequ (ip_ipv4 i) addr))"

definition set_apmac :: "ptr \<Rightarrow> byte list \<Rightarrow> ippool_t \<Rightarrow> ippool_t res" where
  "set_apmac p hw st = bind_res (ip_at st p) (\<lambda>i.
     Inr (st\<lparr>ips := (ips st)(p \<mapsto> i\<lparr>ip_apmac := take ETH_ALEN hw\<rparr>)\<rparr>))"

definition move_ip :: "ptr \<Rightarrow> ippool_t \<Rightarrow> ippool_t res" where
  "move_ip p st = bind_res (list_move p ALLOC (links st)) (\<lambda>h. Inr (st\<lparr>links := h\<rparr>))"

text \<open>The branch without a wanted address; \<^verbatim>\<open>list_first_entry\<close> does not check for an empty list.\<close>

definition alloc_first :: "byte list \<Rightarrow> ippool_t \<Rightarrow> (ptr option \<times> ippool_t) res" where
  "alloc_first hw st =
     bind_res (load_ptr (next_p (links st)) POOL) (\<lambda>new.
     bind_res (set_apmac new hw st) (\<lambda>st.
     bind_res (move_ip new st) (\<lambda>st.
     Inr (Some new, st\<lparr>left := left st - 1\<rparr>))))"

definition res_ip_alloc :: "sockaddr_in option \<Rightarrow> byte list \<Rightarrow> ippool_t \<Rightarrow>
    (ptr option \<times> ippool_t) res option" where
  "res_ip_alloc addr hw st =
     (case (if left st \<noteq> 0 then Inr True else list_empty POOL (links st)) of
        Inl e \<Rightarrow> Some (Inl e)
      | Inr False \<Rightarrow> Some (Inr (None, st))
      | Inr True \<Rightarrow>
          (case addr of
             None \<Rightarrow> Some (alloc_first hw st)
           | Some a \<Rightarrow>
               if s_addr a = 0 then Some (alloc_first hw st)
               else case list_find (ip_test st a) POOL (links st) of
                 None \<Rightarrow> None
               | Some (Inl e) \<Rightarrow> Some (Inl e)
               | Some (Inr (Some new)) \<Rightarrow>
                   Some (bind_res (move_ip new st) (\<lambda>st.
                         bind_res (set_apmac new hw st) (\<lambda>st.
                         Inr (Some new, st\<lparr>left := left st - 1\<rparr>))))
               | Some (Inr None) \<Rightarrow> Some (alloc_first hw st)))"

definition res_ip_conflict :: "sockaddr_in \<Rightarrow> byte list \<Rightarrow> ippool_t \<Rightarrow> int res option" where
  "res_ip_conflict addr hw st =
     (if s_addr addr = 0 then Some (Inr 0)
      else case list_find (ip_test st addr) ALLOC (links st) of
        None \<Rightarrow> None
      | Some (Inl e) \<Rightarrow> Some (Inl e)
      | Some (Inr None) \<Rightarrow> Some (Inr 0)
      | Some (Inr (Some ip)) \<Rightarrow> Some (bind_res (ip_at st ip) (\<lambda>i.
          Inr (if memcmp_eq ETH_ALEN hw (ip_apmac i) then 0 else 1))))"

section \<open>The range\<close>

definition res_ip_repeat :: "sockaddr_in \<Rightarrow> ippool_t \<Rightarrow> int res option" where
  "res_ip_repeat addr st =
     (case list_find (ip_test st addr) POOL (links st) of
        None \<Rightarrow> None
      | Some (Inl e) \<Rightarrow> Some (Inl e)
      | Some (Inr (Some _)) \<Rightarrow> Some (Inr 1)
      | Some (Inr None) \<Rightarrow>
          (case list_find (ip_test st addr) ALLOC (links st) of
             None \<Rightarrow> None
           | Some (Inl e) \<Rightarrow> Some (Inl e)
           | Some (Inr (Some _)) \<Rightarrow> Some (Inr 1)
           | Some (Inr None) \<Rightarrow> Some (Inr 0)))"

text \<open>\<open>answer\<close> is the result of \<^verbatim>\<open>calloc\<close>; the memory is zero, its link fields are null.\<close>

definition calloc_ip :: "ptr \<Rightarrow> ippool_t \<Rightarrow> ippool_t" where
  "calloc_ip p st =
     st\<lparr>ips := (ips st)(p \<mapsto> \<lparr>ip_apmac = replicate ETH_ALEN 0, ip_ipv4 = zero_sockaddr\<rparr>),
        links := \<lparr>next_p = (next_p (links st))(p \<mapsto> 0), prev_p = (prev_p (links st))(p \<mapsto> 0)\<rparr>\<rparr>"

definition res_ip_add :: "sockaddr_in \<Rightarrow> ptr option \<Rightarrow> ippool_t \<Rightarrow> (int \<times> ippool_t) res option" where
  "res_ip_add addr answer st =
     (case res_ip_repeat addr st of
        None \<Rightarrow> None
      | Some (Inl e) \<Rightarrow> Some (Inl e)
      | Some (Inr b) \<Rightarrow>
          if b \<noteq> 0 then Some (Inr (-1, st))
          else case answer of
            None \<Rightarrow> Some (Inr (-1, st))
          | Some p \<Rightarrow>
              Some (let st = calloc_ip p st in
                bind_res (ip_at st p) (\<lambda>i.
                let st = st\<lparr>ips := (ips st)(p \<mapsto> i\<lparr>ip_ipv4 := addr\<rparr>)\<rparr> in
                bind_res (list_add_tail p POOL (links st)) (\<lambda>h.
                Inr (0, st\<lparr>links := h, total := total st + 1, left := left st + 1\<rparr>)))))"

definition free_ip :: "ptr \<Rightarrow> ippool_t \<Rightarrow> ippool_t res" where
  "free_ip p st = bind_res (ip_at st p) (\<lambda>_.
     Inr (st\<lparr>ips := (ips st)(p := None),
        links := \<lparr>next_p = (next_p (links st))(p := None), prev_p = (prev_p (links st))(p := None)\<rparr>\<rparr>))"

text \<open>The loop \<^verbatim>\<open>list_for_each_entry_safe(pos, n, head) free(pos)\<close>.\<close>

partial_function (option) clear_from ::
  "ptr \<Rightarrow> ptr \<Rightarrow> ptr \<Rightarrow> ippool_t \<Rightarrow> ippool_t res option" where
  "clear_from head pos n st =
     (if pos = head then Some (Inr st)
      else case free_ip pos st of
        Inl e \<Rightarrow> Some (Inl e)
      | Inr st \<Rightarrow> (case load_ptr (next_p (links st)) n of
            Inl e \<Rightarrow> Some (Inl e)
          | Inr n' \<Rightarrow> clear_from head n n' st))"

definition clear_list :: "ptr \<Rightarrow> ippool_t \<Rightarrow> ippool_t res option" where
  "clear_list head st =
     (case load_ptr (next_p (links st)) head of
        Inl e \<Rightarrow> Some (Inl e)
      | Inr pos \<Rightarrow> (case load_ptr (next_p (links st)) pos of
            Inl e \<Rightarrow> Some (Inl e)
          | Inr n \<Rightarrow> clear_from head pos n st))"

text \<open>The list heads are not reinitialised.\<close>

definition res_ip_clear :: "ippool_t \<Rightarrow> ippool_t res option" where
  "res_ip_clear st =
     (case clear_list POOL st of
        None \<Rightarrow> None
      | Some (Inl e) \<Rightarrow> Some (Inl e)
      | Some (Inr st) \<Rightarrow> (case clear_list ALLOC st of
            None \<Rightarrow> None
          | Some (Inl e) \<Rightarrow> Some (Inl e)
          | Some (Inr st) \<Rightarrow> Some (Inr (st\<lparr>total := 0, left := 0\<rparr>))))"

section \<open>Reload\<close>

record res_t =
  ip_start :: string
  ip_end :: string
  ip_mask :: string
  bak_start :: string
  bak_end :: string
  bak_mask :: string

definition SQL_NULL :: string where "SQL_NULL = ''(null)''"

definition res_ip_equ_bak :: "res_t \<Rightarrow> int \<times> res_t" where
  "res_ip_equ_bak r =
     (if ip_start r \<noteq> bak_start r \<or> ip_end r \<noteq> bak_end r \<or> ip_mask r \<noteq> bak_mask r
      then (0, r\<lparr>bak_start := ip_start r, bak_end := ip_end r, bak_mask := ip_mask r\<rparr>)
      else (1, r))"

text \<open>
  The loop over the addresses; \<open>tmp\<close> is the uninitialised local struct, of which only the
  address is set, and \<open>answers i\<close> what \<^verbatim>\<open>calloc\<close> returns in iteration \<open>i\<close>.
\<close>

primrec add_range :: "sockaddr_in \<Rightarrow> (nat \<Rightarrow> ptr option) \<Rightarrow> nat \<Rightarrow> nat \<Rightarrow> u32 \<Rightarrow> ippool_t \<Rightarrow>
    ippool_t res option" where
  "add_range tmp answers 0 i addr st = Some (Inr st)"
| "add_range tmp answers (Suc k) i addr st =
     (case res_ip_add (tmp\<lparr>s_addr := bswap32 addr\<rparr>) (answers i) st of
        None \<Rightarrow> None
      | Some (Inl e) \<Rightarrow> Some (Inl e)
      | Some (Inr (_, st)) \<Rightarrow> add_range tmp answers k (i + 1) (addr + 1) st)"

text \<open>First address and number of addresses in host byte order; \<open>num\<close> is an \<^verbatim>\<open>int\<close>.\<close>

definition reload_num :: "u32 \<Rightarrow> u32 \<Rightarrow> u32 \<Rightarrow> int" where
  "reload_num ipstart ipend ipmask =
     sint ((ipend AND NOT ipmask) - (ipstart AND NOT ipmask) + 1)"

definition reload_range :: "u32 \<Rightarrow> u32 \<Rightarrow> u32 \<Rightarrow> u32 \<times> int" where
  "reload_range ipstart ipend ipmask =
     (let num = reload_num ipstart ipend ipmask;
          (ipstart, num) = (if ipstart AND NOT ipmask = 0 then (ipstart + 1, num - 1)
                            else (ipstart, num));
          num = (if ipend AND NOT ipmask = NOT ipmask then num - 1 else num)
      in (ipstart, num))"

definition res_ip_reload :: "(string \<Rightarrow> u32 option) \<Rightarrow> sockaddr_in \<Rightarrow> (nat \<Rightarrow> ptr option) \<Rightarrow>
    res_t \<times> ippool_t \<Rightarrow> (res_t \<times> ippool_t) res option" where
  "res_ip_reload inet_aton tmp answers rs =
     (let r = fst rs in
      if ip_start r = SQL_NULL \<or> ip_end r = SQL_NULL \<or> ip_mask r = SQL_NULL
      then Some (Inr rs)
      else case (inet_aton (ip_start r), inet_aton (ip_end r), inet_aton (ip_mask r)) of
        (Some s, Some e, Some m) \<Rightarrow>
          (let (eq, r) = res_ip_equ_bak r in
           if eq \<noteq> 0 then Some (Inr (r, snd rs))
           else if reload_num (bswap32 s) (bswap32 e) (bswap32 m) \<le> 0 then Some (Inr (r, snd rs))
           else let (addr, n) = reload_range (bswap32 s) (bswap32 e) (bswap32 m) in
             (case res_ip_clear (snd rs) of
                None \<Rightarrow> None
              | Some (Inl e) \<Rightarrow> Some (Inl e)
              | Some (Inr st) \<Rightarrow> (case add_range tmp answers (nat n) 0 addr st of
                    None \<Rightarrow> None
                  | Some (Inl e) \<Rightarrow> Some (Inl e)
                  | Some (Inr st) \<Rightarrow> Some (Inr (r, st)))))
      | _ \<Rightarrow> Some (Inr rs))"

section \<open>The invariant of the pool\<close>

definition addr_of :: "ippool_t \<Rightarrow> ptr \<Rightarrow> u32" where
  "addr_of st p = s_addr (ip_ipv4 (the (ips st p)))"

definition owner_of :: "ippool_t \<Rightarrow> ptr \<Rightarrow> byte list" where
  "owner_of st p = ip_apmac (the (ips st p))"

text \<open>\<open>ps\<close> are the nodes of the free list, \<open>qs\<close> those of the leased list.\<close>

definition pool_inv :: "ippool_t \<Rightarrow> ptr list \<Rightarrow> ptr list \<Rightarrow> bool" where
  "pool_inv st ps qs \<longleftrightarrow>
     dlist (links st) POOL ps \<and> dlist (links st) ALLOC qs \<and>
     set ps \<inter> set qs = {} \<and> dom (ips st) = set ps \<union> set qs \<and>
     POOL \<notin> dom (ips st) \<and> ALLOC \<notin> dom (ips st) \<and>
     distinct (map (addr_of st) (ps @ qs)) \<and>
     left st = int (length ps) \<and> total st = int (length ps + length qs)"

lemma pool_invD:
  assumes "pool_inv st ps qs"
  shows "dlist (links st) POOL ps" "dlist (links st) ALLOC qs"
    "insert POOL (set ps) \<inter> insert ALLOC (set qs) = {}"
    "p \<in> set ps \<or> p \<in> set qs \<Longrightarrow> ip_at st p = Inr (the (ips st p))"
    "left st = int (length ps)" "distinct (map (addr_of st) (ps @ qs))"
proof -
  have m: "dom (ips st) = set ps \<union> set qs" "POOL \<notin> dom (ips st)" "ALLOC \<notin> dom (ips st)"
    "set ps \<inter> set qs = {}"
    using assms unfolding pool_inv_def by blast+
  have "POOL \<noteq> ALLOC" by (simp add: pool_heads)
  with m show "insert POOL (set ps) \<inter> insert ALLOC (set qs) = {}" by blast
  show "ip_at st p = Inr (the (ips st p))" if "p \<in> set ps \<or> p \<in> set qs"
  proof -
    have "p \<in> dom (ips st)" using that m(1) by blast
    then show ?thesis by (auto simp: ip_at_def)
  qed
qed (use assms in \<open>simp_all add: pool_inv_def\<close>)

lemma pool_inv_init: "pool_inv res_ip_init [] []"
  by (simp add: pool_inv_def res_ip_init_def dlist_def pool_heads)

lemma pool_find:
  assumes "pool_inv st ps qs"
  shows "list_find (ip_test st a) POOL (links st) = Some (Inr (find (\<lambda>p. addr_of st p = s_addr a) ps))"
    and "list_find (ip_test st a) ALLOC (links st) = Some (Inr (find (\<lambda>p. addr_of st p = s_addr a) qs))"
  using pool_invD [OF assms]
  by (auto intro!: list_find_dlist simp: ip_test_def addrequ_def addr_of_def)

text \<open>The node \<open>p\<close> leaves the free list for the leased list, owned by \<open>hw\<close>.\<close>

definition leased :: "ptr \<Rightarrow> byte list \<Rightarrow> ippool_t \<Rightarrow> (ptr \<rightharpoonup> ip_t)" where
  "leased p hw st = (ips st)(p \<mapsto> (the (ips st p))\<lparr>ip_apmac := take ETH_ALEN hw\<rparr>)"

lemma pool_inv_lease:
  assumes inv: "pool_inv st (xs @ p # ys) qs"
  shows "\<exists>h. list_move p ALLOC (links st) = Inr h \<and>
     pool_inv (st\<lparr>links := h, ips := leased p hw st, left := left st - 1\<rparr>) (xs @ ys) (p # qs)"
proof -
  note d = pool_invD [OF inv]
  obtain h where h: "list_move p ALLOC (links st) = Inr h" "dlist h POOL (xs @ ys)"
    "dlist h ALLOC (p # qs)"
    using list_move_dlist [OF d(1,2,3)] by blast
  let ?st = "st\<lparr>links := h, ips := leased p hw st, left := left st - 1\<rparr>"
  have "addr_of ?st = addr_of st"
    by (simp add: fun_eq_iff addr_of_def leased_def)
  moreover have "dom (leased p hw st) = dom (ips st)"
    using inv by (auto simp: leased_def pool_inv_def)
  ultimately have "pool_inv ?st (xs @ ys) (p # qs)"
    using inv h(2,3) by (auto simp: pool_inv_def)
  with h(1) show ?thesis by blast
qed

lemma pool_upd_commute: "st\<lparr>ips := a, links := b\<rparr> = st\<lparr>links := b, ips := a\<rparr>"
  by simp

lemma set_apmac_eq:
  "pool_inv st ps qs \<Longrightarrow> p \<in> set ps \<or> p \<in> set qs \<Longrightarrow> set_apmac p hw st = Inr (st\<lparr>ips := leased p hw st\<rparr>)"
  using pool_invD(4) [of st ps qs p] by (simp add: set_apmac_def leased_def)

lemma alloc_first_eq:
  assumes inv: "pool_inv st (p # ps) qs"
  shows "\<exists>h. alloc_first hw st = Inr (Some p, st\<lparr>links := h, ips := leased p hw st, left := left st - 1\<rparr>) \<and>
     pool_inv (st\<lparr>links := h, ips := leased p hw st, left := left st - 1\<rparr>) ps (p # qs)"
proof -
  obtain h where h: "list_move p ALLOC (links st) = Inr h"
    "pool_inv (st\<lparr>links := h, ips := leased p hw st, left := left st - 1\<rparr>) ps (p # qs)"
    using pool_inv_lease [of st "[]" p ps qs hw] inv by auto
  with set_apmac_eq [OF inv, of p hw] dlist_next [OF pool_invD(1) [OF inv]] show ?thesis
    by (auto simp: alloc_first_def move_ip_def pool_upd_commute)
qed

section \<open>The contract of an address pool\<close>

text \<open>
  What the registration handler relies on: \<open>inv s F L\<close> says that the addresses \<open>F\<close> are free
  and \<open>L\<close> maps each leased address to its owner. A request is met while an address is free,
  and the conflict check answers by the owner.
\<close>

locale address_pool =
  fixes inv :: "'s \<Rightarrow> u32 set \<Rightarrow> (u32 \<rightharpoonup> byte list) \<Rightarrow> bool"
    and alloc :: "sockaddr_in option \<Rightarrow> byte list \<Rightarrow> 's \<Rightarrow> ('p option \<times> 's) res option"
    and addr :: "'s \<Rightarrow> 'p \<Rightarrow> u32"
    and conflict :: "sockaddr_in \<Rightarrow> byte list \<Rightarrow> 's \<Rightarrow> int res option"
  assumes alloc_law: "inv s F L \<Longrightarrow> F \<noteq> {} \<Longrightarrow> \<exists>p s'. alloc w hw s = Some (Inr (Some p, s')) \<and>
        addr s' p \<in> F \<and> inv s' (F - {addr s' p}) (L(addr s' p \<mapsto> take ETH_ALEN hw))"
    and wanted_law: "inv s F L \<Longrightarrow> alloc (Some x) hw s = Some (Inr (Some p, s')) \<Longrightarrow>
        s_addr x \<noteq> 0 \<Longrightarrow> s_addr x \<in> F \<Longrightarrow> addr s' p = s_addr x"
    and conflict_law: "inv s F L \<Longrightarrow> conflict x hw s = Some (Inr
        (if s_addr x \<noteq> 0 \<and> (\<exists>own. L (s_addr x) = Some own \<and> own \<noteq> take ETH_ALEN hw) then 1 else 0))"
    and disjoint_law: "inv s F L \<Longrightarrow> finite F \<and> F \<inter> dom L = {}"

text \<open>The addresses handed out to a sequence of requests.\<close>

fun lease_all :: "(sockaddr_in option \<Rightarrow> byte list \<Rightarrow> 's \<Rightarrow> ('p option \<times> 's) res option) \<Rightarrow>
    ('s \<Rightarrow> 'p \<Rightarrow> u32) \<Rightarrow> (sockaddr_in option \<times> byte list) list \<Rightarrow> 's \<Rightarrow>
    (u32 list \<times> 's) res option" where
  "lease_all alloc addr [] s = Some (Inr ([], s))"
| "lease_all alloc addr ((w, hw) # reqs) s =
     (case alloc w hw s of
        None \<Rightarrow> None
      | Some (Inl e) \<Rightarrow> Some (Inl e)
      | Some (Inr (None, s)) \<Rightarrow> lease_all alloc addr reqs s
      | Some (Inr (Some p, s)) \<Rightarrow>
          (case lease_all alloc addr reqs s of
             None \<Rightarrow> None
           | Some (Inl e) \<Rightarrow> Some (Inl e)
           | Some (Inr (as, s')) \<Rightarrow> Some (Inr (addr s p # as, s'))))"

context address_pool
begin

lemma lease_all_distinct:
  "inv s F L \<Longrightarrow> length reqs \<le> card F \<Longrightarrow>
   \<exists>as s' L'. lease_all alloc addr reqs s = Some (Inr (as, s')) \<and> length as = length reqs \<and>
     distinct as \<and> set as \<subseteq> F \<and> inv s' (F - set as) L' \<and>
     (\<forall>a. a \<notin> set as \<longrightarrow> L' a = L a) \<and>
     (\<forall>i < length reqs. L' (as ! i) = Some (take ETH_ALEN (snd (reqs ! i))))"
proof (induction reqs arbitrary: s F L)
  case Nil
  then show ?case by force
next
  case (Cons r reqs)
  obtain w hw where r: "r = (w, hw)" by (cases r)
  have fin: "finite F" using disjoint_law Cons.prems(1) by blast
  have "F \<noteq> {}" using Cons.prems(2) by auto
  then obtain p s1 where a: "alloc w hw s = Some (Inr (Some p, s1))" "addr s1 p \<in> F"
    and inv1: "inv s1 (F - {addr s1 p}) (L(addr s1 p \<mapsto> take ETH_ALEN hw))"
    using alloc_law [OF Cons.prems(1)] by blast
  have "length reqs \<le> card (F - {addr s1 p})"
    using Cons.prems(2) a(2) fin by (simp add: card_Diff_singleton)
  then obtain as s2 L2 where ih: "lease_all alloc addr reqs s1 = Some (Inr (as, s2))"
    "length as = length reqs" "distinct as" "set as \<subseteq> F - {addr s1 p}"
    "inv s2 (F - {addr s1 p} - set as) L2"
    "\<forall>a. a \<notin> set as \<longrightarrow> L2 a = (L(addr s1 p \<mapsto> take ETH_ALEN hw)) a"
    "\<forall>i < length reqs. L2 (as ! i) = Some (take ETH_ALEN (snd (reqs ! i)))"
    using Cons.IH [OF inv1] by blast
  have "F - {addr s1 p} - set as = F - set (addr s1 p # as)" by auto
  moreover have "L2 ((addr s1 p # as) ! i) = Some (take ETH_ALEN (snd ((r # reqs) ! i)))"
    if "i < length (r # reqs)" for i
    using that ih(4,6,7) by (cases i) (auto simp: r)
  ultimately show ?case
    using ih a by (intro exI [of _ "addr s1 p # as"] exI [of _ s2] exI [of _ L2]) (auto simp: r)
qed

end

definition lease_map :: "ippool_t \<Rightarrow> ptr list \<Rightarrow> (u32 \<rightharpoonup> byte list)" where
  "lease_map st qs = map_of (map (\<lambda>q. (addr_of st q, take ETH_ALEN (owner_of st q))) qs)"

definition pool_abs :: "ippool_t \<Rightarrow> u32 set \<Rightarrow> (u32 \<rightharpoonup> byte list) \<Rightarrow> bool" where
  "pool_abs st F L \<longleftrightarrow> (\<exists>ps qs. pool_inv st ps qs \<and> F = addr_of st ` set ps \<and> L = lease_map st qs)"

lemma map_of_find: "map_of (map (\<lambda>q. (f q, g q)) qs) a = map_option g (find (\<lambda>q. f q = a) qs)"
  by (induction qs) auto

lemma leased_simps [simp]:
  "addr_of (st\<lparr>links := h, ips := leased p hw st, left := l\<rparr>) = addr_of st"
  "owner_of (st\<lparr>links := h, ips := leased p hw st, left := l\<rparr>) =
     (owner_of st)(p := take ETH_ALEN hw)"
  by (simp_all add: fun_eq_iff addr_of_def owner_of_def leased_def)

lemma find_split: "find P xs = Some p \<Longrightarrow> P p \<and> (\<exists>ys zs. xs = ys @ p # zs \<and> p \<notin> set ys)"
proof (induction xs)
  case (Cons a xs)
  show ?case
  proof (cases "P a")
    case True
    then have "xs = xs" "p = a" using Cons.prems by auto
    with True show ?thesis by (metis append_Nil empty_iff empty_set)
  next
    case False
    then obtain ys zs where "P p" "xs = ys @ p # zs" "p \<notin> set ys" using Cons by auto
    moreover have "p \<noteq> a" using False calculation(1) by auto
    ultimately show ?thesis by (metis append_Cons set_ConsD)
  qed
qed simp

lemma res_ip_alloc_spec:
  assumes inv: "pool_inv st ps qs" and ne: "ps \<noteq> []"
  shows "\<exists>p xs ys h. ps = xs @ p # ys \<and>
     res_ip_alloc addr hw st = Some (Inr (Some p, st\<lparr>links := h, ips := leased p hw st, left := left st - 1\<rparr>)) \<and>
     pool_inv (st\<lparr>links := h, ips := leased p hw st, left := left st - 1\<rparr>) (xs @ ys) (p # qs) \<and>
     (xs = [] \<or> (\<exists>a. addr = Some a \<and> s_addr a \<noteq> 0 \<and> addr_of st p = s_addr a)) \<and>
     (\<forall>a. addr = Some a \<and> s_addr a \<noteq> 0 \<and> s_addr a \<in> addr_of st ` set ps \<longrightarrow> addr_of st p = s_addr a)"
proof -
  obtain q qs' where ps: "ps = q # qs'" using ne by (cases ps) auto
  have l: "left st \<noteq> 0" using pool_invD(5) [OF inv] ne by simp
  obtain h0 where first: "alloc_first hw st = Inr (Some q, st\<lparr>links := h0, ips := leased q hw st, left := left st - 1\<rparr>)"
    "pool_inv (st\<lparr>links := h0, ips := leased q hw st, left := left st - 1\<rparr>) qs' (q # qs)"
    using alloc_first_eq inv unfolding ps by blast
  show ?thesis
  proof (cases "\<exists>a p. addr = Some a \<and> s_addr a \<noteq> 0 \<and> find (\<lambda>p. addr_of st p = s_addr a) ps = Some p")
    case True
    then obtain a p where a: "addr = Some a" "s_addr a \<noteq> 0" "find (\<lambda>p. addr_of st p = s_addr a) ps = Some p"
      by blast
    then obtain xs ys where p: "addr_of st p = s_addr a" "ps = xs @ p # ys"
      using find_split by fastforce
    obtain h where h: "list_move p ALLOC (links st) = Inr h"
      "pool_inv (st\<lparr>links := h, ips := leased p hw st, left := left st - 1\<rparr>) (xs @ ys) (p # qs)"
      using pool_inv_lease inv unfolding p(2) by blast
    have "ip_at st p = Inr (the (ips st p))"
      using pool_invD(4) [OF inv, of p] p(2) by simp
    then have "set_apmac p hw (st\<lparr>links := h\<rparr>) = Inr (st\<lparr>links := h, ips := leased p hw st\<rparr>)"
      by (simp add: set_apmac_def leased_def ip_at_def)
    then have "res_ip_alloc addr hw st =
        Some (Inr (Some p, st\<lparr>links := h, ips := leased p hw st, left := left st - 1\<rparr>))"
      using a l h(1) by (simp add: res_ip_alloc_def pool_find [OF inv] move_ip_def)
    then show ?thesis using h(2) p a(1,2) by blast
  next
    case False
    then have "res_ip_alloc addr hw st = Some (alloc_first hw st)"
      using l by (auto simp: res_ip_alloc_def pool_find [OF inv] split: option.split)
    moreover have "s_addr a \<notin> addr_of st ` set ps" if "addr = Some a" "s_addr a \<noteq> 0" for a
      using False that by (auto simp: find_None_iff)
    ultimately show ?thesis
      using first(2) unfolding ps first(1)
      by (intro exI [of _ q] exI [of _ "[]"] exI [of _ qs'] exI [of _ h0]) auto
  qed
qed

lemma lease_map_Cons:
  "distinct (map (addr_of st) (p # qs)) \<Longrightarrow>
   lease_map st (p # qs) = (lease_map st qs)(addr_of st p \<mapsto> take ETH_ALEN (owner_of st p))"
  by (simp add: lease_map_def)

lemma lease_map_dom: "dom (lease_map st qs) = addr_of st ` set qs"
  by (auto simp: lease_map_def dom_map_of_conv_image_fst image_image)

lemma lease_map_other:
  "p \<notin> set qs \<Longrightarrow> lease_map (st\<lparr>links := h, ips := leased p hw st, left := l\<rparr>) qs = lease_map st qs"
  by (auto simp: lease_map_def intro!: arg_cong [of _ _ map_of])

lemma pool_abs_alloc:
  assumes "pool_abs st F L" "F \<noteq> {}"
  shows "\<exists>p st'. res_ip_alloc w hw st = Some (Inr (Some p, st')) \<and>
     addr_of st' p \<in> F \<and> pool_abs st' (F - {addr_of st' p}) (L(addr_of st' p \<mapsto> take ETH_ALEN hw)) \<and>
     (\<forall>a. w = Some a \<and> s_addr a \<noteq> 0 \<and> s_addr a \<in> F \<longrightarrow> addr_of st' p = s_addr a)"
proof -
  obtain ps qs where inv: "pool_inv st ps qs" and F: "F = addr_of st ` set ps"
    and L: "L = lease_map st qs"
    using assms(1) by (auto simp: pool_abs_def)
  have "ps \<noteq> []" using assms(2) F by auto
  then obtain p xs ys h where p: "ps = xs @ p # ys"
    and r: "res_ip_alloc w hw st =
      Some (Inr (Some p, st\<lparr>links := h, ips := leased p hw st, left := left st - 1\<rparr>))"
    and inv': "pool_inv (st\<lparr>links := h, ips := leased p hw st, left := left st - 1\<rparr>) (xs @ ys) (p # qs)"
    and w: "\<forall>a. w = Some a \<and> s_addr a \<noteq> 0 \<and> s_addr a \<in> F \<longrightarrow> addr_of st p = s_addr a"
    using res_ip_alloc_spec [OF inv] F by metis
  let ?st = "st\<lparr>links := h, ips := leased p hw st, left := left st - 1\<rparr>"
  have dist: "distinct (map (addr_of st) (ps @ qs))" using pool_invD(6) [OF inv] .
  have "addr_of st p \<notin> addr_of st ` set (xs @ ys)"
    using dist unfolding p by (simp add: image_Un)
  moreover have "F = insert (addr_of st p) (addr_of st ` set (xs @ ys))" unfolding F p by auto
  ultimately have F': "F - {addr_of st p} = addr_of ?st ` set (xs @ ys)" by simp
  have "p \<notin> set qs" using dist unfolding p by auto
  moreover have "distinct (map (addr_of ?st) (p # qs))"
    using pool_invD(6) [OF inv'] by auto
  ultimately have L': "L(addr_of st p \<mapsto> take ETH_ALEN hw) = lease_map ?st (p # qs)"
    using lease_map_Cons [of ?st p qs] lease_map_other by (simp add: L)
  have "pool_abs ?st (F - {addr_of st p}) (L(addr_of st p \<mapsto> take ETH_ALEN hw))"
    unfolding pool_abs_def using inv' F' L' by blast
  moreover have "addr_of st p \<in> F" by (simp add: F p)
  ultimately show ?thesis using r w by (intro exI [of _ p] exI [of _ ?st]) simp
qed

lemma pool_abs_conflict:
  assumes "pool_abs st F L"
  shows "res_ip_conflict x hw st = Some (Inr
     (if s_addr x \<noteq> 0 \<and> (\<exists>own. L (s_addr x) = Some own \<and> own \<noteq> take ETH_ALEN hw) then 1 else 0))"
proof -
  obtain ps qs where inv: "pool_inv st ps qs" and L: "L = lease_map st qs"
    using assms by (auto simp: pool_abs_def)
  have at: "ip_at st q = Inr (the (ips st q))" if "find (\<lambda>p. addr_of st p = s_addr x) qs = Some q" for q
    using pool_invD(4) [OF inv, of q] that by (auto simp: find_Some_iff)
  show ?thesis
    using at
    by (auto simp: res_ip_conflict_def pool_find [OF inv] L lease_map_def map_of_find owner_of_def
      memcmp_eq_def split: option.split)
qed

interpretation ip_pool: address_pool pool_abs res_ip_alloc addr_of res_ip_conflict
proof (unfold_locales, goal_cases)
  case (1 s F L w hw)
  then show ?case using pool_abs_alloc by blast
next
  case (2 s F L x hw p s')
  then have "F \<noteq> {}" by auto
  from pool_abs_alloc [OF 2(1) this, of "Some x" hw] 2 show ?case by auto
next
  case (3 s F L x hw)
  then show ?case by (rule pool_abs_conflict)
next
  case (4 s F L)
  then obtain ps qs where "pool_inv s ps qs" "F = addr_of s ` set ps" "L = lease_map s qs"
    unfolding pool_abs_def by blast
  then show ?case using pool_invD(6) by (simp add: lease_map_dom)
qed

section \<open>Adding and clearing\<close>

lemma dlist_upd:
  assumes "p \<notin> insert head (set ps)"
  shows "dlist \<lparr>next_p = (next_p h)(p := x), prev_p = (prev_p h)(p := y)\<rparr> head ps = dlist h head ps"
proof -
  have "dseg \<lparr>next_p = (next_p h)(p := x), prev_p = (prev_p h)(p := y)\<rparr> (head # ps @ [head]) =
      dseg h (head # ps @ [head])"
    using assms by (intro dseg_cong) (auto simp: butlast_append)
  then show ?thesis by (simp add: dlist_def)
qed

lemma find_addr:
  "find (\<lambda>p. f p = a) ps = None \<longleftrightarrow> a \<notin> f ` set ps"
  "find (\<lambda>p. f p = a) ps = Some q \<Longrightarrow> a \<in> f ` set ps"
  by (auto simp: find_None_iff find_Some_iff)

lemma res_ip_repeat_eq:
  assumes "pool_inv st ps qs"
  shows "res_ip_repeat a st = Some (Inr (if s_addr a \<in> addr_of st ` (set ps \<union> set qs) then 1 else 0))"
proof (cases "find (\<lambda>p. addr_of st p = s_addr a) ps")
  case ps: None
  then have n: "s_addr a \<notin> addr_of st ` set ps" by (rule find_addr(1) [THEN iffD1])
  show ?thesis
  proof (cases "find (\<lambda>p. addr_of st p = s_addr a) qs")
    case None
    with find_addr(1) [THEN iffD1, OF None] n ps show ?thesis
      by (simp only: res_ip_repeat_def pool_find [OF assms] image_Un Un_iff option.case sum.case) simp
  next
    case (Some q)
    with find_addr(2) [OF Some] n ps show ?thesis
      by (simp only: res_ip_repeat_def pool_find [OF assms] image_Un Un_iff option.case sum.case) simp
  qed
next
  case (Some q)
  with find_addr(2) [OF Some] show ?thesis
    by (simp add: res_ip_repeat_def pool_find [OF assms] image_Un)
qed

lemma res_ip_add_inv:
  assumes inv: "pool_inv st ps qs" and new: "s_addr a \<notin> addr_of st ` (set ps \<union> set qs)"
    and p: "p \<notin> dom (ips st)" "p \<noteq> POOL" "p \<noteq> ALLOC"
  shows "\<exists>st'. res_ip_add a (Some p) st = Some (Inr (0, st')) \<and> pool_inv st' (ps @ [p]) qs \<and>
     addr_of st' = (addr_of st)(p := s_addr a)"
proof -
  let ?st = "calloc_ip p st"
  have m: "p \<notin> insert POOL (set ps)" "p \<notin> insert ALLOC (set qs)"
    using inv p by (auto simp: pool_inv_def)
  have d: "dlist (links ?st) POOL ps" "dlist (links ?st) ALLOC qs" "linked (links ?st) p"
    using pool_invD(1,2) [OF inv] m by (simp_all add: calloc_ip_def dlist_upd linked_def)
  obtain h where h: "list_add_tail p POOL (links ?st) = Inr h" "dlist h POOL (ps @ [p])"
    "heap_frame (insert p (insert POOL (set ps))) (links ?st) h"
    using list_add_tail_dlist [OF d(1,3) m(1)] by blast
  have d2: "dlist h ALLOC qs"
    by (rule dlist_frame [OF d(2) h(3)]) (use m(2) pool_invD(3) [OF inv] in auto)
  let ?st' = "?st\<lparr>ips := (ips ?st)(p \<mapsto> \<lparr>ip_apmac = replicate ETH_ALEN 0, ip_ipv4 = a\<rparr>),
      links := h, total := total st + 1, left := left st + 1\<rparr>"
  have "res_ip_add a (Some p) st = Some (Inr (0, ?st'))"
    using new h(1)
    by (simp add: res_ip_add_def res_ip_repeat_eq [OF inv] Let_def ip_at_def calloc_ip_def)
  moreover have ad: "addr_of ?st' = (addr_of st)(p := s_addr a)"
    by (auto simp: addr_of_def calloc_ip_def)
  have "map (addr_of ?st') ((ps @ [p]) @ qs) = map (addr_of st) ps @ s_addr a # map (addr_of st) qs"
    using m unfolding ad by auto
  then have "distinct (map (addr_of ?st') ((ps @ [p]) @ qs))"
    using pool_invD(6) [OF inv] new by (simp only: image_Un) auto
  then have "pool_inv ?st' (ps @ [p]) qs"
    using inv h(2) d2 p m by (auto simp: pool_inv_def calloc_ip_def)
  ultimately show ?thesis using ad by blast
qed

lemma of_nat_Suc_neq_0: "Suc j < 2 ^ 32 \<Longrightarrow> (1 :: u32) + of_nat j \<noteq> 0"
proof
  assume j: "Suc j < 2 ^ 32" and "(1 :: u32) + of_nat j = 0"
  then have "(of_nat (Suc j) :: u32) = 0" by simp
  then have "(2 :: nat) ^ 32 dvd Suc j"
    unfolding word_of_nat_eq_0_iff by simp
  with j show False using dvd_imp_le [of "2 ^ 32" "Suc j"] by linarith
qed

lemma add_range_inv:
  "pool_inv st ps qs \<Longrightarrow> k \<le> 2 ^ 32 \<Longrightarrow> length ns = k \<Longrightarrow> distinct ns \<Longrightarrow>
   \<forall>j<k. answers (i + j) = Some (ns ! j) \<Longrightarrow>
   set ns \<inter> (dom (ips st) \<union> {POOL, ALLOC}) = {} \<Longrightarrow>
   \<forall>j<k. bswap32 (a + of_nat j) \<notin> addr_of st ` (set ps \<union> set qs) \<Longrightarrow>
   \<exists>st'. add_range tmp answers k i a st = Some (Inr st') \<and> pool_inv st' (ps @ ns) qs \<and>
     map (addr_of st') (ps @ ns) = map (addr_of st) ps @ map (\<lambda>j. bswap32 (a + of_nat j)) [0..<k]"
proof (induction k arbitrary: st ps ns i a)
  case 0
  then show ?case by simp
next
  case (Suc k)
  obtain n ns' where ns: "ns = n # ns'" using Suc.prems(3) by (cases ns) auto
  have an: "answers i = Some n" using Suc.prems(5) [rule_format, of 0] by (simp add: ns)
  let ?a = "tmp\<lparr>s_addr := bswap32 a\<rparr>"
  have "s_addr ?a \<notin> addr_of st ` (set ps \<union> set qs)"
    using Suc.prems(7) [rule_format, of 0] by simp
  then obtain st1 where st1: "res_ip_add ?a (Some n) st = Some (Inr (0, st1))"
    "pool_inv st1 (ps @ [n]) qs" "addr_of st1 = (addr_of st)(n := bswap32 a)"
    using res_ip_add_inv [OF Suc.prems(1), of ?a n] Suc.prems(6) ns by auto
  have dom1: "dom (ips st1) = insert n (dom (ips st))"
    using st1(2) Suc.prems(1) by (auto simp: pool_inv_def)
  have nps: "n \<notin> set ps" "n \<notin> set qs"
    using Suc.prems(1,6) ns by (auto simp: pool_inv_def)
  have "\<exists>st'. add_range tmp answers k (i + 1) (a + 1) st1 = Some (Inr st') \<and>
      pool_inv st' ((ps @ [n]) @ ns') qs \<and>
      map (addr_of st') ((ps @ [n]) @ ns') =
        map (addr_of st1) (ps @ [n]) @ map (\<lambda>j. bswap32 (a + 1 + of_nat j)) [0..<k]"
  proof (rule Suc.IH [OF st1(2)])
    show "\<forall>j<k. answers (i + 1 + j) = Some (ns' ! j)"
      using Suc.prems(5) by (auto simp: ns)
    show "set ns' \<inter> (dom (ips st1) \<union> {POOL, ALLOC}) = {}"
      using Suc.prems(4,6) unfolding dom1 by (auto simp: ns)
    show "\<forall>j<k. bswap32 (a + 1 + of_nat j) \<notin> addr_of st1 ` (set (ps @ [n]) \<union> set qs)"
    proof (intro allI impI)
      fix j assume j: "j < k"
      then have "bswap32 (a + of_nat (Suc j)) \<notin> addr_of st ` (set ps \<union> set qs)"
        using Suc.prems(7) by blast
      moreover have "bswap32 (a + 1 + of_nat j) \<noteq> bswap32 a"
        using of_nat_Suc_neq_0 [of j] j Suc.prems(2) by (simp add: add.assoc)
      ultimately show "bswap32 (a + 1 + of_nat j) \<notin> addr_of st1 ` (set (ps @ [n]) \<union> set qs)"
        using nps by (auto simp: st1(3) add.assoc)
    qed
  qed (use Suc.prems ns in simp_all)
  then obtain st2 where st2: "add_range tmp answers k (i + 1) (a + 1) st1 = Some (Inr st2)"
    "pool_inv st2 ((ps @ [n]) @ ns') qs"
    "map (addr_of st2) ((ps @ [n]) @ ns') =
      map (addr_of st1) (ps @ [n]) @ map (\<lambda>j. bswap32 (a + 1 + of_nat j)) [0..<k]"
    by blast
  have "map (addr_of st1) (ps @ [n]) = map (addr_of st) ps @ [bswap32 a]"
    using nps by (auto simp: st1(3))
  moreover have "map (\<lambda>j. bswap32 (a + of_nat j)) [0..<Suc k] =
      bswap32 a # map (\<lambda>j. bswap32 (a + 1 + of_nat j)) [0..<k]"
    by (simp add: upt_conv_Cons map_Suc_upt [symmetric] add.assoc del: upt_Suc)
  ultimately show ?case
    using st1(1) st2 by (auto simp: an ns)
qed

text \<open>Clearing frees the nodes of both lists; the heads keep their links.\<close>

definition drop_nodes :: "ptr set \<Rightarrow> ippool_t \<Rightarrow> ippool_t" where
  "drop_nodes S st = st\<lparr>links := \<lparr>next_p = next_p (links st) |` (- S), prev_p = prev_p (links st) |` (- S)\<rparr>,
     ips := ips st |` (- S)\<rparr>"

lemma free_ip_eq: "p \<in> dom (ips st) \<Longrightarrow> free_ip p st = Inr (drop_nodes {p} st)"
  by (auto simp: free_ip_def ip_at_def drop_nodes_def restrict_map_def fun_eq_iff)

lemma drop_nodes_drop: "drop_nodes S (drop_nodes T st) = drop_nodes (S \<union> T) st"
  by (simp add: drop_nodes_def restrict_map_def fun_eq_iff)

lemma drop_nodes_empty [simp]: "drop_nodes {} st = st"
  by (auto simp: drop_nodes_def restrict_map_def intro!: ippool_t.equality list_heap.equality)

lemma clear_from_eq:
  "dseg (links st) (p # rs @ [head]) \<Longrightarrow> head \<notin> set (p # rs) \<Longrightarrow> distinct (p # rs) \<Longrightarrow>
   set (p # rs) \<subseteq> dom (ips st) \<Longrightarrow> next_p (links st) head \<noteq> None \<Longrightarrow>
   clear_from head p (hd (rs @ [head])) st = Some (Inr (drop_nodes (set (p # rs)) st))"
proof (induction rs arbitrary: p st)
  case Nil
  then obtain x where "next_p (links (drop_nodes {p} st)) head = Some x"
    by (auto simp: drop_nodes_def)
  with Nil show ?case
    by (simp add: clear_from.simps [of head p] clear_from.simps [of head head] free_ip_eq load_ptr_def)
next
  case (Cons q rs)
  let ?st = "drop_nodes {p} st"
  have d: "dseg (links st) (q # rs @ [head])" using Cons.prems(1) by simp
  have "dseg (links ?st) (q # rs @ [head]) = dseg (links st) (q # rs @ [head])"
    using Cons.prems(2,3)
    by (intro dseg_cong) (auto simp: drop_nodes_def restrict_map_def butlast_append split: if_splits)
  then have ih: "clear_from head q (hd (rs @ [head])) ?st = Some (Inr (drop_nodes (set (q # rs)) ?st))"
    using Cons.prems d by (intro Cons.IH) (auto simp: drop_nodes_def)
  have "next_p (links st) q = Some (hd (rs @ [head]))"
    using d by (cases rs) simp_all
  then have n: "next_p (links ?st) q = Some (hd (rs @ [head]))"
    using Cons.prems(3) by (auto simp: drop_nodes_def)
  have "set (q # rs) \<union> {p} = set (p # q # rs)" by auto
  then have "drop_nodes (set (q # rs)) ?st = drop_nodes (set (p # q # rs)) st"
    by (simp only: drop_nodes_drop)
  then show ?case
    using Cons.prems(2,4) ih n
    by (subst clear_from.simps) (simp add: free_ip_eq load_ptr_def)
qed

lemma clear_list_eq:
  assumes "dlist (links st) head ps" "set ps \<subseteq> dom (ips st)"
  shows "clear_list head st = Some (Inr (drop_nodes (set ps) st))"
proof (cases ps)
  case Nil
  with assms show ?thesis
    by (simp add: clear_list_def dlist_def load_ptr_def clear_from.simps [of head head])
next
  case (Cons p rs)
  have "next_p (links st) head = Some p" "dseg (links st) (p # rs @ [head])"
    using assms(1) by (simp_all add: Cons dlist_def)
  moreover have "next_p (links st) p = Some (hd (rs @ [head]))"
    using calculation(2) by (cases rs) simp_all
  moreover have "clear_from head p (hd (rs @ [head])) st = Some (Inr (drop_nodes (set ps) st))"
    unfolding Cons using assms calculation(1,2) by (intro clear_from_eq) (auto simp: Cons dlist_def)
  ultimately show ?thesis by (simp add: clear_list_def load_ptr_def)
qed

lemma res_ip_clear_eq:
  assumes inv: "pool_inv st ps qs"
  shows "res_ip_clear st = Some (Inr ((drop_nodes (set ps \<union> set qs) st)\<lparr>total := 0, left := 0\<rparr>))"
proof -
  have "clear_list POOL st = Some (Inr (drop_nodes (set ps) st))"
    using inv by (intro clear_list_eq) (auto simp: pool_inv_def)
  moreover have "dlist (links (drop_nodes (set ps) st)) ALLOC qs = dlist (links st) ALLOC qs"
    unfolding dlist_def using pool_invD(3) [OF inv]
    by (intro conj_cong refl dseg_cong) (auto simp: drop_nodes_def restrict_map_def butlast_append)
  then have "clear_list ALLOC (drop_nodes (set ps) st) =
      Some (Inr (drop_nodes (set qs) (drop_nodes (set ps) st)))"
    using inv by (intro clear_list_eq) (auto simp: pool_inv_def drop_nodes_def)
  ultimately show ?thesis
    by (simp add: res_ip_clear_def drop_nodes_drop Un_commute)
qed

section \<open>The range of a reload\<close>

lemma and_plus_and_not: "(a :: u32) = (a AND m) + (a AND NOT m)"
proof -
  have "(a AND m) + (a AND NOT m) = (a AND m) OR (a AND NOT m)"
    by (rule disjunctive_add) (simp add: bit_simps)
  also have "\<dots> = a" by (rule bit_word_eqI) (auto simp: bit_simps)
  finally show ?thesis by simp
qed

text \<open>Adding \<open>d\<close> to an address stays in its network while the host part does not overflow.\<close>

lemma host_part_add:
  fixes a m :: u32
  assumes m: "NOT m = mask k" and k: "k \<le> 32" and d: "unat (a AND NOT m) + d < 2 ^ k"
  shows "unat ((a + of_nat d) AND NOT m) = unat (a AND NOT m) + d"
    and "(a + of_nat d) AND m = a AND m"
proof -
  have h: "w AND NOT m = take_bit k w" for w :: u32
    by (simp add: m take_bit_eq_mask)
  have ut: "unat (take_bit k w) = unat w mod 2 ^ k" for w :: u32
    unfolding unsigned_take_bit_eq by (rule take_bit_eq_mod)
  have mm: "x mod 2 ^ 32 mod 2 ^ k = x mod 2 ^ k" for x :: nat
    using k by (intro mod_mod_cancel le_imp_power_dvd)
  have "unat (a + of_nat d) = (unat a + d) mod 2 ^ 32"
    by (simp add: unat_word_ariths unsigned_of_nat take_bit_eq_mod mod_simps)
  then have "unat (take_bit k (a + of_nat d)) = (unat a + d) mod 2 ^ k"
    by (simp only: ut mm)
  also have "\<dots> = (unat (take_bit k a) + d) mod 2 ^ k"
    by (simp only: ut mod_add_left_eq)
  also have "\<dots> = unat (take_bit k a) + d"
    using d unfolding h by simp
  finally show u: "unat ((a + of_nat d) AND NOT m) = unat (a AND NOT m) + d"
    unfolding h .
  have "(a + of_nat d) AND NOT m = (a AND NOT m) + of_nat d"
    using arg_cong [OF u, of "of_nat :: nat \<Rightarrow> u32"] by simp
  then have "(a + of_nat d) - ((a + of_nat d) AND NOT m) = a - (a AND NOT m)" by simp
  then show "(a + of_nat d) AND m = a AND m"
    using and_plus_and_not [of a m] and_plus_and_not [of "a + of_nat d" m]
    by (metis add_diff_cancel_right')
qed

text \<open>The range when the mask is a prefix and the end does not lie before the start.\<close>

lemma sint_of_nat_small: "n < 2 ^ 31 \<Longrightarrow> sint (of_nat n :: u32) = int n"
  by (simp add: signed_of_nat signed_take_bit_int_eq_self)

lemma reload_num_eq:
  assumes "s AND NOT m \<le> e AND NOT m" "unat (e AND NOT m) - unat (s AND NOT m) + 1 < 2 ^ 31"
  shows "reload_num s e m = int (unat (e AND NOT m) - unat (s AND NOT m) + 1)"
proof -
  let ?n = "unat (e AND NOT m) - unat (s AND NOT m) + 1"
  have "(e AND NOT m) - (s AND NOT m) + 1 = of_nat ?n"
    using assms(1) by (simp add: word_le_nat_alt of_nat_diff)
  moreover have "sint (of_nat ?n :: u32) = int ?n"
    using assms(2) by (rule sint_of_nat_small)
  ultimately show ?thesis unfolding reload_num_def by (simp only:)
qed

lemma reload_range_eq:
  assumes le: "s AND NOT m \<le> e AND NOT m"
    and fits: "unat (e AND NOT m) - unat (s AND NOT m) + 1 < 2 ^ 31"
    and r: "reload_range s e m = (a, n)"
  shows "n = int (unat (e AND NOT m) - unat (s AND NOT m) + 1) -
      int (if s AND NOT m = 0 then 1 else 0) - int (if e AND NOT m = NOT m then 1 else 0)"
    and "a = s + of_nat (if s AND NOT m = 0 then 1 else 0)"
  using r reload_num_eq [OF le fits] by (auto simp: reload_range_def Let_def split: if_splits)

lemma range_arith:
  "j < nat (int (E - S + 1) - int d - int f) \<Longrightarrow> S \<le> E \<Longrightarrow> S + (d + j) + f \<le> E"
  by linarith

lemma reload_range_hosts:
  assumes m: "NOT m = mask k" "k \<le> 32" and le: "s AND NOT m \<le> e AND NOT m"
    and fits: "unat (e AND NOT m) - unat (s AND NOT m) + 1 < 2 ^ 31"
    and r: "reload_range s e m = (a, n)" and j: "j < nat n"
  shows "(a + of_nat j) AND m = s AND m"
    and "unat ((a + of_nat j) AND NOT m) =
      (if s AND NOT m = 0 then 1 else unat (s AND NOT m)) + j"
    and "(a + of_nat j) AND NOT m \<le> e AND NOT m"
    and "(a + of_nat j) AND NOT m \<noteq> NOT m"
proof -
  let ?S = "unat (s AND NOT m)" and ?E = "unat (e AND NOT m)"
  let ?d = "if s AND NOT m = 0 then 1 else (0 :: nat)"
  let ?f = "if e AND NOT m = NOT m then 1 else (0 :: nat)"
  have n: "n = int (?E - ?S + 1) - int ?d - int ?f"
    and a: "a + of_nat j = s + of_nat (?d + j)"
    using reload_range_eq [OF le fits r] by (simp_all add: add.assoc)
  have SE: "?S \<le> ?E" using le by (simp add: word_le_nat_alt)
  have E: "?E < 2 ^ k"
  proof -
    have "e AND NOT m = take_bit k e" using m(1) by (simp add: take_bit_eq_mask)
    then show ?thesis using m(2) by (simp add: unsigned_take_bit_eq)
  qed
  have top: "unat (NOT m) = 2 ^ k - 1"
  proof -
    have "NOT m = take_bit k (-1)" using m(1) by simp
    then have "unat (NOT m) = take_bit k (mask 32)"
      by (simp only: unsigned_take_bit_eq unsigned_minus_1_eq_mask) simp
    also have "\<dots> = mask k" using m(2) by (simp only: take_bit_of_mask min_absorb1)
    finally show ?thesis by (simp only: mask_eq_exp_minus_1)
  qed
  have j': "?S + (?d + j) \<le> ?E" "e AND NOT m = NOT m \<Longrightarrow> ?S + (?d + j) < ?E"
    using range_arith [OF j [unfolded n] SE] by (simp_all del: unat_eq_zero)
  then have d: "?S + (?d + j) < 2 ^ k" using E by linarith
  note h = host_part_add [OF m d, folded a]
  show "(a + of_nat j) AND m = s AND m" by (rule h(2))
  show u: "unat ((a + of_nat j) AND NOT m) = (if s AND NOT m = 0 then 1 else ?S) + j"
    using h(1) by simp
  show "(a + of_nat j) AND NOT m \<le> e AND NOT m"
    using h(1) j'(1) by (simp add: word_le_nat_alt)
  show "(a + of_nat j) AND NOT m \<noteq> NOT m"
  proof
    assume t: "(a + of_nat j) AND NOT m = NOT m"
    then have "?S + (?d + j) = 2 ^ k - 1" using h(1) top by simp
    with j' E have "?E = 2 ^ k - 1" by linarith
    then have "e AND NOT m = NOT m" using top by (simp add: word_unat_eq_iff)
    with j'(2) \<open>?S + (?d + j) = 2 ^ k - 1\<close> \<open>?E = 2 ^ k - 1\<close> show False by simp
  qed
qed

lemma res_ip_alloc_empty:
  assumes "pool_inv st [] qs"
  shows "res_ip_alloc addr hw st = Some (Inl OutOfBounds)"
proof -
  have "ip_at st POOL = Inl OutOfBounds"
    using assms by (auto simp: ip_at_def pool_inv_def split: option.split)
  then have "alloc_first hw st = Inl OutOfBounds"
    using dlist_next [OF pool_invD(1) [OF assms]] by (simp add: alloc_first_def set_apmac_def)
  then show ?thesis
    using pool_invD(5) [OF assms] list_empty_dlist [OF pool_invD(1) [OF assms]] pool_find(1) [OF assms]
    by (auto simp: res_ip_alloc_def split: option.split)
qed

lemma res_ip_alloc_effect:
  assumes "pool_inv st ps qs" "ps \<noteq> []"
  shows "\<exists>p st'. res_ip_alloc addr hw st = Some (Inr (Some p, st')) \<and>
     pool_inv st' (remove1 p ps) (p # qs) \<and> addr_of st' = addr_of st \<and>
     owner_of st' = (owner_of st)(p := take ETH_ALEN hw) \<and>
     left st' = left st - 1 \<and> total st' = total st \<and>
     (case addr of
        Some a \<Rightarrow> if s_addr a \<noteq> 0 \<and> s_addr a \<in> addr_of st ` set ps
                  then addr_of st p = s_addr a else p = hd ps
      | None \<Rightarrow> p = hd ps)"
proof -
  obtain p xs ys h where s: "ps = xs @ p # ys"
    "res_ip_alloc addr hw st =
      Some (Inr (Some p, st\<lparr>links := h, ips := leased p hw st, left := left st - 1\<rparr>))"
    "pool_inv (st\<lparr>links := h, ips := leased p hw st, left := left st - 1\<rparr>) (xs @ ys) (p # qs)"
    "xs = [] \<or> (\<exists>a. addr = Some a \<and> s_addr a \<noteq> 0 \<and> addr_of st p = s_addr a)"
    "\<forall>a. addr = Some a \<and> s_addr a \<noteq> 0 \<and> s_addr a \<in> addr_of st ` set ps \<longrightarrow> addr_of st p = s_addr a"
    using res_ip_alloc_spec [OF assms, of addr hw] by (elim exE conjE) (rule that)
  have "p \<notin> set xs" using assms(1) by (auto simp: s(1) pool_inv_def dlist_def)
  then have r: "remove1 p ps = xs @ ys" by (simp add: s(1) remove1_append)
  have "addr_of st p \<in> addr_of st ` set ps" "xs = [] \<Longrightarrow> p = hd ps" by (simp_all add: s(1))
  then have "case addr of Some a \<Rightarrow> if s_addr a \<noteq> 0 \<and> s_addr a \<in> addr_of st ` set ps
      then addr_of st p = s_addr a else p = hd ps | None \<Rightarrow> p = hd ps"
    using s(4,5) by (auto split: option.split)
  then show ?thesis
    unfolding s(2) using s(3) [folded r]
    by (intro exI [of _ p] exI [of _ "st\<lparr>links := h, ips := leased p hw st, left := left st - 1\<rparr>"]
        conjI refl) (assumption | simp only: leased_simps | simp)+
qed

lemma res_ip_reload_inv:
  assumes "pool_inv st [] []"
    and "ip_start r \<noteq> SQL_NULL" "ip_end r \<noteq> SQL_NULL" "ip_mask r \<noteq> SQL_NULL"
    and "inet_aton (ip_start r) = Some s" "inet_aton (ip_end r) = Some e" "inet_aton (ip_mask r) = Some m"
    and "fst (res_ip_equ_bak r) = 0"
    and "0 < reload_num (bswap32 s) (bswap32 e) (bswap32 m)"
    and "reload_range (bswap32 s) (bswap32 e) (bswap32 m) = (a, n)" "length ns = nat n"
    and "distinct ns" "POOL \<notin> set ns" "ALLOC \<notin> set ns"
    and "\<forall>j < length ns. answers j = Some (ns ! j)"
  shows "\<exists>r' st'. res_ip_reload inet_aton tmp answers (r, st) = Some (Inr (r', st')) \<and>
     pool_inv st' ns [] \<and>
     map (addr_of st') ns = map (\<lambda>j. bswap32 (a + of_nat j)) [0..<nat n] \<and>
     fst (res_ip_equ_bak r') = 1"
proof -
  obtain r' where r': "res_ip_equ_bak r = (0, r')" "fst (res_ip_equ_bak r') = 1"
    using assms(8) by (auto simp: res_ip_equ_bak_def split: if_splits)
  have e: "ips st = Map.empty" "total st = 0" "left st = 0"
    using assms(1) by (simp_all add: pool_inv_def)
  have clear: "res_ip_clear st = Some (Inr st)"
    using res_ip_clear_eq [OF assms(1)] e by (simp add: ippool_t.equality)
  have n: "nat n \<le> 2 ^ 32"
  proof -
    have "sint w < 2 ^ 31" for w :: u32 using sint_lt [of w] by simp
    then have "reload_num (bswap32 s) (bswap32 e) (bswap32 m) < 2 ^ 31"
      unfolding reload_num_def .
    then show ?thesis
      using assms(10) by (auto simp: reload_range_def Let_def split: if_splits)
  qed
  have ar: "\<exists>st'. add_range tmp answers (nat n) 0 a st = Some (Inr st') \<and> pool_inv st' ([] @ ns) [] \<and>
      map (addr_of st') ([] @ ns) = map (addr_of st) [] @ map (\<lambda>j. bswap32 (a + of_nat j)) [0..<nat n]"
    using assms(11-15) e(1) by (intro add_range_inv [OF assms(1) n]) auto
  then obtain st' where "add_range tmp answers (nat n) 0 a st = Some (Inr st')"
    "pool_inv st' ns []" "map (addr_of st') ns = map (\<lambda>j. bswap32 (a + of_nat j)) [0..<nat n]"
    by auto
  then show ?thesis
    using assms(2-7,9,10) r' clear
    by (intro exI [of _ r'] exI [of _ st']) (simp add: res_ip_reload_def Let_def)
qed

section \<open>Properties\<close>

text \<open>A pool with the addresses 10.0.0.1 and 10.0.0.2 free and 10.0.0.3 leased.\<close>

definition ex_ip :: "byte list \<Rightarrow> u32 \<Rightarrow> ip_t" where
  "ex_ip hw a = \<lparr>ip_apmac = hw, ip_ipv4 = zero_sockaddr\<lparr>s_addr := a\<rparr>\<rparr>"

definition ex_owner :: "byte list" where "ex_owner = [0, 17, 34, 51, 68, 85]"

definition ex_pool :: ippool_t where
  "ex_pool = \<lparr>links = \<lparr>next_p = [POOL \<mapsto> 3, 3 \<mapsto> 4, 4 \<mapsto> POOL, ALLOC \<mapsto> 5, 5 \<mapsto> ALLOC],
       prev_p = [POOL \<mapsto> 4, 4 \<mapsto> 3, 3 \<mapsto> POOL, ALLOC \<mapsto> 5, 5 \<mapsto> ALLOC]\<rparr>,
     ips = [3 \<mapsto> ex_ip (replicate 6 0) 0x0100000A, 4 \<mapsto> ex_ip (replicate 6 0) 0x0200000A,
            5 \<mapsto> ex_ip ex_owner 0x0300000A], total = 3, left = 2\<rparr>"

lemma ex_pool_inv: "pool_inv ex_pool [3, 4] [5]"
  by (auto simp: pool_inv_def ex_pool_def dlist_def pool_heads addr_of_def ex_ip_def)

lemma ex_pool_addr:
  "addr_of ex_pool 3 = 0x0100000A" "addr_of ex_pool 4 = 0x0200000A" "addr_of ex_pool 5 = 0x0300000A"
  "owner_of ex_pool 5 = ex_owner"
  by (simp_all add: ex_pool_def addr_of_def owner_of_def ex_ip_def)

definition ex_res :: res_t where
  "ex_res = \<lparr>ip_start = ''10.0.0.1'', ip_end = ''10.0.0.3'', ip_mask = ''255.255.255.0'',
     bak_start = [], bak_end = [], bak_mask = []\<rparr>"

definition ex_aton :: "string \<Rightarrow> u32 option" where
  "ex_aton s = map_of [(''10.0.0.1'', 0x0100000A), (''10.0.0.3'', 0x0300000A),
     (''255.255.255.0'', 0x00FFFFFF)] s"

lemma ex_range:
  "bswap32 0x0100000A = 0x0A000001" "bswap32 0x0300000A = 0x0A000003" "bswap32 0x00FFFFFF = 0xFFFFFF00"
  "reload_num 0x0A000001 0x0A000003 0xFFFFFF00 = 3"
  "reload_range 0x0A000001 0x0A000003 0xFFFFFF00 = (0x0A000001, 3)"
  by (simp_all add: reload_range_def reload_num_def bswap32_def le32_def of_le32_def)

lemma ex_res:
  "ip_start ex_res \<noteq> SQL_NULL" "ip_end ex_res \<noteq> SQL_NULL" "ip_mask ex_res \<noteq> SQL_NULL"
  "ex_aton (ip_start ex_res) = Some 0x0100000A" "ex_aton (ip_end ex_res) = Some 0x0300000A"
  "ex_aton (ip_mask ex_res) = Some 0x00FFFFFF" "fst (res_ip_equ_bak ex_res) = 0"
  by (simp_all add: ex_res_def SQL_NULL_def ex_aton_def res_ip_equ_bak_def)

text \<open>
  Leasing on every branch: while the pool has a free address, a request is met and the
  invariant of the two lists, the counters and the distinct addresses is kept. A wanted
  address that is free is the one leased, otherwise the first of the free list; the node
  moves to the front of the leased list and carries the requester's MAC address.
\<close>

theorem res_ip_alloc_functional:
  assumes "pool_inv st ps qs" "ps \<noteq> []"
  shows "\<exists>p st'. res_ip_alloc addr hw st = Some (Inr (Some p, st')) \<and>
     pool_inv st' (remove1 p ps) (p # qs) \<and> addr_of st' = addr_of st \<and>
     owner_of st' = (owner_of st)(p := take ETH_ALEN hw) \<and>
     left st' = left st - 1 \<and> total st' = total st \<and>
     (case addr of
        Some a \<Rightarrow> if s_addr a \<noteq> 0 \<and> s_addr a \<in> addr_of st ` set ps
                  then addr_of st p = s_addr a else p = hd ps
      | None \<Rightarrow> p = hd ps)"
  using assms by (rule res_ip_alloc_effect)

theorem res_ip_alloc_functional_witness:
  "\<exists>p st'. res_ip_alloc (Some (zero_sockaddr\<lparr>s_addr := 0x0200000A\<rparr>)) ex_owner ex_pool =
       Some (Inr (Some p, st')) \<and>
     addr_of ex_pool p = 0x0200000A \<and> left st' = left ex_pool - 1"
  using res_ip_alloc_functional [OF ex_pool_inv, of "Some (zero_sockaddr\<lparr>s_addr := 0x0200000A\<rparr>)" ex_owner]
  by (simp add: ex_pool_addr) blast

text \<open>
  C8. No address is leased twice: any sequence of at most as many requests as there are
  free addresses is met with pairwise different addresses from the free list, and from then
  on the conflict check reports each of these addresses to every requester but its owner.
\<close>

theorem ip_leases_distinct:
  assumes "pool_inv st ps qs" "length reqs \<le> length ps"
  shows "\<exists>as st'. lease_all res_ip_alloc addr_of reqs st = Some (Inr (as, st')) \<and>
     length as = length reqs \<and> distinct as \<and> set as \<subseteq> addr_of st ` set ps \<and>
     (\<forall>i < length reqs. \<forall>x hw. s_addr x = as ! i \<and> s_addr x \<noteq> 0 \<longrightarrow>
        res_ip_conflict x hw st' =
          Some (Inr (if take ETH_ALEN (snd (reqs ! i)) = take ETH_ALEN hw then 0 else 1)))"
proof -
  have abs: "pool_abs st (addr_of st ` set ps) (lease_map st qs)"
    using assms(1) by (auto simp: pool_abs_def)
  have "inj_on (addr_of st) (set ps)" "distinct ps"
    using pool_invD(6) [OF assms(1)] by (simp_all add: distinct_map)
  then have "length reqs \<le> card (addr_of st ` set ps)"
    using assms(2) by (simp add: card_image distinct_card)
  then obtain as st' L' where r: "lease_all res_ip_alloc addr_of reqs st = Some (Inr (as, st'))"
    "length as = length reqs" "distinct as" "set as \<subseteq> addr_of st ` set ps"
    "pool_abs st' (addr_of st ` set ps - set as) L'"
    "\<forall>i < length reqs. L' (as ! i) = Some (take ETH_ALEN (snd (reqs ! i)))"
    using ip_pool.lease_all_distinct [OF abs] by blast
  then show ?thesis
    by (intro exI [of _ as] exI [of _ st']) (auto simp: ip_pool.conflict_law [OF r(5)])
qed

theorem ip_leases_distinct_witness:
  "\<exists>as st'. lease_all res_ip_alloc addr_of [(None, [1, 1, 1, 1, 1, 1]), (None, [2, 2, 2, 2, 2, 2])] ex_pool =
       Some (Inr (as, st')) \<and> distinct as \<and> set as \<subseteq> {0x0100000A, 0x0200000A}"
  using ip_leases_distinct [OF ex_pool_inv,
      of "[(None, [1, 1, 1, 1, 1, 1]), (None, [2, 2, 2, 2, 2, 2])]"]
  by (simp add: ex_pool_addr) blast

text \<open>
  C37. The test for an exhausted pool never succeeds: it asks for a list that is \<^emph>\<open>not\<close>
  empty. With no address left the code takes the list head for an entry and writes the MAC
  address outside of every node.
\<close>

theorem res_ip_alloc_exhausted:
  assumes "pool_inv st [] qs"
  shows "res_ip_alloc addr hw st = Some (Inl OutOfBounds)"
  using assms by (rule res_ip_alloc_empty)

theorem res_ip_alloc_exhausted_witness:
  "res_ip_alloc None ex_owner res_ip_init = Some (Inl OutOfBounds)"
  by (rule res_ip_alloc_exhausted [OF pool_inv_init])

text \<open>
  An access point that registers again with the address it already leases passes the
  conflict check, but is given another address, and its old lease is never returned.
\<close>

theorem res_ip_alloc_reregister:
  assumes inv: "pool_inv st (p # ps) qs" and q: "q \<in> set qs" "owner_of st q = take ETH_ALEN hw"
    and a: "s_addr a = addr_of st q" "s_addr a \<noteq> 0"
  shows "res_ip_conflict a hw st = Some (Inr 0) \<and>
     (\<exists>st'. res_ip_alloc (Some a) hw st = Some (Inr (Some p, st')) \<and>
        pool_inv st' ps (p # qs) \<and> addr_of st' p \<noteq> s_addr a \<and>
        addr_of st' q = s_addr a \<and> owner_of st' q = owner_of st' p)"
proof -
  have abs: "pool_abs st (addr_of st ` set (p # ps)) (lease_map st qs)"
    using inv unfolding pool_abs_def by blast
  have dist: "distinct (map (addr_of st) ((p # ps) @ qs))" using pool_invD(6) [OF inv] .
  have "lease_map st qs (addr_of st q) = Some (take ETH_ALEN hw)"
    unfolding lease_map_def using dist q by (intro map_of_is_SomeI) (auto simp: comp_def)
  then have c: "res_ip_conflict a hw st = Some (Inr 0)"
    unfolding ip_pool.conflict_law [OF abs] using a by simp
  have "addr_of st ` set (p # ps) \<inter> addr_of st ` set qs = {}" using dist by simp
  moreover have "addr_of st q \<in> addr_of st ` set qs" using q(1) by simp
  ultimately have "s_addr a \<notin> addr_of st ` set (p # ps)" unfolding a(1) by blast
  moreover from this have "p \<noteq> q" unfolding a(1) by auto
  moreover obtain st' p' where "res_ip_alloc (Some a) hw st = Some (Inr (Some p', st'))"
    "pool_inv st' (remove1 p' (p # ps)) (p' # qs)" "addr_of st' = addr_of st"
    "owner_of st' = (owner_of st)(p' := take ETH_ALEN hw)"
    "if s_addr a \<noteq> 0 \<and> s_addr a \<in> addr_of st ` set (p # ps) then addr_of st p' = s_addr a
     else p' = hd (p # ps)"
    using res_ip_alloc_effect [OF inv, of "Some a" hw] by auto
  ultimately show ?thesis using c q a by auto
qed

theorem res_ip_alloc_reregister_witness:
  "\<exists>st'. res_ip_alloc (Some (zero_sockaddr\<lparr>s_addr := 0x0300000A\<rparr>)) ex_owner ex_pool =
       Some (Inr (Some 3, st')) \<and> addr_of st' 3 \<noteq> 0x0300000A"
proof -
  have "owner_of ex_pool 5 = take ETH_ALEN ex_owner"
    by (simp add: ex_pool_addr ex_owner_def ETH_ALEN_def)
  from res_ip_alloc_reregister [OF ex_pool_inv _ this, of "zero_sockaddr\<lparr>s_addr := 0x0300000A\<rparr>"]
  show ?thesis by (auto simp: ex_pool_addr)
qed

text \<open>
  The addresses that a reload enters, with a prefix mask and the end not before the
  start, are exactly the host addresses of the network of the start address from start to
  end, without the network address and without the broadcast address.
\<close>

theorem reload_range_exact:
  assumes m: "NOT m = mask k" "k \<le> 32" and le: "s AND NOT m \<le> e AND NOT m"
    and fits: "unat (e AND NOT m) - unat (s AND NOT m) + 1 < 2 ^ 31"
  shows "case reload_range s e m of (a, n) \<Rightarrow>
     (\<lambda>j. a + of_nat j) ` {..<nat n} =
       {x. x AND m = s AND m \<and> s AND NOT m \<le> x AND NOT m \<and> x AND NOT m \<le> e AND NOT m \<and>
           x AND NOT m \<noteq> 0 \<and> x AND NOT m \<noteq> NOT m}"
proof -
  obtain a n where r: "reload_range s e m = (a, n)" by fastforce
  note host = reload_range_hosts [OF m le fits r]
  let ?S = "unat (s AND NOT m)" and ?E = "unat (e AND NOT m)"
  let ?S1 = "if s AND NOT m = 0 then 1 else ?S"
  have S1: "?S \<le> ?S1" "0 < ?S1" by (auto simp: unat_gt_0)
  have "nat (int (E - S + 1) - int d - int f) = E + 1 - (S + d) - f" if "S \<le> E" for E S d f :: nat
    using that by linarith
  from this [OF le [unfolded word_le_nat_alt]]
  have n: "nat n = ?E + 1 - ?S1 - (if e AND NOT m = NOT m then 1 else 0)"
    unfolding reload_range_eq(1) [OF le fits r] by simp
  show ?thesis unfolding r prod.case
  proof (intro equalityI subsetI)
    fix x assume "x \<in> (\<lambda>j. a + of_nat j) ` {..<nat n}"
    then obtain j where x: "x = a + of_nat j" "j < nat n" by auto
    note h = host [OF x(2), folded x(1)]
    have "?S \<le> unat (x AND NOT m)" "0 < unat (x AND NOT m)" using h(2) S1 by linarith+
    then show "x \<in> {x. x AND m = s AND m \<and> s AND NOT m \<le> x AND NOT m \<and> x AND NOT m \<le> e AND NOT m \<and>
        x AND NOT m \<noteq> 0 \<and> x AND NOT m \<noteq> NOT m}"
      using h(1,3,4) by (auto simp: word_le_nat_alt)
  next
    fix x assume "x \<in> {x. x AND m = s AND m \<and> s AND NOT m \<le> x AND NOT m \<and> x AND NOT m \<le> e AND NOT m \<and>
        x AND NOT m \<noteq> 0 \<and> x AND NOT m \<noteq> NOT m}"
    then have x: "x AND m = s AND m" "?S \<le> unat (x AND NOT m)" "unat (x AND NOT m) \<le> ?E"
      "x AND NOT m \<noteq> 0" "x AND NOT m \<noteq> NOT m"
      by (auto simp: word_le_nat_alt)
    have x1: "?S1 \<le> unat (x AND NOT m)"
      using x(2,4) by (auto simp: unat_gt_0 Suc_le_eq)
    have x2: "e AND NOT m = NOT m \<Longrightarrow> unat (x AND NOT m) \<noteq> ?E"
      using x(5) by (simp add: word_unat_eq_iff)
    let ?j = "unat (x AND NOT m) - ?S1"
    have j: "?j < nat n"
      using x1 x(3) x2 unfolding n by (auto split: if_splits)
    have "unat ((a + of_nat ?j) AND NOT m) = unat (x AND NOT m)"
      using host(2) [OF j] x1 by simp
    then have "(a + of_nat ?j) AND NOT m = x AND NOT m" by (simp add: word_unat_eq_iff)
    moreover have "(a + of_nat ?j) AND m = x AND m" using host(1) [OF j] x(1) by simp
    ultimately have "x = a + of_nat ?j"
      using and_plus_and_not [of x m] and_plus_and_not [of "a + of_nat ?j" m] by simp
    then show "x \<in> (\<lambda>j. a + of_nat j) ` {..<nat n}" using j by blast
  qed
qed

theorem reload_range_exact_witness:
  "case reload_range 0xC0A80100 0xC0A801FF 0xFFFFFF00 of (a, n) \<Rightarrow>
     (\<lambda>j. a + of_nat j) ` {..<nat n} =
       {x. x AND 0xFFFFFF00 = 0xC0A80100 AND 0xFFFFFF00 \<and>
           0xC0A80100 AND NOT 0xFFFFFF00 \<le> x AND NOT 0xFFFFFF00 \<and>
           x AND NOT 0xFFFFFF00 \<le> 0xC0A801FF AND NOT 0xFFFFFF00 \<and>
           x AND NOT 0xFFFFFF00 \<noteq> 0 \<and> x AND NOT 0xFFFFFF00 \<noteq> NOT 0xFFFFFF00}"
proof (rule reload_range_exact)
  show "NOT (0xFFFFFF00 :: u32) = mask 8" by (simp add: mask_eq_exp_minus_1)
qed simp_all

text \<open>The same set by its own name, and in ascending order.\<close>

definition host_addrs :: "u32 \<Rightarrow> u32 \<Rightarrow> u32 \<Rightarrow> u32 set" where
  "host_addrs s e m = {x. x AND m = s AND m \<and> s AND NOT m \<le> x AND NOT m \<and> x AND NOT m \<le> e AND NOT m \<and>
     x AND NOT m \<noteq> 0 \<and> x AND NOT m \<noteq> NOT m}"

lemma unat_and_split: "unat (x :: u32) = unat (x AND m) + unat (x AND NOT m)"
proof -
  have "unat (x AND m) + unat (x AND NOT m) = unat (x AND m) OR unat (x AND NOT m)"
    by (rule disjunctive_add) (auto simp: bit_simps)
  also have "\<dots> = unat ((x AND m) OR (x AND NOT m))" by (simp add: unsigned_or_eq)
  also have "(x AND m) OR (x AND NOT m) = x" by (rule bit_word_eqI) (auto simp: bit_simps)
  finally show ?thesis by simp
qed

lemma reload_range_sorted:
  assumes m: "NOT m = mask k" "k \<le> 32" and le: "s AND NOT m \<le> e AND NOT m"
    and fits: "unat (e AND NOT m) - unat (s AND NOT m) + 1 < 2 ^ 31" and r: "reload_range s e m = (a, n)"
  shows "sorted_list_of_set (host_addrs s e m) = map (\<lambda>j. a + of_nat j) [0..<nat n]"
    and "card (host_addrs s e m) = nat n"
proof -
  let ?xs = "map (\<lambda>j. a + of_nat j) [0..<nat n]"
  have "unat (a + of_nat i) < unat (a + of_nat j)" if "i < j" "j < nat n" for i j
    using reload_range_hosts(1,2) [OF m le fits r, of i] reload_range_hosts(1,2) [OF m le fits r, of j] that
      unat_and_split [of "a + of_nat i" m] unat_and_split [of "a + of_nat j" m] by simp
  then have "sorted_wrt (<) ?xs" by (simp add: sorted_wrt_map sorted_wrt_iff_nth_less word_less_nat_alt)
  then have xs: "sorted ?xs" "distinct ?xs" by (simp_all add: strict_sorted_iff)
  have eq: "host_addrs s e m = set ?xs"
    using reload_range_exact [OF m le fits] r by (simp add: host_addrs_def atLeast0LessThan)
  show "sorted_list_of_set (host_addrs s e m) = ?xs"
    unfolding eq using xs by (rule sorted_list_of_set.idem_if_sorted_distinct)
  show "card (host_addrs s e m) = nat n"
    unfolding eq distinct_card [OF xs(2)] by simp
qed

text \<open>
  C31. A reload into an empty pool with valid, changed strings, a prefix mask \<open>M\<close>, an end \<open>E\<close> that does not lie before
  the start \<open>S\<close> and enough memory fills the pool with exactly the addresses of the network of \<open>S\<close> whose host parts
  lie from that of \<open>S\<close> to that of \<open>E\<close>, without the network address (host part 0) and without the broadcast
  address (all host bits set): each once, in ascending order. All of them are free, the
  invariant holds, and the same strings are not loaded again.
\<close>

theorem res_ip_reload_fills:
  assumes "pool_inv st [] []"
    and "ip_start r \<noteq> SQL_NULL" "ip_end r \<noteq> SQL_NULL" "ip_mask r \<noteq> SQL_NULL"
    and "inet_aton (ip_start r) = Some (bswap32 S)" "inet_aton (ip_end r) = Some (bswap32 E)"
      "inet_aton (ip_mask r) = Some (bswap32 M)"
    and "fst (res_ip_equ_bak r) = 0"
    and M: "NOT M = mask k" "k \<le> 32" and le: "S AND NOT M \<le> E AND NOT M"
      "unat (E AND NOT M) - unat (S AND NOT M) + 1 < 2 ^ 31"
    and ns: "length ns = card {x. x AND M = S AND M \<and> S AND NOT M \<le> x AND NOT M \<and> x AND NOT M \<le> E AND NOT M \<and>
        x AND NOT M \<noteq> 0 \<and> x AND NOT M \<noteq> NOT M}"
    and "distinct ns" "POOL \<notin> set ns" "ALLOC \<notin> set ns"
    and "\<forall>j < length ns. answers j = Some (ns ! j)"
  shows "\<exists>r' st'. res_ip_reload inet_aton tmp answers (r, st) = Some (Inr (r', st')) \<and>
     pool_inv st' ns [] \<and> fst (res_ip_equ_bak r') = 1 \<and>
     map (\<lambda>p. bswap32 (addr_of st' p)) ns =
       sorted_list_of_set {x. x AND M = S AND M \<and> S AND NOT M \<le> x AND NOT M \<and> x AND NOT M \<le> E AND NOT M \<and>
        x AND NOT M \<noteq> 0 \<and> x AND NOT M \<noteq> NOT M}"
proof -
  obtain a n where r: "reload_range S E M = (a, n)" by fastforce
  have pos: "0 < reload_num (bswap32 (bswap32 S)) (bswap32 (bswap32 E)) (bswap32 (bswap32 M))"
    using reload_num_eq [OF le] by simp
  note so = reload_range_sorted [OF M le r]
  have len: "length ns = nat n" using so(2) ns by (simp add: host_addrs_def)
  have r': "reload_range (bswap32 (bswap32 S)) (bswap32 (bswap32 E)) (bswap32 (bswap32 M)) = (a, n)" using r by simp
  obtain r2 st' where o: "res_ip_reload inet_aton tmp answers (r, st) = Some (Inr (r2, st'))" "pool_inv st' ns []"
    "map (addr_of st') ns = map (\<lambda>j. bswap32 (a + of_nat j)) [0..<nat n]" "fst (res_ip_equ_bak r2) = 1"
    using res_ip_reload_inv [OF assms(1-8) pos r' len assms(14-17)] by blast
  have "map (\<lambda>p. bswap32 (addr_of st' p)) ns = map bswap32 (map (addr_of st') ns)" by simp
  also have "\<dots> = sorted_list_of_set (host_addrs S E M)" unfolding o(3) so(1) by simp
  finally show ?thesis using o unfolding host_addrs_def by blast
qed

definition ex_res4 :: res_t where
  "ex_res4 = \<lparr>ip_start = ''10.0.0.0'', ip_end = ''10.0.0.3'', ip_mask = ''255.255.255.252'',
     bak_start = [], bak_end = [], bak_mask = []\<rparr>"

definition ex_aton4 :: "string \<Rightarrow> u32 option" where
  "ex_aton4 s = map_of [(''10.0.0.0'', 0x0000000A), (''10.0.0.3'', 0x0300000A), (''255.255.255.252'', 0xFCFFFFFF)] s"

theorem res_ip_reload_fills_witness:
  "\<exists>r' st'. res_ip_reload ex_aton4 zero_sockaddr (\<lambda>j. Some ([3, 4] ! j)) (ex_res4, res_ip_init) =
       Some (Inr (r', st')) \<and> pool_inv st' [3, 4] [] \<and>
     map (\<lambda>p. bswap32 (addr_of st' p)) [3, 4] = [0x0A000001, 0x0A000002]"
proof -
  have m: "NOT (0xFFFFFFFC :: u32) = mask 2" "(2 :: nat) \<le> 32" by (simp_all add: mask_eq_exp_minus_1)
  have le: "(0x0A000000 :: u32) AND NOT 0xFFFFFFFC \<le> 0x0A000003 AND NOT 0xFFFFFFFC"
    "unat ((0x0A000003 :: u32) AND NOT 0xFFFFFFFC) - unat ((0x0A000000 :: u32) AND NOT 0xFFFFFFFC) + 1 < 2 ^ 31" by simp_all
  have r: "reload_range 0x0A000000 0x0A000003 0xFFFFFFFC = (0x0A000001, 2)"
    by (simp add: reload_range_def reload_num_def)
  note so = reload_range_sorted [OF m le r, unfolded host_addrs_def]
  have s: "ip_start ex_res4 \<noteq> SQL_NULL" "ip_end ex_res4 \<noteq> SQL_NULL" "ip_mask ex_res4 \<noteq> SQL_NULL"
    "ex_aton4 (ip_start ex_res4) = Some (bswap32 0x0A000000)" "ex_aton4 (ip_end ex_res4) = Some (bswap32 0x0A000003)"
    "ex_aton4 (ip_mask ex_res4) = Some (bswap32 0xFFFFFFFC)" "fst (res_ip_equ_bak ex_res4) = 0"
    by (simp_all add: ex_res4_def SQL_NULL_def ex_aton4_def res_ip_equ_bak_def bswap32_def le32_def of_le32_def)
  have "\<exists>r' st'. res_ip_reload ex_aton4 zero_sockaddr (\<lambda>j. Some ([3, 4] ! j)) (ex_res4, res_ip_init) =
       Some (Inr (r', st')) \<and> pool_inv st' [3, 4] [] \<and> fst (res_ip_equ_bak r') = 1 \<and>
     map (\<lambda>p. bswap32 (addr_of st' p)) [3, 4] = map (\<lambda>j. 0x0A000001 + of_nat j) [0..<nat 2]"
    unfolding so(1) [symmetric]
    by (rule res_ip_reload_fills [OF pool_inv_init s m le]) (unfold so(2), simp_all add: pool_heads)
  then show ?thesis by (simp add: upt_rec) blast
qed

text \<open>
  C36. A later reload of a changed range frees all nodes but leaves both lists linked to
  them: when any address was entered before, the first insertion reads a freed node.
\<close>

theorem res_ip_reload_use_after_free:
  assumes inv: "pool_inv st ps qs" and ne: "ps \<noteq> [] \<or> qs \<noteq> []"
    and "ip_start r \<noteq> SQL_NULL" "ip_end r \<noteq> SQL_NULL" "ip_mask r \<noteq> SQL_NULL"
    and "inet_aton (ip_start r) = Some s" "inet_aton (ip_end r) = Some e" "inet_aton (ip_mask r) = Some m"
    and "fst (res_ip_equ_bak r) = 0"
    and "0 < reload_num (bswap32 s) (bswap32 e) (bswap32 m)"
    and "0 < snd (reload_range (bswap32 s) (bswap32 e) (bswap32 m))"
  shows "res_ip_reload inet_aton tmp answers (r, st) = Some (Inl UseAfterFree)"
proof -
  let ?st = "(drop_nodes (set ps \<union> set qs) st)\<lparr>total := 0, left := 0\<rparr>"
  obtain r' where r': "res_ip_equ_bak r = (0, r')"
    using assms(9) by (cases "res_ip_equ_bak r") auto
  obtain a n where an: "reload_range (bswap32 s) (bswap32 e) (bswap32 m) = (a, n)" by fastforce
  then obtain k where k: "nat n = Suc k" using assms(11) by (cases "nat n") auto
  note h = pool_invD(1,2,3) [OF inv]
  have nx: "next_p (links ?st) POOL = next_p (links st) POOL"
    "next_p (links ?st) ALLOC = next_p (links st) ALLOC"
    using h(3) h(1,2) by (auto simp: drop_nodes_def dlist_def)
  have gone: "ip_at ?st p = Inl UseAfterFree" if "p \<in> set ps \<union> set qs" for p
    using that h by (auto simp: ip_at_def drop_nodes_def dlist_def)
  have uaf: "ip_test ?st x p = Inl UseAfterFree" if "p \<in> set ps \<union> set qs" for x p
    using gone [OF that] by (simp add: ip_test_def)
  have rep: "res_ip_repeat x ?st = Some (Inl UseAfterFree)" for x
  proof (cases ps)
    case (Cons p ps')
    then have "list_find (ip_test ?st x) POOL (links ?st) = Some (Inl UseAfterFree)"
      using h(1) uaf [of p x] nx(1)
      by (intro list_find_fault [where p = p]) (auto simp: dlist_def load_ptr_def)
    then show ?thesis by (simp add: res_ip_repeat_def)
  next
    case Nil
    then obtain q qs' where q: "qs = q # qs'" using ne by (cases qs) auto
    have "list_find (ip_test ?st x) POOL (links ?st) = Some (Inr None)"
      using h(1) nx(1) Nil
      by (simp add: list_find_def load_ptr_def dlist_def list_find_from.simps [of _ POOL _ POOL])
    moreover have "list_find (ip_test ?st x) ALLOC (links ?st) = Some (Inl UseAfterFree)"
      using h(2) uaf [of q x] nx(2) q
      by (intro list_find_fault [where p = q]) (auto simp: dlist_def load_ptr_def)
    ultimately show ?thesis by (simp add: res_ip_repeat_def)
  qed
  have "add_range tmp answers (nat n) 0 a ?st = Some (Inl UseAfterFree)"
    unfolding k by (simp add: res_ip_add_def rep)
  then show ?thesis
    using assms(3-8,10) r' an
    by (simp add: res_ip_reload_def Let_def res_ip_clear_eq [OF inv])
qed

theorem res_ip_reload_use_after_free_witness:
  "res_ip_reload ex_aton zero_sockaddr (\<lambda>j. Some (j + 6)) (ex_res, ex_pool) = Some (Inl UseAfterFree)"
  by (rule res_ip_reload_use_after_free [OF ex_pool_inv _ ex_res]) (simp_all add: ex_range)

end
