(* ===== verification/Simulation.thy ===== *)
theory Simulation
  imports Prelude
begin

text \<open>
  Sequences of operations: a concrete step that may fault simulates an abstract one that may be
  refused, under a representation relation. The contract is about single steps, the lemma about
  sequences.
\<close>

fun run_steps :: "('o \<Rightarrow> 's \<Rightarrow> 's res) \<Rightarrow> 'o list \<Rightarrow> 's \<Rightarrow> 's res" where
  "run_steps step [] s = Inr s"
| "run_steps step (op # ops) s = bind_res (step op s) (run_steps step ops)"

fun run_spec :: "('o \<Rightarrow> 'a \<Rightarrow> 'a option) \<Rightarrow> 'o list \<Rightarrow> 'a \<Rightarrow> 'a option" where
  "run_spec spec [] a = Some a"
| "run_spec spec (op # ops) a = (case spec op a of None \<Rightarrow> None | Some a \<Rightarrow> run_spec spec ops a)"

locale simulation =
  fixes rep :: "'s \<Rightarrow> 'a \<Rightarrow> bool"
    and step :: "'o \<Rightarrow> 's \<Rightarrow> 's res"
    and spec :: "'o \<Rightarrow> 'a \<Rightarrow> 'a option"
  assumes step_sim: "rep s a \<Longrightarrow> spec op a = Some a' \<Longrightarrow> \<exists>s'. step op s = Inr s' \<and> rep s' a'"
begin

lemma run_sim:
  "rep s a \<Longrightarrow> run_spec spec ops a = Some a' \<Longrightarrow> \<exists>s'. run_steps step ops s = Inr s' \<and> rep s' a'"
proof (induction ops arbitrary: s a)
  case (Cons op ops)
  obtain a1 where a1: "spec op a = Some a1" "run_spec spec ops a1 = Some a'"
    using Cons.prems(2) by (auto split: option.splits)
  obtain s1 where s1: "step op s = Inr s1" "rep s1 a1"
    using step_sim [OF Cons.prems(1) a1(1)] by blast
  from Cons.IH [OF s1(2) a1(2)] s1(1) show ?case by simp
qed simp

end

end
