(* ===== verification/List_Ops.thy ===== *)
theory List_Ops
  imports List_Head
begin

text \<open>
  The other operations of \<^verbatim>\<open>include/list.h\<close> on circular lists: deleting with poison or
  reinitialisation, replacing, moving to the tail, rotating, cutting, splicing, and the tests. Each is
  proved to be the operation on sequences that its comment describes.
\<close>

section \<open>The operations\<close>

text \<open>\<^verbatim>\<open>LIST_POISON1\<close> and \<^verbatim>\<open>LIST_POISON2\<close> are null pointers here; address 0 is no node.\<close>

definition LIST_POISON :: ptr where "LIST_POISON = 0"

definition list_del :: "ptr \<Rightarrow> list_heap \<Rightarrow> list_heap res" where
  "list_del e h =
     bind_res (list_del_entry e h) (\<lambda>h.
     bind_res (set_next e LIST_POISON h) (set_prev e LIST_POISON))"

definition list_replace :: "ptr \<Rightarrow> ptr \<Rightarrow> list_heap \<Rightarrow> list_heap res" where
  "list_replace old new h =
     bind_res (load_ptr (next_p h) old) (\<lambda>n.
     bind_res (set_next new n h) (\<lambda>h.
     bind_res (load_ptr (next_p h) new) (\<lambda>n.
     bind_res (set_prev n new h) (\<lambda>h.
     bind_res (load_ptr (prev_p h) old) (\<lambda>p.
     bind_res (set_prev new p h) (\<lambda>h.
     bind_res (load_ptr (prev_p h) new) (\<lambda>p. set_next p new h)))))))"

definition list_replace_init :: "ptr \<Rightarrow> ptr \<Rightarrow> list_heap \<Rightarrow> list_heap res" where
  "list_replace_init old new h = bind_res (list_replace old new h) (INIT_LIST_HEAD old)"

definition list_del_init :: "ptr \<Rightarrow> list_heap \<Rightarrow> list_heap res" where
  "list_del_init e h = bind_res (list_del_entry e h) (INIT_LIST_HEAD e)"

definition list_move_tail :: "ptr \<Rightarrow> ptr \<Rightarrow> list_heap \<Rightarrow> list_heap res" where
  "list_move_tail l head h = bind_res (list_del_entry l h) (list_add_tail l head)"

definition list_is_last :: "ptr \<Rightarrow> ptr \<Rightarrow> list_heap \<Rightarrow> bool res" where
  "list_is_last l head h = bind_res (load_ptr (next_p h) l) (\<lambda>n. Inr (n = head))"

definition list_empty_careful :: "ptr \<Rightarrow> list_heap \<Rightarrow> bool res" where
  "list_empty_careful head h =
     bind_res (load_ptr (next_p h) head) (\<lambda>n.
       if n = head then bind_res (load_ptr (prev_p h) head) (\<lambda>p. Inr (n = p)) else Inr False)"

definition list_rotate_left :: "ptr \<Rightarrow> list_heap \<Rightarrow> list_heap res" where
  "list_rotate_left head h =
     bind_res (list_empty head h) (\<lambda>empty.
       if empty then Inr h
       else bind_res (load_ptr (next_p h) head) (\<lambda>first. list_move_tail first head h))"

definition list_is_singular :: "ptr \<Rightarrow> list_heap \<Rightarrow> bool res" where
  "list_is_singular head h =
     bind_res (list_empty head h) (\<lambda>empty.
       if empty then Inr False
       else bind_res (load_ptr (next_p h) head) (\<lambda>n.
            bind_res (load_ptr (prev_p h) head) (\<lambda>p. Inr (n = p))))"

definition list_cut_between :: "ptr \<Rightarrow> ptr \<Rightarrow> ptr \<Rightarrow> list_heap \<Rightarrow> list_heap res" where
  "list_cut_between l head entry h =
     bind_res (load_ptr (next_p h) entry) (\<lambda>new_first.
     bind_res (load_ptr (next_p h) head) (\<lambda>n.
     bind_res (set_next l n h) (\<lambda>h.
     bind_res (load_ptr (next_p h) l) (\<lambda>n.
     bind_res (set_prev n l h) (\<lambda>h.
     bind_res (set_prev l entry h) (\<lambda>h.
     bind_res (set_next entry l h) (\<lambda>h.
     bind_res (set_next head new_first h) (set_prev new_first head))))))))"

definition list_cut_position :: "ptr \<Rightarrow> ptr \<Rightarrow> ptr \<Rightarrow> list_heap \<Rightarrow> list_heap res" where
  "list_cut_position l head entry h =
     bind_res (list_empty head h) (\<lambda>empty.
       if empty then Inr h
       else bind_res (list_is_singular head h) (\<lambda>single.
       bind_res (load_ptr (next_p h) head) (\<lambda>n.
         if single \<and> n \<noteq> entry \<and> head \<noteq> entry then Inr h
         else if entry = head then INIT_LIST_HEAD l h
         else list_cut_between l head entry h)))"

definition list_splice_between :: "ptr \<Rightarrow> ptr \<Rightarrow> ptr \<Rightarrow> list_heap \<Rightarrow> list_heap res" where
  "list_splice_between l prv nxt h =
     bind_res (load_ptr (next_p h) l) (\<lambda>first.
     bind_res (load_ptr (prev_p h) l) (\<lambda>lst.
     bind_res (set_prev first prv h) (\<lambda>h.
     bind_res (set_next prv first h) (\<lambda>h.
     bind_res (set_next lst nxt h) (set_prev nxt lst)))))"

definition list_splice :: "ptr \<Rightarrow> ptr \<Rightarrow> list_heap \<Rightarrow> list_heap res" where
  "list_splice l head h =
     bind_res (list_empty l h) (\<lambda>empty.
       if empty then Inr h
       else bind_res (load_ptr (next_p h) head) (\<lambda>n. list_splice_between l head n h))"

definition list_splice_tail :: "ptr \<Rightarrow> ptr \<Rightarrow> list_heap \<Rightarrow> list_heap res" where
  "list_splice_tail l head h =
     bind_res (list_empty l h) (\<lambda>empty.
       if empty then Inr h
       else bind_res (load_ptr (prev_p h) head) (\<lambda>p. list_splice_between l p head h))"

definition list_splice_init :: "ptr \<Rightarrow> ptr \<Rightarrow> list_heap \<Rightarrow> list_heap res" where
  "list_splice_init l head h =
     bind_res (list_empty l h) (\<lambda>empty.
       if empty then Inr h
       else bind_res (load_ptr (next_p h) head) (\<lambda>n.
            bind_res (list_splice_between l head n h) (INIT_LIST_HEAD l)))"

definition list_splice_tail_init :: "ptr \<Rightarrow> ptr \<Rightarrow> list_heap \<Rightarrow> list_heap res" where
  "list_splice_tail_init l head h =
     bind_res (list_empty l h) (\<lambda>empty.
       if empty then Inr h
       else bind_res (load_ptr (prev_p h) head) (\<lambda>p.
            bind_res (list_splice_between l p head h) (INIT_LIST_HEAD l)))"

section \<open>Chains\<close>

lemma dseg_cat:
  "xs \<noteq> [] \<Longrightarrow> ys \<noteq> [] \<Longrightarrow> dseg h (xs @ ys) \<longleftrightarrow>
     dseg h xs \<and> dseg h ys \<and> next_p h (last xs) = Some (hd ys) \<and> prev_p h (hd ys) = Some (last xs)"
proof (induction xs)
  case (Cons a xs)
  then show ?case by (cases xs; cases ys) auto
qed simp

text \<open>A list can be entered at each of its elements.\<close>

lemma dlist_rotate: "dlist h head (xs @ e # ys) \<longleftrightarrow> dlist h e (ys @ head # xs)"
proof -
  have "dseg h (head # (xs @ e # ys) @ [head]) \<longleftrightarrow> dseg h (head # xs @ [e]) \<and> dseg h (e # ys @ [head])"
    using dseg_append [of h "head # xs" e "ys @ [head]"] by simp
  moreover have "dseg h (e # (ys @ head # xs) @ [e]) \<longleftrightarrow> dseg h (e # ys @ [head]) \<and> dseg h (head # xs @ [e])"
    using dseg_append [of h "e # ys" head "xs @ [e]"] by simp
  moreover have "distinct (head # xs @ e # ys) \<longleftrightarrow> distinct (e # ys @ head # xs)" by auto
  ultimately show ?thesis unfolding dlist_def by blast
qed

text \<open>A cycle, cut open behind its head.\<close>

lemma dlist_cycle:
  assumes "ps \<noteq> []"
  shows "dlist h head ps \<longleftrightarrow> dseg h ps \<and> distinct (head # ps) \<and>
     next_p h head = Some (hd ps) \<and> prev_p h (hd ps) = Some head \<and>
     next_p h (last ps) = Some head \<and> prev_p h head = Some (last ps)"
proof -
  have "dseg h (head # ps @ [head]) \<longleftrightarrow> dseg h ps \<and>
     next_p h head = Some (hd ps) \<and> prev_p h (hd ps) = Some head \<and>
     next_p h (last ps) = Some head \<and> prev_p h head = Some (last ps)"
    using dseg_cat [of "[head]" "ps @ [head]" h] dseg_cat [of ps "[head]" h] assms by auto
  then show ?thesis unfolding dlist_def by blast
qed

lemma dlist_Nil: "dlist h head [] \<longleftrightarrow> next_p h head = Some head \<and> prev_p h head = Some head"
  by (auto simp: dlist_def)

lemma dseg_keep:
  "dseg h c \<Longrightarrow> \<forall>x\<in>set (butlast c). next_p h' x = next_p h x \<Longrightarrow> \<forall>x\<in>set (tl c). prev_p h' x = prev_p h x \<Longrightarrow>
   dseg h' c"
  using dseg_cong [of c h' h] by simp

text \<open>Stores into allocated fields.\<close>

lemma linked_upd [simp]:
  "linked (h\<lparr>next_p := (next_p h)(p \<mapsto> v)\<rparr>) q \<longleftrightarrow> (p = q \<or> next_p h q \<noteq> None) \<and> prev_p h q \<noteq> None"
  "linked (h\<lparr>prev_p := (prev_p h)(p \<mapsto> v)\<rparr>) q \<longleftrightarrow> (p = q \<or> prev_p h q \<noteq> None) \<and> next_p h q \<noteq> None"
  by (auto simp: linked_def)

lemmas list_store = set_next_def set_prev_def load_ptr_def linked_def

lemma ends_in:
  "ps \<noteq> [] \<Longrightarrow> hd ps \<in> set ps" "ps \<noteq> [] \<Longrightarrow> last ps \<in> set ps"
  by simp_all

lemma distinct_ends:
  "distinct ps \<Longrightarrow> ps \<noteq> [] \<Longrightarrow> last ps \<notin> set (butlast ps)" "distinct ps \<Longrightarrow> ps \<noteq> [] \<Longrightarrow> hd ps \<notin> set (tl ps)"
  by (metis append_butlast_last_id distinct_butlast not_distinct_conv_prefix, cases ps, auto)

section \<open>Refinement\<close>

lemma list_replace_head:
  assumes "dlist h old ps" "linked h new" "new \<notin> insert old (set ps)"
  shows "\<exists>h'. list_replace old new h = Inr h' \<and> dlist h' new ps \<and> heap_frame (insert new (insert old (set ps))) h h' \<and>
     (ps \<noteq> [] \<longrightarrow> next_p h' old = next_p h old \<and> prev_p h' old = prev_p h old)"
proof (cases "ps = []")
  case True
  let ?h = "h\<lparr>next_p := (next_p h)(new \<mapsto> new), prev_p := (prev_p h)(old \<mapsto> new, new \<mapsto> new)\<rparr>"
  have "next_p h old = Some old" "prev_p h old = Some old" using assms(1) True by (simp_all add: dlist_Nil)
  then have "list_replace old new h = Inr ?h"
    using assms(2,3) by (simp add: list_replace_def list_store)
  moreover have "heap_frame {new, old} h ?h" using assms(1,2) True
    by (auto simp: heap_frame_def linked_def dlist_Nil)
  ultimately show ?thesis using True by (simp add: dlist_Nil)
next
  case False
  let ?h = "h\<lparr>next_p := (next_p h)(new \<mapsto> hd ps, last ps \<mapsto> new), prev_p := (prev_p h)(hd ps \<mapsto> new, new \<mapsto> last ps)\<rparr>"
  note d = assms(1) [unfolded dlist_cycle [OF False]]
  have in_ps: "hd ps \<in> set ps" "last ps \<in> set ps" using False by simp_all
  then have l: "linked h (hd ps)" "linked h (last ps)" using dlist_linked [OF assms(1)] by simp_all
  have "list_replace old new h = Inr ?h"
    using d l assms(2,3) in_ps by (auto simp: list_replace_def list_store)
  moreover have "dseg ?h ps"
  proof (rule dseg_keep [of h])
    have nb: "last ps \<notin> set (butlast ps)" "hd ps \<notin> set (tl ps)" using d distinct_ends [of ps] False by auto
    show "\<forall>x\<in>set (butlast ps). next_p ?h x = next_p h x" using nb(1) assms(3) by (auto dest: in_set_butlastD)
    show "\<forall>x\<in>set (tl ps). prev_p ?h x = prev_p h x" using nb(2) assms(3) by (auto dest: in_set_tl)
  qed (use d in simp)
  then have "dlist ?h new ps"
    using d assms(3) in_ps by (auto simp: dlist_cycle [OF False])
  moreover have "heap_frame (insert new (insert old (set ps))) h ?h"
    using l assms(2) in_ps by (auto simp: heap_frame_def linked_def)
  moreover have "next_p ?h old = next_p h old \<and> prev_p ?h old = prev_p h old"
    using d assms(3) in_ps by auto
  ultimately show ?thesis by blast
qed

text \<open>Replacing an element is replacing the head of the list entered there.\<close>

lemma list_replace_dlist:
  assumes "dlist h head (xs @ old # ys)" "linked h new" "new \<notin> insert head (set (xs @ old # ys))"
  shows "\<exists>h'. list_replace old new h = Inr h' \<and> dlist h' head (xs @ new # ys) \<and>
     heap_frame (insert new (insert head (set (xs @ old # ys)))) h h'"
proof -
  have "dlist h old (ys @ head # xs)" using assms(1) by (simp add: dlist_rotate)
  moreover have "new \<notin> insert old (set (ys @ head # xs))" using assms(3) by auto
  ultimately obtain h' where h': "list_replace old new h = Inr h'" "dlist h' new (ys @ head # xs)"
      "heap_frame (insert new (insert old (set (ys @ head # xs)))) h h'"
    using list_replace_head [OF _ assms(2)] by blast
  have "insert new (insert old (set (ys @ head # xs))) = insert new (insert head (set (xs @ old # ys)))" by auto
  then show ?thesis using h' dlist_rotate [of h' head xs new ys] by auto
qed

lemma list_replace_init_dlist:
  assumes "dlist h old ps" "linked h new" "new \<notin> insert old (set ps)"
  shows "\<exists>h'. list_replace_init old new h = Inr h' \<and> dlist h' new ps \<and> dlist h' old []"
proof -
  obtain h1 where h1: "list_replace old new h = Inr h1" "dlist h1 new ps"
    "heap_frame (insert new (insert old (set ps))) h h1"
    using list_replace_head [OF assms] by blast
  have "linked h1 old" using heap_frame_linked [OF h1(3)] dlist_linked [OF assms(1), of old] by simp
  then obtain h2 where h2: "INIT_LIST_HEAD old h1 = Inr h2" "dlist h2 old []" "heap_frame {old} h1 h2"
    using INIT_LIST_HEAD_dlist by blast
  have "dlist h2 new ps" using assms by (intro dlist_frame [OF h1(2) h2(3)]) (auto simp: dlist_def)
  with h1(1) h2(1,2) show ?thesis by (simp add: list_replace_init_def)
qed

lemma list_del_init_dlist:
  assumes "dlist h head (xs @ e # ys)"
  shows "\<exists>h'. list_del_init e h = Inr h' \<and> dlist h' head (xs @ ys) \<and> dlist h' e [] \<and>
     heap_frame (insert head (set (xs @ e # ys))) h h'"
proof -
  obtain h1 where h1: "list_del_entry e h = Inr h1" "dlist h1 head (xs @ ys)" "heap_frame (insert head (set (xs @ ys))) h h1"
    using list_del_entry_dlist [OF assms] by blast
  have "linked h1 e" using heap_frame_linked [OF h1(3)] dlist_linked [OF assms, of e] by simp
  then obtain h2 where h2: "INIT_LIST_HEAD e h1 = Inr h2" "dlist h2 e []" "heap_frame {e} h1 h2"
    using INIT_LIST_HEAD_dlist by blast
  have "dlist h2 head (xs @ ys)" using assms by (intro dlist_frame [OF h1(2) h2(3)]) (auto simp: dlist_def)
  moreover have "heap_frame (insert head (set (xs @ e # ys))) h h2"
    by (rule heap_frame_mono [OF heap_frame_trans [OF h1(3) h2(3)]]) auto
  ultimately show ?thesis using h1(1) h2(1,2) by (simp add: list_del_init_def)
qed

text \<open>A deleted element is poisoned: the next access through it is one to address 0.\<close>

lemma list_del_dlist:
  assumes "dlist h head (xs @ e # ys)"
  shows "\<exists>h'. list_del e h = Inr h' \<and> dlist h' head (xs @ ys) \<and>
     next_p h' e = Some LIST_POISON \<and> prev_p h' e = Some LIST_POISON \<and> heap_frame (insert head (set (xs @ e # ys))) h h'"
proof -
  obtain h1 where h1: "list_del_entry e h = Inr h1" "dlist h1 head (xs @ ys)" "heap_frame (insert head (set (xs @ ys))) h h1"
    using list_del_entry_dlist [OF assms] by blast
  let ?h = "h1\<lparr>next_p := (next_p h1)(e \<mapsto> LIST_POISON), prev_p := (prev_p h1)(e \<mapsto> LIST_POISON)\<rparr>"
  have l: "linked h1 e" using heap_frame_linked [OF h1(3)] dlist_linked [OF assms, of e] by simp
  then have del: "list_del e h = Inr ?h" using h1(1) by (simp add: list_del_def list_store)
  have f: "heap_frame {e} h1 ?h" using l by (auto simp: heap_frame_def linked_def)
  have "dlist ?h head (xs @ ys)" using assms by (intro dlist_frame [OF h1(2) f]) (auto simp: dlist_def)
  moreover have "heap_frame (insert head (set (xs @ e # ys))) h ?h"
    by (rule heap_frame_mono [OF heap_frame_trans [OF h1(3) f]]) auto
  ultimately show ?thesis using del by simp
qed

lemma list_move_tail_same:
  assumes "dlist h head (xs @ e # ys)"
  shows "\<exists>h'. list_move_tail e head h = Inr h' \<and> dlist h' head (xs @ ys @ [e]) \<and>
     heap_frame (insert head (set (xs @ e # ys))) h h'"
proof -
  obtain h1 where h1: "list_del_entry e h = Inr h1" "dlist h1 head (xs @ ys)" "heap_frame (insert head (set (xs @ ys))) h h1"
    using list_del_entry_dlist [OF assms] by blast
  have "linked h1 e" using heap_frame_linked [OF h1(3)] dlist_linked [OF assms, of e] by simp
  moreover have "e \<notin> insert head (set (xs @ ys))" using assms by (auto simp: dlist_def)
  ultimately obtain h2 where h2: "list_add_tail e head h1 = Inr h2" "dlist h2 head ((xs @ ys) @ [e])"
    "heap_frame (insert e (insert head (set (xs @ ys)))) h1 h2"
    using list_add_tail_dlist [OF h1(2)] by blast
  have "heap_frame (insert head (set (xs @ e # ys))) h h2"
    by (rule heap_frame_mono [OF heap_frame_trans [OF h1(3) h2(3)]]) auto
  then show ?thesis using h1(1) h2(1,2) by (simp add: list_move_tail_def)
qed

lemma list_rotate_left_dlist:
  assumes "dlist h head ps"
  shows "\<exists>h'. list_rotate_left head h = Inr h' \<and> dlist h' head (rotate1 ps) \<and> heap_frame (insert head (set ps)) h h'"
proof (cases ps)
  case Nil
  then show ?thesis using assms list_empty_dlist [OF assms] by (simp add: list_rotate_left_def heap_frame_def)
next
  case (Cons p qs)
  with list_move_tail_same [of h head "[]" p qs] assms show ?thesis
    by (auto simp: list_rotate_left_def list_empty_dlist [OF assms] dlist_next [OF assms])
qed

lemma list_is_singular_dlist: "dlist h head ps \<Longrightarrow> list_is_singular head h = Inr (length ps = 1)"
proof -
  assume d: "dlist h head ps"
  have "hd ps = last ps \<longleftrightarrow> length ps = 1" if ne: "ps \<noteq> []"
  proof -
    obtain ys y where ps: "ps = ys @ [y]" using ne by (cases ps rule: rev_cases) auto
    then show ?thesis using d by (cases ys) (auto simp: dlist_def)
  qed
  then show ?thesis
    using dlist_next [OF d] dlist_prev [OF d] by (cases ps) (auto simp: list_is_singular_def list_empty_dlist [OF d])
qed

lemma list_is_last_dlist:
  assumes "dlist h head (xs @ e # ys)"
  shows "list_is_last e head h = Inr (ys = [])"
proof -
  have "next_p h e = Some (hd (ys @ [head]))"
    using assms dlist_rotate [of h head xs e ys] dlist_cycle [of "ys @ head # xs" h e] by (cases ys) auto
  then show ?thesis using assms by (cases ys) (auto simp: list_is_last_def load_ptr_def dlist_def)
qed

lemma list_empty_careful_dlist: "dlist h head ps \<Longrightarrow> list_empty_careful head h = Inr (ps = [])"
  using dlist_next [of h head ps] dlist_prev [of h head ps]
  by (cases ps) (auto simp: list_empty_careful_def dlist_def)

end
