(* ===== verification/List_Splice.thy ===== *)
theory List_Splice
  imports List_Ops
begin

text \<open>
  Cutting and joining the circular lists of \<^verbatim>\<open>include/list.h\<close>, and sequences of its operations on
  two lists: they refine the same operations on a pair of sequences.
\<close>

section \<open>Joining\<close>

lemma splice_behind_head:
  assumes "dlist h l ps" "ps \<noteq> []" "dlist h head qs" "insert l (set ps) \<inter> insert head (set qs) = {}"
  shows "\<exists>h'. list_splice_between l head (hd (qs @ [head])) h = Inr h' \<and> dlist h' head (ps @ qs) \<and>
     heap_frame (set ps \<union> insert head (set qs)) h h'"
proof -
  let ?n = "hd (qs @ [head])"
  let ?h = "h\<lparr>next_p := (next_p h)(head \<mapsto> hd ps, last ps \<mapsto> ?n), prev_p := (prev_p h)(hd ps \<mapsto> head, ?n \<mapsto> last ps)\<rparr>"
  note p = assms(1) [unfolded dlist_cycle [OF assms(2)]]
  have in_ps: "hd ps \<in> set ps" "last ps \<in> set ps" using assms(2) by simp_all
  have n: "?n \<in> insert head (set qs)" by (cases qs) auto
  have l: "linked h (hd ps)" "linked h (last ps)" "linked h head" "linked h ?n"
    using dlist_linked [OF assms(1)] dlist_linked [OF assms(3)] in_ps n by auto
  have ne: "hd ps \<noteq> head" "last ps \<noteq> head" "?n \<noteq> hd ps" "?n \<noteq> last ps" using assms(4) in_ps n by auto
  have "list_splice_between l head ?n h = Inr ?h"
    using p l ne by (auto simp: list_splice_between_def list_store)
  moreover have ps: "dseg ?h ps"
  proof (rule dseg_keep [of h])
    have nb: "last ps \<notin> set (butlast ps)" "hd ps \<notin> set (tl ps)" using p distinct_ends [of ps] assms(2) by auto
    show "\<forall>x\<in>set (butlast ps). next_p ?h x = next_p h x" using nb(1) assms(4) by (auto dest: in_set_butlastD)
    show "\<forall>x\<in>set (tl ps). prev_p ?h x = prev_p h x" using nb(2) n assms(4) by (auto dest: in_set_tl)
  qed (use p in simp)
  have "dlist ?h head (ps @ qs)"
  proof (cases "qs = []")
    case True
    then show ?thesis using ps p ne in_ps assms(2,4) by (auto simp: dlist_cycle [OF assms(2)])
  next
    case False
    note q = assms(3) [unfolded dlist_cycle [OF False]]
    have "dseg ?h qs"
    proof (rule dseg_keep [of h])
      have nb: "hd qs \<notin> set (tl qs)" using q distinct_ends [of qs] False by auto
      show "\<forall>x\<in>set (butlast qs). next_p ?h x = next_p h x"
        using q in_ps assms(4) by (auto dest!: in_set_butlastD)
      have "x \<noteq> ?n \<and> x \<noteq> hd ps" if "x \<in> set (tl qs)" for x
        using in_set_tl [OF that] that nb False in_ps assms(4) by auto
      then show "\<forall>x\<in>set (tl qs). prev_p ?h x = prev_p h x" by simp
    qed (use q in simp)
    moreover have "last qs \<in> set qs" "hd qs \<in> set qs" using False by simp_all
    moreover have "distinct (head # ps @ qs)" using p q assms(4) by auto
    moreover have "last qs \<noteq> head" "last qs \<noteq> last ps" "hd qs \<noteq> hd ps" "head \<noteq> hd qs"
      using calculation(2,3) q in_ps assms(4) by auto
    ultimately show ?thesis
      using ps p q ne False assms(2) by (simp add: dlist_cycle dseg_cat)
  qed
  moreover have "heap_frame (set ps \<union> insert head (set qs)) h ?h"
    using l in_ps n by (auto simp: heap_frame_def linked_def)
  ultimately show ?thesis by blast
qed

lemma splice_before_head:
  assumes "dlist h l ps" "ps \<noteq> []" "dlist h head qs" "insert l (set ps) \<inter> insert head (set qs) = {}"
  shows "\<exists>h'. list_splice_between l (last (head # qs)) head h = Inr h' \<and> dlist h' head (qs @ ps) \<and>
     heap_frame (set ps \<union> insert head (set qs)) h h'"
proof (cases qs rule: rev_cases)
  case Nil
  with splice_behind_head [OF assms] show ?thesis by simp
next
  case (snoc xs p)
  have d: "dlist h p (head # xs)" using assms(3) dlist_rotate [of h head xs p "[]"] snoc by simp
  have "insert l (set ps) \<inter> insert p (set (head # xs)) = {}" using assms(4) snoc by auto
  from splice_behind_head [OF assms(1,2) d this] obtain h' where
    h': "list_splice_between l p head h = Inr h'" "dlist h' p (ps @ head # xs)"
      "heap_frame (set ps \<union> insert p (set (head # xs))) h h'" by auto
  have "dlist h' head (xs @ p # ps)" using h'(2) dlist_rotate [of h' head xs p ps] by simp
  moreover have "heap_frame (set ps \<union> insert head (set qs)) h h'"
    using h'(3) by (rule heap_frame_mono) (auto simp: snoc)
  ultimately show ?thesis using h'(1) snoc by auto
qed

text \<open>The four macros; without \<open>_init\<close> the head of the joined list keeps its stale pointers.\<close>

lemma list_splice_dlist:
  assumes "dlist h l ps" "dlist h head qs" "insert l (set ps) \<inter> insert head (set qs) = {}"
  shows "\<exists>h'. list_splice l head h = Inr h' \<and> dlist h' head (ps @ qs)"
    and "\<exists>h'. list_splice_tail l head h = Inr h' \<and> dlist h' head (qs @ ps)"
proof -
  have n: "load_ptr (next_p h) head = Inr (hd (qs @ [head]))" using dlist_next [OF assms(2)] by (cases qs) auto
  show "\<exists>h'. list_splice l head h = Inr h' \<and> dlist h' head (ps @ qs)"
    using splice_behind_head [OF assms(1) _ assms(2,3)] list_empty_dlist [OF assms(1)] n assms(2)
    by (cases "ps = []") (auto simp: list_splice_def)
  show "\<exists>h'. list_splice_tail l head h = Inr h' \<and> dlist h' head (qs @ ps)"
    using splice_before_head [OF assms(1) _ assms(2,3)] list_empty_dlist [OF assms(1)] dlist_prev [OF assms(2)] assms(2)
    by (cases "ps = []") (auto simp: list_splice_tail_def)
qed

lemma INIT_other:
  assumes "dlist h head qs" "linked h l" "l \<notin> insert head (set qs)"
  shows "\<exists>h'. INIT_LIST_HEAD l h = Inr h' \<and> dlist h' head qs \<and> dlist h' l [] \<and> (\<forall>p. linked h' p = linked h p)"
proof -
  obtain h' where h': "INIT_LIST_HEAD l h = Inr h'" "dlist h' l []" "heap_frame {l} h h'"
    using INIT_LIST_HEAD_dlist [OF assms(2)] by blast
  have "dlist h' head qs" using assms(3) by (intro dlist_frame [OF assms(1) h'(3)]) auto
  with h' heap_frame_linked [OF h'(3)] show ?thesis by blast
qed

lemma list_splice_init_dlist:
  assumes "dlist h l ps" "dlist h head qs" "insert l (set ps) \<inter> insert head (set qs) = {}"
  shows "\<exists>h'. list_splice_init l head h = Inr h' \<and> dlist h' head (ps @ qs) \<and> dlist h' l [] \<and>
      (\<forall>p. linked h' p = linked h p)"
    and "\<exists>h'. list_splice_tail_init l head h = Inr h' \<and> dlist h' head (qs @ ps) \<and> dlist h' l [] \<and>
      (\<forall>p. linked h' p = linked h p)"
proof -
  have n: "load_ptr (next_p h) head = Inr (hd (qs @ [head]))" using dlist_next [OF assms(2)] by (cases qs) auto
  have l: "l \<notin> insert head (set (ps @ qs))" "l \<notin> insert head (set (qs @ ps))"
    using assms(1,3) by (auto simp: dlist_def)
  have lh: "linked h l" using dlist_linked [OF assms(1)] by simp
  note e = list_empty_dlist [OF assms(1)]
  show "\<exists>h'. list_splice_init l head h = Inr h' \<and> dlist h' head (ps @ qs) \<and> dlist h' l [] \<and>
      (\<forall>p. linked h' p = linked h p)"
  proof (cases "ps = []")
    case False
    obtain h1 where h1: "list_splice_between l head (hd (qs @ [head])) h = Inr h1" "dlist h1 head (ps @ qs)"
      "heap_frame (set ps \<union> insert head (set qs)) h h1"
      using splice_behind_head [OF assms(1) False assms(2,3)] by blast
    have "linked h1 l" using heap_frame_linked [OF h1(3)] lh by simp
    from INIT_other [OF h1(2) this l(1)] h1(1) False heap_frame_linked [OF h1(3)] show ?thesis
      by (auto simp: list_splice_init_def e n)
  qed (use assms e in \<open>simp add: list_splice_init_def\<close>)
  show "\<exists>h'. list_splice_tail_init l head h = Inr h' \<and> dlist h' head (qs @ ps) \<and> dlist h' l [] \<and>
      (\<forall>p. linked h' p = linked h p)"
  proof (cases "ps = []")
    case False
    obtain h1 where h1: "list_splice_between l (last (head # qs)) head h = Inr h1" "dlist h1 head (qs @ ps)"
      "heap_frame (set ps \<union> insert head (set qs)) h h1"
      using splice_before_head [OF assms(1) False assms(2,3)] by blast
    have "linked h1 l" using heap_frame_linked [OF h1(3)] lh by simp
    from INIT_other [OF h1(2) this l(2)] h1(1) False dlist_prev [OF assms(2)] heap_frame_linked [OF h1(3)] show ?thesis
      by (auto simp: list_splice_tail_init_def e)
  qed (use assms e in \<open>simp add: list_splice_tail_init_def\<close>)
qed

section \<open>Cutting\<close>

lemma set_linked:
  "set_next p v h = Inr h' \<Longrightarrow> linked h' q = linked h q" "set_prev p v h = Inr h' \<Longrightarrow> linked h' q = linked h q"
  by (auto simp: set_next_def set_prev_def linked_def split: if_splits)

lemma list_cut_between_linked: "list_cut_between l head e h = Inr h' \<Longrightarrow> linked h' q = linked h q"
  by (auto simp: list_cut_between_def bind_res_Inr_iff set_linked)

lemma list_cut_between_dlist:
  assumes "dlist h head (xs @ e # ys)" "linked h l" "l \<notin> insert head (set (xs @ e # ys))"
  shows "\<exists>h'. list_cut_between l head e h = Inr h' \<and> dlist h' l (xs @ [e]) \<and> dlist h' head ys \<and>
     (\<forall>p. linked h' p = linked h p)"
proof -
  let ?f = "hd (xs @ [e])" and ?n = "hd (ys @ [head])"
  let ?h = "h\<lparr>next_p := (next_p h)(l \<mapsto> ?f, e \<mapsto> l, head \<mapsto> ?n), prev_p := (prev_p h)(?f \<mapsto> l, l \<mapsto> e, ?n \<mapsto> head)\<rparr>"
  have f: "?f \<in> set (xs @ [e])" and n: "?n \<in> insert head (set ys)" by (cases xs, auto) (cases ys, auto)
  have dist: "distinct (head # xs @ e # ys)" using assms(1) by (simp add: dlist_def)
  have whole: "dseg h ((head # xs @ [e]) @ ys @ [head])" using assms(1) by (simp add: dlist_def)
  then have d: "dseg h (head # xs @ [e])" "dseg h (ys @ [head])" "next_p h e = Some ?n" "prev_p h ?n = Some e"
    using dseg_cat [of "head # xs @ [e]" "ys @ [head]" h] by simp_all
  then have x: "dseg h (xs @ [e])" "next_p h head = Some ?f" "prev_p h ?f = Some head"
    using dseg_cat [of "[head]" "xs @ [e]" h] by simp_all
  have lk: "linked h head" "linked h e" "linked h ?f" "linked h ?n"
    using dlist_linked [OF assms(1)] f n by auto
  have ne: "?f \<noteq> l" "?n \<noteq> l" "e \<noteq> l" "head \<noteq> l" "?f \<noteq> head" "e \<noteq> head" "?f \<noteq> ?n" "?n \<noteq> e"
    using assms(3) dist f n by auto
  have "list_cut_between l head e h = Inr ?h"
    using x(2) d(3) lk ne assms(2) by (auto simp: list_cut_between_def list_store)
  moreover have "dlist ?h l (xs @ [e])"
  proof -
    have "dseg ?h (xs @ [e])"
    proof (rule dseg_keep [of h])
      have nb: "e \<notin> set xs" "?f \<notin> set (tl (xs @ [e]))" using dist by (auto, cases xs, auto)
      show "\<forall>x\<in>set (butlast (xs @ [e])). next_p ?h x = next_p h x" using nb(1) dist assms(3) by auto
      have "x \<noteq> ?f \<and> x \<noteq> l \<and> x \<noteq> ?n" if "x \<in> set (tl (xs @ [e]))" for x
        using in_set_tl [OF that] that nb(2) assms(3) n dist by auto
      then show "\<forall>x\<in>set (tl (xs @ [e])). prev_p ?h x = prev_p h x" by simp
    qed (rule x(1))
    moreover have "distinct (l # xs @ [e])" using dist assms(3) by auto
    ultimately show ?thesis using ne by (simp add: dlist_cycle)
  qed
  moreover have "dlist ?h head ys"
  proof (cases "ys = []")
    case True
    then show ?thesis using ne by (simp add: dlist_Nil)
  next
    case False
    have y: "dseg h ys" "next_p h (last ys) = Some head" "prev_p h head = Some (last ys)"
      using d(2) dseg_cat [of ys "[head]" h] False by simp_all
    have "dseg ?h ys"
    proof (rule dseg_keep [of h])
      have nb: "hd ys \<notin> set (tl ys)" using dist distinct_ends [of ys] False by auto
      show "\<forall>x\<in>set (butlast ys). next_p ?h x = next_p h x" using dist assms(3) by (auto dest!: in_set_butlastD)
      have "x \<noteq> ?f \<and> x \<noteq> l \<and> x \<noteq> ?n" if "x \<in> set (tl ys)" for x
        using in_set_tl [OF that] that nb assms(3) f dist False by auto
      then show "\<forall>x\<in>set (tl ys). prev_p ?h x = prev_p h x" by simp
    qed (rule y(1))
    moreover have "last ys \<in> set ys" "hd ys \<in> set ys" using False by simp_all
    moreover have "distinct (head # ys)" using dist by auto
    moreover have "last ys \<noteq> l" "last ys \<noteq> e" "last ys \<noteq> head" "head \<noteq> ?f" "head \<noteq> l" "head \<noteq> hd ys"
      using calculation(2,3) dist assms(3) ne by auto
    ultimately show ?thesis using y False by (simp add: dlist_cycle)
  qed
  ultimately show ?thesis using list_cut_between_linked by blast
qed

text \<open>
  The checked form: an entry of the list, or its head; when the list is empty nothing happens,
  not even to the head that should get the part.
\<close>

lemma list_cut_position_dlist:
  assumes "linked h l"
  shows "dlist h head (xs @ e # ys) \<Longrightarrow> l \<notin> insert head (set (xs @ e # ys)) \<Longrightarrow>
      \<exists>h'. list_cut_position l head e h = Inr h' \<and> dlist h' l (xs @ [e]) \<and> dlist h' head ys \<and>
        (\<forall>p. linked h' p = linked h p)"
    and "dlist h head (p # ps) \<Longrightarrow> l \<notin> insert head (set (p # ps)) \<Longrightarrow>
      \<exists>h'. list_cut_position l head head h = Inr h' \<and> dlist h' l [] \<and> dlist h' head (p # ps)"
    and "dlist h head [] \<Longrightarrow> list_cut_position l head e h = Inr h"
proof -
  assume d: "dlist h head (xs @ e # ys)" and l: "l \<notin> insert head (set (xs @ e # ys))"
  have e: "e \<noteq> head" using d by (auto simp: dlist_def)
  have s: "length (xs @ e # ys) = 1 \<Longrightarrow> load_ptr (next_p h) head = Inr e"
    using dlist_next [OF d] by (cases xs) auto
  have n: "\<exists>n. load_ptr (next_p h) head = Inr n" using dlist_next [OF d] by blast
  show "\<exists>h'. list_cut_position l head e h = Inr h' \<and> dlist h' l (xs @ [e]) \<and> dlist h' head ys \<and>
        (\<forall>p. linked h' p = linked h p)"
    using list_cut_between_dlist [OF d assms l] e s n
    by (auto simp: list_cut_position_def list_empty_dlist [OF d] list_is_singular_dlist [OF d])
next
  assume d: "dlist h head (p # ps)" and l: "l \<notin> insert head (set (p # ps))"
  then show "\<exists>h'. list_cut_position l head head h = Inr h' \<and> dlist h' l [] \<and> dlist h' head (p # ps)"
    using INIT_other [OF d assms l] dlist_next [OF d]
    by (auto simp: list_cut_position_def list_empty_dlist [OF d] list_is_singular_dlist [OF d])
next
  assume d: "dlist h head []"
  then show "list_cut_position l head e h = Inr h" by (simp add: list_cut_position_def list_empty_dlist [OF d])
qed

end
