(* ===== verification/List_Runs.thy ===== *)
theory List_Runs
  imports List_Splice Simulation
begin

text \<open>
  Sequences of the operations of \<^verbatim>\<open>include/list.h\<close> on two lists, as a simulation of the operations on
  a pair of sequences.
\<close>

section \<open>Two lists\<close>

text \<open>
  Operations on the list with the head \<open>a\<close>; moving, cutting and joining exchange entries with
  the list of the head \<open>b\<close>.
\<close>

datatype list_op =
    L_add ptr | L_add_tail ptr | L_del ptr | L_del_init ptr | L_replace ptr ptr | L_rotate
  | L_move ptr | L_move_tail ptr | L_cut ptr | L_splice | L_splice_tail

fun list_step :: "ptr \<Rightarrow> ptr \<Rightarrow> list_op \<Rightarrow> list_heap \<Rightarrow> list_heap res" where
  "list_step a b (L_add n) = list_add n a"
| "list_step a b (L_add_tail n) = list_add_tail n a"
| "list_step a b (L_del e) = list_del e"
| "list_step a b (L_del_init e) = list_del_init e"
| "list_step a b (L_replace e n) = list_replace e n"
| "list_step a b L_rotate = list_rotate_left a"
| "list_step a b (L_move e) = list_move e b"
| "list_step a b (L_move_tail e) = list_move_tail e a"
| "list_step a b (L_cut e) = list_cut_position b a e"
| "list_step a b L_splice = list_splice_init b a"
| "list_step a b L_splice_tail = list_splice_tail_init b a"

definition before :: "'a \<Rightarrow> 'a list \<Rightarrow> 'a list" where
  "before e ps = takeWhile (\<lambda>x. x \<noteq> e) ps"

definition after :: "'a \<Rightarrow> 'a list \<Rightarrow> 'a list" where
  "after e ps = tl (dropWhile (\<lambda>x. x \<noteq> e) ps)"

lemma before_after: "e \<in> set ps \<Longrightarrow> ps = before e ps @ e # after e ps"
proof -
  assume "e \<in> set ps"
  then have "dropWhile (\<lambda>x. x \<noteq> e) ps \<noteq> []" by (auto simp: dropWhile_eq_Nil_conv)
  then obtain d ds where d: "dropWhile (\<lambda>x. x \<noteq> e) ps = d # ds" by (cases "dropWhile (\<lambda>x. x \<noteq> e) ps") auto
  then have "d = e" by (simp add: dropWhile_eq_Cons_conv)
  with d takeWhile_dropWhile_id [of "\<lambda>x. x \<noteq> e" ps] show ?thesis by (simp add: before_def after_def)
qed

text \<open>The same on sequences; \<open>N\<close> are the entries that may be used, a new one must not be in a list.\<close>

fun list_spec :: "ptr set \<Rightarrow> list_op \<Rightarrow> ptr list \<times> ptr list \<Rightarrow> (ptr list \<times> ptr list) option" where
  "list_spec N (L_add n) (ps, qs) = (if n \<in> N - set ps - set qs then Some (n # ps, qs) else None)"
| "list_spec N (L_add_tail n) (ps, qs) = (if n \<in> N - set ps - set qs then Some (ps @ [n], qs) else None)"
| "list_spec N (L_del e) (ps, qs) = (if e \<in> set ps then Some (before e ps @ after e ps, qs) else None)"
| "list_spec N (L_del_init e) (ps, qs) = (if e \<in> set ps then Some (before e ps @ after e ps, qs) else None)"
| "list_spec N (L_replace e n) (ps, qs) =
     (if e \<in> set ps \<and> n \<in> N - set ps - set qs then Some (before e ps @ n # after e ps, qs) else None)"
| "list_spec N L_rotate (ps, qs) = Some (rotate1 ps, qs)"
| "list_spec N (L_move e) (ps, qs) = (if e \<in> set ps then Some (before e ps @ after e ps, e # qs) else None)"
| "list_spec N (L_move_tail e) (ps, qs) = (if e \<in> set ps then Some (before e ps @ after e ps @ [e], qs) else None)"
| "list_spec N (L_cut e) (ps, qs) = (if e \<in> set ps \<and> qs = [] then Some (after e ps, before e ps @ [e]) else None)"
| "list_spec N L_splice (ps, qs) = Some (qs @ ps, [])"
| "list_spec N L_splice_tail (ps, qs) = Some (ps @ qs, [])"

definition lists_rep :: "ptr \<Rightarrow> ptr \<Rightarrow> ptr set \<Rightarrow> list_heap \<Rightarrow> ptr list \<times> ptr list \<Rightarrow> bool" where
  "lists_rep a b N h sqs \<longleftrightarrow> (case sqs of (ps, qs) \<Rightarrow>
     dlist h a ps \<and> dlist h b qs \<and> a \<noteq> b \<and> a \<notin> N \<and> b \<notin> N \<and>
     set ps \<subseteq> N \<and> set qs \<subseteq> N \<and> set ps \<inter> set qs = {} \<and> (\<forall>p\<in>N. linked h p))"

text \<open>A step that keeps the second list and its frame.\<close>

lemma lists_rep_first:
  assumes "lists_rep a b N h (ps, qs)" "dlist h' a ps'" "heap_frame (insert a M) h h'" "M \<subseteq> N - set qs" "set ps' \<subseteq> M"
  shows "lists_rep a b N h' (ps', qs)"
proof -
  have "dlist h' b qs"
    by (rule dlist_frame [OF _ assms(3)]) (use assms(1,4) in \<open>auto simp: lists_rep_def\<close>)
  then show ?thesis
    using assms heap_frame_linked [OF assms(3)] by (auto simp: lists_rep_def)
qed

lemma list_step_sim:
  assumes rep: "lists_rep a b N h sqs" and spec: "list_spec N op sqs = Some sqs'"
  shows "\<exists>h'. list_step a b op h = Inr h' \<and> lists_rep a b N h' sqs'"
proof -
  obtain ps qs where l: "sqs = (ps, qs)" by (cases sqs)
  note r = rep [unfolded l]
  have d: "dlist h a ps" "dlist h b qs" and ab: "a \<noteq> b" "a \<notin> N" "b \<notin> N" and sub: "set ps \<subseteq> N" "set qs \<subseteq> N"
    and disj: "set ps \<inter> set qs = {}" and lk: "\<And>p. p \<in> N \<Longrightarrow> linked h p"
    using r by (auto simp: lists_rep_def)
  have split: "\<exists>xs ys. ps = xs @ e # ys \<and> before e ps = xs \<and> after e ps = ys" if "e \<in> set ps" for e
    using before_after [OF that] by blast
  have two: "insert b (set qs) \<inter> insert a (set ps) = {}" using ab sub disj by auto
  show ?thesis
  proof (cases op)
    case (L_add n)
    then have n: "n \<in> N - set ps - set qs" "sqs' = (n # ps, qs)" using spec l by (auto split: if_splits)
    moreover have "n \<notin> insert a (set ps)" using n(1) ab by auto
    ultimately obtain h' where h': "list_add n a h = Inr h'" "dlist h' a (n # ps)" "heap_frame (insert n (insert a (set ps))) h h'"
      using list_add_dlist [OF d(1) lk] by blast
    have "heap_frame (insert a (insert n (set ps))) h h'" using h'(3) by (simp add: insert_commute)
    then have "lists_rep a b N h' (n # ps, qs)"
      using n(1) sub disj by (intro lists_rep_first [OF r h'(2)]) auto
    with h'(1) n(2) L_add show ?thesis by simp
  next
    case (L_add_tail n)
    then have n: "n \<in> N - set ps - set qs" "sqs' = (ps @ [n], qs)" using spec l by (auto split: if_splits)
    moreover have "n \<notin> insert a (set ps)" using n(1) ab by auto
    ultimately obtain h' where h': "list_add_tail n a h = Inr h'" "dlist h' a (ps @ [n])" "heap_frame (insert n (insert a (set ps))) h h'"
      using list_add_tail_dlist [OF d(1) lk] by blast
    have "heap_frame (insert a (insert n (set ps))) h h'" using h'(3) by (simp add: insert_commute)
    then have "lists_rep a b N h' (ps @ [n], qs)"
      using n(1) sub disj by (intro lists_rep_first [OF r h'(2)]) auto
    with h'(1) n(2) L_add_tail show ?thesis by simp
  next
    case (L_del e)
    then have e: "e \<in> set ps" "sqs' = (before e ps @ after e ps, qs)" using spec l by (auto split: if_splits)
    then obtain xs ys where s: "ps = xs @ e # ys" "sqs' = (xs @ ys, qs)" using split by blast
    obtain h' where h': "list_del e h = Inr h'" "dlist h' a (xs @ ys)" "heap_frame (insert a (set (xs @ e # ys))) h h'"
      using list_del_dlist [OF d(1) [unfolded s(1)]] by blast
    have "lists_rep a b N h' (xs @ ys, qs)"
      using s(1) sub disj by (intro lists_rep_first [OF r h'(2,3)]) auto
    with h'(1) s(2) L_del show ?thesis by simp
  next
    case (L_del_init e)
    then have e: "e \<in> set ps" "sqs' = (before e ps @ after e ps, qs)" using spec l by (auto split: if_splits)
    then obtain xs ys where s: "ps = xs @ e # ys" "sqs' = (xs @ ys, qs)" using split by blast
    obtain h' where h': "list_del_init e h = Inr h'" "dlist h' a (xs @ ys)" "heap_frame (insert a (set (xs @ e # ys))) h h'"
      using list_del_init_dlist [OF d(1) [unfolded s(1)]] by blast
    have "lists_rep a b N h' (xs @ ys, qs)"
      using s(1) sub disj by (intro lists_rep_first [OF r h'(2,3)]) auto
    with h'(1) s(2) L_del_init show ?thesis by simp
  next
    case (L_replace e n)
    then have e: "e \<in> set ps" "n \<in> N - set ps - set qs" "sqs' = (before e ps @ n # after e ps, qs)"
      using spec l by (auto split: if_splits)
    then obtain xs ys where s: "ps = xs @ e # ys" "sqs' = (xs @ n # ys, qs)" using split by blast
    have "n \<notin> insert a (set (xs @ e # ys))" using e(2) ab s(1) by auto
    then obtain h' where h': "list_replace e n h = Inr h'" "dlist h' a (xs @ n # ys)"
      "heap_frame (insert n (insert a (set (xs @ e # ys)))) h h'"
      using list_replace_dlist [OF d(1) [unfolded s(1)] lk] e(2) by blast
    have "heap_frame (insert a (insert n (set (xs @ e # ys)))) h h'" using h'(3) by (simp add: insert_commute)
    then have "lists_rep a b N h' (xs @ n # ys, qs)"
      using s(1) e(2) sub disj by (intro lists_rep_first [OF r h'(2)]) auto
    with h'(1) s(2) L_replace show ?thesis by simp
  next
    case L_rotate
    obtain h' where h': "list_rotate_left a h = Inr h'" "dlist h' a (rotate1 ps)" "heap_frame (insert a (set ps)) h h'"
      using list_rotate_left_dlist [OF d(1)] by blast
    have "lists_rep a b N h' (rotate1 ps, qs)"
      using sub disj by (intro lists_rep_first [OF r h'(2,3)]) auto
    with h'(1) L_rotate spec l show ?thesis by simp
  next
    case (L_move e)
    then have e: "e \<in> set ps" "sqs' = (before e ps @ after e ps, e # qs)" using spec l by (auto split: if_splits)
    then obtain xs ys where s: "ps = xs @ e # ys" "sqs' = (xs @ ys, e # qs)" using split by blast
    have "insert a (set (xs @ e # ys)) \<inter> insert b (set qs) = {}" using two s(1) by auto
    then obtain h' where h': "list_move e b h = Inr h'" "dlist h' a (xs @ ys)" "dlist h' b (e # qs)"
      "heap_frame (insert a (set (xs @ e # ys)) \<union> insert b (set qs)) h h'"
      using list_move_dlist [OF d(1) [unfolded s(1)] d(2)] by blast
    have "lists_rep a b N h' (xs @ ys, e # qs)"
      using h'(2,3) heap_frame_linked [OF h'(4)] lk ab sub disj s(1) d(1) by (auto simp: lists_rep_def dlist_def)
    with h'(1) s(2) L_move show ?thesis by simp
  next
    case (L_move_tail e)
    then have e: "e \<in> set ps" "sqs' = (before e ps @ after e ps @ [e], qs)" using spec l by (auto split: if_splits)
    then obtain xs ys where s: "ps = xs @ e # ys" "sqs' = (xs @ ys @ [e], qs)" using split by blast
    obtain h' where h': "list_move_tail e a h = Inr h'" "dlist h' a (xs @ ys @ [e])" "heap_frame (insert a (set (xs @ e # ys))) h h'"
      using list_move_tail_same [OF d(1) [unfolded s(1)]] by blast
    have "lists_rep a b N h' (xs @ ys @ [e], qs)"
      using s(1) sub disj by (intro lists_rep_first [OF r h'(2,3)]) auto
    with h'(1) s(2) L_move_tail show ?thesis by simp
  next
    case (L_cut e)
    then have e: "e \<in> set ps" "qs = []" "sqs' = (after e ps, before e ps @ [e])" using spec l by (auto split: if_splits)
    then obtain xs ys where s: "ps = xs @ e # ys" "sqs' = (ys, xs @ [e])" using split by blast
    have b: "linked h b" "b \<notin> insert a (set (xs @ e # ys))"
      using dlist_linked [OF d(2)] two s(1) by auto
    obtain h' where h': "list_cut_position b a e h = Inr h'" "dlist h' b (xs @ [e])" "dlist h' a ys" "\<forall>p. linked h' p = linked h p"
      using list_cut_position_dlist(1) [OF b(1) d(1) [unfolded s(1)] b(2)] by blast
    have "lists_rep a b N h' (ys, xs @ [e])"
      using h'(2-4) lk ab sub s(1) d(1) by (auto simp: lists_rep_def dlist_def)
    with h'(1) s(2) L_cut show ?thesis by simp
  next
    case L_splice
    obtain h' where h': "list_splice_init b a h = Inr h'" "dlist h' a (qs @ ps)" "dlist h' b []" "\<forall>p. linked h' p = linked h p"
      using list_splice_init_dlist(1) [OF d(2,1) two] by blast
    have "lists_rep a b N h' (qs @ ps, [])" using h'(2-4) lk ab sub by (auto simp: lists_rep_def)
    with h'(1) L_splice spec l show ?thesis by simp
  next
    case L_splice_tail
    obtain h' where h': "list_splice_tail_init b a h = Inr h'" "dlist h' a (ps @ qs)" "dlist h' b []" "\<forall>p. linked h' p = linked h p"
      using list_splice_init_dlist(2) [OF d(2,1) two] by blast
    have "lists_rep a b N h' (ps @ qs, [])" using h'(2-4) lk ab sub by (auto simp: lists_rep_def)
    with h'(1) L_splice_tail spec l show ?thesis by simp
  qed
qed

interpretation two_lists: simulation "lists_rep a b N" "list_step a b" "list_spec N" for a b N
  by unfold_locales (rule list_step_sim)

text \<open>
  C24. The intrusive lists of \<^verbatim>\<open>list.h\<close> are sequences: any sequence of additions at both ends,
  deletions, replacements, rotations, moves within a list or to another, cuts and joins runs
  without a fault, and both circular lists hold, in both directions, the entries that the same
  operations on two sequences give.
\<close>

theorem list_operations_refine:
  assumes "lists_rep a b N h sqs" "run_spec (list_spec N) ops sqs = Some sqs'"
  shows "\<exists>h'. run_steps (list_step a b) ops h = Inr h' \<and> lists_rep a b N h' sqs'"
  by (rule two_lists.run_sim [OF assms])

definition ex_lists :: list_heap where
  "ex_lists = \<lparr>next_p = (\<lambda>p. if p \<in> {1, 2, 10, 11, 12} then Some p else None),
     prev_p = (\<lambda>p. if p \<in> {1, 2, 10, 11, 12} then Some p else None)\<rparr>"

theorem list_operations_refine_witness:
  "\<exists>h'. run_steps (list_step 1 2) [L_add 10, L_add_tail 11, L_replace 10 12, L_cut 12, L_rotate, L_splice] ex_lists = Inr h' \<and>
     lists_rep 1 2 {10, 11, 12} h' ([12, 11], [])"
proof (rule list_operations_refine)
  show "lists_rep 1 2 {10, 11, 12} ex_lists ([], [])"
    by (simp add: lists_rep_def ex_lists_def dlist_Nil linked_def)
qed (simp add: before_def after_def)

end
