(* ===== verification/List_Loops.thy ===== *)
theory List_Loops
  imports List_Ops
begin

text \<open>
  The loops of the \<^verbatim>\<open>list_for_each\<close> macros of \<^verbatim>\<open>include/list.h\<close>, in both directions, and in
  the forms that are safe against removal of the entry: what each visits, and why deleting
  entries needs the safe form.
\<close>

section \<open>Loops\<close>

text \<open>
  \<^verbatim>\<open>list_for_each\<close> in the direction \<open>dir\<close>, from \<open>pos\<close> on. The state of the body contains the heap;
  \<open>None\<close> means that the loop does not end.
\<close>

partial_function (option) for_each_from ::
  "(list_heap \<Rightarrow> ptr \<rightharpoonup> ptr) \<Rightarrow> ('s \<Rightarrow> list_heap) \<Rightarrow> (ptr \<Rightarrow> 's \<Rightarrow> 's res) \<Rightarrow> ptr \<Rightarrow> ptr \<Rightarrow> 's \<Rightarrow> 's res option" where
  "for_each_from dir hp body head pos s =
     (if pos = head then Some (Inr s)
      else case body pos s of
        Inl e \<Rightarrow> Some (Inl e)
      | Inr s \<Rightarrow> (case load_ptr (dir (hp s)) pos of
            Inl e \<Rightarrow> Some (Inl e)
          | Inr nxt \<Rightarrow> for_each_from dir hp body head nxt s))"

text \<open>The safe form has read the next entry \<open>n\<close> before the body runs.\<close>

partial_function (option) for_each_safe_from ::
  "(list_heap \<Rightarrow> ptr \<rightharpoonup> ptr) \<Rightarrow> ('s \<Rightarrow> list_heap) \<Rightarrow> (ptr \<Rightarrow> 's \<Rightarrow> 's res) \<Rightarrow> ptr \<Rightarrow> ptr \<Rightarrow> ptr \<Rightarrow> 's \<Rightarrow> 's res option" where
  "for_each_safe_from dir hp body head pos n s =
     (if pos = head then Some (Inr s)
      else case body pos s of
        Inl e \<Rightarrow> Some (Inl e)
      | Inr s \<Rightarrow> (case load_ptr (dir (hp s)) n of
            Inl e \<Rightarrow> Some (Inl e)
          | Inr n' \<Rightarrow> for_each_safe_from dir hp body head n n' s))"

definition list_for_each :: "('s \<Rightarrow> list_heap) \<Rightarrow> (ptr \<Rightarrow> 's \<Rightarrow> 's res) \<Rightarrow> ptr \<Rightarrow> 's \<Rightarrow> 's res option" where
  "list_for_each hp body head s = bind_ro (Some (load_ptr (next_p (hp s)) head)) (\<lambda>pos. for_each_from next_p hp body head pos s)"

definition list_for_each_prev :: "('s \<Rightarrow> list_heap) \<Rightarrow> (ptr \<Rightarrow> 's \<Rightarrow> 's res) \<Rightarrow> ptr \<Rightarrow> 's \<Rightarrow> 's res option" where
  "list_for_each_prev hp body head s = bind_ro (Some (load_ptr (prev_p (hp s)) head)) (\<lambda>pos. for_each_from prev_p hp body head pos s)"

definition list_for_each_safe :: "('s \<Rightarrow> list_heap) \<Rightarrow> (ptr \<Rightarrow> 's \<Rightarrow> 's res) \<Rightarrow> ptr \<Rightarrow> 's \<Rightarrow> 's res option" where
  "list_for_each_safe hp body head s =
     bind_ro (Some (load_ptr (next_p (hp s)) head)) (\<lambda>pos.
     bind_ro (Some (load_ptr (next_p (hp s)) pos)) (\<lambda>n. for_each_safe_from next_p hp body head pos n s))"

definition list_for_each_prev_safe :: "('s \<Rightarrow> list_heap) \<Rightarrow> (ptr \<Rightarrow> 's \<Rightarrow> 's res) \<Rightarrow> ptr \<Rightarrow> 's \<Rightarrow> 's res option" where
  "list_for_each_prev_safe hp body head s =
     bind_ro (Some (load_ptr (prev_p (hp s)) head)) (\<lambda>pos.
     bind_ro (Some (load_ptr (prev_p (hp s)) pos)) (\<lambda>n. for_each_safe_from prev_p hp body head pos n s))"

text \<open>
  The forms for entries: \<^verbatim>\<open>pos\<close> is the structure around the member, \<open>container_of\<close> the address of
  the member less its offset. The model keeps the address of the member, \<^verbatim>\<open>&pos->member\<close>.
\<close>

definition container_of :: "ptr \<Rightarrow> nat \<Rightarrow> ptr" where "container_of p off = p - off"

definition list_first_entry :: "nat \<Rightarrow> ptr \<Rightarrow> list_heap \<Rightarrow> ptr res" where
  "list_first_entry off head h = bind_res (load_ptr (next_p h) head) (\<lambda>p. Inr (container_of p off))"

definition list_for_each_entry :: "nat \<Rightarrow> ('s \<Rightarrow> list_heap) \<Rightarrow> (ptr \<Rightarrow> 's \<Rightarrow> 's res) \<Rightarrow> ptr \<Rightarrow> 's \<Rightarrow> 's res option" where
  "list_for_each_entry off hp body head s = list_for_each hp (\<lambda>p. body (container_of p off)) head s"

definition list_for_each_entry_reverse :: "nat \<Rightarrow> ('s \<Rightarrow> list_heap) \<Rightarrow> (ptr \<Rightarrow> 's \<Rightarrow> 's res) \<Rightarrow> ptr \<Rightarrow> 's \<Rightarrow> 's res option" where
  "list_for_each_entry_reverse off hp body head s = list_for_each_prev hp (\<lambda>p. body (container_of p off)) head s"

definition list_for_each_entry_from :: "nat \<Rightarrow> ('s \<Rightarrow> list_heap) \<Rightarrow> (ptr \<Rightarrow> 's \<Rightarrow> 's res) \<Rightarrow> ptr \<Rightarrow> ptr \<Rightarrow> 's \<Rightarrow> 's res option" where
  "list_for_each_entry_from off hp body head pos s = for_each_from next_p hp (\<lambda>p. body (container_of p off)) head pos s"

definition list_for_each_entry_continue :: "nat \<Rightarrow> ('s \<Rightarrow> list_heap) \<Rightarrow> (ptr \<Rightarrow> 's \<Rightarrow> 's res) \<Rightarrow> ptr \<Rightarrow> ptr \<Rightarrow> 's \<Rightarrow> 's res option" where
  "list_for_each_entry_continue off hp body head pos s =
     bind_ro (Some (load_ptr (next_p (hp s)) pos)) (\<lambda>pos. for_each_from next_p hp (\<lambda>p. body (container_of p off)) head pos s)"

definition list_for_each_entry_continue_reverse :: "nat \<Rightarrow> ('s \<Rightarrow> list_heap) \<Rightarrow> (ptr \<Rightarrow> 's \<Rightarrow> 's res) \<Rightarrow> ptr \<Rightarrow> ptr \<Rightarrow> 's \<Rightarrow> 's res option" where
  "list_for_each_entry_continue_reverse off hp body head pos s =
     bind_ro (Some (load_ptr (prev_p (hp s)) pos)) (\<lambda>pos. for_each_from prev_p hp (\<lambda>p. body (container_of p off)) head pos s)"

definition list_for_each_entry_safe :: "nat \<Rightarrow> ('s \<Rightarrow> list_heap) \<Rightarrow> (ptr \<Rightarrow> 's \<Rightarrow> 's res) \<Rightarrow> ptr \<Rightarrow> 's \<Rightarrow> 's res option" where
  "list_for_each_entry_safe off hp body head s = list_for_each_safe hp (\<lambda>p. body (container_of p off)) head s"

definition list_for_each_entry_safe_from :: "nat \<Rightarrow> ('s \<Rightarrow> list_heap) \<Rightarrow> (ptr \<Rightarrow> 's \<Rightarrow> 's res) \<Rightarrow> ptr \<Rightarrow> ptr \<Rightarrow> 's \<Rightarrow> 's res option" where
  "list_for_each_entry_safe_from off hp body head pos s =
     bind_ro (Some (load_ptr (next_p (hp s)) pos)) (\<lambda>n.
       for_each_safe_from next_p hp (\<lambda>p. body (container_of p off)) head pos n s)"

definition list_for_each_entry_safe_continue :: "nat \<Rightarrow> ('s \<Rightarrow> list_heap) \<Rightarrow> (ptr \<Rightarrow> 's \<Rightarrow> 's res) \<Rightarrow> ptr \<Rightarrow> ptr \<Rightarrow> 's \<Rightarrow> 's res option" where
  "list_for_each_entry_safe_continue off hp body head pos s =
     bind_ro (Some (load_ptr (next_p (hp s)) pos)) (\<lambda>pos. list_for_each_entry_safe_from off hp body head pos s)"

definition list_for_each_entry_safe_reverse :: "nat \<Rightarrow> ('s \<Rightarrow> list_heap) \<Rightarrow> (ptr \<Rightarrow> 's \<Rightarrow> 's res) \<Rightarrow> ptr \<Rightarrow> 's \<Rightarrow> 's res option" where
  "list_for_each_entry_safe_reverse off hp body head s = list_for_each_prev_safe hp (\<lambda>p. body (container_of p off)) head s"


text \<open>A null cursor stands for the head; a stale \<open>n\<close> of a safe loop is read again.\<close>

definition list_prepare_entry :: "ptr option \<Rightarrow> ptr \<Rightarrow> ptr" where
  "list_prepare_entry pos head = (case pos of None \<Rightarrow> head | Some p \<Rightarrow> p)"

definition list_safe_reset_next :: "ptr \<Rightarrow> list_heap \<Rightarrow> ptr res" where
  "list_safe_reset_next pos h = load_ptr (next_p h) pos"

section \<open>What the loops visit\<close>

text \<open>The body on each element in turn, until the first fault.\<close>

fun each_res :: "(ptr \<Rightarrow> 's \<Rightarrow> 's res) \<Rightarrow> ptr list \<Rightarrow> 's \<Rightarrow> 's res" where
  "each_res body [] s = Inr s"
| "each_res body (p # ps) s = bind_res (body p s) (each_res body ps)"

text \<open>The entries that the field \<open>m\<close> leads through, from \<open>p\<close> to \<open>q\<close>.\<close>

fun link_path :: "(ptr \<rightharpoonup> ptr) \<Rightarrow> ptr \<Rightarrow> ptr list \<Rightarrow> ptr \<Rightarrow> bool" where
  "link_path m p [] q \<longleftrightarrow> p = q"
| "link_path m p (x # xs) q \<longleftrightarrow> p = x \<and> (\<exists>y. m x = Some y \<and> link_path m y xs q)"

lemma link_path_snoc:
  "link_path m p (xs @ [x]) q \<longleftrightarrow> link_path m p xs x \<and> m x = Some q"
  by (induction xs arbitrary: p) auto

lemma link_path_start: "link_path m p xs q \<Longrightarrow> p = hd (xs @ [q])"
  by (cases xs) auto

lemma dseg_prefix: "dseg h (c @ [x]) \<Longrightarrow> dseg h c"
  by (induction h c rule: dseg.induct) auto

lemma dseg_path:
  "dseg h (xs @ [q]) \<Longrightarrow> link_path (next_p h) (hd (xs @ [q])) xs q"
proof (induction xs)
  case (Cons a xs)
  then show ?case by (cases xs) auto
qed simp

lemma dseg_path_back:
  "dseg h (q # xs) \<Longrightarrow> link_path (prev_p h) (last (q # xs)) (rev xs) q"
proof (induction xs rule: rev_induct)
  case (snoc x xs)
  have "dseg h (q # xs)" using snoc.prems dseg_prefix [of h "q # xs" x] by simp
  moreover have "prev_p h x = Some (last (q # xs))" using snoc.prems dseg_last [of h "q # xs" x] by simp
  ultimately show ?case using snoc.IH by simp
qed simp

lemma dlist_path:
  assumes "dlist h head ps"
  shows "next_p h head = Some (hd (ps @ [head]))" "link_path (next_p h) (hd (ps @ [head])) ps head"
    "prev_p h head = Some (last (head # ps))" "link_path (prev_p h) (last (head # ps)) (rev ps) head"
proof -
  have d: "dseg h (head # ps @ [head])" using assms by (simp add: dlist_def)
  then have "dseg h (head # ps)" using dseg_prefix [of h "head # ps" head] by simp
  then show "link_path (prev_p h) (last (head # ps)) (rev ps) head" by (rule dseg_path_back)
  have "dseg h (ps @ [head])" using d by (cases ps) auto
  then show "link_path (next_p h) (hd (ps @ [head])) ps head" by (rule dseg_path)
  show "next_p h head = Some (hd (ps @ [head]))" using d by (cases ps) auto
  show "prev_p h head = Some (last (head # ps))" using d dseg_last [of h "head # ps" head] by simp
qed

text \<open>A loop whose body leaves the field alone runs the body on the path.\<close>

lemma for_each_from_path:
  assumes "\<And>p s s'. body p s = Inr s' \<Longrightarrow> dir (hp s') = dir (hp s)"
  shows "link_path (dir (hp s)) pos ps head \<Longrightarrow> head \<notin> set ps \<Longrightarrow>
    for_each_from dir hp body head pos s = Some (each_res body ps s)"
proof (induction ps arbitrary: pos s)
  case Nil
  then show ?case by (simp add: for_each_from.simps)
next
  case (Cons p ps)
  show ?case
  proof (cases "body p s")
    case (Inl e)
    with Cons.prems show ?thesis by (subst for_each_from.simps) auto
  next
    case (Inr s')
    with Cons.prems obtain y where "dir (hp s') p = Some y" "link_path (dir (hp s')) y ps head"
      using assms [OF Inr] by auto
    with Cons.IH [of s' y] Cons.prems Inr show ?thesis by (subst for_each_from.simps) (auto simp: load_ptr_def)
  qed
qed

text \<open>
  The safe form allows the body to change what lies behind it: \<open>I ps s\<close> holds when the entries
  \<open>ps\<close> are still to be visited.
\<close>

lemma for_each_safe_from_inv:
  assumes path: "\<And>ps s. I ps s \<Longrightarrow> link_path (dir (hp s)) (hd (ps @ [head])) ps head \<and> dir (hp s) head \<noteq> None"
    and step: "\<And>p ps s s'. I (p # ps) s \<Longrightarrow> body p s = Inr s' \<Longrightarrow> I ps s'"
  shows "I ps s \<Longrightarrow> head \<notin> set ps \<Longrightarrow> load_ptr (dir (hp s)) (hd (ps @ [head])) = Inr n \<Longrightarrow>
    for_each_safe_from dir hp body head (hd (ps @ [head])) n s = Some (each_res body ps s)"
proof (induction ps arbitrary: n s)
  case Nil
  then show ?case by (simp add: for_each_safe_from.simps)
next
  case (Cons p ps)
  have n: "n = hd (ps @ [head])"
    using path [OF Cons.prems(1)] Cons.prems(3) link_path_start [of "dir (hp s)" n ps head] by (auto simp: load_ptr_def)
  show ?case
  proof (cases "body p s")
    case (Inl e)
    with Cons.prems show ?thesis by (subst for_each_safe_from.simps) auto
  next
    case (Inr s')
    note I' = step [OF Cons.prems(1) Inr]
    have "dir (hp s') n \<noteq> None" using path [OF I'] n by (cases ps) auto
    then obtain n' where n': "load_ptr (dir (hp s')) n = Inr n'" by (auto simp: load_ptr_def)
    have "for_each_safe_from dir hp body head n n' s' = Some (each_res body ps s')"
      using Cons.IH [OF I'] Cons.prems(2) n n' by simp
    with Cons.prems(2) Inr n' show ?thesis by (subst for_each_safe_from.simps) auto
  qed
qed

lemma list_for_each_dlist:
  assumes "\<And>p s s'. body p s = Inr s' \<Longrightarrow> next_p (hp s') = next_p (hp s)" "dlist (hp s) head ps"
  shows "list_for_each hp body head s = Some (each_res body ps s)"
  using dlist_path(1,2) [OF assms(2)] for_each_from_path [where dir = next_p and hp = hp and body = body, OF assms(1)] assms(2)
  by (simp add: list_for_each_def load_ptr_def dlist_def)

lemma list_for_each_prev_dlist:
  assumes "\<And>p s s'. body p s = Inr s' \<Longrightarrow> prev_p (hp s') = prev_p (hp s)" "dlist (hp s) head ps"
  shows "list_for_each_prev hp body head s = Some (each_res body (rev ps) s)"
  using dlist_path(3,4) [OF assms(2)] for_each_from_path [where dir = prev_p and hp = hp and body = body, OF assms(1)] assms(2)
  by (simp del: last.simps add: list_for_each_prev_def load_ptr_def dlist_def)

lemma link_path_load: "link_path m p ps q \<Longrightarrow> m q \<noteq> None \<Longrightarrow> \<exists>n. load_ptr m p = Inr n"
  by (cases ps) (auto simp: load_ptr_def)

lemma list_for_each_safe_dlist:
  assumes I: "\<And>ps s. I ps s \<Longrightarrow> dlist (hp s) head ps"
    and step: "\<And>p ps s s'. I (p # ps) s \<Longrightarrow> body p s = Inr s' \<Longrightarrow> I ps s'" and start: "I ps s"
  shows "list_for_each_safe hp body head s = Some (each_res body ps s)"
proof -
  have path: "link_path (next_p (hp s)) (hd (ps @ [head])) ps head \<and> next_p (hp s) head \<noteq> None" if "I ps s" for ps s
    using dlist_path [OF I [OF that]] by simp
  obtain n where n: "load_ptr (next_p (hp s)) (hd (ps @ [head])) = Inr n"
    using link_path_load path [OF start] by blast
  have "head \<notin> set ps" using I [OF start] by (simp add: dlist_def)
  from for_each_safe_from_inv [where dir = next_p and I = I and hp = hp and head = head and body = body, OF path step start this n] n show ?thesis
    using dlist_path(1) [OF I [OF start]] by (simp add: list_for_each_safe_def load_ptr_def)
qed

text \<open>Backwards, \<open>I\<close> is about the entries still before the cursor, the nearest first.\<close>

lemma list_for_each_prev_safe_dlist:
  assumes I: "\<And>ps s. I ps s \<Longrightarrow> dlist (hp s) head (rev ps)"
    and step: "\<And>p ps s s'. I (p # ps) s \<Longrightarrow> body p s = Inr s' \<Longrightarrow> I ps s'" and start: "I ps s"
  shows "list_for_each_prev_safe hp body head s = Some (each_res body ps s)"
proof -
  have "last (head # rev ps) = hd (ps @ [head])" for ps by (cases ps) auto
  then have path: "link_path (prev_p (hp s)) (hd (ps @ [head])) ps head \<and> prev_p (hp s) head = Some (hd (ps @ [head]))"
    if "I ps s" for ps s
    using dlist_path(3,4) [OF I [OF that]] by simp
  obtain n where n: "load_ptr (prev_p (hp s)) (hd (ps @ [head])) = Inr n"
    using link_path_load path [OF start] by blast
  have path': "link_path (prev_p (hp s)) (hd (ps @ [head])) ps head \<and> prev_p (hp s) head \<noteq> None" if "I ps s" for ps s
    using path [OF that] by simp
  have "head \<notin> set ps" using I [OF start] by (simp add: dlist_def)
  from for_each_safe_from_inv [where dir = prev_p and I = I and hp = hp and head = head and body = body, OF path' step start this n] n path [OF start] show ?thesis
    by (simp add: list_for_each_prev_safe_def load_ptr_def)
qed

text \<open>A loop that continues visits what lies behind the cursor, all entries from a prepared null cursor.\<close>

lemma list_for_each_entry_continue_dlist:
  assumes b: "\<And>p s s'. body p s = Inr s' \<Longrightarrow> next_p (hp s') = next_p (hp s)" and d: "dlist (hp s) head (xs @ e # ys)"
  shows "list_for_each_entry_continue off hp body head (list_prepare_entry (Some e) head) s =
      Some (each_res (\<lambda>p. body (container_of p off)) ys s)"
    "list_for_each_entry_continue off hp body head (list_prepare_entry None head) s =
      Some (each_res (\<lambda>p. body (container_of p off)) (xs @ e # ys) s)"
proof -
  have c: "dlist (hp s) e (ys @ head # xs)" using d by (simp add: dlist_rotate)
  have h: "head \<notin> set ys" using d by (auto simp: dlist_def)
  have p: "link_path m q (as @ z # bs) w \<Longrightarrow> link_path m q as z" for m :: "ptr \<rightharpoonup> ptr" and q as z bs w
    by (induction as arbitrary: q) auto
  have "link_path (next_p (hp s)) (hd (ys @ [head])) ys head"
    using p [OF dlist_path(2) [OF c, simplified append.assoc append.simps]] by (cases ys) auto
  moreover have "next_p (hp s) e = Some (hd (ys @ [head]))" using dlist_path(1) [OF c] by (cases ys) auto
  ultimately show "list_for_each_entry_continue off hp body head (list_prepare_entry (Some e) head) s =
      Some (each_res (\<lambda>p. body (container_of p off)) ys s)"
    using for_each_from_path [where dir = next_p and hp = hp and body = "\<lambda>p. body (container_of p off)", OF b _ h]
    by (simp add: list_for_each_entry_continue_def list_prepare_entry_def load_ptr_def)
  show "list_for_each_entry_continue off hp body head (list_prepare_entry None head) s =
      Some (each_res (\<lambda>p. body (container_of p off)) (xs @ e # ys) s)"
    using list_for_each_dlist [where hp = hp and body = "\<lambda>p. body (container_of p off)", OF b d]
    by (simp add: list_for_each_entry_continue_def list_prepare_entry_def list_for_each_def)
qed

section \<open>Deleting the entries\<close>

lemma each_del:
  "dlist h head ps \<Longrightarrow> \<exists>h'. each_res list_del ps h = Inr h' \<and> dlist h' head []"
proof (induction ps arbitrary: h)
  case (Cons p ps)
  then show ?case using list_del_dlist [of h head "[]" p ps] by force
qed simp

lemma each_del_back:
  "dlist h head (rev ps) \<Longrightarrow> \<exists>h'. each_res list_del ps h = Inr h' \<and> dlist h' head []"
proof (induction ps arbitrary: h)
  case (Cons p ps)
  then show ?case using list_del_dlist [of h head "rev ps" p "[]"] by force
qed simp

text \<open>
  C26. A loop that deletes every entry with \<^verbatim>\<open>list_del\<close> leaves the empty list when it has one of the
  safe forms, forwards or backwards; with the plain form it faults at the second step on any
  list that is not empty, since \<^verbatim>\<open>list_del\<close> has set the link it follows to the null pointer.
\<close>

theorem deleting_loop:
  assumes "dlist h head ps" "next_p h 0 = None" "prev_p h 0 = None"
  shows "(\<exists>h'. list_for_each_safe (\<lambda>h. h) list_del head h = Some (Inr h') \<and> dlist h' head []) \<and>
    (\<exists>h'. list_for_each_prev_safe (\<lambda>h. h) list_del head h = Some (Inr h') \<and> dlist h' head []) \<and>
    (ps \<noteq> [] \<longrightarrow> list_for_each (\<lambda>h. h) list_del head h = Some (Inl UseAfterFree))"
proof (intro conjI impI)
  have "list_for_each_safe (\<lambda>h. h) list_del head h = Some (each_res list_del ps h)"
  proof (rule list_for_each_safe_dlist [where I = "\<lambda>ps h. dlist h head ps"])
    fix p ps h h'
    assume "dlist h head (p # ps)" "list_del p h = Inr h'"
    then show "dlist h' head ps" using list_del_dlist [of h head "[]" p ps] by force
  qed (use assms in simp_all)
  with each_del [OF assms(1)] show "\<exists>h'. list_for_each_safe (\<lambda>h. h) list_del head h = Some (Inr h') \<and> dlist h' head []"
    by auto
  have "list_for_each_prev_safe (\<lambda>h. h) list_del head h = Some (each_res list_del (rev ps) h)"
  proof (rule list_for_each_prev_safe_dlist [where I = "\<lambda>ps h. dlist h head (rev ps)"])
    fix p ps h h'
    assume "dlist h head (rev (p # ps))" "list_del p h = Inr h'"
    then show "dlist h' head (rev ps)" using list_del_dlist [of h head "rev ps" p "[]"] by force
  qed (use assms in simp_all)
  with each_del_back [of h head "rev ps"] assms(1)
  show "\<exists>h'. list_for_each_prev_safe (\<lambda>h. h) list_del head h = Some (Inr h') \<and> dlist h' head []" by auto
next
  assume "ps \<noteq> []"
  then obtain p qs where ps: "ps = p # qs" by (cases ps) auto
  obtain h' where h': "list_del p h = Inr h'" "next_p h' p = Some LIST_POISON"
    "heap_frame (insert head (set ps)) h h'"
    using list_del_dlist [of h head "[]" p qs] assms(1) ps by auto
  have z: "0 \<notin> insert head (set ps)" using dlist_linked [OF assms(1), of 0] assms(2) unfolding linked_def by blast
  then have "prev_p h' 0 = None" using h'(3) assms(3) by (auto simp: heap_frame_def)
  then have "list_del 0 h' = Inl UseAfterFree" by (simp add: list_del_def list_del_entry_def load_ptr_def)
  moreover have "p \<noteq> head" "head \<noteq> 0" "next_p h head = Some p" using z assms(1) ps by (auto simp: dlist_def simp del: neq0_conv)
  ultimately show "list_for_each (\<lambda>h. h) list_del head h = Some (Inl UseAfterFree)"
    using h'(1,2) z
    by (simp add: list_for_each_def load_ptr_def LIST_POISON_def for_each_from.simps [of _ _ _ _ p]
      for_each_from.simps [of _ _ _ _ 0])
qed

definition ex_pair :: list_heap where
  "ex_pair = \<lparr>next_p = [1 \<mapsto> 2, 2 \<mapsto> 3, 3 \<mapsto> 1], prev_p = [1 \<mapsto> 3, 2 \<mapsto> 1, 3 \<mapsto> 2]\<rparr>"

theorem deleting_loop_witness:
  "(\<exists>h'. list_for_each_safe (\<lambda>h. h) list_del 1 ex_pair = Some (Inr h') \<and> dlist h' 1 []) \<and>
    (\<exists>h'. list_for_each_prev_safe (\<lambda>h. h) list_del 1 ex_pair = Some (Inr h') \<and> dlist h' 1 []) \<and>
    list_for_each (\<lambda>h. h) list_del 1 ex_pair = Some (Inl UseAfterFree)"
  using deleting_loop [of ex_pair 1 "[2, 3]"] by (simp add: ex_pair_def dlist_def)

end
