(* ===== verification/Hlist.thy ===== *)
theory Hlist
  imports List_Loops List_Runs
begin

text \<open>
  The lists with a single pointer head of \<^verbatim>\<open>include/list.h\<close>. A node points back at the \<^emph>\<open>slot\<close> that
  points to it, the \<^verbatim>\<open>first\<close> field of a head or the \<^verbatim>\<open>next\<close> field of the node before, so that a
  deletion needs no case for the first node. The maps hold the fields that are allocated; a null
  pointer is \<open>None\<close>. The relation \<open>hlist\<close> ties a head to the sequence of its nodes, and sequences of
  the operations on two lists simulate those on two sequences.
\<close>

section \<open>Nodes and slots\<close>

datatype hslot = HFirst ptr | HNext ptr

record hlist_heap =
  first_p :: "ptr \<rightharpoonup> ptr option"
  hnext_p :: "ptr \<rightharpoonup> ptr option"
  pprev_p :: "ptr \<rightharpoonup> hslot option"

fun slot_val :: "hlist_heap \<Rightarrow> hslot \<rightharpoonup> ptr option" where
  "slot_val h (HFirst a) = first_p h a"
| "slot_val h (HNext p) = hnext_p h p"

fun put_slot :: "hslot \<Rightarrow> ptr option \<Rightarrow> hlist_heap \<Rightarrow> hlist_heap" where
  "put_slot (HFirst a) v h = h\<lparr>first_p := (first_p h)(a \<mapsto> v)\<rparr>"
| "put_slot (HNext p) v h = h\<lparr>hnext_p := (hnext_p h)(p \<mapsto> v)\<rparr>"

definition put_pprev :: "ptr \<Rightarrow> hslot option \<Rightarrow> hlist_heap \<Rightarrow> hlist_heap" where
  "put_pprev p v h = h\<lparr>pprev_p := (pprev_p h)(p \<mapsto> v)\<rparr>"

lemma slot_put [simp]:
  "slot_val (put_slot t v h) u = (if u = t then Some v else slot_val h u)"
  "slot_val (put_pprev p w h) u = slot_val h u"
  "pprev_p (put_slot t v h) = pprev_p h"
  "pprev_p (put_pprev p w h) = (pprev_p h)(p \<mapsto> w)"
     apply (cases t; cases u; simp)
    apply (cases u; simp add: put_pprev_def)
   apply (cases t; simp)
  apply (simp add: put_pprev_def)
  done

declare slot_val.simps [simp del] put_slot.simps [simp del]

text \<open>Loads and stores; through a null pointer or outside the allocated fields they fault.\<close>

definition load_slot :: "hslot \<Rightarrow> hlist_heap \<Rightarrow> ptr option res" where
  "load_slot t h = (case slot_val h t of None \<Rightarrow> Inl UseAfterFree | Some v \<Rightarrow> Inr v)"

definition load_pprev :: "ptr \<Rightarrow> hlist_heap \<Rightarrow> hslot option res" where
  "load_pprev p h = (case pprev_p h p of None \<Rightarrow> Inl UseAfterFree | Some v \<Rightarrow> Inr v)"

definition set_slot :: "hslot \<Rightarrow> ptr option \<Rightarrow> hlist_heap \<Rightarrow> hlist_heap res" where
  "set_slot t v h = (if slot_val h t = None then Inl UseAfterFree else Inr (put_slot t v h))"

definition set_pprev :: "ptr \<Rightarrow> hslot option \<Rightarrow> hlist_heap \<Rightarrow> hlist_heap res" where
  "set_pprev p v h = (if pprev_p h p = None then Inl UseAfterFree else Inr (put_pprev p v h))"

definition store_through :: "hslot option \<Rightarrow> ptr option \<Rightarrow> hlist_heap \<Rightarrow> hlist_heap res" where
  "store_through pp v h = (case pp of None \<Rightarrow> Inl NullDeref | Some t \<Rightarrow> set_slot t v h)"

section \<open>The operations\<close>

definition INIT_HLIST_HEAD :: "ptr \<Rightarrow> hlist_heap \<Rightarrow> hlist_heap res" where
  "INIT_HLIST_HEAD a h = set_slot (HFirst a) None h"

definition INIT_HLIST_NODE :: "ptr \<Rightarrow> hlist_heap \<Rightarrow> hlist_heap res" where
  "INIT_HLIST_NODE n h = bind_res (set_slot (HNext n) None h) (set_pprev n None)"

definition hlist_unhashed :: "ptr \<Rightarrow> hlist_heap \<Rightarrow> bool res" where
  "hlist_unhashed n h = bind_res (load_pprev n h) (\<lambda>pp. Inr (pp = None))"

definition hlist_empty :: "ptr \<Rightarrow> hlist_heap \<Rightarrow> bool res" where
  "hlist_empty a h = bind_res (load_slot (HFirst a) h) (\<lambda>f. Inr (f = None))"

definition hlist_unlink :: "ptr \<Rightarrow> hlist_heap \<Rightarrow> hlist_heap res" where
  "hlist_unlink n h =
     bind_res (load_slot (HNext n) h) (\<lambda>nxt.
     bind_res (load_pprev n h) (\<lambda>pp.
     bind_res (store_through pp nxt h) (\<lambda>h.
       case nxt of None \<Rightarrow> Inr h | Some x \<Rightarrow> set_pprev x pp h)))"

text \<open>Both poisons of \<^verbatim>\<open>list.h\<close> are null pointers.\<close>

definition hlist_del :: "ptr \<Rightarrow> hlist_heap \<Rightarrow> hlist_heap res" where
  "hlist_del n h =
     bind_res (hlist_unlink n h) (\<lambda>h. bind_res (set_slot (HNext n) None h) (set_pprev n None))"

definition hlist_del_init :: "ptr \<Rightarrow> hlist_heap \<Rightarrow> hlist_heap res" where
  "hlist_del_init n h =
     bind_res (hlist_unhashed n h) (\<lambda>un.
       if un then Inr h else bind_res (hlist_unlink n h) (INIT_HLIST_NODE n))"

definition hlist_add_head :: "ptr \<Rightarrow> ptr \<Rightarrow> hlist_heap \<Rightarrow> hlist_heap res" where
  "hlist_add_head n a h =
     bind_res (load_slot (HFirst a) h) (\<lambda>first.
     bind_res (set_slot (HNext n) first h) (\<lambda>h.
     bind_res (case first of None \<Rightarrow> Inr h | Some x \<Rightarrow> set_pprev x (Some (HNext n)) h) (\<lambda>h.
     bind_res (set_slot (HFirst a) (Some n) h) (set_pprev n (Some (HFirst a))))))"

definition hlist_add_before :: "ptr \<Rightarrow> ptr \<Rightarrow> hlist_heap \<Rightarrow> hlist_heap res" where
  "hlist_add_before n nxt h =
     bind_res (load_pprev nxt h) (\<lambda>pp.
     bind_res (set_pprev n pp h) (\<lambda>h.
     bind_res (set_slot (HNext n) (Some nxt) h) (\<lambda>h.
     bind_res (set_pprev nxt (Some (HNext n)) h) (\<lambda>h.
     bind_res (load_pprev n h) (\<lambda>pp. store_through pp (Some n) h)))))"

definition hlist_add_after :: "ptr \<Rightarrow> ptr \<Rightarrow> hlist_heap \<Rightarrow> hlist_heap res" where
  "hlist_add_after n nxt h =
     bind_res (load_slot (HNext n) h) (\<lambda>x.
     bind_res (set_slot (HNext nxt) x h) (\<lambda>h.
     bind_res (set_slot (HNext n) (Some nxt) h) (\<lambda>h.
     bind_res (set_pprev nxt (Some (HNext n)) h) (\<lambda>h.
     bind_res (load_slot (HNext nxt) h) (\<lambda>x.
       case x of None \<Rightarrow> Inr h | Some x \<Rightarrow> set_pprev x (Some (HNext nxt)) h)))))"

definition hlist_add_fake :: "ptr \<Rightarrow> hlist_heap \<Rightarrow> hlist_heap res" where
  "hlist_add_fake n h = set_pprev n (Some (HNext n)) h"

definition hlist_move_list :: "ptr \<Rightarrow> ptr \<Rightarrow> hlist_heap \<Rightarrow> hlist_heap res" where
  "hlist_move_list old new h =
     bind_res (load_slot (HFirst old) h) (\<lambda>f.
     bind_res (set_slot (HFirst new) f h) (\<lambda>h.
     bind_res (load_slot (HFirst new) h) (\<lambda>f.
     bind_res (case f of None \<Rightarrow> Inr h | Some x \<Rightarrow> set_pprev x (Some (HFirst new)) h) (\<lambda>h.
       set_slot (HFirst old) None h))))"

section \<open>The sequence of a list\<close>

fun hchain :: "hlist_heap \<Rightarrow> hslot \<Rightarrow> ptr list \<Rightarrow> bool" where
  "hchain h t [] \<longleftrightarrow> slot_val h t = Some None"
| "hchain h t (p # ps) \<longleftrightarrow> slot_val h t = Some (Some p) \<and> pprev_p h p = Some (Some t) \<and> hchain h (HNext p) ps"

fun hpart :: "hlist_heap \<Rightarrow> hslot \<Rightarrow> ptr list \<Rightarrow> bool" where
  "hpart h t [] \<longleftrightarrow> True"
| "hpart h t (p # ps) \<longleftrightarrow> slot_val h t = Some (Some p) \<and> pprev_p h p = Some (Some t) \<and> hpart h (HNext p) ps"

definition slot_after :: "hslot \<Rightarrow> ptr list \<Rightarrow> hslot" where
  "slot_after t xs = (if xs = [] then t else HNext (last xs))"

definition hlist :: "hlist_heap \<Rightarrow> ptr \<Rightarrow> ptr list \<Rightarrow> bool" where
  "hlist h a ps \<longleftrightarrow> hchain h (HFirst a) ps \<and> distinct ps"

definition hnode :: "hlist_heap \<Rightarrow> ptr \<Rightarrow> bool" where
  "hnode h p \<longleftrightarrow> hnext_p h p \<noteq> None \<and> pprev_p h p \<noteq> None"

text \<open>\<open>h'\<close> differs from \<open>h\<close> only in the head \<open>a\<close> and the nodes \<open>S\<close>, and allocates the same nodes.\<close>

definition hframe :: "ptr \<Rightarrow> ptr set \<Rightarrow> hlist_heap \<Rightarrow> hlist_heap \<Rightarrow> bool" where
  "hframe a S h h' \<longleftrightarrow>
     (\<forall>b. b \<noteq> a \<longrightarrow> slot_val h' (HFirst b) = slot_val h (HFirst b)) \<and>
     (\<forall>p. p \<notin> S \<longrightarrow> slot_val h' (HNext p) = slot_val h (HNext p) \<and> pprev_p h' p = pprev_p h p) \<and>
     (\<forall>p. hnode h' p = hnode h p)"

lemma hchain_append: "hchain h t (xs @ ys) \<longleftrightarrow> hpart h t xs \<and> hchain h (slot_after t xs) ys"
  by (induction xs arbitrary: t) (auto simp: slot_after_def)

lemma hnode_slot: "hnode h p \<longleftrightarrow> slot_val h (HNext p) \<noteq> None \<and> pprev_p h p \<noteq> None"
  by (simp add: hnode_def slot_val.simps)

lemma hchain_keep:
  "hchain h t ps \<Longrightarrow> \<forall>u\<in>insert t (HNext ` set ps). slot_val h' u = slot_val h u \<Longrightarrow>
   \<forall>p\<in>set ps. pprev_p h' p = pprev_p h p \<Longrightarrow> hchain h' t ps"
  by (induction ps arbitrary: t) auto

lemma hpart_keep:
  "hpart h t ps \<Longrightarrow> ps \<noteq> [] \<longrightarrow> (\<forall>u\<in>insert t (HNext ` set (butlast ps)). slot_val h' u = slot_val h u) \<Longrightarrow>
   \<forall>p\<in>set ps. pprev_p h' p = pprev_p h p \<Longrightarrow> hpart h' t ps"
  by (induction ps arbitrary: t) (auto split: if_splits)

lemma hlist_frame:
  assumes "hlist h b ps" "hframe a S h h'" "a \<noteq> b" "S \<inter> set ps = {}"
  shows "hlist h' b ps"
proof -
  have "hchain h' (HFirst b) ps"
  proof (rule hchain_keep [of h])
    show "\<forall>u\<in>insert (HFirst b) (HNext ` set ps). slot_val h' u = slot_val h u"
      using assms(2-4) by (auto simp: hframe_def)
    show "\<forall>p\<in>set ps. pprev_p h' p = pprev_p h p" using assms(2,4) by (auto simp: hframe_def)
  qed (use assms(1) in \<open>simp add: hlist_def\<close>)
  with assms(1) show ?thesis by (simp add: hlist_def)
qed

lemma hframe_node: "hframe a S h h' \<Longrightarrow> hnode h' p = hnode h p"
  by (simp add: hframe_def)

lemma hchain_node: "hchain h t ps \<Longrightarrow> p \<in> set ps \<Longrightarrow> hnode h p"
proof (induction ps arbitrary: t)
  case (Cons q ps)
  then show ?case by (cases ps) (auto simp: hnode_slot)
qed simp

lemma hchain_slot: "hchain h t ps \<Longrightarrow> slot_val h t = Some (case ps of [] \<Rightarrow> None | p # _ \<Rightarrow> Some p)"
  by (cases ps) auto

text \<open>Stores beside a chain.\<close>

lemma chain_put_pprev [simp]:
  "p \<notin> set ps \<Longrightarrow> hchain (put_pprev p w h) t ps = hchain h t ps"
  "p \<notin> set ps \<Longrightarrow> hpart (put_pprev p w h) t ps = hpart h t ps"
  by (induction ps arbitrary: t) auto

lemma chain_put_slot [simp]:
  "u \<noteq> t \<Longrightarrow> u \<notin> HNext ` set ps \<Longrightarrow> hchain (put_slot u v h) t ps = hchain h t ps"
  by (induction ps arbitrary: t) auto

lemma chain_put_next [simp]:
  "HNext n \<noteq> t \<Longrightarrow> n \<notin> set ps \<Longrightarrow> hchain (put_slot (HNext n) v h) t ps = hchain h t ps"
  "HFirst a \<noteq> t \<Longrightarrow> hchain (put_slot (HFirst a) v h) t ps = hchain h t ps"
  by (rule chain_put_slot; auto)+

lemma part_put_slot:
  "ps = [] \<or> u \<noteq> t \<and> u \<notin> HNext ` set (butlast ps) \<Longrightarrow> hpart (put_slot u v h) t ps = hpart h t ps"
  by (induction ps arbitrary: t) (auto split: if_splits)

lemma slot_after_in: "slot_after t xs \<in> insert t (HNext ` set xs)"
  by (simp add: slot_after_def)

lemma part_put_after [simp]:
  "distinct xs \<Longrightarrow> hpart (put_slot (slot_after (HFirst a) xs) v h) (HFirst a) xs = hpart h (HFirst a) xs"
proof (rule part_put_slot)
  assume "distinct xs"
  then have "xs = [] \<or> last xs \<notin> set (butlast xs)" using distinct_ends(1) by blast
  then show "xs = [] \<or> slot_after (HFirst a) xs \<noteq> HFirst a \<and> slot_after (HFirst a) xs \<notin> HNext ` set (butlast xs)"
    by (auto simp: slot_after_def)
qed

lemma part_put_next [simp]: "p \<notin> set xs \<Longrightarrow> hpart (put_slot (HNext p) v h) (HFirst a) xs = hpart h (HFirst a) xs"
  by (rule part_put_slot) (auto dest: in_set_butlastD)

lemma slot_after_neq [simp]:
  "p \<notin> set xs \<Longrightarrow> slot_after (HFirst a) xs \<noteq> HNext p" "p \<notin> set xs \<Longrightarrow> HNext p \<noteq> slot_after (HFirst a) xs"
  "a \<noteq> b \<Longrightarrow> slot_after (HFirst a) xs \<noteq> HFirst b" "a \<noteq> b \<Longrightarrow> HFirst b \<noteq> slot_after (HFirst a) xs"
  using slot_after_in [of "HFirst a" xs] by auto

lemma slot_after_image: "set xs \<inter> S = {} \<Longrightarrow> slot_after (HFirst a) xs \<notin> HNext ` S"
  using slot_after_in [of "HFirst a" xs] by auto

lemmas hstore = load_slot_def load_pprev_def set_slot_def set_pprev_def store_through_def

section \<open>Refinement\<close>

lemma hlist_unlink_hlist:
  assumes "hlist h a (xs @ e # ys)"
  shows "\<exists>h'. hlist_unlink e h = Inr h' \<and> hlist h' a (xs @ ys) \<and> hframe a (set (xs @ ys)) h h'"
proof -
  let ?t = "slot_after (HFirst a) xs"
  have d: "hpart h (HFirst a) xs" "slot_val h ?t = Some (Some e)" "pprev_p h e = Some (Some ?t)"
    "hchain h (HNext e) ys" "distinct (xs @ e # ys)"
    using assms by (auto simp: hlist_def hchain_append)
  have t: "?t \<notin> HNext ` set ys" using d(5) by (intro slot_after_image) auto
  show ?thesis
  proof (cases ys)
    case Nil
    have "hlist_unlink e h = Inr (put_slot ?t None h)"
      using d Nil by (simp add: hlist_unlink_def hstore)
    moreover have "hlist (put_slot ?t None h) a xs"
      using d hchain_append [of "put_slot ?t None h" "HFirst a" xs "[]"] by (simp add: hlist_def)
    moreover have "hframe a (set xs) h (put_slot ?t None h)"
      using d slot_after_in [of "HFirst a" xs] by (auto simp: hframe_def hnode_slot)
    ultimately show ?thesis using Nil by auto
  next
    case (Cons y zs)
    let ?h = "put_pprev y (Some ?t) (put_slot ?t (Some y) h)"
    have "hlist_unlink e h = Inr ?h"
      using d Cons by (simp add: hlist_unlink_def hstore)
    moreover have "hlist ?h a (xs @ ys)"
      using d t Cons by (auto simp: hlist_def hchain_append)
    moreover have "hframe a (set (xs @ ys)) h ?h"
      using d Cons slot_after_in [of "HFirst a" xs] by (auto simp: hframe_def hnode_slot)
    ultimately show ?thesis by blast
  qed
qed

lemma clear_node:
  assumes "hlist h a ps" "hnode h e" "e \<notin> set ps"
  shows "\<exists>h'. bind_res (set_slot (HNext e) None h) (set_pprev e None) = Inr h' \<and> hlist h' a ps \<and>
    slot_val h' (HNext e) = Some None \<and> pprev_p h' e = Some None \<and> hframe a {e} h h'"
proof -
  let ?h = "put_pprev e None (put_slot (HNext e) None h)"
  have "bind_res (set_slot (HNext e) None h) (set_pprev e None) = Inr ?h"
    using assms(2) by (auto simp: hstore hnode_slot)
  moreover have "hlist ?h a ps" using assms by (auto simp: hlist_def)
  moreover have "hframe a {e} h ?h" using assms(2) by (auto simp: hframe_def hnode_slot)
  ultimately show ?thesis by simp
qed

lemma hframe_trans: "hframe a S h h' \<Longrightarrow> hframe a T h' h'' \<Longrightarrow> S \<union> T \<subseteq> U \<Longrightarrow> hframe a U h h''"
  unfolding hframe_def by (metis UnCI subsetD)

text \<open>Both ways to delete a node leave it unhashed, since the poison is the null pointer.\<close>

lemma hlist_del_hlist:
  assumes "hlist h a (xs @ e # ys)"
  shows "\<exists>h'. hlist_del e h = Inr h' \<and> hlist h' a (xs @ ys) \<and> hlist_unhashed e h' = Inr True \<and>
      hframe a (set (xs @ e # ys)) h h'"
    "hlist_del_init e h = hlist_del e h"
proof -
  obtain h1 where h1: "hlist_unlink e h = Inr h1" "hlist h1 a (xs @ ys)" "hframe a (set (xs @ ys)) h h1"
    using hlist_unlink_hlist [OF assms] by blast
  have "hnode h1 e" using hframe_node [OF h1(3)] hchain_node [of h "HFirst a" "xs @ e # ys" e] assms by (simp add: hlist_def)
  moreover have "e \<notin> set (xs @ ys)" using assms by (auto simp: hlist_def)
  ultimately obtain h2 where h2: "bind_res (set_slot (HNext e) None h1) (set_pprev e None) = Inr h2" "hlist h2 a (xs @ ys)"
    "pprev_p h2 e = Some None" "hframe a {e} h1 h2"
    using clear_node [OF h1(2)] by blast
  have "hframe a (set (xs @ e # ys)) h h2" by (rule hframe_trans [OF h1(3) h2(4)]) auto
  with h1 h2 show "\<exists>h'. hlist_del e h = Inr h' \<and> hlist h' a (xs @ ys) \<and> hlist_unhashed e h' = Inr True \<and>
      hframe a (set (xs @ e # ys)) h h'"
    by (simp add: hlist_del_def hlist_unhashed_def load_pprev_def)
  have "hlist_unhashed e h = Inr False"
    using assms by (auto simp: hlist_def hchain_append hlist_unhashed_def load_pprev_def)
  then show "hlist_del_init e h = hlist_del e h"
    by (simp add: hlist_del_init_def hlist_del_def INIT_HLIST_NODE_def [abs_def])
qed

lemma hlist_add_head_hlist:
  assumes "hlist h a ps" "hnode h n" "n \<notin> set ps"
  shows "\<exists>h'. hlist_add_head n a h = Inr h' \<and> hlist h' a (n # ps) \<and> hframe a (insert n (set ps)) h h'"
proof (cases ps)
  case Nil
  let ?h = "put_pprev n (Some (HFirst a)) (put_slot (HFirst a) (Some n) (put_slot (HNext n) None h))"
  have "hlist_add_head n a h = Inr ?h"
    using assms Nil by (auto simp: hlist_add_head_def hstore hlist_def hnode_slot)
  moreover have "hlist ?h a [n]" by (simp add: hlist_def)
  moreover have "hframe a {n} h ?h" using assms by (auto simp: hframe_def hnode_slot)
  ultimately show ?thesis using Nil by auto
next
  case (Cons x xs)
  let ?h = "put_pprev n (Some (HFirst a)) (put_slot (HFirst a) (Some n)
    (put_pprev x (Some (HNext n)) (put_slot (HNext n) (Some x) h)))"
  have "hlist_add_head n a h = Inr ?h"
    using assms Cons by (auto simp: hlist_add_head_def hstore hlist_def hnode_slot)
  moreover have "hlist ?h a (n # ps)" using assms Cons by (auto simp: hlist_def)
  moreover have "hframe a (insert n (set ps)) h ?h" using assms Cons by (auto simp: hframe_def hnode_slot hlist_def)
  ultimately show ?thesis by auto
qed

lemma hlist_add_before_hlist:
  assumes "hlist h a (xs @ e # ys)" "hnode h n" "n \<notin> set (xs @ e # ys)"
  shows "\<exists>h'. hlist_add_before n e h = Inr h' \<and> hlist h' a (xs @ n # e # ys) \<and>
    hframe a (insert n (set (xs @ e # ys))) h h'"
proof -
  let ?t = "slot_after (HFirst a) xs"
  have d: "hpart h (HFirst a) xs" "slot_val h ?t = Some (Some e)" "pprev_p h e = Some (Some ?t)"
    "hchain h (HNext e) ys" "distinct (xs @ e # ys)"
    using assms by (auto simp: hlist_def hchain_append)
  have t: "?t \<notin> HNext ` set ys" using d(5) by (intro slot_after_image) auto
  have n: "slot_val h (HNext n) \<noteq> None" "pprev_p h n \<noteq> None" using assms(2) by (auto simp: hnode_slot)
  let ?h = "put_slot ?t (Some n) (put_pprev e (Some (HNext n)) (put_slot (HNext n) (Some e) (put_pprev n (Some ?t) h)))"
  have "hlist_add_before n e h = Inr ?h"
    using d assms(3) n by (auto simp: hlist_add_before_def hstore)
  moreover have "hlist ?h a (xs @ n # e # ys)"
    using d t assms(3) by (auto simp: hlist_def hchain_append)
  moreover have "hframe a (insert n (set (xs @ e # ys))) h ?h"
    using d n slot_after_in [of "HFirst a" xs] by (auto simp: hframe_def hnode_slot)
  ultimately show ?thesis by blast
qed

lemma hlist_add_after_hlist:
  assumes "hlist h a (xs @ e # ys)" "hnode h n" "n \<notin> set (xs @ e # ys)"
  shows "\<exists>h'. hlist_add_after e n h = Inr h' \<and> hlist h' a (xs @ e # n # ys) \<and>
    hframe a (insert n (set (xs @ e # ys))) h h'"
proof -
  have d: "hpart h (HFirst a) xs" "slot_val h (slot_after (HFirst a) xs) = Some (Some e)"
    "pprev_p h e = Some (Some (slot_after (HFirst a) xs))"
    "hchain h (HNext e) ys" "distinct (xs @ e # ys)"
    using assms by (auto simp: hlist_def hchain_append)
  have n: "slot_val h (HNext n) \<noteq> None" "pprev_p h n \<noteq> None" using assms(2) by (auto simp: hnode_slot)
  show ?thesis
  proof (cases ys)
    case Nil
    let ?h = "put_pprev n (Some (HNext e)) (put_slot (HNext e) (Some n) (put_slot (HNext n) None h))"
    have "hlist_add_after e n h = Inr ?h"
      using d assms(3) n Nil by (auto simp: hlist_add_after_def hstore)
    moreover have "hlist ?h a (xs @ [e, n])"
      using d assms(3) Nil by (auto simp: hlist_def hchain_append)
    moreover have "hframe a (insert n (set (xs @ [e]))) h ?h"
      using d n Nil by (auto simp: hframe_def hnode_slot)
    ultimately show ?thesis using Nil by auto
  next
    case (Cons y zs)
    let ?h = "put_pprev y (Some (HNext n)) (put_pprev n (Some (HNext e)) (put_slot (HNext e) (Some n) (put_slot (HNext n) (Some y) h)))"
    have "hlist_add_after e n h = Inr ?h"
      using d assms(3) n Cons by (auto simp: hlist_add_after_def hstore)
    moreover have "hlist ?h a (xs @ e # n # ys)"
      using d assms(3) Cons by (auto simp: hlist_def hchain_append)
    moreover have "hframe a (insert n (set (xs @ e # ys))) h ?h"
      using d n Cons by (auto simp: hframe_def hnode_slot)
    ultimately show ?thesis by auto
  qed
qed

lemma hlist_move_list_hlist:
  assumes "hlist h a ps" "slot_val h (HFirst b) \<noteq> None" "a \<noteq> b"
  shows "\<exists>h'. hlist_move_list a b h = Inr h' \<and> hlist h' a [] \<and> hlist h' b ps \<and> (\<forall>p. hnode h' p = hnode h p)"
proof (cases ps)
  case Nil
  let ?h = "put_slot (HFirst a) None (put_slot (HFirst b) None h)"
  have "hlist_move_list a b h = Inr ?h"
    using assms Nil by (auto simp: hlist_move_list_def hstore hlist_def)
  with Nil show ?thesis using assms(3) by (auto simp: hlist_def hnode_slot)
next
  case (Cons x xs)
  let ?h = "put_slot (HFirst a) None (put_pprev x (Some (HFirst b)) (put_slot (HFirst b) (Some x) h))"
  have "hlist_move_list a b h = Inr ?h"
    using assms Cons by (auto simp: hlist_move_list_def hstore hlist_def)
  moreover have "hlist ?h a []" "hlist ?h b ps" using assms Cons by (auto simp: hlist_def)
  moreover have "\<forall>p. hnode ?h p = hnode h p" using assms Cons by (auto simp: hnode_slot hlist_def)
  ultimately show ?thesis by blast
qed

text \<open>After \<^verbatim>\<open>hlist_add_fake\<close> a node on no list can be deleted.\<close>

lemma hlist_add_fake_del:
  assumes "slot_val h (HNext n) = Some None" "pprev_p h n \<noteq> None"
  shows "\<exists>h'. bind_res (hlist_add_fake n h) (hlist_del_init n) = Inr h' \<and> hlist_unhashed n h' = Inr True \<and>
    (\<forall>a ps. hlist h a ps \<longrightarrow> n \<notin> set ps \<longrightarrow> hlist h' a ps)"
proof -
  let ?h = "put_pprev n None (put_slot (HNext n) None (put_slot (HNext n) None (put_pprev n (Some (HNext n)) h)))"
  have "bind_res (hlist_add_fake n h) (hlist_del_init n) = Inr ?h"
    using assms by (auto simp: hlist_add_fake_def hlist_del_init_def hlist_unhashed_def hlist_unlink_def
      INIT_HLIST_NODE_def hstore)
  moreover have "hlist_unhashed n ?h = Inr True" by (simp add: hlist_unhashed_def load_pprev_def)
  moreover have "hlist ?h a ps" if "hlist h a ps" "n \<notin> set ps" for a ps using that by (simp add: hlist_def)
  ultimately show ?thesis by blast
qed

section \<open>Two lists\<close>

datatype hlist_op =
    H_add_head ptr | H_add_before ptr ptr | H_add_after ptr ptr | H_del ptr | H_del_init ptr | H_move_list

text \<open>Operations on the list with the head \<open>a\<close>; the whole list can be moved to the head \<open>b\<close>.\<close>

fun hlist_step :: "ptr \<Rightarrow> ptr \<Rightarrow> hlist_op \<Rightarrow> hlist_heap \<Rightarrow> hlist_heap res" where
  "hlist_step a b (H_add_head n) = hlist_add_head n a"
| "hlist_step a b (H_add_before n e) = hlist_add_before n e"
| "hlist_step a b (H_add_after e n) = hlist_add_after e n"
| "hlist_step a b (H_del e) = hlist_del e"
| "hlist_step a b (H_del_init e) = hlist_del_init e"
| "hlist_step a b H_move_list = hlist_move_list a b"

fun hlist_spec :: "ptr set \<Rightarrow> hlist_op \<Rightarrow> ptr list \<times> ptr list \<Rightarrow> (ptr list \<times> ptr list) option" where
  "hlist_spec N (H_add_head n) (ps, qs) = (if n \<in> N - set ps - set qs then Some (n # ps, qs) else None)"
| "hlist_spec N (H_add_before n e) (ps, qs) =
     (if n \<in> N - set ps - set qs \<and> e \<in> set ps then Some (before e ps @ n # e # after e ps, qs) else None)"
| "hlist_spec N (H_add_after e n) (ps, qs) =
     (if n \<in> N - set ps - set qs \<and> e \<in> set ps then Some (before e ps @ e # n # after e ps, qs) else None)"
| "hlist_spec N (H_del e) (ps, qs) = (if e \<in> set ps then Some (before e ps @ after e ps, qs) else None)"
| "hlist_spec N (H_del_init e) (ps, qs) = (if e \<in> set ps then Some (before e ps @ after e ps, qs) else None)"
| "hlist_spec N H_move_list (ps, qs) = Some ([], ps)"

definition hlists_rep :: "ptr \<Rightarrow> ptr \<Rightarrow> ptr set \<Rightarrow> hlist_heap \<Rightarrow> ptr list \<times> ptr list \<Rightarrow> bool" where
  "hlists_rep a b N h sqs \<longleftrightarrow> (case sqs of (ps, qs) \<Rightarrow>
     hlist h a ps \<and> hlist h b qs \<and> a \<noteq> b \<and> set ps \<subseteq> N \<and> set qs \<subseteq> N \<and> set ps \<inter> set qs = {} \<and>
     (\<forall>p\<in>N. hnode h p))"

lemma hlists_rep_first:
  assumes "hlists_rep a b N h (ps, qs)" "hlist h' a ps'" "hframe a S h h'" "S \<subseteq> N - set qs" "set ps' \<subseteq> S"
  shows "hlists_rep a b N h' (ps', qs)"
proof -
  have "hlist h' b qs"
    by (rule hlist_frame [OF _ assms(3)]) (use assms(1,4) in \<open>auto simp: hlists_rep_def\<close>)
  then show ?thesis using assms hframe_node [OF assms(3)] by (auto simp: hlists_rep_def)
qed

lemma hlist_step_sim:
  assumes rep: "hlists_rep a b N h sqs" and spec: "hlist_spec N op sqs = Some sqs'"
  shows "\<exists>h'. hlist_step a b op h = Inr h' \<and> hlists_rep a b N h' sqs'"
proof -
  obtain ps qs where l: "sqs = (ps, qs)" by (cases sqs)
  note r = rep [unfolded l]
  have d: "hlist h a ps" "hlist h b qs" and ab: "a \<noteq> b" and sub: "set ps \<subseteq> N" "set qs \<subseteq> N"
    and disj: "set ps \<inter> set qs = {}" and nd: "\<And>p. p \<in> N \<Longrightarrow> hnode h p"
    using r by (auto simp: hlists_rep_def)
  have del: "\<exists>h'. hlist_del e h = Inr h' \<and> hlist_del_init e h = Inr h' \<and>
      hlists_rep a b N h' (before e ps @ after e ps, qs)" if e: "e \<in> set ps" for e
  proof -
    have d': "hlist h a (before e ps @ e # after e ps)" and s: "set ps = set (before e ps @ e # after e ps)"
      using d(1) before_after [OF e] by simp_all
    obtain h' where h': "hlist_del e h = Inr h'" "hlist h' a (before e ps @ after e ps)"
      "hframe a (set (before e ps @ e # after e ps)) h h'"
      using hlist_del_hlist(1) [OF d'] by blast
    have "hlists_rep a b N h' (before e ps @ after e ps, qs)"
      using s sub disj by (intro hlists_rep_first [OF r h'(2,3)]) auto
    with h'(1) hlist_del_hlist(2) [OF d'] show ?thesis by simp
  qed
  show ?thesis
  proof (cases op)
    case (H_add_head n)
    then have n: "n \<in> N - set ps - set qs" "sqs' = (n # ps, qs)" using spec l by (auto split: if_splits)
    then obtain h' where h': "hlist_add_head n a h = Inr h'" "hlist h' a (n # ps)" "hframe a (insert n (set ps)) h h'"
      using hlist_add_head_hlist [OF d(1) nd] by blast
    have "hlists_rep a b N h' (n # ps, qs)"
      using n(1) sub disj by (intro hlists_rep_first [OF r h'(2,3)]) auto
    with h'(1) n(2) H_add_head show ?thesis by simp
  next
    case (H_add_before n e)
    then have n: "n \<in> N - set ps - set qs" "e \<in> set ps" "sqs' = (before e ps @ n # e # after e ps, qs)"
      using spec l by (auto split: if_splits)
    have d': "hlist h a (before e ps @ e # after e ps)" and s: "set ps = set (before e ps @ e # after e ps)"
      using d(1) before_after [OF n(2)] by simp_all
    obtain h' where h': "hlist_add_before n e h = Inr h'" "hlist h' a (before e ps @ n # e # after e ps)"
      "hframe a (insert n (set (before e ps @ e # after e ps))) h h'"
      using hlist_add_before_hlist [OF d' nd] n(1) s by auto
    have "hlists_rep a b N h' (before e ps @ n # e # after e ps, qs)"
      using n(1) s sub disj by (intro hlists_rep_first [OF r h'(2,3)]) auto
    with h'(1) n(3) H_add_before show ?thesis by simp
  next
    case (H_add_after e n)
    then have n: "n \<in> N - set ps - set qs" "e \<in> set ps" "sqs' = (before e ps @ e # n # after e ps, qs)"
      using spec l by (auto split: if_splits)
    have d': "hlist h a (before e ps @ e # after e ps)" and s: "set ps = set (before e ps @ e # after e ps)"
      using d(1) before_after [OF n(2)] by simp_all
    obtain h' where h': "hlist_add_after e n h = Inr h'" "hlist h' a (before e ps @ e # n # after e ps)"
      "hframe a (insert n (set (before e ps @ e # after e ps))) h h'"
      using hlist_add_after_hlist [OF d' nd] n(1) s by auto
    have "hlists_rep a b N h' (before e ps @ e # n # after e ps, qs)"
      using n(1) s sub disj by (intro hlists_rep_first [OF r h'(2,3)]) auto
    with h'(1) n(3) H_add_after show ?thesis by simp
  next
    case (H_del e)
    then show ?thesis using spec l del [of e] by (auto split: if_splits)
  next
    case (H_del_init e)
    then show ?thesis using spec l del [of e] by (auto split: if_splits)
  next
    case H_move_list
    have "slot_val h (HFirst b) \<noteq> None" using d(2) hchain_slot [of h "HFirst b" qs] by (simp add: hlist_def)
    then obtain h' where "hlist_move_list a b h = Inr h'" "hlist h' a []" "hlist h' b ps" "\<forall>p. hnode h' p = hnode h p"
      using hlist_move_list_hlist [OF d(1) _ ab] by blast
    with H_move_list spec l ab sub nd show ?thesis by (auto simp: hlists_rep_def)
  qed
qed

interpretation two_hlists: simulation "hlists_rep a b N" "hlist_step a b" "hlist_spec N" for a b N
  by unfold_locales (rule hlist_step_sim)

text \<open>
  C25. The lists with a single pointer head are sequences: any sequence of additions at the front,
  before or after an entry, of deletions and of moves of the whole list to another head runs
  without a fault, and both lists hold the entries that the same operations on two sequences give,
  every entry pointing back at the field that points to it.
\<close>

theorem hlist_operations_refine:
  assumes "hlists_rep a b N h sqs" "run_spec (hlist_spec N) ops sqs = Some sqs'"
  shows "\<exists>h'. run_steps (hlist_step a b) ops h = Inr h' \<and> hlists_rep a b N h' sqs'"
  by (rule two_hlists.run_sim [OF assms])

definition ex_hlists :: hlist_heap where
  "ex_hlists = \<lparr>first_p = [1 \<mapsto> None, 2 \<mapsto> None],
     hnext_p = (\<lambda>p. if p \<in> {10, 11, 12} then Some None else None),
     pprev_p = (\<lambda>p. if p \<in> {10, 11, 12} then Some None else None)\<rparr>"

theorem hlist_operations_refine_witness:
  "\<exists>h'. run_steps (hlist_step 1 2) [H_add_head 10, H_add_before 11 10, H_add_after 11 12, H_del 11, H_move_list, H_add_head 11]
       ex_hlists = Inr h' \<and>
     hlists_rep 1 2 {10, 11, 12} h' ([11], [12, 10])"
proof (rule hlist_operations_refine)
  show "hlists_rep 1 2 {10, 11, 12} ex_hlists ([], [])"
    by (simp add: hlists_rep_def ex_hlists_def hlist_def hnode_def slot_val.simps)
qed (simp add: before_def after_def)

section \<open>Loops\<close>

text \<open>The cursor is null at the end. The safe form reads the next node before the body runs.\<close>

partial_function (option) hfor_each_from ::
  "('s \<Rightarrow> hlist_heap) \<Rightarrow> (ptr \<Rightarrow> 's \<Rightarrow> 's res) \<Rightarrow> ptr option \<Rightarrow> 's \<Rightarrow> 's res option" where
  "hfor_each_from hp body pos s =
     (case pos of None \<Rightarrow> Some (Inr s)
      | Some p \<Rightarrow> (case body p s of
          Inl e \<Rightarrow> Some (Inl e)
        | Inr s \<Rightarrow> (case load_slot (HNext p) (hp s) of
              Inl e \<Rightarrow> Some (Inl e)
            | Inr pos \<Rightarrow> hfor_each_from hp body pos s)))"

partial_function (option) hfor_each_safe_from ::
  "('s \<Rightarrow> hlist_heap) \<Rightarrow> (ptr \<Rightarrow> 's \<Rightarrow> 's res) \<Rightarrow> ptr option \<Rightarrow> 's \<Rightarrow> 's res option" where
  "hfor_each_safe_from hp body pos s =
     (case pos of None \<Rightarrow> Some (Inr s)
      | Some p \<Rightarrow> (case load_slot (HNext p) (hp s) of
            Inl e \<Rightarrow> Some (Inl e)
          | Inr n \<Rightarrow> (case body p s of
              Inl e \<Rightarrow> Some (Inl e)
            | Inr s \<Rightarrow> hfor_each_safe_from hp body n s)))"

definition hlist_for_each :: "('s \<Rightarrow> hlist_heap) \<Rightarrow> (ptr \<Rightarrow> 's \<Rightarrow> 's res) \<Rightarrow> ptr \<Rightarrow> 's \<Rightarrow> 's res option" where
  "hlist_for_each hp body a s = bind_ro (Some (load_slot (HFirst a) (hp s))) (\<lambda>pos. hfor_each_from hp body pos s)"

definition hlist_for_each_safe :: "('s \<Rightarrow> hlist_heap) \<Rightarrow> (ptr \<Rightarrow> 's \<Rightarrow> 's res) \<Rightarrow> ptr \<Rightarrow> 's \<Rightarrow> 's res option" where
  "hlist_for_each_safe hp body a s = bind_ro (Some (load_slot (HFirst a) (hp s))) (\<lambda>pos. hfor_each_safe_from hp body pos s)"

definition hlist_for_each_entry :: "nat \<Rightarrow> ('s \<Rightarrow> hlist_heap) \<Rightarrow> (ptr \<Rightarrow> 's \<Rightarrow> 's res) \<Rightarrow> ptr \<Rightarrow> 's \<Rightarrow> 's res option" where
  "hlist_for_each_entry off hp body a s = hlist_for_each hp (\<lambda>p. body (container_of p off)) a s"

definition hlist_for_each_entry_continue :: "nat \<Rightarrow> ('s \<Rightarrow> hlist_heap) \<Rightarrow> (ptr \<Rightarrow> 's \<Rightarrow> 's res) \<Rightarrow> ptr \<Rightarrow> 's \<Rightarrow> 's res option" where
  "hlist_for_each_entry_continue off hp body p s =
     bind_ro (Some (load_slot (HNext p) (hp s))) (\<lambda>pos. hfor_each_from hp (\<lambda>p. body (container_of p off)) pos s)"

definition hlist_for_each_entry_from :: "nat \<Rightarrow> ('s \<Rightarrow> hlist_heap) \<Rightarrow> (ptr \<Rightarrow> 's \<Rightarrow> 's res) \<Rightarrow> ptr option \<Rightarrow> 's \<Rightarrow> 's res option" where
  "hlist_for_each_entry_from off hp body pos s = hfor_each_from hp (\<lambda>p. body (container_of p off)) pos s"

definition hlist_for_each_entry_safe :: "nat \<Rightarrow> ('s \<Rightarrow> hlist_heap) \<Rightarrow> (ptr \<Rightarrow> 's \<Rightarrow> 's res) \<Rightarrow> ptr \<Rightarrow> 's \<Rightarrow> 's res option" where
  "hlist_for_each_entry_safe off hp body a s = hlist_for_each_safe hp (\<lambda>p. body (container_of p off)) a s"

lemma hfor_each_from_chain:
  assumes "\<And>p s s'. body p s = Inr s' \<Longrightarrow> hp s' = hp s"
  shows "hchain (hp s) t ps \<Longrightarrow> slot_val (hp s) t = Some pos \<Longrightarrow>
    hfor_each_from hp body pos s = Some (each_res body ps s)"
proof (induction ps arbitrary: t pos s)
  case Nil
  then show ?case by (simp add: hfor_each_from.simps)
next
  case (Cons p ps)
  then have pos: "pos = Some p" and c: "hchain (hp s) (HNext p) ps" by simp_all
  obtain v where v: "slot_val (hp s) (HNext p) = Some v" using hchain_slot [OF c] by simp
  show ?case
  proof (cases "body p s")
    case (Inl e)
    then show ?thesis using pos by (simp add: hfor_each_from.simps)
  next
    case (Inr s')
    with Cons.IH [of s' "HNext p" v] assms [OF Inr] c v pos show ?thesis
      by (subst hfor_each_from.simps) (simp add: load_slot_def)
  qed
qed

lemma hfor_each_safe_from_inv:
  assumes I: "\<And>ps s. I ps s \<Longrightarrow> hlist (hp s) a ps"
    and step: "\<And>p ps s s'. I (p # ps) s \<Longrightarrow> body p s = Inr s' \<Longrightarrow> I ps s'"
  shows "I ps s \<Longrightarrow> hfor_each_safe_from hp body (case ps of [] \<Rightarrow> None | p # _ \<Rightarrow> Some p) s = Some (each_res body ps s)"
proof (induction ps arbitrary: s)
  case Nil
  then show ?case by (simp add: hfor_each_safe_from.simps)
next
  case (Cons p ps)
  have "hchain (hp s) (HNext p) ps" using I [OF Cons.prems] by (simp add: hlist_def)
  then have v: "slot_val (hp s) (HNext p) = Some (case ps of [] \<Rightarrow> None | p # _ \<Rightarrow> Some p)" by (rule hchain_slot)
  show ?case
  proof (cases "body p s")
    case (Inl e)
    then show ?thesis using v by (simp add: hfor_each_safe_from.simps [of _ _ "Some p"] load_slot_def)
  next
    case (Inr s')
    with Cons.IH [OF step [OF Cons.prems Inr]] v show ?thesis
      by (simp add: hfor_each_safe_from.simps [of _ _ "Some p"] load_slot_def)
  qed
qed

text \<open>A walk visits the nodes in order; the safe walk may delete each node it visits.\<close>

lemma hlist_for_each_hlist:
  assumes "\<And>p s s'. body p s = Inr s' \<Longrightarrow> hp s' = hp s" "hlist (hp s) a ps"
  shows "hlist_for_each hp body a s = Some (each_res body ps s)"
proof -
  have c: "hchain (hp s) (HFirst a) ps" using assms(2) by (simp add: hlist_def)
  then show ?thesis using hfor_each_from_chain [where body = body and hp = hp, OF assms(1) c hchain_slot [OF c]] hchain_slot [OF c]
    by (simp add: hlist_for_each_def load_slot_def)
qed

lemma hlist_drain:
  assumes "hlist h a ps"
  shows "\<exists>h'. hlist_for_each_safe (\<lambda>h. h) hlist_del a h = Some (Inr h') \<and> hlist h' a []"
proof -
  have step: "hlist h' a ps" if "hlist h a (p # ps)" "hlist_del p h = Inr h'" for h h' p ps
    using hlist_del_hlist(1) [of h a "[]" p ps] that by auto
  have "hfor_each_safe_from (\<lambda>h. h) hlist_del (case ps of [] \<Rightarrow> None | p # _ \<Rightarrow> Some p) h = Some (each_res hlist_del ps h)"
    by (rule hfor_each_safe_from_inv [where I = "\<lambda>ps h. hlist h a ps"]) (use assms step in auto)
  moreover have "\<exists>h'. each_res hlist_del ps h = Inr h' \<and> hlist h' a []" using assms
  proof (induction ps arbitrary: h)
    case (Cons p ps)
    then show ?case using hlist_del_hlist(1) [of h a "[]" p ps] by force
  qed simp
  ultimately show ?thesis using assms hchain_slot [of h "HFirst a" ps]
    by (auto simp: hlist_for_each_safe_def load_slot_def hlist_def)
qed

end
