(* ===== verification/Dllayer.thy ===== *)
theory Dllayer
  imports Msg
begin

text \<open>
  The Ethernet layer of both programs, \<^verbatim>\<open>lib/dllayer.c\<close>: the packet buffers with their
  prepared headers, sending, broadcasting and receiving. The answers of the kernel are
  arguments. The theory proves what arrives at the receiver for a frame that was sent, and
  what the receiver makes of errors and of foreign frames.
\<close>

section \<open>State\<close>

definition ETH_HLEN :: nat where "ETH_HLEN = 14"
definition ETH_INNO :: "byte list" where "ETH_INNO = [0x8d, 0x8d]"
definition DLL_PKT_MAXLEN :: nat where "DLL_PKT_MAXLEN = 512"
definition DLL_PKT_DATALEN :: nat where "DLL_PKT_DATALEN = DLL_PKT_MAXLEN - ETH_HLEN"

lemmas dll_lens = ETH_HLEN_def DLL_PKT_MAXLEN_def DLL_PKT_DATALEN_def ETH_ALEN_def

text \<open>
  The three packet buffers, and whether the receive lock is left locked. The other locks
  are released on every path.
\<close>

record dll_state =
  sdrpkt :: "byte list"
  rcvpkt :: "byte list"
  brdpkt :: "byte list"
  rcv_locked :: bool

text \<open>\<open>mem\<close> is the content of the memory from \<^verbatim>\<open>malloc(DLL_PKT_MAXLEN * 3)\<close>.\<close>

definition init_pktbuf :: "byte list \<Rightarrow> byte list \<Rightarrow> dll_state" where
  "init_pktbuf localmac mem =
     (let sdr = slice 0 DLL_PKT_MAXLEN mem;
          rcv = slice DLL_PKT_MAXLEN DLL_PKT_MAXLEN mem;
          brd = slice (2 * DLL_PKT_MAXLEN) DLL_PKT_MAXLEN mem;
          sdr = put_at 12 ETH_INNO (put_at 6 (take ETH_ALEN localmac) sdr);
          brd = put_at 6 (take ETH_ALEN localmac) brd;
          brd = put_at 12 ETH_INNO (put_at 0 (replicate ETH_ALEN 0xff) brd)
      in \<lparr>sdrpkt = sdr, rcvpkt = rcv, brdpkt = brd, rcv_locked = False\<rparr>)"

section \<open>Sending\<close>

definition dll_buildpkt :: "byte list \<Rightarrow> byte list \<Rightarrow> nat \<Rightarrow> dll_state \<Rightarrow> dll_state res" where
  "dll_buildpkt dmac data len st =
     (if \<not> len \<le> DLL_PKT_DATALEN then Inl AssertFail
      else let pkt = put_at 0 (take ETH_ALEN dmac) (sdrpkt st);
               pkt = put_at ETH_HLEN (take len data) pkt
           in Inr (st\<lparr>sdrpkt := pkt\<rparr>))"

text \<open>
  \<open>ok\<close> tells whether \<^verbatim>\<open>sendto\<close> succeeds. The result is the return value, the frame on the wire
  and the state.
\<close>

definition dll_sendpkt :: "byte list \<Rightarrow> byte list \<Rightarrow> nat \<Rightarrow> bool \<Rightarrow> dll_state \<Rightarrow>
    (int \<times> byte list option \<times> dll_state) res" where
  "dll_sendpkt dmac data len ok st =
     (if \<not> len \<le> DLL_PKT_DATALEN then Inl AssertFail
      else bind_res (dll_buildpkt dmac data len st) (\<lambda>st.
        if ok then Inr (0, Some (take (len + ETH_HLEN) (sdrpkt st)), st)
        else Inr (-1, None, st)))"

definition dll_brdcast :: "byte list \<Rightarrow> nat \<Rightarrow> bool \<Rightarrow> dll_state \<Rightarrow>
    (int \<times> byte list option \<times> dll_state) res" where
  "dll_brdcast data len ok st =
     (if \<not> len \<le> DLL_PKT_DATALEN then Inl AssertFail
      else let st = st\<lparr>brdpkt := put_at ETH_HLEN (take len data) (brdpkt st)\<rparr> in
        if ok then Inr (0, Some (take (len + ETH_HLEN) (brdpkt st)), st)
        else Inr (-1, None, st))"

section \<open>Receiving\<close>

text \<open>
  \<open>frame\<close> is the frame that \<^verbatim>\<open>recvfrom\<close> delivers, \<open>None\<close> an error: then \<^verbatim>\<open>ret\<close> is \<open>-1\<close> and the
  buffer keeps its content. \<^verbatim>\<open>ret < sizeof(struct ethhdr)\<close> compares unsigned, so that \<open>-1\<close>
  counts as large. The result is the return value, the content of \<open>data\<close> (\<open>None\<close> when it is
  not written) and the state.
\<close>

definition dll_rcv :: "nat \<Rightarrow> byte list option \<Rightarrow> dll_state \<Rightarrow>
    (int \<times> byte list option \<times> dll_state) res" where
  "dll_rcv len frame st =
     (if \<not> len \<le> DLL_PKT_DATALEN then Inl AssertFail
      else if rcv_locked st then Inl LockHeld
      else let ret = (case frame of None \<Rightarrow> -1 | Some f \<Rightarrow> int (min (length f) DLL_PKT_MAXLEN));
               pkt = (case frame of None \<Rightarrow> rcvpkt st
                      | Some f \<Rightarrow> put_at 0 (take DLL_PKT_MAXLEN f) (rcvpkt st));
               st = st\<lparr>rcvpkt := pkt\<rparr>
           in if (word_of_int ret :: 64 word) < of_nat ETH_HLEN then Inr (-1, None, st)
              else if slice 12 2 pkt \<noteq> ETH_INNO then Inr (-1, None, st\<lparr>rcv_locked := True\<rparr>)
              else Inr (if ret > int len then int len else ret, Some (slice ETH_HLEN len pkt), st))"

section \<open>The buffers\<close>

text \<open>The headers are prepared: own address and protocol, and the broadcast destination.\<close>

definition eth_header :: "byte list \<Rightarrow> byte list \<Rightarrow> byte list" where
  "eth_header dmac smac = dmac @ smac @ ETH_INNO"

definition has_header :: "byte list \<Rightarrow> byte list \<Rightarrow> byte list \<Rightarrow> bool" where
  "has_header d s pkt \<longleftrightarrow> (\<exists>r. pkt = eth_header d s @ r \<and> length r = DLL_PKT_DATALEN)"

definition dll_wf :: "byte list \<Rightarrow> dll_state \<Rightarrow> bool" where
  "dll_wf localmac st \<longleftrightarrow>
     length localmac = ETH_ALEN \<and>
     (\<exists>d. length d = ETH_ALEN \<and> has_header d localmac (sdrpkt st)) \<and>
     has_header (replicate ETH_ALEN 0xff) localmac (brdpkt st) \<and>
     length (rcvpkt st) = DLL_PKT_MAXLEN"

lemma has_headerI: "length r = DLL_PKT_DATALEN \<Longrightarrow> has_header d s (eth_header d s @ r)"
  by (auto simp: has_header_def)

lemma length_eth_header: "length d = ETH_ALEN \<Longrightarrow> length s = ETH_ALEN \<Longrightarrow> length (eth_header d s) = 14"
  by (simp add: eth_header_def ETH_ALEN_def ETH_INNO_def)

lemma put_at_append_skip:
  "length a \<le> off \<Longrightarrow> put_at off bs (a @ b) = a @ put_at (off - length a) bs b"
  by (simp add: put_at_def)

lemma put_at_0: "length bs \<le> length b \<Longrightarrow> put_at 0 bs b = bs @ drop (length bs) b"
  by (simp add: put_at_def)

lemma header_buffer:
  assumes "length pkt = DLL_PKT_MAXLEN" "length s = ETH_ALEN"
  shows "has_header (take 6 pkt) s (put_at 12 ETH_INNO (put_at 6 s pkt))" "length (take 6 pkt) = ETH_ALEN"
proof -
  have "put_at 12 ETH_INNO (put_at 6 s pkt) = eth_header (take 6 pkt) s @ drop 14 pkt"
    using assms by (simp add: put_at_def eth_header_def dll_lens ETH_INNO_def)
  with has_headerI [of "drop 14 pkt"] assms(1)
  show "has_header (take 6 pkt) s (put_at 12 ETH_INNO (put_at 6 s pkt))" "length (take 6 pkt) = ETH_ALEN"
    by (simp_all add: dll_lens)
qed

lemma dll_wf_init:
  assumes "length localmac = ETH_ALEN" "length mem = 3 * DLL_PKT_MAXLEN"
  shows "dll_wf localmac (init_pktbuf localmac mem)"
proof -
  have l: "length (slice i DLL_PKT_MAXLEN mem) = DLL_PKT_MAXLEN" if "i \<le> 2 * DLL_PKT_MAXLEN" for i
    using assms(2) that by (simp add: slice_def)
  let ?ff = "replicate ETH_ALEN (0xff :: byte)" and ?b = "slice (2 * DLL_PKT_MAXLEN) DLL_PKT_MAXLEN mem"
  have "put_at 0 ?ff (put_at 6 localmac ?b) = put_at 6 localmac (put_at 0 ?ff ?b)"
    using assms(1) l [of "2 * DLL_PKT_MAXLEN"] by (simp add: put_at_def ETH_ALEN_def dll_lens)
  moreover have "length (put_at 0 ?ff ?b) = DLL_PKT_MAXLEN" "take 6 (put_at 0 ?ff ?b) = ?ff"
    using l [of "2 * DLL_PKT_MAXLEN"] by (simp_all add: put_at_def dll_lens)
  ultimately have "has_header ?ff localmac (put_at 12 ETH_INNO (put_at 0 ?ff (put_at 6 localmac ?b)))"
    using header_buffer(1) [of "put_at 0 ?ff ?b" localmac] assms(1) by simp
  then show ?thesis
    using assms(1) header_buffer [of "slice 0 DLL_PKT_MAXLEN mem" localmac] l [of 0]
      l [of DLL_PKT_MAXLEN]
    unfolding dll_wf_def init_pktbuf_def Let_def
    by (intro conjI exI [of _ "take 6 (slice 0 DLL_PKT_MAXLEN mem)"]) simp_all
qed

lemma dll_sendpkt_eq:
  assumes wf: "dll_wf localmac st" and len: "len \<le> DLL_PKT_DATALEN" "len \<le> length data"
    and d: "length dmac = ETH_ALEN"
  shows "\<exists>st'. dll_sendpkt dmac data len ok st =
       Inr (if ok then 0 else -1, if ok then Some (eth_header dmac localmac @ take len data) else None, st') \<and>
     dll_wf localmac st' \<and> rcvpkt st' = rcvpkt st \<and> rcv_locked st' = rcv_locked st"
proof -
  obtain d0 r where b: "sdrpkt st = eth_header d0 localmac @ r" "length d0 = ETH_ALEN"
    "length r = DLL_PKT_DATALEN"
    using wf by (auto simp: dll_wf_def has_header_def)
  have m: "length localmac = ETH_ALEN" using wf by (simp add: dll_wf_def)
  have "put_at 0 dmac (sdrpkt st) = eth_header dmac localmac @ r"
    using b(2) d by (simp add: b(1) eth_header_def put_at_def)
  then have p: "put_at ETH_HLEN (take len data) (put_at 0 (take ETH_ALEN dmac) (sdrpkt st)) =
      eth_header dmac localmac @ take len data @ drop len r"
    using d m len b(3) by (simp add: put_at_append_skip length_eth_header ETH_HLEN_def put_at_0)
  let ?st = "st\<lparr>sdrpkt := eth_header dmac localmac @ take len data @ drop len r\<rparr>"
  have "dll_wf localmac ?st"
    using wf d b(3) len has_headerI [of "take len data @ drop len r"] by (auto simp: dll_wf_def)
  then show ?thesis
    using len d m
    by (intro exI [of _ ?st])
      (unfold dll_sendpkt_def dll_buildpkt_def Let_def p, simp add: ETH_HLEN_def length_eth_header)
qed

lemma dll_brdcast_eq:
  assumes wf: "dll_wf localmac st" and len: "len \<le> DLL_PKT_DATALEN" "len \<le> length data"
  shows "\<exists>st'. dll_brdcast data len True st =
       Inr (0, Some (eth_header (replicate ETH_ALEN 0xff) localmac @ take len data), st') \<and>
     dll_wf localmac st'"
proof -
  let ?h = "eth_header (replicate ETH_ALEN 0xff) localmac"
  obtain r where b: "brdpkt st = ?h @ r" "length r = DLL_PKT_DATALEN"
    using wf by (auto simp: dll_wf_def has_header_def)
  have h: "length ?h = 14" using wf by (simp add: length_eth_header dll_wf_def)
  have p: "put_at ETH_HLEN (take len data) (brdpkt st) = ?h @ take len data @ drop len r"
    using h len b(2) by (simp add: b(1) put_at_append_skip ETH_HLEN_def put_at_0)
  have "dll_wf localmac (st\<lparr>brdpkt := ?h @ take len data @ drop len r\<rparr>)"
    using wf b(2) len has_headerI [of "take len data @ drop len r"] by (auto simp: dll_wf_def)
  then show ?thesis
    using len h unfolding dll_brdcast_def Let_def p by (simp add: ETH_HLEN_def)
qed

lemma dll_rcv_frame:
  assumes wf: "dll_wf localmac st" "\<not> rcv_locked st" and d: "length d = ETH_ALEN" "length s = ETH_ALEN"
    and n: "length data = n" "n \<le> DLL_PKT_DATALEN"
  shows "\<exists>st'. dll_rcv DLL_PKT_DATALEN (Some (eth_header d s @ data)) st =
        Inr (int (min (n + 14) DLL_PKT_DATALEN), Some (data @ drop (14 + n) (rcvpkt st)), st') \<and>
     dll_wf localmac st' \<and> \<not> rcv_locked st'"
proof -
  let ?frame = "eth_header d s @ data"
  have m: "length (rcvpkt st) = DLL_PKT_MAXLEN" using wf(1) by (simp add: dll_wf_def)
  have h: "length (eth_header d s) = 14" using d by (simp add: length_eth_header)
  let ?pkt = "?frame @ drop (14 + n) (rcvpkt st)"
  have l: "14 + n \<le> DLL_PKT_MAXLEN" using n(2) by (simp add: dll_lens)
  have p: "put_at 0 (take DLL_PKT_MAXLEN ?frame) (rcvpkt st) = ?pkt"
    using h l n(1) m by (simp add: put_at_0)
  have "slice 12 2 ?pkt = ETH_INNO"
    using d by (simp add: eth_header_def ETH_INNO_def ETH_ALEN_def slice_def)
  moreover have "slice ETH_HLEN DLL_PKT_DATALEN ?pkt = data @ drop (14 + n) (rcvpkt st)"
    using h l m n(1) by (simp add: slice_def dll_lens)
  moreover have "\<not> (word_of_int (int (14 + n)) :: 64 word) < of_nat ETH_HLEN"
    by (rule msg_len_ok) (use l in \<open>simp_all add: dll_lens\<close>)
  ultimately have "dll_rcv DLL_PKT_DATALEN (Some ?frame) st =
      Inr (int (min (n + 14) DLL_PKT_DATALEN), Some (data @ drop (14 + n) (rcvpkt st)), st\<lparr>rcvpkt := ?pkt\<rparr>)"
    using wf(2) n(1) p h l by (simp add: dll_rcv_def Let_def min_def add.commute)
  moreover have "dll_wf localmac (st\<lparr>rcvpkt := ?pkt\<rparr>)"
    using wf(1) n(1) h l m by (simp add: dll_wf_def)
  ultimately show ?thesis using wf(2) by simp
qed

section \<open>Properties\<close>

text \<open>
  C39. A frame that was sent reaches the receiver with its payload in place. The length
  returned counts the 14 bytes of the Ethernet header too, and the bytes behind the payload
  are what an earlier frame left in the receive buffer: a caller that checks the length
  accepts a packet that is up to 14 bytes short.
\<close>

theorem dll_send_receive:
  assumes "dll_wf mac1 st1" "dll_wf mac2 st2" "\<not> rcv_locked st2"
    and "len \<le> DLL_PKT_DATALEN" "length data = len" "length dmac = ETH_ALEN"
  shows "\<exists>frame st1'. dll_sendpkt dmac data len True st1 = Inr (0, Some frame, st1') \<and>
     dll_wf mac1 st1' \<and>
     (\<exists>st2'. dll_rcv DLL_PKT_DATALEN (Some frame) st2 =
        Inr (int (min (len + 14) DLL_PKT_DATALEN),
             Some (data @ drop (14 + len) (rcvpkt st2)), st2') \<and>
        dll_wf mac2 st2' \<and> \<not> rcv_locked st2')"
proof -
  have m: "length mac1 = ETH_ALEN" using assms(1) by (simp add: dll_wf_def)
  obtain st1' where "dll_sendpkt dmac data len True st1 = Inr (0, Some (eth_header dmac mac1 @ data), st1')"
    "dll_wf mac1 st1'"
    using dll_sendpkt_eq [OF assms(1,4), of data dmac True] assms(5,6) by auto
  with dll_rcv_frame [OF assms(2,3,6) m assms(5,4)] show ?thesis by blast
qed

theorem dll_send_receive_witness:
  "\<exists>frame st1' st2'.
     dll_sendpkt [1, 2, 3, 4, 5, 6] [7, 8, 9] 3 True (init_pktbuf [0, 0, 0, 0, 0, 1] (replicate 1536 0)) =
       Inr (0, Some frame, st1') \<and>
     dll_rcv DLL_PKT_DATALEN (Some frame) (init_pktbuf [0, 0, 0, 0, 0, 2] (replicate 1536 0)) =
       Inr (17, Some (7 # 8 # 9 # replicate 495 0), st2')"
proof -
  have wf: "dll_wf m (init_pktbuf m (replicate 1536 0))" if "length m = ETH_ALEN" for m
    by (rule dll_wf_init [OF that]) (simp add: dll_lens)
  have "length [0, 0, 0, 0, 0, 1 :: byte] = ETH_ALEN" "length [0, 0, 0, 0, 0, 2 :: byte] = ETH_ALEN"
    by (simp_all add: ETH_ALEN_def)
  note wf1 = wf [OF this(1)] and wf2 = wf [OF this(2)]
  have r: "rcvpkt (init_pktbuf m (replicate 1536 0)) = replicate 512 0" for m
    by (simp add: init_pktbuf_def Let_def slice_def dll_lens)
  have "\<not> rcv_locked (init_pktbuf [0, 0, 0, 0, 0, 2] (replicate 1536 0))"
    by (simp add: init_pktbuf_def Let_def)
  from dll_send_receive [OF wf1 wf2 this, of 3 "[7, 8, 9]" "[1, 2, 3, 4, 5, 6]"]
  show ?thesis unfolding r by (auto simp: dll_lens)
qed

text \<open>
  A receive error that is met with foreign bytes in the buffer, and any frame of
  another protocol, leave the receive lock locked: the next call never returns.
\<close>

theorem dll_rcv_loses_lock:
  assumes "\<not> rcv_locked st" "length (rcvpkt st) = DLL_PKT_MAXLEN"
    and "case frame of None \<Rightarrow> slice 12 2 (rcvpkt st) \<noteq> ETH_INNO
         | Some f \<Rightarrow> 14 \<le> length f \<and> length f \<le> DLL_PKT_MAXLEN \<and> slice 12 2 f \<noteq> ETH_INNO"
  shows "\<exists>st'. dll_rcv DLL_PKT_DATALEN frame st = Inr (-1, None, st') \<and>
     (\<forall>frame'. dll_rcv DLL_PKT_DATALEN frame' st' = Inl LockHeld)"
proof (cases frame)
  case None
  then show ?thesis
    using assms by (simp add: dll_rcv_def Let_def ETH_HLEN_def)
next
  case (Some f)
  have u: "unat (of_nat n :: 64 word) = n" if "n < 2 ^ 64" for n
    using that by (simp add: unsigned_of_nat take_bit_nat_eq_self)
  have "slice 12 2 (put_at 0 (take DLL_PKT_MAXLEN f) (rcvpkt st)) = slice 12 2 f"
    using assms(3) by (simp add: Some put_at_def slice_def)
  moreover have "\<not> (of_nat (min (length f) DLL_PKT_MAXLEN) :: 64 word) < of_nat ETH_HLEN"
    using u [of "min (length f) DLL_PKT_MAXLEN"] assms(3)
    by (simp add: Some dll_lens word_less_nat_alt min_def)
  ultimately show ?thesis
    using assms by (simp add: dll_rcv_def Let_def Some)
qed

theorem dll_rcv_loses_lock_witness:
  "\<exists>st'. dll_rcv DLL_PKT_DATALEN None (init_pktbuf [0, 0, 0, 0, 0, 2] (replicate 1536 0)) = Inr (-1, None, st') \<and>
     (\<forall>frame'. dll_rcv DLL_PKT_DATALEN frame' st' = Inl LockHeld)"
proof (rule dll_rcv_loses_lock)
  have "replicate 2 (0 :: byte) \<noteq> ETH_INNO" by code_simp
  then show "case None of None \<Rightarrow>
        slice 12 2 (rcvpkt (init_pktbuf [0, 0, 0, 0, 0, 2] (replicate 1536 0))) \<noteq> ETH_INNO
      | Some f \<Rightarrow> 14 \<le> length f \<and> length f \<le> DLL_PKT_MAXLEN \<and> slice 12 2 f \<noteq> ETH_INNO"
    by (simp add: init_pktbuf_def Let_def slice_def dll_lens)
qed (simp_all add: init_pktbuf_def Let_def slice_def dll_lens)

end
