(* ===== verification/Netlayer.thy ===== *)
theory Netlayer
  imports Msg
begin

text \<open>
  The TCP layer of both programs, \<^verbatim>\<open>lib/netlayer.c\<close>: connecting, the receive loop and the
  send loop over a socket. The answers of the kernel are arguments, one for each call; a
  list that runs out stands for a call that does not return. The theory proves what the
  loops return for every sequence of answers and when the program aborts.
\<close>

definition NET_PKT_DATALEN :: nat where "NET_PKT_DATALEN = 2048"

section \<open>Receiving\<close>

text \<open>
  What happens on the socket, in the order in which it happens: bytes arrive, the peer closes the
  connection, a call is interrupted, a call finds nothing to read, or an error is pending.
\<close>

datatype recv_answer = Got "byte list" | Closed | Eintr | Eagain | Recv_err

text \<open>
  \<^verbatim>\<open>recv\<close> with the size argument \<open>n\<close>: it copies at most \<open>n\<close> of the bytes that have arrived and
  leaves the others for the next call, whatever room the caller really has. Zero is the end of the
  stream, or the answer to a size of zero while bytes wait. \<open>Inl\<close> is the number of a failed call.
\<close>

datatype recv_errno = EINTR | EAGAIN | ECONN

fun recv :: "nat \<Rightarrow> recv_answer list \<Rightarrow> ((recv_errno + byte list) \<times> recv_answer list) option" where
  "recv n [] = None"
| "recv n (Got bs # as) =
     (if bs = [] then recv n as
      else Some (Inr (take n bs), if length bs \<le> n then as else Got (drop n bs) # as))"
| "recv n (Closed # as) = Some (Inr [], Closed # as)"
| "recv n (Eintr # as) = Some (Inl EINTR, as)"
| "recv n (Eagain # as) = Some (Inl EAGAIN, as)"
| "recv n (Recv_err # as) = Some (Inl ECONN, as)"

text \<open>
  The loop of \<^verbatim>\<open>tcp_rcv\<close>: \<open>buf\<close> is the memory that the first argument of the call points to,
  \<open>off\<close> how far the pointer \<^verbatim>\<open>data\<close> has moved, \<open>n\<close> the \<^verbatim>\<open>size\<close> that is left. The kernel writes at
  the pointer, out of bounds when the memory ends there. A return value of zero meets
  \<^verbatim>\<open>assert(len != 0)\<close>. The result is \<^verbatim>\<open>recvlen\<close> and the memory afterwards.
\<close>

definition pending :: "recv_answer list \<Rightarrow> nat" where
  "pending as = sum_list (map (\<lambda>a. case a of Got bs \<Rightarrow> Suc (length bs) | _ \<Rightarrow> 1) as)"

lemma recv_pending: "recv n as = Some (r, as') \<Longrightarrow> r \<noteq> Inr [] \<Longrightarrow> pending as' < pending as"
  by (induction n as rule: recv.induct) (auto simp: pending_def split: if_splits)

function tcp_rcv_loop :: "recv_answer list \<Rightarrow> nat \<Rightarrow> nat \<Rightarrow> nat \<Rightarrow> byte list \<Rightarrow> (nat \<times> byte list) res option" where
  "tcp_rcv_loop as off n recvlen buf = (case recv n as of
      None \<Rightarrow> None
    | Some (Inr bs, as) \<Rightarrow> let len = length bs in
        if length buf < off + len then Some (Inl OutOfBounds)
        else if len > 0 then tcp_rcv_loop as (off + len) (n - len) (recvlen + len) (put_at off bs buf)
        else Some (Inl AssertFail)
    | Some (Inl e, as) \<Rightarrow> if e = EINTR then tcp_rcv_loop as off n recvlen buf else Some (Inr (recvlen, buf)))"
  by pat_completeness auto

termination
  by (relation "measure (\<lambda>(as, off, n, recvlen, buf). pending as)") (auto dest: recv_pending)

declare tcp_rcv_loop.simps [simp del]

definition tcp_rcv :: "int \<Rightarrow> byte list \<Rightarrow> nat \<Rightarrow> recv_answer list \<Rightarrow> (nat \<times> byte list) res option" where
  "tcp_rcv sock buf size_left as =
     (if sock < 0 then Some (Inl AssertFail) else tcp_rcv_loop as 0 size_left 0 buf)"

text \<open>The bytes that arrive before something else happens than an interrupt, and what that is.\<close>

fun received :: "recv_answer list \<Rightarrow> byte list" where
  "received (Got bs # as) = bs @ received as"
| "received (Eintr # as) = received as"
| "received _ = []"

fun stopped_by :: "recv_answer list \<Rightarrow> recv_answer option" where
  "stopped_by [] = None"
| "stopped_by (Got bs # as) = stopped_by as"
| "stopped_by (Eintr # as) = stopped_by as"
| "stopped_by (a # as) = Some a"

section \<open>Sending\<close>

datatype send_answer = Sent nat | Send_again | Send_err

text \<open>
  \<^verbatim>\<open>tcp_sendpkt\<close>: the call is repeated while it is interrupted or would block. The result is
  the return value and the bytes that the kernel took; a short count is not continued.
\<close>

fun tcp_send_loop :: "byte list \<Rightarrow> send_answer list \<Rightarrow> (int \<times> byte list) option" where
  "tcp_send_loop data [] = None"
| "tcp_send_loop data (Send_again # as) = tcp_send_loop data as"
| "tcp_send_loop data (Send_err # as) = Some (-1, [])"
| "tcp_send_loop data (Sent n # as) = Some (int n, take n data)"

definition tcp_sendpkt :: "int \<Rightarrow> byte list \<Rightarrow> nat \<Rightarrow> send_answer list \<Rightarrow>
    (int \<times> byte list) res option" where
  "tcp_sendpkt sock data n as =
     (if \<not> n \<le> NET_PKT_DATALEN then Some (Inl AssertFail)
      else if sock = -1 then Some (Inr (-1, []))
      else map_option Inr (tcp_send_loop (take n data) as))"

section \<open>Connecting\<close>

text \<open>
  The answers to \<^verbatim>\<open>socket\<close>, to the four calls of \<^verbatim>\<open>setsockopt\<close> and to \<^verbatim>\<open>connect\<close>. A failed
  call returns \<open>-1\<close>, which \<^verbatim>\<open>< -1\<close> does not catch.
\<close>

record connect_answers =
  c_socket :: int
  c_setsockopt :: "int list"
  c_connect :: int

definition tcp_alive :: "int list \<Rightarrow> int" where
  "tcp_alive rets = (if \<exists>r\<in>set (take 4 rets). r < -1 then -1 else 0)"

text \<open>The result: the return value, and the sockets that were opened and closed.\<close>

definition tcp_connect :: "sockaddr_in \<Rightarrow> connect_answers \<Rightarrow> int \<times> int list \<times> int list" where
  "tcp_connect addr as =
     (if s_addr addr = 0 then (-1, [], [])
      else let sock = c_socket as in
        if sock < 0 then (-1, [], [])
        else if tcp_alive (c_setsockopt as) < 0 then (-1, [sock], [sock])
        else if c_connect as < 0 then (-1, [sock], [sock])
        else (sock, [sock], []))"

text \<open>
  \<^verbatim>\<open>tcp_listen\<close>: the answers to \<^verbatim>\<open>socket\<close>, \<^verbatim>\<open>setsockopt\<close>, \<^verbatim>\<open>bind\<close> and \<^verbatim>\<open>listen\<close>. When \<^verbatim>\<open>setsockopt\<close> fails
  the socket stays open.
\<close>

record listen_answers =
  l_socket :: int
  l_setsockopt :: int
  l_bind :: int
  l_listen :: int

definition tcp_listen :: "listen_answers \<Rightarrow> int \<times> int list \<times> int list" where
  "tcp_listen as =
     (let sock = l_socket as in
      if sock < 0 then (-1, [], [])
      else if l_setsockopt as < 0 then (-1, [sock], [])
      else if l_bind as < 0 then (-1, [sock], [sock])
      else if l_listen as < 0 then (-1, [sock], [sock])
      else (sock, [sock], []))"

section \<open>The receive loop\<close>

lemma recv_stopped:
  "recv n as = Some (r, as') \<Longrightarrow> (case r of
     Inr bs \<Rightarrow> length bs \<le> n \<and> stopped_by as' = stopped_by as \<and>
       (if bs = [] then stopped_by as = Some Closed \<and> received as = [] \<or> n = 0 \<and> received as \<noteq> []
        else received as = bs @ received as')
   | Inl e \<Rightarrow> if e = EINTR then received as' = received as \<and> stopped_by as' = stopped_by as
       else received as = [] \<and> (\<exists>a. stopped_by as = Some a \<and> a \<noteq> Closed))"
  by (induction n as rule: recv.induct) (auto split: if_splits sum.splits)

lemma recv_None: "recv n as = None \<Longrightarrow> received as = [] \<and> stopped_by as = None"
  by (induction n as rule: recv.induct) (auto split: if_splits)

lemma put_at_put_at_next:
  "off + length bs \<le> length xs \<Longrightarrow> put_at (off + length bs) cs (put_at off bs xs) = put_at off (bs @ cs) xs"
  by (simp add: put_at_def ac_simps)

lemma tcp_rcv_loop_spec:
  assumes "off + n \<le> length buf"
  shows "tcp_rcv_loop as off n recvlen buf =
     (if n < length (received as) then Some (Inl AssertFail)
      else case stopped_by as of
          None \<Rightarrow> None
        | Some a \<Rightarrow> Some (if a = Closed then Inl AssertFail
            else Inr (recvlen + length (received as), put_at off (received as) buf)))"
  using assms
proof (induction as off n recvlen buf rule: tcp_rcv_loop.induct)
  case (1 as off n recvlen buf)
  show ?case
  proof (cases "recv n as")
    case None
    then show ?thesis using recv_None [OF None] by (subst tcp_rcv_loop.simps) simp
  next
    case (Some x)
    then obtain r as' where r: "recv n as = Some (r, as')" by (cases x) auto
    note st = recv_stopped [OF r]
    show ?thesis
    proof (cases r)
      case (Inl e)
      show ?thesis
      proof (cases "e = EINTR")
        case True
        have "tcp_rcv_loop as off n recvlen buf = tcp_rcv_loop as' off n recvlen buf"
          using r Inl True by (subst tcp_rcv_loop.simps) simp
        moreover have "received as' = received as" "stopped_by as' = stopped_by as" using st Inl True by simp_all
        ultimately show ?thesis using "1.IH"(1) [OF r refl Inl True "1.prems"] by (simp only:)
      next
        case False
        with r st Inl show ?thesis
          by (subst tcp_rcv_loop.simps) (auto simp: put_at_def)
      qed
    next
      case (Inr bs)
      show ?thesis
      proof (cases "bs = []")
        case True
        with r st Inr "1.prems" show ?thesis by (subst tcp_rcv_loop.simps) auto
      next
        case False
        from st Inr False have bs: "length bs \<le> n" "stopped_by as' = stopped_by as"
          "received as = bs @ received as'" by auto
        have "tcp_rcv_loop as off n recvlen buf = tcp_rcv_loop as' (off + length bs) (n - length bs)
            (recvlen + length bs) (put_at off bs buf)"
          using r Inr False bs(1) "1.prems" by (subst tcp_rcv_loop.simps) (simp add: Let_def)
        also have "\<dots> = (if n - length bs < length (received as') then Some (Inl AssertFail)
          else case stopped_by as' of None \<Rightarrow> None
            | Some a \<Rightarrow> Some (if a = Closed then Inl AssertFail
                else Inr (recvlen + length bs + length (received as'),
                  put_at (off + length bs) (received as') (put_at off bs buf))))"
          using "1.IH"(2) [OF r refl Inr refl] False bs(1) "1.prems" by (simp add: length_put_at)
        finally show ?thesis
          using bs "1.prems" by (auto simp: put_at_put_at_next less_diff_conv split: option.splits)
      qed
    qed
  qed
qed

lemma tcp_rcv_spec:
  assumes "0 \<le> sock" "n \<le> length buf"
  shows "tcp_rcv sock buf n as =
     (if n < length (received as) then Some (Inl AssertFail)
      else case stopped_by as of
          None \<Rightarrow> None
        | Some a \<Rightarrow> Some (if a = Closed then Inl AssertFail
            else Inr (length (received as), put_at 0 (received as) buf)))"
  using assms tcp_rcv_loop_spec [of 0 n buf as 0] by (simp add: tcp_rcv_def split: option.split)

lemma received_Got: "received (map Got bss @ as) = concat bss @ received as"
  by (induction bss) auto

lemma stopped_by_Got: "stopped_by (map Got bss @ as) = stopped_by as"
  by (induction bss) auto

section \<open>Properties\<close>

text \<open>
  C40. The receive loop never writes past its buffer, however the bytes arrive: called with a \<^verbatim>\<open>size\<close> that the
  memory has, it lays the bytes that arrive one after the other at its start, leaves the rest of the
  memory alone and returns their number once a call finds nothing more or fails. More bytes than \<^verbatim>\<open>size\<close>, or a
  connection that is closed, fail the assertion.
\<close>

theorem tcp_rcv_in_bounds:
  assumes "0 \<le> sock" "n \<le> length buf"
  shows "tcp_rcv sock buf n as =
     (if n < length (received as) then Some (Inl AssertFail)
      else case stopped_by as of
          None \<Rightarrow> None
        | Some a \<Rightarrow> Some (if a = Closed then Inl AssertFail
            else Inr (length (received as), received as @ drop (length (received as)) buf)))"
  using tcp_rcv_spec [OF assms, of as] by (simp add: put_at_def split: option.split)

theorem tcp_rcv_in_bounds_witness:
  "tcp_rcv 5 (replicate 8 9) 7 [Got [1, 2], Eintr, Got [3], Eagain] = Some (Inr (3, [1, 2, 3, 9, 9, 9, 9, 9])) \<and>
   tcp_rcv 5 (replicate 8 9) 7 [Got [1, 2, 3, 4], Got [5, 6, 7, 8, 9], Eagain] = Some (Inl AssertFail) \<and>
   tcp_rcv 5 (replicate 8 9) 7 [Got [1, 2, 3, 4], Closed] = Some (Inl AssertFail)"
  using tcp_rcv_in_bounds [of 5 7 "replicate 8 9" "[Got [1, 2], Eintr, Got [3], Eagain]"]
    tcp_rcv_in_bounds [of 5 7 "replicate 8 9" "[Got [1, 2, 3, 4], Got [5, 6, 7, 8, 9], Eagain]"]
    tcp_rcv_in_bounds [of 5 7 "replicate 8 9" "[Got [1, 2, 3, 4], Closed]"]
  by (simp add: numeral_eq_Suc)

text \<open>
  Packets are not framed: two packets that arrive before the loop looks again are
  returned as one sequence of bytes, of which the callers parse the first packet only.
\<close>

theorem tcp_rcv_merges_packets:
  assumes "0 \<le> sock" "length p1 + length p2 \<le> n" "n \<le> length buf"
  shows "tcp_rcv sock buf n [Got p1, Got p2, Eagain] =
    Some (Inr (length p1 + length p2, put_at 0 (p1 @ p2) buf))"
  using assms tcp_rcv_spec [OF assms(1,3), of "[Got p1, Got p2, Eagain]"] by simp

text \<open>
  A peer can stop the program: when it closes the connection after its data, or sends
  more bytes than the buffer holds, the loop calls \<^verbatim>\<open>recv\<close> once more, gets zero and fails
  its assertion. The return value zero that both callers test for is never returned for a
  closed connection.
\<close>

theorem tcp_rcv_abort:
  assumes "0 \<le> sock" "n \<le> length buf" "stopped_by as = Some Closed \<or> n < length (received as)"
  shows "tcp_rcv sock buf n as = Some (Inl AssertFail)"
  using assms(3) tcp_rcv_spec [OF assms(1,2), of as] by auto

theorem tcp_rcv_abort_witness:
  "tcp_rcv 5 [0, 0, 0, 0] 4 (map Got [[1, 2], [3, 4]] @ [Closed]) = Some (Inl AssertFail) \<and>
   tcp_rcv 5 [0, 0, 0, 0] 4 [Got [1, 2, 3, 4, 5], Eagain] = Some (Inl AssertFail)"
  using tcp_rcv_abort [of 5 4 "[0, 0, 0, 0]"] by (simp add: stopped_by_Got)

end
