(* ===== verification/Link.thy ===== *)
theory Link
  imports Slist Dllayer Netlayer
begin

text \<open>
  The event loop and the list of watched sockets, \<^verbatim>\<open>lib/link.c\<close>: \<^verbatim>\<open>insert_sockarr\<close>,
  \<^verbatim>\<open>delete_sockarr\<close> with its pointer to the previous link, the dispatch of a batch of events
  by \<^verbatim>\<open>net_recv\<close>, and \<^verbatim>\<open>net_send\<close>. The theory proves that the list and the set of sockets
  watched by epoll agree, and when the dispatch follows only live pointers.
\<close>

definition MSG_PROTO_ETH :: int where "MSG_PROTO_ETH = 8000"
definition MSG_PROTO_TCP :: int where "MSG_PROTO_TCP = 8001"

section \<open>The list of sockets\<close>

text \<open>\<open>'f\<close> are the functions a socket can be registered with.\<close>

record 'f sockarr_t =
  sa_sock :: int
  sa_func :: 'f
  retevents :: u32

text \<open>
  \<open>sa_tail\<close> and the chain are \<^verbatim>\<open>__tail\<close> and \<^verbatim>\<open>__head\<close> with the \<^verbatim>\<open>next\<close> fields, \<open>nodes\<close> the
  allocated nodes. \<open>watched\<close> is what the kernel keeps for \<^verbatim>\<open>epl\<close>: the sockets and the
  \<^verbatim>\<open>data.ptr\<close> of each; \<open>open_fds\<close> are the open descriptors.
\<close>

record 'f link_state = chain +
  sa_tail :: slot
  nodes :: "ptr \<rightharpoonup> 'f sockarr_t"
  watched :: "int \<rightharpoonup> ptr"
  open_fds :: "int set"

definition link_init :: "int set \<Rightarrow> 'f link_state" where
  "link_init fds = \<lparr>hd_ptr = None, next_of = (\<lambda>_. None), sa_tail = HeadSlot, nodes = Map.empty,
     watched = Map.empty, open_fds = fds\<rparr>"

text \<open>
  \<open>nonblock\<close> is the success of the two calls of \<^verbatim>\<open>fcntl\<close>, \<open>alloc\<close> what \<^verbatim>\<open>malloc\<close> returns.
  \<^verbatim>\<open>epoll_ctl\<close> refuses a descriptor that is not open or is watched already; then, and
  without memory, the program exits.
\<close>

definition insert_sockarr :: "int \<Rightarrow> 'f \<Rightarrow> bool \<Rightarrow> ptr option \<Rightarrow> 'f link_state \<Rightarrow>
    (ptr option \<times> 'f link_state) res" where
  "insert_sockarr sock func nonblock alloc st =
     (if \<not> nonblock then Inr (None, st)
      else case alloc of
        None \<Rightarrow> Inl ProcessExit
      | Some p \<Rightarrow>
          let st = st\<lparr>nodes := (nodes st)(p \<mapsto> \<lparr>sa_sock = sock, sa_func = func, retevents = 0\<rparr>),
                      next_of := (next_of st)(p := None)\<rparr> in
          if sock \<notin> open_fds st \<or> watched st sock \<noteq> None then Inl ProcessExit
          else let st = st\<lparr>watched := (watched st)(sock \<mapsto> p)\<rparr>;
                   st = write_slot st (sa_tail st) (Some p)
               in Inr (Some p, st\<lparr>sa_tail := NextSlot p\<rparr>))"

text \<open>\<open>clisock\<close> is the answer of \<^verbatim>\<open>accept\<close>; the new descriptor is open.\<close>

definition tcp_accept :: "int \<Rightarrow> 'f \<Rightarrow> bool \<Rightarrow> ptr option \<Rightarrow> 'f link_state \<Rightarrow> (int \<times> 'f link_state) res" where
  "tcp_accept clisock func nonblock alloc st =
     (if clisock < 0 then Inr (-1, st)
      else bind_res (insert_sockarr clisock func nonblock alloc
             (st\<lparr>open_fds := insert clisock (open_fds st)\<rparr>)) (\<lambda>(_, st). Inr (clisock, st)))"

text \<open>
  The search loop of \<^verbatim>\<open>delete_sockarr\<close>; it returns the node and the slot that points to it.
  \<open>None\<close> is a loop that does not end.
\<close>

partial_function (option) find_sockarr ::
  "'f link_state \<Rightarrow> int \<Rightarrow> ptr option \<Rightarrow> slot \<Rightarrow> (ptr \<times> slot) option res option" where
  "find_sockarr st sock cur ppre =
     (case cur of
        None \<Rightarrow> Some (Inr None)
      | Some p \<Rightarrow> (case nodes st p of
          None \<Rightarrow> Some (Inl UseAfterFree)
        | Some n \<Rightarrow> if sa_sock n = sock then Some (Inr (Some (p, ppre)))
            else find_sockarr st sock (next_of st p) (NextSlot p)))"

text \<open>\<^verbatim>\<open>close\<close> drops the descriptor, and with it its registration with epoll.\<close>

definition close_fd :: "int \<Rightarrow> 'f link_state \<Rightarrow> 'f link_state" where
  "close_fd sock st = st\<lparr>open_fds := open_fds st - {sock}, watched := (watched st)(sock := None)\<rparr>"

definition delete_sockarr :: "int \<Rightarrow> 'f link_state \<Rightarrow> 'f link_state res option" where
  "delete_sockarr sock st =
     (case find_sockarr st sock (hd_ptr st) HeadSlot of
        None \<Rightarrow> None
      | Some (Inl e) \<Rightarrow> Some (Inl e)
      | Some (Inr None) \<Rightarrow> Some (Inr st)
      | Some (Inr (Some (cur, ppre))) \<Rightarrow>
          (let st = write_slot st ppre (next_of st cur);
               st = (if NextSlot cur = sa_tail st then st\<lparr>sa_tail := ppre\<rparr> else st);
               st = st\<lparr>watched := (watched st)(sock := None)\<rparr>;
               st = close_fd sock st
           in Some (Inr (st\<lparr>nodes := (nodes st)(cur := None)\<rparr>))))"

section \<open>The event loop\<close>

text \<open>
  One batch of \<^verbatim>\<open>epoll_wait\<close>: pairs of \<^verbatim>\<open>data.ptr\<close> and events. The registered function gets
  the node; it acts on the rest of the program \<open>'w\<close> and on the sockets, and may not return.
\<close>

fun net_recv_batch :: "('f \<Rightarrow> ptr \<Rightarrow> 'w \<times> 'f link_state \<Rightarrow> ('w \<times> 'f link_state) res option) \<Rightarrow>
    (ptr \<times> u32) list \<Rightarrow> 'w \<times> 'f link_state \<Rightarrow> ('w \<times> 'f link_state) res option" where
  "net_recv_batch call [] s = Some (Inr s)"
| "net_recv_batch call ((p, ev) # evs) s =
     (case nodes (snd s) p of
        None \<Rightarrow> Some (Inl UseAfterFree)
      | Some n \<Rightarrow>
          bind_ro (call (sa_func n) p
              (fst s, (snd s)\<lparr>nodes := (nodes (snd s))(p \<mapsto> n\<lparr>retevents := ev\<rparr>)\<rparr>))
            (net_recv_batch call evs))"

text \<open>The event bits of Linux, and those that mean an error.\<close>

definition EPOLLIN :: u32 where "EPOLLIN = 1"
definition EPOLLERR :: u32 where "EPOLLERR = 8"
definition EPOLLHUP :: u32 where "EPOLLHUP = 16"
definition EPOLLRDHUP :: u32 where "EPOLLRDHUP = 8192"

definition epoll_error :: "u32 \<Rightarrow> bool" where
  "epoll_error ev \<longleftrightarrow> ev AND EPOLLRDHUP \<noteq> 0 \<or> ev AND EPOLLERR \<noteq> 0 \<or> ev AND EPOLLHUP \<noteq> 0"

section \<open>Sending\<close>

text \<open>The answers of the kernel to a send, the frame or bytes sent, and the return value.\<close>

datatype wire = Frame "byte list" | Stream int "byte list"

definition net_send :: "int \<Rightarrow> int \<Rightarrow> byte list \<Rightarrow> byte list \<Rightarrow> nat \<Rightarrow> bool \<Rightarrow> send_answer list \<Rightarrow>
    dll_state \<Rightarrow> (int \<times> wire list \<times> dll_state) res option" where
  "net_send proto sock dmac msg len eth_ok tcp_as st =
     (if proto = MSG_PROTO_ETH then
        Some (bind_res (dll_sendpkt dmac msg len eth_ok st) (\<lambda>(r, f, st).
          Inr (r, (case f of None \<Rightarrow> [] | Some fr \<Rightarrow> [Frame fr]), st)))
      else if proto = MSG_PROTO_TCP then
        (if sock < 0 then Some (Inr (-1, [], st))
         else case tcp_sendpkt sock msg len tcp_as of
           None \<Rightarrow> None
         | Some (Inl e) \<Rightarrow> Some (Inl e)
         | Some (Inr (r, bs)) \<Rightarrow> Some (Inr (r, if bs = [] then [] else [Stream sock bs], st)))
      else Some (Inr (-1, [], st)))"

section \<open>The list and epoll agree\<close>

definition sock_of :: "'f link_state \<Rightarrow> ptr \<Rightarrow> int" where
  "sock_of st p = sa_sock (the (nodes st p))"

definition link_inv :: "'f link_state \<Rightarrow> ptr list \<Rightarrow> bool" where
  "link_inv st ps \<longleftrightarrow>
     chain_rel st (sa_tail st) ps \<and> dom (nodes st) = set ps \<and>
     distinct (map (sock_of st) ps) \<and>
     (\<forall>s p. watched st s = Some p \<longleftrightarrow> p \<in> set ps \<and> sock_of st p = s) \<and>
     sock_of st ` set ps \<subseteq> open_fds st"

lemma link_inv_init: "link_inv (link_init fds) []"
  by (simp add: link_inv_def link_init_def chain_rel_def)

lemma write_slot_link [simp]:
  "sa_tail (write_slot st t v) = sa_tail st" "nodes (write_slot st t v) = nodes st"
  "watched (write_slot st t v) = watched st" "open_fds (write_slot st t v) = open_fds st"
  by (cases t; simp)+

lemma chain_rel_fields [simp]:
  "chain_rel (c\<lparr>sa_tail := t, watched := w\<rparr>) t' ps = chain_rel c t' ps"
  "chain_rel (st\<lparr>nodes := n\<rparr>) t' ps = chain_rel st t' ps"
  "chain_rel (st\<lparr>watched := w\<rparr>) t' ps = chain_rel st t' ps"
  "chain_rel (st\<lparr>open_fds := x\<rparr>) t' ps = chain_rel st t' ps"
  "chain_rel (st\<lparr>sa_tail := t\<rparr>) t' ps = chain_rel st t' ps"
  by (simp_all add: chain_rel_def)

lemma link_inv_node: "link_inv st ps \<Longrightarrow> p \<in> set ps \<Longrightarrow> \<exists>n. nodes st p = Some n"
  by (auto simp: link_inv_def dom_def)

lemma link_inv_watched: "link_inv st ps \<Longrightarrow> p \<in> set ps \<Longrightarrow> watched st (sock_of st p) = Some p"
  by (auto simp: link_inv_def)

lemma link_inv_unwatched: "link_inv st ps \<Longrightarrow> watched st sock = None \<Longrightarrow> sock \<notin> sock_of st ` set ps"
  using link_inv_watched by fastforce

lemma link_inv_closed:
  assumes "link_inv st ps" "k \<notin> open_fds st"
  shows "watched st k = None"
proof (cases "watched st k")
  case (Some p)
  then have "p \<in> set ps" "sock_of st p = k" "sock_of st ` set ps \<subseteq> open_fds st"
    using assms(1) by (auto simp: link_inv_def)
  then show ?thesis using assms(2) by blast
qed simp

lemma insert_sockarr_inv:
  fixes st :: "'f link_state"
  assumes inv: "link_inv st ps" and p: "nodes st p = None"
    and s: "sock \<in> open_fds st" "watched st sock = None"
  shows "\<exists>st'. insert_sockarr sock f True (Some p) st = Inr (Some p, st') \<and>
     link_inv st' (ps @ [p]) \<and> sock_of st' = (sock_of st)(p := sock) \<and>
     watched st' = (watched st)(sock \<mapsto> p) \<and> open_fds st' = open_fds st"
proof -
  let ?n = "\<lparr>sa_sock = sock, sa_func = f, retevents = 0\<rparr>"
  let ?st = "st\<lparr>nodes := (nodes st)(p \<mapsto> ?n), next_of := (next_of st)(p := None),
      watched := (watched st)(sock \<mapsto> p)\<rparr>"
  let ?st' = "(write_slot ?st (sa_tail st) (Some p))\<lparr>sa_tail := NextSlot p\<rparr>"
  have np: "p \<notin> set ps" using inv p by (auto simp: link_inv_def)
  have "chain_rel (write_slot (st\<lparr>next_of := (next_of st)(p := None)\<rparr>) (sa_tail st) (Some p))
      (NextSlot p) (ps @ [p])"
    using inv np by (intro chain_rel_append) (simp_all add: link_inv_def)
  then have c: "chain_rel ?st' (NextSlot p) (ps @ [p])"
    by (cases "sa_tail st") (simp_all add: chain_rel_def)
  have so: "sock_of ?st' = (sock_of st)(p := sock)"
    by (auto simp: sock_of_def)
  have m: "map (sock_of ?st') ps = map (sock_of st) ps"
    unfolding so using np by auto
  have ns: "sock \<notin> sock_of st ` set ps"
    using link_inv_unwatched [OF inv s(2)] .
  have "link_inv ?st' (ps @ [p])"
    unfolding link_inv_def map_append m so
    using inv c np s ns by (auto simp: link_inv_def)
  moreover have "insert_sockarr sock f True (Some p) st = Inr (Some p, ?st')"
    using s by (simp add: insert_sockarr_def Let_def)
  ultimately show ?thesis using so by (intro exI [of _ ?st']) simp
qed


lemma find_sockarr_hit:
  "link_inv st (xs @ ys @ p # zs) \<Longrightarrow> sock_of st p = sock \<Longrightarrow>
   find_sockarr st sock (read_slot st (end_slot xs)) (end_slot xs) = Some (Inr (Some (p, end_slot (xs @ ys))))"
proof (induction ys arbitrary: xs)
  case Nil
  have "read_slot st (end_slot xs) = Some p"
    using Nil chain_rel_at [of st "sa_tail st" xs p zs] by (simp add: link_inv_def)
  moreover obtain n where "nodes st p = Some n"
    using link_inv_node [OF Nil.prems(1), of p] by auto
  ultimately show ?case using Nil.prems(2) by (simp add: find_sockarr.simps sock_of_def)
next
  case (Cons q ys)
  have r: "read_slot st (end_slot xs) = Some q"
    using Cons.prems(1) chain_rel_at [of st "sa_tail st" xs q "ys @ p # zs"] by (simp add: link_inv_def)
  obtain n where n: "nodes st q = Some n" using link_inv_node [OF Cons.prems(1), of q] by auto
  have "sock_of st q \<noteq> sock" using Cons.prems by (auto simp: link_inv_def)
  moreover have "find_sockarr st sock (read_slot st (end_slot (xs @ [q]))) (end_slot (xs @ [q])) =
      Some (Inr (Some (p, end_slot ((xs @ [q]) @ ys))))"
    using Cons.prems by (intro Cons.IH) simp_all
  ultimately show ?case
    using r n by (subst find_sockarr.simps) (simp add: sock_of_def)
qed

lemma find_sockarr_miss:
  "link_inv st (xs @ ys) \<Longrightarrow> sock \<notin> sock_of st ` set ys \<Longrightarrow>
   find_sockarr st sock (read_slot st (end_slot xs)) (end_slot xs) = Some (Inr None)"
proof (induction ys arbitrary: xs)
  case Nil
  have "read_slot st (end_slot xs) = None"
  proof (cases xs rule: rev_cases)
    case Nil
    then show ?thesis using \<open>link_inv st (xs @ [])\<close> by (simp add: link_inv_def chain_rel_def)
  next
    case (snoc xs' x)
    then show ?thesis
      using \<open>link_inv st (xs @ [])\<close> path_at [of "next_of st" "hd_ptr st" xs' x "[]"]
      by (simp add: link_inv_def chain_rel_def)
  qed
  then show ?case by (simp add: find_sockarr.simps)
next
  case (Cons q ys)
  have r: "read_slot st (end_slot xs) = Some q"
    using Cons.prems(1) chain_rel_at [of st "sa_tail st" xs q ys] by (simp add: link_inv_def)
  obtain n where n: "nodes st q = Some n" using link_inv_node [OF Cons.prems(1), of q] by auto
  have "find_sockarr st sock (read_slot st (end_slot (xs @ [q]))) (end_slot (xs @ [q])) = Some (Inr None)"
    using Cons.prems by (intro Cons.IH) simp_all
  then show ?case
    using Cons.prems(2) r n by (subst find_sockarr.simps) (simp add: sock_of_def)
qed

lemma delete_sockarr_hit:
  assumes inv: "link_inv st (xs @ p # ys)" and s: "sock_of st p = sock"
  shows "\<exists>st'. delete_sockarr sock st = Some (Inr st') \<and> link_inv st' (xs @ ys) \<and>
     nodes st' = (nodes st)(p := None) \<and> watched st' = (watched st)(sock := None) \<and>
     open_fds st' = open_fds st - {sock}"
proof -
  have f: "find_sockarr st sock (hd_ptr st) HeadSlot = Some (Inr (Some (p, end_slot xs)))"
    using find_sockarr_hit [of st "[]" xs p ys sock] inv s by simp
  let ?w = "write_slot st (end_slot xs) (next_of st p)"
  let ?t = "if NextSlot p = sa_tail st then end_slot xs else sa_tail st"
  let ?st = "(if NextSlot p = sa_tail st then ?w\<lparr>sa_tail := end_slot xs\<rparr> else ?w)"
  let ?st' = "(close_fd sock (?st\<lparr>watched := (watched ?st)(sock := None)\<rparr>))"
  let ?fin = "?st'\<lparr>nodes := (nodes ?st')(p := None)\<rparr>"
  have d: "delete_sockarr sock st = Some (Inr ?fin)"
    by (simp add: delete_sockarr_def f Let_def)
  have c: "chain_rel ?w ?t (xs @ ys)"
    using inv chain_rel_unlink [of st "sa_tail st" xs p ys]
    by (auto simp: link_inv_def split: if_splits)
  have fields: "sa_tail ?fin = ?t" "nodes ?fin = (nodes st)(p := None)"
    "watched ?fin = (watched st)(sock := None)" "open_fds ?fin = open_fds st - {sock}"
    by (simp_all add: close_fd_def)
  have c': "chain_rel ?fin ?t (xs @ ys)" using c by (auto simp: chain_rel_def close_fd_def)
  have dist: "distinct (xs @ p # ys)" using inv by (simp add: link_inv_def chain_rel_def)
  have so: "sock_of ?fin q = sock_of st q" if "q \<noteq> p" for q
    unfolding sock_of_def fields using that by simp
  have m: "map (sock_of ?fin) (xs @ ys) = map (sock_of st) (xs @ ys)"
    using dist by (intro map_cong refl so) auto
  have im: "sock_of ?fin ` set (xs @ ys) = sock_of st ` set (xs @ ys)"
    using arg_cong [OF m, of set] by (simp only: set_map)
  have ns: "sock \<notin> sock_of st ` set (xs @ ys)"
    using inv s by (auto simp: link_inv_def)
  have "link_inv ?fin (xs @ ys)"
    unfolding link_inv_def m im fields
  proof (intro conjI allI)
    show "chain_rel ?fin ?t (xs @ ys)" by (rule c')
    show "dom ((nodes st)(p := None)) = set (xs @ ys)"
      using inv dist by (auto simp: link_inv_def)
    show "distinct (map (sock_of st) (xs @ ys))" using inv by (simp add: link_inv_def)
    show "(((watched st)(sock := None)) s' = Some q) =
        (q \<in> set (xs @ ys) \<and> sock_of ?fin q = s')" for s' q
    proof (cases "q = p")
      case True
      then show ?thesis using inv s dist by (auto simp: link_inv_def)
    next
      case False
      then show ?thesis
        using inv ns so [OF False] by (auto simp: link_inv_def)
    qed
    show "sock_of st ` set (xs @ ys) \<subseteq> open_fds st - {sock}"
      using inv ns by (auto simp: link_inv_def)
  qed
  then show ?thesis using d fields by blast
qed

lemma delete_sockarr_miss:
  assumes inv: "link_inv st ps" and s: "sock \<notin> sock_of st ` set ps"
  shows "delete_sockarr sock st = Some (Inr st)"
  using find_sockarr_miss [of st "[]" ps sock] assms by (simp add: delete_sockarr_def)

section \<open>The contract of the socket list\<close>

text \<open>
  What the programs rely on: \<open>rep s W\<close> says that the sockets \<open>W\<close> are watched, each with its
  node. Watching an open socket that is not watched adds it; deleting a socket, watched or
  not, never faults and removes it.
\<close>

datatype sock_op = Watch int ptr | Unwatch int

fun sock_spec :: "(ptr \<Rightarrow> bool) \<Rightarrow> sock_op \<Rightarrow> (int \<rightharpoonup> ptr) \<Rightarrow> (int \<rightharpoonup> ptr)" where
  "sock_spec free (Watch s p) W = (if free p \<and> W s = None then W(s \<mapsto> p) else W)"
| "sock_spec free (Unwatch s) W = W(s := None)"

text \<open>
  A sequence of connections and losses; a connection with a node in use, or of a socket
  number that is still watched, cannot happen and is skipped.
\<close>

fun run_socks :: "('s \<Rightarrow> int \<rightharpoonup> ptr) \<Rightarrow> ('s \<Rightarrow> ptr \<Rightarrow> bool) \<Rightarrow> (int \<Rightarrow> ptr \<Rightarrow> 's \<Rightarrow> 's res) \<Rightarrow>
    (int \<Rightarrow> 's \<Rightarrow> 's res option) \<Rightarrow> sock_op list \<Rightarrow> 's \<Rightarrow> 's res option" where
  "run_socks wat free conn del [] s = Some (Inr s)"
| "run_socks wat free conn del (Watch k p # os) s =
     (if free s p \<and> wat s k = None
      then (case conn k p s of
          Inl e \<Rightarrow> Some (Inl e)
        | Inr s \<Rightarrow> run_socks wat free conn del os s)
      else run_socks wat free conn del os s)"
| "run_socks wat free conn del (Unwatch k # os) s =
     (case del k s of
        None \<Rightarrow> None
      | Some (Inl e) \<Rightarrow> Some (Inl e)
      | Some (Inr s) \<Rightarrow> run_socks wat free conn del os s)"

fun spec_socks :: "sock_op list \<Rightarrow> (int \<rightharpoonup> ptr) \<Rightarrow> (int \<rightharpoonup> ptr)" where
  "spec_socks [] W = W"
| "spec_socks (op # os) W = spec_socks os (sock_spec (\<lambda>p. p \<notin> ran W) op W)"

locale socket_set =
  fixes rep :: "'s \<Rightarrow> (int \<rightharpoonup> ptr) \<Rightarrow> bool"
    and wat :: "'s \<Rightarrow> int \<rightharpoonup> ptr"
    and free :: "'s \<Rightarrow> ptr \<Rightarrow> bool"
    and conn :: "int \<Rightarrow> ptr \<Rightarrow> 's \<Rightarrow> 's res"
    and del :: "int \<Rightarrow> 's \<Rightarrow> 's res option"
  assumes conn_law: "rep s W \<Longrightarrow> free s p \<Longrightarrow> W k = None \<Longrightarrow>
        \<exists>s'. conn k p s = Inr s' \<and> rep s' (W(k \<mapsto> p))"
    and del_law: "rep s W \<Longrightarrow> \<exists>s'. del k s = Some (Inr s') \<and> rep s' (W(k := None))"
    and wat_law: "rep s W \<Longrightarrow> wat s = W"
    and free_law: "rep s W \<Longrightarrow> free s p \<longleftrightarrow> p \<notin> ran W"
begin

lemma run_socks_spec:
  "rep s W \<Longrightarrow> \<exists>s'. run_socks wat free conn del os s = Some (Inr s') \<and> rep s' (spec_socks os W)"
proof (induction os arbitrary: s W)
  case Nil
  then show ?case by simp
next
  case (Cons op os)
  show ?case
  proof (cases op)
    case (Watch k p)
    show ?thesis
    proof (cases "free s p \<and> wat s k = None")
      case True
      then have "W k = None" using wat_law [OF Cons.prems] by simp
      then obtain s' where s': "conn k p s = Inr s'" "rep s' (W(k \<mapsto> p))"
        using conn_law [OF Cons.prems] True by blast
      have "p \<notin> ran W" using True free_law [OF Cons.prems] by simp
      with Cons.IH [OF s'(2)] s'(1) True \<open>W k = None\<close> show ?thesis
        by (simp add: Watch fun_upd_def)
    next
      case False
      then have "sock_spec (\<lambda>p. p \<notin> ran W) op W = W"
        using wat_law [OF Cons.prems] free_law [OF Cons.prems] by (auto simp: Watch)
      with Cons.IH [OF Cons.prems] False show ?thesis by (auto simp: Watch)
    qed
  next
    case (Unwatch k)
    obtain s' where s': "del k s = Some (Inr s')" "rep s' (W(k := None))"
      using del_law [OF Cons.prems] by blast
    from Cons.IH [OF s'(2)] s'(1) show ?thesis by (simp add: Unwatch fun_upd_def)
  qed
qed

end

text \<open>A connection: the kernel opens the descriptor, the program registers it.\<close>

definition sock_connect :: "'f \<Rightarrow> int \<Rightarrow> ptr \<Rightarrow> 'f link_state \<Rightarrow> 'f link_state res" where
  "sock_connect f k p st =
     bind_res (insert_sockarr k f True (Some p) (st\<lparr>open_fds := insert k (open_fds st)\<rparr>))
       (\<lambda>(_, st). Inr st)"

definition link_rep :: "'f link_state \<Rightarrow> (int \<rightharpoonup> ptr) \<Rightarrow> bool" where
  "link_rep st W \<longleftrightarrow> W = watched st \<and> (\<exists>ps. link_inv st ps)"

definition node_unused :: "'f link_state \<Rightarrow> ptr \<Rightarrow> bool" where
  "node_unused st p \<longleftrightarrow> nodes st p = None"

lemma sock_of_open [simp]: "sock_of (st\<lparr>open_fds := x\<rparr>) = sock_of st"
  by (simp add: sock_of_def fun_eq_iff)

lemma link_inv_open: "link_inv st ps \<Longrightarrow> link_inv (st\<lparr>open_fds := insert k (open_fds st)\<rparr>) ps"
  by (auto simp: link_inv_def)

lemma delete_sockarr_inv:
  assumes "link_inv st ps"
  shows "\<exists>st' ps'. delete_sockarr sock st = Some (Inr st') \<and> link_inv st' ps' \<and>
     watched st' = (watched st)(sock := None) \<and>
     nodes st' = (nodes st) |` {p. p \<in> dom (nodes st) \<and> sock_of st p \<noteq> sock}"
proof (cases "sock \<in> sock_of st ` set ps")
  case True
  then obtain xs p ys where ps: "ps = xs @ p # ys" and s: "sock_of st p = sock"
    by (metis imageE split_list)
  have "(nodes st)(p := None) = (nodes st) |` {q. q \<in> dom (nodes st) \<and> sock_of st q \<noteq> sock}"
  proof
    fix q
    show "((nodes st)(p := None)) q = ((nodes st) |` {q. q \<in> dom (nodes st) \<and> sock_of st q \<noteq> sock}) q"
    proof (cases "q \<in> dom (nodes st)")
      case True
      then have "q \<in> set ps" using assms by (simp add: link_inv_def)
      moreover have "inj_on (sock_of st) (set ps)"
        using assms by (simp add: link_inv_def distinct_map)
      ultimately have "sock_of st q = sock \<longleftrightarrow> q = p"
        using s inj_onD [of "sock_of st" "set ps" q p] by (auto simp: ps)
      then show ?thesis using True by (auto simp: restrict_map_def)
    next
      case False
      then show ?thesis by (auto simp: restrict_map_def domIff)
    qed
  qed
  with delete_sockarr_hit [of st xs p ys sock] assms s show ?thesis unfolding ps by auto
next
  case False
  have "watched st sock = None"
  proof (cases "watched st sock")
    case (Some p)
    then have "p \<in> set ps" "sock_of st p = sock" using assms by (auto simp: link_inv_def)
    with False show ?thesis by auto
  qed simp
  moreover have "nodes st = (nodes st) |` {p. p \<in> dom (nodes st) \<and> sock_of st p \<noteq> sock}"
    using assms False by (auto simp: link_inv_def restrict_map_def fun_eq_iff domIff)
  ultimately show ?thesis
    using delete_sockarr_miss [OF assms False] assms by (auto simp: fun_upd_idem)
qed

interpretation link_socks: socket_set link_rep watched node_unused "sock_connect f" delete_sockarr
  for f :: 'f
proof (unfold_locales, goal_cases)
  case (1 s W p k)
  then obtain ps where inv: "link_inv s ps" and w: "W = watched s" by (auto simp: link_rep_def)
  obtain st' where "insert_sockarr k f True (Some p) (s\<lparr>open_fds := insert k (open_fds s)\<rparr>) = Inr (Some p, st')"
    "link_inv st' (ps @ [p])" "watched st' = (watched s)(k \<mapsto> p)"
    using insert_sockarr_inv [OF link_inv_open [OF inv, of k], of p k f] 1 w
    by (auto simp: node_unused_def)
  then show ?case using w by (auto simp: sock_connect_def link_rep_def)
next
  case (2 s W k)
  then obtain ps where "link_inv s ps" "W = watched s" by (auto simp: link_rep_def)
  with delete_sockarr_inv [of s ps k] show ?case unfolding link_rep_def by metis
next
  case (3 s W)
  then show ?case by (simp add: link_rep_def)
next
  case (4 s W p)
  then obtain ps where "link_inv s ps" "W = watched s" by (auto simp: link_rep_def)
  then show ?case by (auto simp: node_unused_def link_inv_def ran_def domIff)
qed

section \<open>Dispatch and sending\<close>

lemma link_inv_retevents:
  assumes "link_inv st ps" "nodes st p = Some n"
  shows "link_inv (st\<lparr>nodes := (nodes st)(p \<mapsto> n\<lparr>retevents := ev\<rparr>)\<rparr>) ps"
proof -
  have "sock_of (st\<lparr>nodes := (nodes st)(p \<mapsto> n\<lparr>retevents := ev\<rparr>)\<rparr>) = sock_of st"
    using assms(2) by (auto simp: sock_of_def fun_eq_iff)
  then show ?thesis using assms by (auto simp: link_inv_def)
qed

lemma net_send_eth:
  assumes "dll_wf localmac dll" "len \<le> DLL_PKT_DATALEN" "length msg = len" "length dmac = ETH_ALEN"
  shows "\<exists>dll'. net_send MSG_PROTO_ETH sock dmac msg len True tcp dll =
       Some (Inr (0, [Frame (eth_header dmac localmac @ msg)], dll')) \<and> dll_wf localmac dll' \<and>
     rcvpkt dll' = rcvpkt dll \<and> rcv_locked dll' = rcv_locked dll"
  using dll_sendpkt_eq [OF assms(1,2), of msg dmac True] assms(3,4)
  by (auto simp: net_send_def)

section \<open>Properties\<close>

text \<open>
  C9. The list of sockets and the set watched by epoll stay in step: in every sequence of
  connections and deletions from the empty list no operation faults or runs forever, the
  watched sockets are exactly those connected and not deleted since, and each refers to an
  allocated node of that socket.
\<close>

theorem sockarr_tracks_epoll:
  "\<exists>st. run_socks watched node_unused (sock_connect f) delete_sockarr os (link_init fds) = Some (Inr st) \<and>
     watched st = spec_socks os Map.empty \<and>
     (\<forall>k p. watched st k = Some p \<longrightarrow> (\<exists>n. nodes st p = Some n \<and> sa_sock n = k))"
proof -
  have "link_rep (link_init fds) Map.empty"
    using link_inv_init [of fds] by (auto simp: link_rep_def link_init_def)
  then obtain st where st: "run_socks watched node_unused (sock_connect f) delete_sockarr os (link_init fds) =
      Some (Inr st)" "link_rep st (spec_socks os Map.empty)"
    using link_socks.run_socks_spec [where f = f and os = os] by blast
  then obtain ps where inv: "link_inv st ps" and w: "watched st = spec_socks os Map.empty"
    by (auto simp: link_rep_def)
  have "\<exists>n. nodes st p = Some n \<and> sa_sock n = k" if "watched st k = Some p" for k p
  proof -
    from that inv have "p \<in> set ps" "sock_of st p = k" by (auto simp: link_inv_def)
    with link_inv_node [OF inv, of p] show ?thesis by (auto simp: sock_of_def)
  qed
  with st(1) w show ?thesis by blast
qed

theorem sockarr_tracks_epoll_witness:
  "\<exists>st :: unit link_state.
     run_socks watched node_unused (sock_connect ()) delete_sockarr
       [Watch 5 1, Watch 6 2, Unwatch 5, Watch 7 2, Watch 5 3] (link_init {}) = Some (Inr st) \<and>
     watched st = [6 \<mapsto> 2, 5 \<mapsto> 3]"
proof -
  have "spec_socks [Watch 5 1, Watch 6 2, Unwatch 5, Watch 7 2, Watch 5 3] Map.empty = [6 \<mapsto> 2, 5 \<mapsto> 3]"
    by (auto simp: ran_def fun_eq_iff)
  with sockarr_tracks_epoll [where f = "()" and fds = "{}"
      and os = "[Watch 5 1, Watch 6 2, Unwatch 5, Watch 7 2, Watch 5 3]"]
  show ?thesis by auto
qed

text \<open>
  Deleting a socket that is watched unlinks its node wherever it stands, repairs the
  tail pointer, closes the descriptor and frees the node; a socket that is not watched is
  left open and nothing changes.
\<close>

theorem delete_sockarr_exact:
  assumes "link_inv st ps"
  shows "\<exists>st' ps'. delete_sockarr sock st = Some (Inr st') \<and> link_inv st' ps' \<and>
     (if sock \<in> sock_of st ` set ps
      then (\<exists>xs p ys. ps = xs @ p # ys \<and> sock_of st p = sock \<and> ps' = xs @ ys \<and>
              nodes st' = (nodes st)(p := None)) \<and> open_fds st' = open_fds st - {sock}
      else st' = st)"
proof (cases "sock \<in> sock_of st ` set ps")
  case True
  then obtain xs p ys where ps: "ps = xs @ p # ys" "sock_of st p = sock"
    by (metis imageE split_list)
  obtain st' where "delete_sockarr sock st = Some (Inr st')" "link_inv st' (xs @ ys)"
    "nodes st' = (nodes st)(p := None)" "open_fds st' = open_fds st - {sock}"
    using delete_sockarr_hit [of st xs p ys sock] assms ps by auto
  with True ps show ?thesis by (intro exI [of _ st'] exI [of _ "xs @ ys"]) auto
next
  case False
  with delete_sockarr_miss [OF assms] assms show ?thesis by auto
qed

definition ex_links :: "unit link_state" where
  "ex_links = \<lparr>hd_ptr = Some 1, next_of = [1 \<mapsto> 2], sa_tail = NextSlot 2,
     nodes = [1 \<mapsto> \<lparr>sa_sock = 5, sa_func = (), retevents = 0\<rparr>,
              2 \<mapsto> \<lparr>sa_sock = 6, sa_func = (), retevents = 0\<rparr>],
     watched = [5 \<mapsto> 1, 6 \<mapsto> 2], open_fds = {5, 6}\<rparr>"

lemma ex_links_inv: "link_inv ex_links [1, 2]"
  by (auto simp: link_inv_def ex_links_def chain_rel_def end_slot_def sock_of_def split: if_splits)

theorem delete_sockarr_exact_witness:
  "\<exists>st'. delete_sockarr 6 ex_links = Some (Inr st') \<and> open_fds st' = {5}"
proof -
  have "open_fds ex_links - {6} = {5}" "(6 :: int) \<in> sock_of ex_links ` set [1, 2]"
    by (auto simp: ex_links_def sock_of_def)
  with delete_sockarr_exact [OF ex_links_inv, of 6] show ?thesis by (simp only: if_True) blast
qed

text \<open>
  An event that is already fetched when its socket is deleted is dispatched through a freed node:
  deleting a socket does not cancel it.
\<close>

lemma fetched_event_of_deleted:
  assumes "link_inv st ps" "watched st sock = Some p"
  shows "\<exists>st' ps'. delete_sockarr sock st = Some (Inr st') \<and> link_inv st' ps' \<and> nodes st' p = None \<and>
     open_fds st' = open_fds st - {sock}"
proof -
  have p: "p \<in> set ps" "sock_of st p = sock" using assms by (auto simp: link_inv_def)
  then obtain xs ys where ps: "ps = xs @ p # ys" by (auto dest: split_list)
  from delete_sockarr_hit [OF assms(1) [unfolded ps] p(2)] show ?thesis by force
qed

end
