(* ===== verification/Ap_Process.thy ===== *)
theory Ap_Process
  imports Chap Link Ap_Message
begin

text \<open>
  The access point, \<^verbatim>\<open>ap/process.c\<close> and \<^verbatim>\<open>ap/apstatus.c\<close>: its registration state, the
  challenges it handed out, the answers to a broadcast of a controller, the acceptance of a
  registration response, the connection to the controller and the status report. Memory,
  randomness and the answers of the kernel are arguments.
\<close>

section \<open>State\<close>

definition LOCAL_AC_MAX :: nat where "LOCAL_AC_MAX = 10"

datatype ap_func = Net_dllrecv | Net_netrcv

record sysstat_t =
  ss_acuuid :: "byte list"
  ss_dmac :: "byte list"
  ss_isreg :: int
  ss_sock :: int
  ss_server :: sockaddr_in

text \<open>
  \<open>random_map\<close> and \<open>rm_offset\<close> are the ring of the challenges handed out. \<open>my_mac\<close> and \<open>my_addr\<close>
  are \<^verbatim>\<open>argument.mac\<close> and \<^verbatim>\<open>argument.addr\<close>, \<open>nic_addr\<close> is the address last given to the
  network card. \<open>sent\<close> collects what was put on the wire, newest last.
\<close>

record ap_state =
  sysstat :: sysstat_t
  random_map :: "(u32 \<times> byte list) list"
  rm_offset :: nat
  my_mac :: "byte list"
  my_addr :: sockaddr_in
  nic_addr :: "sockaddr_in option"
  ap_dll :: dll_state
  ap_links :: "ap_func link_state"
  sent :: "wire list"

text \<open>
  What a handler gets from outside: bytes of \<^verbatim>\<open>/dev/random\<close>, whether \<^verbatim>\<open>malloc\<close> succeeds and
  what its memory holds, the answers of the kernel, and the node for a new socket.
\<close>

record ap_env =
  e_dev :: dev_read
  e_malloc :: bool
  e_mem :: "byte list"
  e_chap_malloc :: bool
  e_eth_ok :: bool
  e_tcp :: "send_answer list"
  e_connect :: connect_answers
  e_nonblock :: bool
  e_node :: "ptr option"
  e_setaddr :: bool

definition ap_init :: "byte list \<Rightarrow> sockaddr_in \<Rightarrow> sockaddr_in \<Rightarrow> dll_state \<Rightarrow> ap_func link_state \<Rightarrow> ap_state" where
  "ap_init mc addr server dll links =
     \<lparr>sysstat = \<lparr>ss_acuuid = replicate UUID_LEN 0, ss_dmac = replicate ETH_ALEN 0, ss_isreg = 0,
                 ss_sock = -1, ss_server = server\<rparr>,
      random_map = replicate LOCAL_AC_MAX (0, replicate ETH_ALEN 0), rm_offset = 0,
      my_mac = mc, my_addr = addr, nic_addr = None, ap_dll = dll, ap_links = links, sent = []\<rparr>"

section \<open>Challenges\<close>

definition new_random :: "byte list \<Rightarrow> dev_read \<Rightarrow> ap_state \<Rightarrow> u32 \<times> ap_state" where
  "new_random hw dev st =
     (let r = chap_get_random dev
      in (r, st\<lparr>random_map := (random_map st)[rm_offset st := (r, take ETH_ALEN hw)],
                rm_offset := (rm_offset st + 1) mod LOCAL_AC_MAX\<rparr>))"

text \<open>
  The loop of \<^verbatim>\<open>get_random\<close>: \<open>i\<close> starts at \<^verbatim>\<open>offset - 1\<close> and counts up. In C \<^verbatim>\<open>-1 % 10\<close> is
  \<open>-1\<close>, an index before the array.
\<close>

fun get_random_loop :: "(u32 \<times> byte list) list \<Rightarrow> byte list \<Rightarrow> int \<Rightarrow> nat \<Rightarrow> u32 res" where
  "get_random_loop rm hw i 0 = Inr 0"
| "get_random_loop rm hw i (Suc k) =
     (if i < 0 then Inl OutOfBounds
      else let (r, m) = rm ! nat (i mod int LOCAL_AC_MAX) in
        if memcmp_eq ETH_ALEN hw m then Inr r
        else get_random_loop rm hw (i + 1) k)"

definition get_random :: "byte list \<Rightarrow> ap_state \<Rightarrow> u32 res" where
  "get_random hw st = get_random_loop (random_map st) hw (int (rm_offset st) - 1) LOCAL_AC_MAX"

section \<open>The connection to the controller\<close>

definition open_fd :: "int list \<Rightarrow> 'f link_state \<Rightarrow> 'f link_state" where
  "open_fd socks st = st\<lparr>open_fds := open_fds st \<union> set socks\<rparr>"

definition close_fds :: "int list \<Rightarrow> 'f link_state \<Rightarrow> 'f link_state" where
  "close_fds socks st = fold close_fd socks st"

definition ac_reconnect :: "ap_env \<Rightarrow> ap_state \<Rightarrow> ap_state res" where
  "ac_reconnect env st =
     (let ss = sysstat st in
      if s_addr (ss_server ss) = 0 then Inr st
      else if ss_sock ss \<ge> 0 then Inr st
      else let (ret, opened, closed) = tcp_connect (ss_server ss) (e_connect env);
               st = st\<lparr>ap_links := close_fds closed (open_fd opened (ap_links st))\<rparr>
           in if ret < 0 then Inr st
              else let st = st\<lparr>sysstat := ss\<lparr>ss_sock := ret\<rparr>\<rparr> in
                bind_res (insert_sockarr ret Net_netrcv (e_nonblock env) (e_node env) (ap_links st))
                  (\<lambda>(_, l). Inr (st\<lparr>ap_links := l\<rparr>)))"

definition ac_lost :: "ap_state \<Rightarrow> ap_state res option" where
  "ac_lost st =
     (case delete_sockarr (ss_sock (sysstat st)) (ap_links st) of
        None \<Rightarrow> None
      | Some (Inl e) \<Rightarrow> Some (Inl e)
      | Some (Inr l) \<Rightarrow>
          Some (Inr (st\<lparr>ap_links := l, sysstat := (sysstat st)\<lparr>ss_sock := -1\<rparr>\<rparr>)))"

section \<open>Answering a broadcast\<close>

text \<open>\<^verbatim>\<open>__uuid_equ\<close>: the last byte of the arrays is not compared.\<close>

definition uuid_equ :: "byte list \<Rightarrow> byte list \<Rightarrow> bool" where
  "uuid_equ src dest \<longleftrightarrow> strncmp_eq (UUID_LEN - 1) src dest"

text \<open>The send over Ethernet of the two answers; the return value is ignored.\<close>

definition ap_send_eth :: "ap_env \<Rightarrow> byte list \<Rightarrow> byte list \<Rightarrow> nat \<Rightarrow> ap_state \<Rightarrow> ap_state res option" where
  "ap_send_eth env dmac msg len st =
     (case net_send MSG_PROTO_ETH (-1) dmac msg len (e_eth_ok env) (e_tcp env) (ap_dll st) of
        None \<Rightarrow> None
      | Some (Inl e) \<Rightarrow> Some (Inl e)
      | Some (Inr (r, w, dll)) \<Rightarrow> Some (Inr (st\<lparr>ap_dll := dll, sent := sent st @ w\<rparr>)))"

text \<open>\<open>brd\<close> is the memory of the broadcast. The response is built in memory from \<^verbatim>\<open>malloc\<close>.\<close>

definition proc_brd_reg :: "byte list \<Rightarrow> ap_env \<Rightarrow> byte list \<Rightarrow> ap_state \<Rightarrow> ap_state res option" where
  "proc_brd_reg passwd env brd st =
     (if \<not> e_malloc env then Some (Inr st)
      else let msg = dec_ac_brd brd;
               resp = dec_ap_reg (e_mem env);
               (r, st) = new_random (mac msg) (e_dev env) st;
               resp = fill_msg_header (my_mac st) resp MSG_AP_REG (Some (acuuid msg)) r;
               resp = resp\<lparr>ipv4 := my_addr st\<rparr>;
               bytes = chap_fill_msg_md5 passwd (enc_ap_reg resp) sizeof_ap_reg (random msg)
           in ap_send_eth env (mac msg) bytes sizeof_ap_reg st)"

definition proc_brd_isreg :: "byte list \<Rightarrow> ap_env \<Rightarrow> byte list \<Rightarrow> ap_state \<Rightarrow> ap_state res option" where
  "proc_brd_isreg passwd env brd st =
     (let msg = dec_ac_brd brd in
      if uuid_equ (acuuid msg) (ss_acuuid (sysstat st)) then Some (Inr st)
      else if uuid_equ (takeover msg) (ss_acuuid (sysstat st)) then
        (let ss = sysstat st;
             st = (if ss_sock ss \<ge> 0
                   then st\<lparr>ap_links := close_fd (ss_sock ss) (ap_links st),
                           sysstat := ss\<lparr>ss_sock := -1\<rparr>\<rparr>
                   else st)
         in proc_brd_reg passwd env brd st)
      else if \<not> e_malloc env then Some (Inr st)
      else let resp = dec_head (e_mem env);
               (r, st) = new_random (mac msg) (e_dev env) st;
               resp = fill_msg_header (my_mac st) resp MSG_AP_RESP (Some (acuuid msg)) r;
               bytes = chap_fill_msg_md5 passwd (enc_head resp) sizeof_head (random msg)
           in ap_send_eth env (mac msg) bytes sizeof_head st)"

definition proc_brd :: "byte list \<Rightarrow> ap_env \<Rightarrow> message_t \<Rightarrow> ap_state \<Rightarrow> ap_state res option" where
  "proc_brd passwd env m st =
     (if proto m \<noteq> MSG_PROTO_ETH then Some (Inl AssertFail)
      else if (word_of_int (msg_len m) :: 64 word) < of_nat sizeof_ac_brd then Some (Inr st)
      else if ss_isreg (sysstat st) \<noteq> 0 then proc_brd_isreg passwd env (data m) st
      else proc_brd_reg passwd env (data m) st)"

section \<open>Accepting a registration response\<close>

text \<open>\<^verbatim>\<open>strncpy\<close>: the chars before the first NUL, filled up with NUL.\<close>

definition strncpy :: "nat \<Rightarrow> byte list \<Rightarrow> byte list" where
  "strncpy n src =
     (let s = takeWhile (\<lambda>c. c \<noteq> 0) (take n src) in s @ replicate (n - length s) 0)"

text \<open>\<^verbatim>\<open>setaddr\<close> copies the address and sets the family; \<^verbatim>\<open>AF_INET\<close> is 2.\<close>

definition setaddr :: "bool \<Rightarrow> sockaddr_in \<Rightarrow> ap_state \<Rightarrow> ap_state" where
  "setaddr ok addr st = (if ok then st\<lparr>nic_addr := Some (addr\<lparr>sin_family := 2\<rparr>)\<rparr> else st)"

definition accept_resp :: "ap_env \<Rightarrow> msg_ac_reg_resp_t \<Rightarrow> ap_state \<Rightarrow> ap_state res" where
  "accept_resp env msg st =
     (let ss = sysstat st;
          ss = ss\<lparr>ss_acuuid := strncpy UUID_LEN (acuuid msg), ss_dmac := mac msg\<rparr>;
          ss = (if s_addr (acaddr msg) \<noteq> 0 then ss\<lparr>ss_server := acaddr msg\<rparr> else ss);
          st = st\<lparr>sysstat := ss\<rparr>;
          st = (if s_addr (apaddr msg) \<noteq> 0 then setaddr (e_setaddr env) (apaddr msg) st else st);
          st = (if ss_sock ss \<ge> 0 then st\<lparr>ap_links := close_fd (ss_sock ss) (ap_links st)\<rparr> else st)
      in bind_res (ac_reconnect env st) (\<lambda>st.
           Inr (st\<lparr>sysstat := (sysstat st)\<lparr>ss_isreg := 1\<rparr>\<rparr>)))"

definition proc_reg_resp :: "byte list \<Rightarrow> ap_env \<Rightarrow> message_t \<Rightarrow> ap_state \<Rightarrow> ap_state res" where
  "proc_reg_resp passwd env m st =
     (if (word_of_int (msg_len m) :: 64 word) < of_nat sizeof_ac_reg_resp then Inr st
      else bind_res (get_random (mac (dec_head (data m))) st) (\<lambda>r.
        let (bytes, cmp) = chap_msg_cmp_md5 passwd (e_chap_malloc env) (data m) sizeof_ac_reg_resp r
        in if cmp \<noteq> 0 then Inr st
           else accept_resp env (dec_ac_reg_resp bytes) st))"

section \<open>The handler of a message\<close>

text \<open>\<^verbatim>\<open>is_mine\<close> is constantly true; a command is only printed.\<close>

text \<open>
  The text of a command, which no digest protects, is printed up to its NUL; without one in the
  memory of the message the library reads on behind it.
\<close>

definition exec_cmd :: "message_t \<Rightarrow> ap_state \<Rightarrow> ap_state res" where
  "exec_cmd m st = (if 0 \<in> set (drop sizeof_head (data m)) then Inr st else Inl OutOfBounds)"

definition ap_msg_proc :: "byte list \<Rightarrow> ap_env \<Rightarrow> message_t \<Rightarrow> ap_state \<Rightarrow> ap_state res option" where
  "ap_msg_proc passwd env m st =
     (let ty = msg_type (dec_head (data m)) in
      if ty = MSG_AC_BRD then proc_brd passwd env m st
      else if ty = MSG_AC_REG_RESP then Some (proc_reg_resp passwd env m st)
      else if ty = MSG_AC_CMD then Some (exec_cmd m st)
      else Some (Inr st))"

lemma exec_cmd_state: "exec_cmd m st = Inr st' \<Longrightarrow> st' = st"
  by (simp add: exec_cmd_def split: if_splits)

text \<open>A command without a NUL, from anybody, makes the access point read behind the message.\<close>

lemma command_read_behind:
  "msg_type (dec_head (data m)) = MSG_AC_CMD \<Longrightarrow> 0 \<notin> set (drop sizeof_head (data m)) \<Longrightarrow>
   ap_msg_proc passwd env m st = Some (Inl OutOfBounds)"
  by (simp add: ap_msg_proc_def msg_types exec_cmd_def)

section \<open>The status report\<close>

text \<open>
  The struct of \<^verbatim>\<open>get_apstatus\<close>: one network \<^verbatim>\<open>jianxi-pri\<close>, 784 bytes; the rest of the static
  variable is zero.
\<close>

definition get_apstatus :: "byte list" where
  "get_apstatus = put_at 4 [106, 105, 97, 110, 120, 105, 45, 112, 114, 105, 0]
     (put_at 0 (le32 1) (replicate 784 0))"

definition status_packet :: "byte list \<Rightarrow> byte list" where
  "status_packet mc =
     put_at sizeof_head get_apstatus
       (put_at 0 (enc_head (fill_msg_header mc (dec_head (replicate 864 0)) MSG_AP_STATUS None 0))
          (replicate 864 0))"

text \<open>One round of \<^verbatim>\<open>report_apstatus\<close>.\<close>

definition report_apstatus :: "ap_env \<Rightarrow> ap_state \<Rightarrow> ap_state res option" where
  "report_apstatus env st =
     (if \<not> ss_sock (sysstat st) \<ge> 0 then Some (ac_reconnect env st)
      else case net_send MSG_PROTO_TCP (ss_sock (sysstat st)) (ss_dmac (sysstat st))
          (status_packet (my_mac st)) 864 (e_eth_ok env) (e_tcp env) (ap_dll st) of
        None \<Rightarrow> None
      | Some (Inl e) \<Rightarrow> Some (Inl e)
      | Some (Inr (ret, w, dll)) \<Rightarrow>
          (let st = st\<lparr>ap_dll := dll, sent := sent st @ w\<rparr> in
           if ret \<le> 0 then
             (case ac_lost st of
                None \<Rightarrow> None
              | Some (Inl e) \<Rightarrow> Some (Inl e)
              | Some (Inr st) \<Rightarrow> Some (ac_reconnect env st))
           else Some (Inr st)))"

end
