(* ===== verification/Ap_Trust.thy ===== *)
theory Ap_Trust
  imports Ap_Process
begin

text \<open>
  Whom an access point trusts: what each operation of \<^verbatim>\<open>ap/process.c\<close> leaves alone, the lookup
  of the challenge, the runs of the access point as a step relation, and the
  lemmas that trace what a registered access point holds back to one response.
\<close>

section \<open>What each operation leaves alone\<close>

text \<open>
  \<open>ap_view\<close> is what the access point believes about its controller, with the address it set;
  \<open>ring\<close> are the challenges it handed out.
\<close>

definition ap_view :: "ap_state \<Rightarrow> byte list \<times> byte list \<times> int \<times> sockaddr_in \<times> sockaddr_in option" where
  "ap_view st = (ss_acuuid (sysstat st), ss_dmac (sysstat st), ss_isreg (sysstat st),
     ss_server (sysstat st), nic_addr st)"

definition ring :: "ap_state \<Rightarrow> (u32 \<times> byte list) list \<times> nat" where
  "ring st = (random_map st, rm_offset st)"

definition ap_static :: "ap_state \<Rightarrow> ap_state \<Rightarrow> bool" where
  "ap_static st st' \<longleftrightarrow> ap_view st' = ap_view st \<and> my_mac st' = my_mac st \<and> my_addr st' = my_addr st"

lemma ap_static_refl [simp]: "ap_static st st"
  by (simp add: ap_static_def)

lemma ap_static_trans: "ap_static st st' \<Longrightarrow> ap_static st' st'' \<Longrightarrow> ap_static st st''"
  by (simp add: ap_static_def)

lemmas ap_frame_defs = ap_static_def ap_view_def ring_def

lemma ac_reconnect_frame:
  "ac_reconnect env st = Inr st' \<Longrightarrow> ap_static st st' \<and> ring st' = ring st"
  unfolding ac_reconnect_def Let_def
  by (auto simp: bind_res_Inr_iff ap_frame_defs split: if_splits prod.splits)

lemma ac_lost_frame:
  "ac_lost st = Some (Inr st') \<Longrightarrow> ap_static st st' \<and> ring st' = ring st"
  by (auto simp: ac_lost_def ap_frame_defs split: option.splits sum.splits)

lemma ap_send_eth_frame:
  "ap_send_eth env dmac msg len st = Some (Inr st') \<Longrightarrow>
   ap_static st st' \<and> ring st' = ring st \<and> ap_links st' = ap_links st \<and> sysstat st' = sysstat st"
  by (auto simp: ap_send_eth_def ap_frame_defs split: option.splits sum.splits)

text \<open>One more challenge in the ring.\<close>

definition ring_put :: "byte list \<Rightarrow> u32 \<Rightarrow> ap_state \<Rightarrow> ap_state" where
  "ring_put hw r st = st\<lparr>random_map := (random_map st)[rm_offset st := (r, take ETH_ALEN hw)],
     rm_offset := (rm_offset st + 1) mod LOCAL_AC_MAX\<rparr>"

lemma new_random_eq:
  "new_random hw dev st = (chap_get_random dev, ring_put hw (chap_get_random dev) st)"
  by (simp add: new_random_def ring_put_def Let_def)

lemma ring_put_static [simp]: "ap_static st (ring_put hw r st)" "my_mac (ring_put hw r st) = my_mac st"
  "my_addr (ring_put hw r st) = my_addr st" "sysstat (ring_put hw r st) = sysstat st"
  "ap_links (ring_put hw r st) = ap_links st" "ap_dll (ring_put hw r st) = ap_dll st"
  "sent (ring_put hw r st) = sent st" "nic_addr (ring_put hw r st) = nic_addr st"
  by (simp_all add: ring_put_def ap_frame_defs)

lemma ring_ring_put: "ring st = ring st' \<Longrightarrow> ring (ring_put hw r st) = ring (ring_put hw r st')"
  by (simp add: ring_def ring_put_def)

text \<open>A broadcast at most adds its challenge to the ring.\<close>

definition ring_grows :: "ap_env \<Rightarrow> byte list \<Rightarrow> ap_state \<Rightarrow> ap_state \<Rightarrow> bool" where
  "ring_grows env bs st st' \<longleftrightarrow> ring st' = ring st \<or>
     ring st' = ring (ring_put (mac (dec_head bs)) (chap_get_random (e_dev env)) st)"

lemma proc_brd_reg_frame:
  "proc_brd_reg passwd env brd st = Some (Inr st') \<Longrightarrow> ap_static st st' \<and> ring_grows env brd st st'"
  unfolding proc_brd_reg_def Let_def new_random_eq ring_grows_def
  by (auto split: if_splits dest!: ap_send_eth_frame
      intro: ap_static_trans [OF ring_put_static(1)])

lemma takeover_frame:
  "ap_static st (st\<lparr>ap_links := l, sysstat := (sysstat st)\<lparr>ss_sock := k\<rparr>\<rparr>) \<and>
   ring (st\<lparr>ap_links := l, sysstat := (sysstat st)\<lparr>ss_sock := k\<rparr>\<rparr>) = ring st"
  by (simp add: ap_frame_defs)

lemma proc_brd_isreg_frame:
  assumes "proc_brd_isreg passwd env brd st = Some (Inr st')"
  shows "ap_static st st' \<and> ring_grows env brd st st'"
proof -
  let ?same = "uuid_equ (acuuid (dec_head brd)) (ss_acuuid (sysstat st))"
  let ?take = "uuid_equ (slice 80 UUID_LEN brd) (ss_acuuid (sysstat st))"
  define st0 where "st0 = (if ss_sock (sysstat st) \<ge> 0
    then st\<lparr>ap_links := close_fd (ss_sock (sysstat st)) (ap_links st), sysstat := (sysstat st)\<lparr>ss_sock := -1\<rparr>\<rparr>
    else st)"
  have st0: "ap_static st st0 \<and> ring st0 = ring st"
    by (auto simp: st0_def takeover_frame)
  consider "?same" | "\<not> ?same" "?take" | "\<not> ?same" "\<not> ?take" by blast
  then show ?thesis
  proof cases
    case 1
    then show ?thesis using assms by (simp add: proc_brd_isreg_def Let_def ring_grows_def)
  next
    case 2
    then have "proc_brd_reg passwd env brd st0 = Some (Inr st')"
      using assms by (simp add: proc_brd_isreg_def Let_def st0_def)
    from proc_brd_reg_frame [OF this] st0 show ?thesis
      by (auto simp: ring_grows_def intro: ap_static_trans ring_ring_put)
  next
    case 3
    then show ?thesis
      using assms unfolding proc_brd_isreg_def Let_def new_random_eq ring_grows_def
      by (auto split: if_splits dest!: ap_send_eth_frame
          intro: ap_static_trans [OF ring_put_static(1)])
  qed
qed

lemma proc_brd_frame:
  "proc_brd passwd env m st = Some (Inr st') \<Longrightarrow> ap_static st st' \<and> ring_grows env (data m) st st'"
  unfolding proc_brd_def
  by (auto split: if_splits dest: proc_brd_isreg_frame proc_brd_reg_frame simp: ring_grows_def)

lemma report_apstatus_frame:
  assumes "report_apstatus env st = Some (Inr st')"
  shows "ap_static st st' \<and> ring st' = ring st"
proof (cases "ss_sock (sysstat st) \<ge> 0")
  case False
  then show ?thesis using assms by (auto simp: report_apstatus_def dest: ac_reconnect_frame)
next
  case True
  then obtain ret w dll where s: "net_send MSG_PROTO_TCP (ss_sock (sysstat st)) (ss_dmac (sysstat st))
      (status_packet (my_mac st)) 864 (e_eth_ok env) (e_tcp env) (ap_dll st) = Some (Inr (ret, w, dll))"
    using assms by (auto simp: report_apstatus_def split: option.splits sum.splits)
  define st1 where "st1 = st\<lparr>ap_dll := dll, sent := sent st @ w\<rparr>"
  have st1: "ap_static st st1 \<and> ring st1 = ring st" by (simp add: st1_def ap_frame_defs)
  consider "st' = st1" | st2 where "ac_lost st1 = Some (Inr st2)" "ac_reconnect env st2 = Inr st'"
    using assms True s by (auto simp: report_apstatus_def st1_def Let_def split: if_splits option.splits sum.splits)
  then show ?thesis
    by cases (use st1 in \<open>auto dest!: ac_lost_frame ac_reconnect_frame intro: ap_static_trans\<close>)
qed


section \<open>The challenge that is looked up\<close>

text \<open>The first entry of the address in a list, zero when there is none.\<close>

fun first_match :: "byte list \<Rightarrow> (u32 \<times> byte list) list \<Rightarrow> u32" where
  "first_match hw [] = 0"
| "first_match hw ((r, m) # rms) = (if take ETH_ALEN m = take ETH_ALEN hw then r else first_match hw rms)"

lemma get_random_loop_eq:
  "0 \<le> i \<Longrightarrow> get_random_loop rm hw i k =
     Inr (first_match hw (map (\<lambda>j. rm ! nat ((i + int j) mod int LOCAL_AC_MAX)) [0..<k]))"
proof (induction k arbitrary: i)
  case (Suc k)
  have "map (\<lambda>j. rm ! nat ((i + int j) mod int LOCAL_AC_MAX)) [0..<Suc k] =
      rm ! nat (i mod int LOCAL_AC_MAX) #
        map (\<lambda>j. rm ! nat ((i + 1 + int j) mod int LOCAL_AC_MAX)) [0..<k]"
    by (simp add: upt_conv_Cons map_Suc_upt [symmetric] add.assoc del: upt_Suc)
  with Suc show ?case
    by (auto simp: memcmp_eq_def split: prod.split)
qed simp

lemma rotate_ring:
  assumes "length rm = LOCAL_AC_MAX" "n < LOCAL_AC_MAX"
  shows "map (\<lambda>j. rm ! nat ((int n + int j) mod int LOCAL_AC_MAX)) [0..<LOCAL_AC_MAX] = rotate n rm"
proof (rule nth_equalityI)
  fix j assume "j < length (map (\<lambda>j. rm ! nat ((int n + int j) mod int LOCAL_AC_MAX)) [0..<LOCAL_AC_MAX])"
  then show "map (\<lambda>j. rm ! nat ((int n + int j) mod int LOCAL_AC_MAX)) [0..<LOCAL_AC_MAX] ! j = rotate n rm ! j"
    using assms by (simp add: nth_rotate nat_mod_distrib nat_add_distrib add.commute)
qed (use assms in simp)

lemma get_random_eq:
  assumes "length (random_map st) = LOCAL_AC_MAX" "0 < rm_offset st" "rm_offset st < LOCAL_AC_MAX"
  shows "get_random hw st = Inr (first_match hw (rotate (rm_offset st - 1) (random_map st)))"
proof -
  have "int (rm_offset st) - 1 = int (rm_offset st - 1)" using assms by simp
  then show ?thesis
    using rotate_ring [OF assms(1), of "rm_offset st - 1"] assms
    by (simp add: get_random_def get_random_loop_eq)
qed

lemma get_random_zero: "rm_offset st = 0 \<Longrightarrow> get_random hw st = Inl OutOfBounds"
  by (simp add: get_random_def LOCAL_AC_MAX_def numeral_eq_Suc)

lemma first_match_in:
  "first_match hw rms \<noteq> 0 \<Longrightarrow>
   \<exists>m. (first_match hw rms, m) \<in> set rms \<and> take ETH_ALEN m = take ETH_ALEN hw"
proof (induction rms)
  case (Cons rm rms)
  obtain r m where rm: "rm = (r, m)" by (cases rm)
  show ?case
  proof (cases "take ETH_ALEN m = take ETH_ALEN hw")
    case False
    then show ?thesis using Cons by (auto simp: rm)
  qed (auto simp: rm)
qed simp

section \<open>A response\<close>

text \<open>What the access point then believes.\<close>

definition resp_view :: "bool \<Rightarrow> byte list \<Rightarrow> ap_state \<Rightarrow> byte list \<times> byte list \<times> int \<times> sockaddr_in \<times> sockaddr_in option" where
  "resp_view ok bs st =
     (let msg = dec_ac_reg_resp bs in
      (strncpy UUID_LEN (acuuid msg), mac msg, 1,
       if s_addr (acaddr msg) \<noteq> 0 then acaddr msg else ss_server (sysstat st),
       if s_addr (apaddr msg) \<noteq> 0 \<and> ok then Some ((apaddr msg)\<lparr>sin_family := 2\<rparr>) else nic_addr st))"

lemma accept_resp_view:
  "accept_resp env (dec_ac_reg_resp bs) st = Inr st' \<Longrightarrow>
   ap_view st' = resp_view (e_setaddr env) bs st \<and> my_mac st' = my_mac st \<and> my_addr st' = my_addr st \<and>
   ring st' = ring st"
  by (auto simp: accept_resp_def Let_def bind_res_Inr_iff setaddr_def resp_view_def ap_frame_defs
      dest!: ac_reconnect_frame split: if_splits)


lemma resp_view_zero_chap [simp]: "20 \<le> length bs \<Longrightarrow> resp_view ok (zero_chap bs) st = resp_view ok bs st"
  unfolding resp_view_def Let_def by (simp add: dec_ac_reg_resp_zero_chap)

lemma proc_reg_resp_frame:
  assumes "proc_reg_resp passwd env m st = Inr st'" "20 \<le> length (data m)"
    "msg_type (dec_head (data m)) = MSG_AC_REG_RESP"
  shows "st' = st \<or> (\<exists>rnd. get_random (mac (dec_head (data m))) st = Inr rnd \<and>
     authentic_resp passwd (data m) rnd \<and> ap_view st' = resp_view (e_setaddr env) (data m) st \<and>
     my_mac st' = my_mac st \<and> my_addr st' = my_addr st \<and> ring st' = ring st)"
proof -
  let ?hw = "mac (dec_head (data m))"
  let ?cmp = "chap_msg_cmp_md5 passwd (e_chap_malloc env) (data m) sizeof_ac_reg_resp"
  consider "st' = st" | rnd where "get_random ?hw st = Inr rnd" "snd (?cmp rnd) = 0"
      "accept_resp env (dec_ac_reg_resp (zero_chap (data m))) st = Inr st'"
  proof (cases "get_random ?hw st")
    case (Inl e)
    then show ?thesis using assms(1) that(1) by (simp add: proc_reg_resp_def split: if_splits)
  next
    case (Inr rnd)
    obtain d where d: "?cmp rnd = (zero_chap (data m), d)"
      using fst_chap_msg_cmp [of passwd "e_chap_malloc env" "data m" sizeof_ac_reg_resp rnd]
      by (cases "?cmp rnd") simp
    show ?thesis
      using assms(1) that(1) that(2) [of rnd] Inr
      by (simp add: proc_reg_resp_def d split: if_splits)
  qed
  then show ?thesis
  proof cases
    case 2
    then have "authentic_resp passwd (data m) rnd"
      using assms(2,3) by (simp add: authentic_resp_def signed_accepted)
    with 2 accept_resp_view [OF 2(3)] assms(2) show ?thesis by auto
  qed simp
qed

section \<open>Runs of the access point\<close>

text \<open>
  What can happen to the access point: a message is taken from the queue and handled, a
  report is due, or the connection is lost. The memory of a message is at least a datalink
  buffer.
\<close>

datatype ap_event = Handle message_t ap_env | Report ap_env | Lost

inductive ap_step :: "byte list \<Rightarrow> ap_state \<Rightarrow> ap_event \<Rightarrow> ap_state \<Rightarrow> bool" for passwd where
  handle: "DLL_PKT_DATALEN \<le> length (data m) \<Longrightarrow> ap_msg_proc passwd env m st = Some (Inr st') \<Longrightarrow>
     ap_step passwd st (Handle m env) st'"
| report: "report_apstatus env st = Some (Inr st') \<Longrightarrow> ap_step passwd st (Report env) st'"
| lost: "ac_lost st = Some (Inr st') \<Longrightarrow> ap_step passwd st Lost st'"

inductive_cases ap_step_HandleE: "ap_step passwd st (Handle m env) st'"
inductive_cases ap_stepE: "ap_step passwd st e st'"

inductive ap_run :: "byte list \<Rightarrow> ap_state \<Rightarrow> ap_event list \<Rightarrow> ap_state \<Rightarrow> bool" for passwd st where
  start: "ap_run passwd st [] st"
| step: "ap_run passwd st es st1 \<Longrightarrow> ap_step passwd st1 e st2 \<Longrightarrow> ap_run passwd st (es @ [e]) st2"

text \<open>The events in which a broadcast of \<open>hw\<close> was answered with the challenge \<open>rnd\<close>.\<close>

definition challenged :: "ap_event list \<Rightarrow> byte list \<Rightarrow> u32 \<Rightarrow> bool" where
  "challenged es hw rnd \<longleftrightarrow> (\<exists>m env. Handle m env \<in> set es \<and>
     msg_type (dec_head (data m)) = MSG_AC_BRD \<and> mac (dec_head (data m)) = hw \<and>
     chap_get_random (e_dev env) = rnd)"

lemma challenged_append: "challenged es hw rnd \<Longrightarrow> challenged (es @ es') hw rnd"
  by (auto simp: challenged_def)

text \<open>The ring holds challenges handed out before, besides its initial zeros.\<close>

definition ring_inv :: "ap_event list \<Rightarrow> ap_state \<Rightarrow> bool" where
  "ring_inv es st \<longleftrightarrow> length (random_map st) = LOCAL_AC_MAX \<and> rm_offset st < LOCAL_AC_MAX \<and>
     (\<forall>(r, hw)\<in>set (random_map st). r \<noteq> 0 \<longrightarrow> length hw = ETH_ALEN \<and> challenged es hw r)"

lemma ring_inv_cong: "ring st' = ring st \<Longrightarrow> ring_inv es st' \<longleftrightarrow> ring_inv es st"
  by (simp add: ring_inv_def ring_def)

lemma ring_inv_mono: "ring_inv es st \<Longrightarrow> ring_inv (es @ es') st"
  by (auto simp: ring_inv_def challenged_append)

lemma ring_inv_put:
  assumes "ring_inv es st" "challenged es hw r" "length hw = ETH_ALEN"
  shows "ring_inv es (ring_put hw r st)"
proof -
  have "set ((random_map st)[rm_offset st := (r, take ETH_ALEN hw)]) \<subseteq> insert (r, hw) (set (random_map st))"
    using set_update_subset_insert [of "random_map st"] assms(3) by simp
  then show ?thesis
    using assms by (auto simp: ring_inv_def ring_put_def LOCAL_AC_MAX_def)
qed

text \<open>One step: what the access point believes stays, or an authentic response sets it.\<close>

definition ring_step :: "ap_event \<Rightarrow> ap_state \<Rightarrow> ap_state \<Rightarrow> bool" where
  "ring_step e st st' \<longleftrightarrow> ring st' = ring st \<or> (\<exists>m env. e = Handle m env \<and>
     DLL_PKT_DATALEN \<le> length (data m) \<and> msg_type (dec_head (data m)) = MSG_AC_BRD \<and>
     ring st' = ring (ring_put (mac (dec_head (data m))) (chap_get_random (e_dev env)) st))"

definition resp_accepted :: "byte list \<Rightarrow> ap_event \<Rightarrow> ap_state \<Rightarrow> ap_state \<Rightarrow> bool" where
  "resp_accepted passwd e st st' \<longleftrightarrow> (\<exists>m env rnd. e = Handle m env \<and>
     DLL_PKT_DATALEN \<le> length (data m) \<and> get_random (mac (dec_head (data m))) st = Inr rnd \<and>
     authentic_resp passwd (data m) rnd \<and> ap_view st' = resp_view (e_setaddr env) (data m) st)"

lemma ap_step_view:
  assumes "ap_step passwd st e st'"
  shows "ring_step e st st' \<and> (ap_view st' = ap_view st \<or> resp_accepted passwd e st st')"
  using assms
proof cases
  case (handle m env)
  have 20: "20 \<le> length (data m)" using handle(2) by (simp add: dll_lens)
  consider "msg_type (dec_head (data m)) = MSG_AC_BRD" "proc_brd passwd env m st = Some (Inr st')"
    | "msg_type (dec_head (data m)) = MSG_AC_REG_RESP" "proc_reg_resp passwd env m st = Inr st'"
    | "st' = st"
    using handle(3) by (auto simp: ap_msg_proc_def Let_def dest!: exec_cmd_state split: if_splits)
  then show ?thesis
  proof cases
    case 1
    then show ?thesis using proc_brd_frame [OF 1(2)] handle
      by (auto simp: ring_grows_def ap_static_def ring_step_def)
  next
    case 2
    from proc_reg_resp_frame [OF 2(2) 20 2(1)] handle show ?thesis
      by (auto simp: ring_step_def resp_accepted_def)
  qed (simp add: ring_step_def)
next
  case (report env)
  then show ?thesis using report_apstatus_frame [of env st st'] by (auto simp: ap_static_def ring_step_def)
next
  case lost
  then show ?thesis using ac_lost_frame [of st st'] by (auto simp: ap_static_def ring_step_def)
qed

lemma ap_run_ring:
  assumes "ap_run passwd st es st'" "ring_inv [] st"
  shows "ring_inv es st'"
  using assms
proof (induction rule: ap_run.induct)
  case (step es st1 e st2)
  then have inv: "ring_inv (es @ [e]) st1" by (simp add: ring_inv_mono)
  from ap_step_view [OF step(2)] consider "ring st2 = ring st1"
    | m env where "e = Handle m env" "DLL_PKT_DATALEN \<le> length (data m)"
      "msg_type (dec_head (data m)) = MSG_AC_BRD"
      "ring st2 = ring (ring_put (mac (dec_head (data m))) (chap_get_random (e_dev env)) st1)"
    by (auto simp: ring_step_def)
  then show ?case
  proof cases
    case 1
    with inv show ?thesis by (simp only: ring_inv_cong [OF 1])
  next
    case 2
    have "challenged (es @ [e]) (mac (dec_head (data m))) (chap_get_random (e_dev env))"
      using 2 by (auto simp: challenged_def)
    moreover have "length (mac (dec_head (data m))) = ETH_ALEN"
      using 2(2) by (intro mac_dec_head_length) (simp add: dll_lens)
    ultimately show ?thesis using ring_inv_put [OF inv] ring_inv_cong [OF 2(4)] by blast
  qed
qed simp

lemma ring_inv_init: "ring_inv [] (ap_init mc addr server dll links)"
  by (auto simp: ring_inv_def ap_init_def LOCAL_AC_MAX_def)

lemma ap_run_ConsE:
  assumes "ap_run passwd st es st'" "ap_view st' \<noteq> ap_view st"
  obtains es1 e es2 st1 st2 where "es = es1 @ e # es2" "ap_run passwd st es1 st1"
    "resp_accepted passwd e st1 st2" "ap_view st' = ap_view st2"
proof -
  have "\<exists>es1 e es2 st1 st2. es = es1 @ e # es2 \<and> ap_run passwd st es1 st1 \<and>
      resp_accepted passwd e st1 st2 \<and> ap_view st' = ap_view st2"
    using assms
  proof (induction rule: ap_run.induct)
    case (step es st1 e st2)
    show ?case
    proof (cases "resp_accepted passwd e st1 st2")
      case True
      with step(1) show ?thesis by blast
    next
      case False
      then have v: "ap_view st2 = ap_view st1" using ap_step_view [OF step(2)] by blast
      then have "ap_view st1 \<noteq> ap_view st" using step(4) by simp
      from step(3) [OF this] obtain es1 e1 es2 s1 s2 where "es = es1 @ e1 # es2" "ap_run passwd st es1 s1"
        "resp_accepted passwd e1 s1 s2" "ap_view st1 = ap_view s2" by (elim exE conjE) (rule that)
      then have "es @ [e] = es1 @ e1 # (es2 @ [e]) \<and> ap_run passwd st es1 s1 \<and>
          resp_accepted passwd e1 s1 s2 \<and> ap_view st2 = ap_view s2" using v by simp
      then show ?thesis by blast
    qed
  qed simp
  with that show thesis by blast
qed

end
