(* ===== verification/Ap_Answers.thy ===== *)
theory Ap_Answers
  imports Ap_Trust
begin

text \<open>
  What the access point answers, \<^verbatim>\<open>ap/process.c\<close>: the registration request for a broadcast and
  the connection after an accepted response, the properties of the registration, and an
  example run with one controller.
\<close>
section \<open>The answer to a broadcast\<close>

text \<open>The registration request that answers the broadcast \<open>brd\<close>.\<close>

definition reg_request :: "ap_env \<Rightarrow> byte list \<Rightarrow> ap_state \<Rightarrow> msg_ap_reg_t" where
  "reg_request env brd st = (fill_msg_header (my_mac st) (dec_ap_reg (e_mem env)) MSG_AP_REG
     (Some (acuuid (dec_head brd))) (chap_get_random (e_dev env)))\<lparr>ipv4 := my_addr st\<rparr>"

text \<open>What holds of an access point at all times: sizes of its fields and buffers.\<close>

definition ap_wf :: "ap_state \<Rightarrow> bool" where
  "ap_wf st \<longleftrightarrow> dll_wf (my_mac st) (ap_dll st) \<and> wf_sockaddr (my_addr st) \<and>
     length (random_map st) = LOCAL_AC_MAX \<and> rm_offset st < LOCAL_AC_MAX"

definition env_wf :: "ap_env \<Rightarrow> bool" where
  "env_wf env \<longleftrightarrow> e_malloc env \<and> e_eth_ok env \<and> sizeof_ap_reg \<le> length (e_mem env)"

lemma ap_wf_mac: "ap_wf st \<Longrightarrow> length (my_mac st) = ETH_ALEN"
  by (simp add: ap_wf_def dll_wf_def)

lemma reg_request_wf:
  assumes "ap_wf st" "sizeof_ap_reg \<le> length (e_mem env)" "80 \<le> length brd"
  shows "wf_head (reg_request env brd st)" "wf_sockaddr (ipv4 (reg_request env brd st))"
    "length (enc_ap_reg (reg_request env brd st)) = sizeof_ap_reg"
proof -
  have l: "length (chap (dec_head (e_mem env))) = CHAP_LEN" "length (acuuid (dec_head brd)) = UUID_LEN"
    using assms dec_head_lengths [of "e_mem env"] dec_head_lengths [of brd] by (simp_all add: sizeof_ap_reg_def)
  show w: "wf_head (reg_request env brd st)"
    using l ap_wf_mac [OF assms(1)]
    by (simp add: reg_request_def wf_head_def fill_msg_header_def Let_def)
  show s: "wf_sockaddr (ipv4 (reg_request env brd st))"
    using assms(1) by (simp add: reg_request_def ap_wf_def)
  show "length (enc_ap_reg (reg_request env brd st)) = sizeof_ap_reg"
    using w s by (simp add: enc_ap_reg_def sizeof_ap_reg_def)
qed

lemma proc_brd_reg_eq:
  assumes "ap_wf st" "env_wf env" "80 \<le> length brd"
  shows "\<exists>st'. proc_brd_reg passwd env brd st = Some (Inr st') \<and> ap_wf st' \<and>
     sent st' = sent st @ [Frame (eth_header (mac (dec_head brd)) (my_mac st) @
        chap_fill_msg_md5 passwd (enc_ap_reg (reg_request env brd st)) sizeof_ap_reg (random (dec_head brd)))] \<and>
     sysstat st' = sysstat st \<and> ap_links st' = ap_links st \<and>
     ring st' = ring (ring_put (mac (dec_head brd)) (chap_get_random (e_dev env)) st) \<and>
     rcvpkt (ap_dll st') = rcvpkt (ap_dll st) \<and> rcv_locked (ap_dll st') = rcv_locked (ap_dll st) \<and>
     ap_static st st'"
proof -
  let ?hw = "mac (dec_head brd)" and ?r = "chap_get_random (e_dev env)"
  let ?out = "chap_fill_msg_md5 passwd (enc_ap_reg (reg_request env brd st)) sizeof_ap_reg (random (dec_head brd))"
  have len: "length ?out = sizeof_ap_reg"
    using reg_request_wf(3) [OF assms(1) _ assms(3)] assms(2) by (simp add: env_wf_def sizeof_ap_reg_def)
  have wf: "dll_wf (my_mac st) (ap_dll st)" using assms(1) by (simp add: ap_wf_def)
  obtain dll' where d: "net_send MSG_PROTO_ETH (-1) ?hw ?out sizeof_ap_reg True (e_tcp env) (ap_dll st) =
      Some (Inr (0, [Frame (eth_header ?hw (my_mac st) @ ?out)], dll'))" "dll_wf (my_mac st) dll'"
    "rcvpkt dll' = rcvpkt (ap_dll st)" "rcv_locked dll' = rcv_locked (ap_dll st)"
    using net_send_eth [OF wf _ len, of ?hw "-1" "e_tcp env"] dec_head_lengths(3) [OF assms(3)]
    by (auto simp: dll_lens sizeof_ap_reg_def)
  have e: "e_malloc env" "e_eth_ok env" using assms(2) by (simp_all add: env_wf_def)
  let ?st = "(ring_put ?hw ?r st)\<lparr>ap_dll := dll',
      sent := sent st @ [Frame (eth_header ?hw (my_mac st) @ ?out)]\<rparr>"
  have "proc_brd_reg passwd env brd st = ap_send_eth env ?hw ?out sizeof_ap_reg (ring_put ?hw ?r st)"
    using e by (simp add: proc_brd_reg_def Let_def new_random_eq reg_request_def)
  then have eq: "proc_brd_reg passwd env brd st = Some (Inr ?st)"
    unfolding ap_send_eth_def using d(1) e by simp
  have w: "ap_wf ?st"
    using assms(1) d(2) by (simp add: ap_wf_def ring_put_def LOCAL_AC_MAX_def)
  show ?thesis
    unfolding eq using w d(3,4) by (simp add: ring_def ap_static_def ap_view_def)
qed

lemma get_random_ring: "ring st = ring st' \<Longrightarrow> get_random hw st = get_random hw st'"
  by (simp add: get_random_def ring_def)

lemma get_random_ring_put:
  assumes "ap_wf st" "rm_offset st + 1 < LOCAL_AC_MAX" "length hw = ETH_ALEN"
  shows "get_random hw (ring_put hw r st) = Inr r"
proof -
  have "length (random_map (ring_put hw r st)) = LOCAL_AC_MAX" "rm_offset (ring_put hw r st) = rm_offset st + 1"
    using assms by (simp_all add: ap_wf_def ring_put_def)
  then have g: "get_random hw (ring_put hw r st) =
      Inr (first_match hw (rotate (rm_offset st) (random_map (ring_put hw r st))))"
    using get_random_eq [of "ring_put hw r st" hw] assms(2) by simp
  have ne: "random_map (ring_put hw r st) \<noteq> []"
    using assms by (auto simp: ap_wf_def ring_put_def LOCAL_AC_MAX_def)
  then have "rotate (rm_offset st) (random_map (ring_put hw r st)) ! 0 = (r, hw)"
    using assms by (simp add: nth_rotate ap_wf_def ring_put_def)
  then obtain rms where "rotate (rm_offset st) (random_map (ring_put hw r st)) = (r, hw) # rms"
    using ne by (cases "rotate (rm_offset st) (random_map (ring_put hw r st))") auto
  then show ?thesis using g by simp
qed


section \<open>A response that is accepted\<close>

text \<open>\<open>m\<close> is a response that passes every check of \<^verbatim>\<open>proc_reg_resp\<close>.\<close>

definition resp_ok :: "byte list \<Rightarrow> ap_env \<Rightarrow> message_t \<Rightarrow> ap_state \<Rightarrow> bool" where
  "resp_ok passwd env m st \<longleftrightarrow> int sizeof_ac_reg_resp \<le> msg_len m \<and> msg_len m < 2 ^ 31 \<and>
     sizeof_ac_reg_resp \<le> length (data m) \<and> e_chap_malloc env \<and>
     (\<exists>rnd. get_random (mac (dec_head (data m))) st = Inr rnd \<and> authentic_resp passwd (data m) rnd)"

lemma resp_ok_accepts:
  assumes "resp_ok passwd env m st"
  shows "ap_msg_proc passwd env m st =
     Some (accept_resp env (dec_ac_reg_resp (zero_chap (data m))) st)"
proof -
  obtain rnd where r: "get_random (mac (dec_head (data m))) st = Inr rnd" "authentic_resp passwd (data m) rnd"
    using assms by (auto simp: resp_ok_def)
  have l: "20 \<le> length (data m)" using assms by (simp add: resp_ok_def sizeof_ac_reg_resp_def)
  let ?cmp = "chap_msg_cmp_md5 passwd (e_chap_malloc env) (data m) sizeof_ac_reg_resp rnd"
  have "snd ?cmp = 0"
    using r(2) assms l by (simp add: signed_accepted authentic_resp_def resp_ok_def)
  then have cmp: "?cmp = (zero_chap (data m), 0)"
    by (intro prod_eqI) simp_all
  have "\<not> (word_of_int (msg_len m) :: 64 word) < of_nat sizeof_ac_reg_resp"
    using assms by (intro msg_len_ok) (simp_all add: resp_ok_def)
  then have "proc_reg_resp passwd env m st = accept_resp env (dec_ac_reg_resp (zero_chap (data m))) st"
    using r(1) by (simp add: proc_reg_resp_def cmp)
  moreover have "msg_type (dec_head (data m)) = MSG_AC_REG_RESP"
    using r(2) by (simp add: authentic_resp_def)
  ultimately show ?thesis by (simp add: ap_msg_proc_def msg_types)
qed

text \<open>The kernel opens a new descriptor and connects it; the program registers it.\<close>

definition connects :: "ap_env \<Rightarrow> ap_state \<Rightarrow> ptr \<Rightarrow> bool" where
  "connects env st p \<longleftrightarrow> c_socket (e_connect env) \<ge> 0 \<and>
     (\<forall>r\<in>set (take 4 (c_setsockopt (e_connect env))). -1 \<le> r) \<and> c_connect (e_connect env) \<ge> 0 \<and>
     e_nonblock env \<and> e_node env = Some p \<and> nodes (ap_links st) p = None \<and>
     c_socket (e_connect env) \<notin> open_fds (ap_links st)"

lemma tcp_connect_ok:
  "s_addr a \<noteq> 0 \<Longrightarrow> connects env st p \<Longrightarrow>
   tcp_connect a (e_connect env) = (c_socket (e_connect env), [c_socket (e_connect env)], [])"
  by (auto simp: tcp_connect_def connects_def tcp_alive_def Let_def not_less dest!: bspec)

lemma ac_reconnect_ok:
  assumes "ss_sock (sysstat st) < 0" "s_addr (ss_server (sysstat st)) \<noteq> 0"
    and "connects env st p" "link_inv (ap_links st) ps"
  shows "\<exists>l. ac_reconnect env st = Inr (st\<lparr>sysstat := (sysstat st)\<lparr>ss_sock := c_socket (e_connect env)\<rparr>, ap_links := l\<rparr>) \<and>
     link_inv l (ps @ [p]) \<and> watched l = (watched (ap_links st))(c_socket (e_connect env) \<mapsto> p)"
proof -
  let ?c = "c_socket (e_connect env)"
  let ?l = "(ap_links st)\<lparr>open_fds := insert ?c (open_fds (ap_links st))\<rparr>"
  have w: "watched (ap_links st) ?c = None"
    using assms(3) by (intro link_inv_closed [OF assms(4)]) (simp add: connects_def)
  obtain l where l: "insert_sockarr ?c Net_netrcv True (Some p) ?l = Inr (Some p, l)"
    "link_inv l (ps @ [p])" "watched l = (watched (ap_links st))(?c \<mapsto> p)"
    using insert_sockarr_inv [OF link_inv_open [OF assms(4), of ?c], of p ?c Net_netrcv] assms(3) w
    by (auto simp: connects_def)
  then show ?thesis
    using assms(1,2,3) tcp_connect_ok [OF assms(2,3)]
    by (intro exI [of _ l]) (auto simp: ac_reconnect_def Let_def connects_def open_fd_def close_fds_def)
qed


lemma accept_resp_connects:
  assumes "ss_sock (sysstat st) < 0" "s_addr (acaddr msg) \<noteq> 0"
    and "connects env st p" "link_inv (ap_links st) ps"
  shows "\<exists>st'. accept_resp env msg st = Inr st' \<and> ss_sock (sysstat st') = c_socket (e_connect env) \<and>
     link_inv (ap_links st') (ps @ [p]) \<and>
     watched (ap_links st') = (watched (ap_links st))(c_socket (e_connect env) \<mapsto> p)"
proof -
  let ?st = "st\<lparr>sysstat := (sysstat st)\<lparr>ss_acuuid := strncpy UUID_LEN (acuuid msg), ss_dmac := mac msg,
      ss_server := acaddr msg\<rparr>\<rparr>"
  define st1 where "st1 = (if s_addr (apaddr msg) \<noteq> 0 then setaddr (e_setaddr env) (apaddr msg) ?st else ?st)"
  have st1: "ss_sock (sysstat st1) = ss_sock (sysstat st)" "ss_server (sysstat st1) = acaddr msg"
    "ap_links st1 = ap_links st"
    by (simp_all add: st1_def setaddr_def)
  then have "connects env st1 p" "link_inv (ap_links st1) ps" using assms(3,4) by (simp_all add: connects_def)
  then obtain l where l: "ac_reconnect env st1 =
      Inr (st1\<lparr>sysstat := (sysstat st1)\<lparr>ss_sock := c_socket (e_connect env)\<rparr>, ap_links := l\<rparr>)"
    "link_inv l (ps @ [p])" "watched l = (watched (ap_links st1))(c_socket (e_connect env) \<mapsto> p)"
    using ac_reconnect_ok [of st1 env p ps] st1 assms(1,2) by auto
  have "accept_resp env msg st = bind_res (ac_reconnect env st1) (\<lambda>st.
      Inr (st\<lparr>sysstat := (sysstat st)\<lparr>ss_isreg := 1\<rparr>\<rparr>))"
    using assms(1,2) by (simp add: accept_resp_def Let_def st1_def)
  then show ?thesis using l st1(3) by simp
qed

lemma accept_resp_connected:
  assumes "0 \<le> ss_sock (sysstat st)"
  shows "\<exists>st'. accept_resp env msg st = Inr st' \<and> ss_sock (sysstat st') = ss_sock (sysstat st) \<and>
     ap_links st' = close_fd (ss_sock (sysstat st)) (ap_links st)"
  using assms by (simp add: accept_resp_def Let_def ac_reconnect_def setaddr_def)

lemma broadcast_answer:
  assumes "ap_wf st" "env_wf env" "ss_isreg (sysstat st) = 0"
    and "msg_type (dec_head (data m)) = MSG_AC_BRD" "proto m = MSG_PROTO_ETH"
    and "int sizeof_ac_brd \<le> msg_len m" "msg_len m < 2 ^ 31" "sizeof_ac_brd \<le> length (data m)"
  shows "\<exists>st' out. ap_msg_proc passwd env m st = Some (Inr st') \<and>
     sent st' = sent st @ [Frame (eth_header (mac (dec_head (data m))) (my_mac st) @ out)] \<and>
     ring st' = ring (ring_put (mac (dec_head (data m))) (chap_get_random (e_dev env)) st) \<and>
     ap_wf st' \<and> sysstat st' = sysstat st \<and> ap_links st' = ap_links st \<and> length out = sizeof_ap_reg \<and>
     ap_static st st' \<and> rcv_locked (ap_dll st') = rcv_locked (ap_dll st) \<and>
     dec_ap_reg out = (reg_request env (data m) st)\<lparr>chap := slice 4 CHAP_LEN out\<rparr> \<and>
     snd (chap_msg_cmp_md5 passwd True out sizeof_ap_reg (random (dec_head (data m)))) = 0"
proof -
  let ?q = "reg_request env (data m) st"
  let ?out = "chap_fill_msg_md5 passwd (enc_ap_reg ?q) sizeof_ap_reg (random (dec_head (data m)))"
  have l: "80 \<le> length (data m)" using assms(8) by (simp add: sizeof_ac_brd_def)
  have m: "sizeof_ap_reg \<le> length (e_mem env)" using assms(2) by (simp add: env_wf_def)
  note wf = reg_request_wf [OF assms(1) m l]
  have "\<not> (word_of_int (msg_len m) :: 64 word) < of_nat sizeof_ac_brd"
    using assms(6,7) by (rule msg_len_ok)
  then have "ap_msg_proc passwd env m st = proc_brd_reg passwd env (data m) st"
    using assms(3,4,5) by (simp add: ap_msg_proc_def proc_brd_def)
  moreover note proc_brd_reg_eq [OF assms(1,2) l, of passwd]
  moreover note req_on_wire(1,2) [OF wf(1,2), of ?out passwd "[]", simplified, OF refl]
  moreover have "snd (chap_msg_cmp_md5 passwd True ?out sizeof_ap_reg (random (dec_head (data m)))) = 0"
    using wf(3) by (simp add: chap_fill_accepted sizeof_ap_reg_def)
  ultimately show ?thesis by auto
qed

lemma response_connects:
  assumes "resp_ok passwd env m st" "ss_sock (sysstat st) < 0"
    and "s_addr (acaddr (dec_ac_reg_resp (data m))) \<noteq> 0"
    and "link_inv (ap_links st) ps" "connects env st p"
  shows "\<exists>st'. ap_msg_proc passwd env m st = Some (Inr st') \<and>
     ap_view st' = resp_view (e_setaddr env) (data m) st \<and> ss_isreg (sysstat st') = 1 \<and>
     ss_sock (sysstat st') = c_socket (e_connect env) \<and> link_inv (ap_links st') (ps @ [p]) \<and>
     watched (ap_links st') = (watched (ap_links st))(c_socket (e_connect env) \<mapsto> p)"
proof -
  have l: "20 \<le> length (data m)" using assms(1) by (simp add: resp_ok_def sizeof_ac_reg_resp_def)
  have "s_addr (acaddr (dec_ac_reg_resp (zero_chap (data m)))) \<noteq> 0"
    using assms(3) dec_ac_reg_resp_zero_chap(1) [OF l] by simp
  from accept_resp_connects [OF assms(2) this assms(5,4)] obtain st' where
    st': "accept_resp env (dec_ac_reg_resp (zero_chap (data m))) st = Inr st'"
      "ss_sock (sysstat st') = c_socket (e_connect env)" "link_inv (ap_links st') (ps @ [p])"
      "watched (ap_links st') = (watched (ap_links st))(c_socket (e_connect env) \<mapsto> p)"
    by blast
  have v: "ap_view st' = resp_view (e_setaddr env) (data m) st"
    using accept_resp_view [OF st'(1)] l by simp
  then have "ss_isreg (sysstat st') = 1" by (simp add: ap_view_def resp_view_def Let_def)
  with st' v resp_ok_accepts [OF assms(1)] show ?thesis by simp
qed

section \<open>An example\<close>

definition ex_ap_mac :: "byte list" where "ex_ap_mac = [2, 0, 0, 0, 0, 1]"

definition ex_ap :: ap_state where
  "ex_ap = ap_init ex_ap_mac zero_sockaddr zero_sockaddr (init_pktbuf ex_ap_mac (replicate 1536 0)) (link_init {})"

definition ex_ap_env :: ap_env where
  "ex_ap_env = \<lparr>e_dev = ([7, 0, 0, 0], 0), e_malloc = True, e_mem = replicate 96 0, e_chap_malloc = True,
     e_eth_ok = True, e_tcp = [], e_connect = \<lparr>c_socket = 5, c_setsockopt = [], c_connect = 0\<rparr>,
     e_nonblock = True, e_node = Some 1, e_setaddr = True\<rparr>"

definition ex_brd_msg :: message_t where
  "ex_brd_msg = \<lparr>proto = MSG_PROTO_ETH, msg_len = 144, data = enc_ac_brd ex_brd @ replicate 368 0\<rparr>"

definition ex_server :: msg_ac_reg_resp_t where
  "ex_server = ex_resp\<lparr>acaddr := zero_sockaddr\<lparr>s_addr := 0x0100000A\<rparr>\<rparr>"

definition ex_resp_msg :: message_t where
  "ex_resp_msg = \<lparr>proto = MSG_PROTO_ETH, msg_len = 126,
     data = chap_fill_msg_md5 [119] (enc_ac_reg_resp ex_server @ replicate 386 0) sizeof_ac_reg_resp 7\<rparr>"

lemma ex_ap_wf: "ap_wf ex_ap"
proof -
  have "dll_wf ex_ap_mac (init_pktbuf ex_ap_mac (replicate 1536 0))"
    by (rule dll_wf_init) (simp_all add: ex_ap_mac_def ETH_ALEN_def dll_lens)
  then show ?thesis
    by (simp add: ap_wf_def ex_ap_def ap_init_def LOCAL_AC_MAX_def wf_sockaddr_def zero_sockaddr_def)
qed

lemma ex_env_wf: "env_wf ex_ap_env"
  by (simp add: env_wf_def ex_ap_env_def sizeof_ap_reg_def)

lemma ex_brd_head:
  "wf_head ex_brd" "dec_head (data ex_brd_msg) = msg_head_t.truncate ex_brd" "length (data ex_brd_msg) = 498"
proof -
  show w: "wf_head ex_brd" by (simp add: ex_brd_def wf_head_def msg_lens)
  show "dec_head (data ex_brd_msg) = msg_head_t.truncate ex_brd"
    using w by (simp add: ex_brd_msg_def enc_ac_brd_def)
  show "length (data ex_brd_msg) = 498"
    using w by (simp add: ex_brd_msg_def enc_ac_brd_def) (simp add: ex_brd_def)
qed

lemma ex_resp_data:
  "length (data ex_resp_msg) = 498" "mac (dec_head (data ex_resp_msg)) = [1, 2, 3, 4, 5, 6]"
  "authentic_resp [119] (data ex_resp_msg) 7"
  "s_addr (acaddr (dec_ac_reg_resp (data ex_resp_msg))) = 0x0100000A"
proof -
  have w: "wf_head ex_server" "wf_sockaddr (acaddr ex_server)" "wf_sockaddr (apaddr ex_server)"
    by (simp_all add: ex_server_def ex_resp_def wf_head_def msg_lens wf_sockaddr_def zero_sockaddr_def)
  have "data ex_resp_msg =
      chap_fill_msg_md5 [119] (enc_ac_reg_resp ex_server @ replicate 386 0) sizeof_ac_reg_resp 7"
    by (simp add: ex_resp_msg_def)
  note o = resp_on_wire [OF w this]
  show "length (data ex_resp_msg) = 498" using o(1) by (simp add: sizeof_ac_reg_resp_def)
  have "mac (dec_head (data ex_resp_msg)) = mac (dec_ac_reg_resp (data ex_resp_msg))" by simp
  then show "mac (dec_head (data ex_resp_msg)) = [1, 2, 3, 4, 5, 6]"
    unfolding o(2) by (simp add: ex_server_def ex_resp_def)
  show "s_addr (acaddr (dec_ac_reg_resp (data ex_resp_msg))) = 0x0100000A"
    unfolding o(2) by (simp add: ex_server_def)
  show "authentic_resp [119] (data ex_resp_msg) 7"
    by (rule o(3)) (simp add: ex_server_def ex_resp_def)
qed

text \<open>The example access point after it answered a broadcast of the example controller.\<close>

definition ex_challenged :: ap_state where
  "ex_challenged = ring_put [1, 2, 3, 4, 5, 6] 7 ex_ap"

lemma ex_offset: "rm_offset ex_ap = 0"
  by (simp add: ex_ap_def ap_init_def)

lemma ex_resp_ok: "ring st = ring ex_challenged \<Longrightarrow> resp_ok [119] ex_ap_env ex_resp_msg st"
proof -
  assume "ring st = ring ex_challenged"
  then have "get_random [1, 2, 3, 4, 5, 6] st = Inr 7"
    using get_random_ring_put [OF ex_ap_wf, of "[1, 2, 3, 4, 5, 6]" 7] get_random_ring [of st ex_challenged]
    by (simp add: ex_challenged_def ETH_ALEN_def LOCAL_AC_MAX_def ex_offset)
  then show ?thesis
    using ex_resp_data by (simp add: resp_ok_def sizeof_ac_reg_resp_def) (simp add: ex_resp_msg_def ex_ap_env_def)
qed

section \<open>Properties\<close>

text \<open>
  C3. Whom an access point trusts: whatever messages, reports and lost connections it saw
  since its start, if it is registered then the identity, the address and the server it
  holds are those of one response it received. That response carries the digest under the
  password for a challenge that the access point had handed out to the sender's address in
  answer to an earlier broadcast, or for the challenge zero.
\<close>

theorem registered_by_authentic_response:
  assumes "ap_run passwd (ap_init mc addr server dll links) es st" "ss_isreg (sysstat st) \<noteq> 0"
  shows "\<exists>es1 m env es2 st1 rnd. es = es1 @ Handle m env # es2 \<and>
     ap_run passwd (ap_init mc addr server dll links) es1 st1 \<and>
     ap_view st = resp_view (e_setaddr env) (data m) st1 \<and>
     authentic_resp passwd (data m) rnd \<and>
     (rnd = 0 \<or> challenged es1 (mac (dec_head (data m))) rnd)"
proof -
  have "ap_view st \<noteq> ap_view (ap_init mc addr server dll links)"
    using assms(2) by (auto simp: ap_view_def ap_init_def)
  then obtain es1 e es2 st1 st2 where es: "es = es1 @ e # es2"
    "ap_run passwd (ap_init mc addr server dll links) es1 st1"
    "resp_accepted passwd e st1 st2" "ap_view st = ap_view st2"
    using ap_run_ConsE [OF assms(1)] by metis
  then obtain m env rnd where m: "e = Handle m env" "DLL_PKT_DATALEN \<le> length (data m)"
    "get_random (mac (dec_head (data m))) st1 = Inr rnd" "authentic_resp passwd (data m) rnd"
    "ap_view st2 = resp_view (e_setaddr env) (data m) st1"
    by (auto simp: resp_accepted_def)
  have inv: "ring_inv es1 st1" by (rule ap_run_ring [OF es(2) ring_inv_init])
  have "rnd = 0 \<or> challenged es1 (mac (dec_head (data m))) rnd"
  proof (cases "rm_offset st1 = 0")
    case True
    then show ?thesis using m(3) by (simp add: get_random_zero)
  next
    case False
    let ?hw = "mac (dec_head (data m))" and ?rms = "rotate (rm_offset st1 - 1) (random_map st1)"
    have rnd: "rnd = first_match ?hw ?rms"
      using get_random_eq [of st1] inv False m(3) by (simp add: ring_inv_def)
    show ?thesis
    proof (cases "rnd = 0")
      case False
      then obtain hw where hw: "(rnd, hw) \<in> set (random_map st1)" "take ETH_ALEN hw = take ETH_ALEN ?hw"
        using first_match_in [of ?hw ?rms] rnd by auto
      moreover have "length ?hw = ETH_ALEN"
        using m(2) by (intro mac_dec_head_length) (simp add: dll_lens)
      ultimately show ?thesis using inv False by (auto simp: ring_inv_def)
    qed simp
  qed
  with es m show ?thesis by metis
qed

theorem registered_by_authentic_response_witness:
  "\<exists>es st. ap_run [119] ex_ap es st \<and> ss_isreg (sysstat st) \<noteq> 0 \<and>
     (\<exists>m env rnd. Handle m env \<in> set es \<and> authentic_resp [119] (data m) rnd)"
proof -
  have b: "ss_isreg (sysstat ex_ap) = 0" "msg_type (dec_head (data ex_brd_msg)) = MSG_AC_BRD"
    "proto ex_brd_msg = MSG_PROTO_ETH" "int sizeof_ac_brd \<le> msg_len ex_brd_msg" "msg_len ex_brd_msg < 2 ^ 31"
    "mac (dec_head (data ex_brd_msg)) = [1, 2, 3, 4, 5, 6]" "sizeof_ac_brd \<le> length (data ex_brd_msg)"
    unfolding ex_brd_head(2,3)
    by (simp_all add: msg_head_t.defs ex_brd_def ex_brd_msg_def ex_ap_def ap_init_def sizeof_ac_brd_def)
  obtain st1 where st1: "ap_msg_proc [119] ex_ap_env ex_brd_msg ex_ap = Some (Inr st1)"
    "ring st1 = ring (ring_put [1, 2, 3, 4, 5, 6] (chap_get_random (e_dev ex_ap_env)) ex_ap)"
    "sysstat st1 = sysstat ex_ap" "ap_links st1 = ap_links ex_ap"
    using broadcast_answer [OF ex_ap_wf ex_env_wf b(1-5,7), of "[119]"] b(6) by auto
  have "chap_get_random (e_dev ex_ap_env) = 7"
    by (simp add: chap_get_random_def ex_ap_env_def of_le32_def put_at_def le32_def)
  then have ring: "ring st1 = ring ex_challenged" using st1(2) by (simp add: ex_challenged_def)
  have links: "ap_links st1 = link_init {}" "ss_sock (sysstat st1) = -1"
    using st1(3,4) by (simp_all add: ex_ap_def ap_init_def)
  then have inv: "link_inv (ap_links st1) []" by (simp add: link_inv_init)
  have "connects ex_ap_env st1 1" using links by (simp add: connects_def ex_ap_env_def link_init_def)
  then obtain st2 where st2: "ap_msg_proc [119] ex_ap_env ex_resp_msg st1 = Some (Inr st2)"
    "ss_isreg (sysstat st2) = 1"
    using response_connects [OF ex_resp_ok [OF ring] _ _ inv, of 1] links ex_resp_data(4) by auto
  have "ap_run [119] ex_ap ([] @ [Handle ex_brd_msg ex_ap_env] @ [Handle ex_resp_msg ex_ap_env]) st2"
    unfolding append_assoc [symmetric]
    by (rule ap_run.step [OF ap_run.step [OF ap_run.start ap_step.handle [OF _ st1(1)]] ap_step.handle [OF _ st2(1)]])
      (simp_all add: ex_brd_head(3) ex_resp_data(1) dll_lens)
  moreover from registered_by_authentic_response [OF this [unfolded ex_ap_def], folded ex_ap_def] st2(2)
  have "\<exists>m env rnd. Handle m env \<in> set ([] @ [Handle ex_brd_msg ex_ap_env] @ [Handle ex_resp_msg ex_ap_env]) \<and>
      authentic_resp [119] (data m) rnd"
    by (simp only:) (metis in_set_conv_decomp zero_neq_one)
  ultimately show ?thesis using st2(2) by (metis zero_neq_one)
qed

text \<open>
  C11. Answering a broadcast: an access point that is not registered stores a fresh challenge
  for the sender and sends one frame to it. The frame carries a registration request with its
  own address, the challenge and the controller's UUID, under a digest that the check of the
  controller accepts for the challenge of the broadcast.
\<close>

theorem broadcast_answered:
  assumes "ap_wf st" "env_wf env" "ss_isreg (sysstat st) = 0"
    and "msg_type (dec_head (data m)) = MSG_AC_BRD" "proto m = MSG_PROTO_ETH"
    and "int sizeof_ac_brd \<le> msg_len m" "msg_len m < 2 ^ 31" "sizeof_ac_brd \<le> length (data m)"
  shows "\<exists>st' out. ap_msg_proc passwd env m st = Some (Inr st') \<and>
     sent st' = sent st @ [Frame (eth_header (mac (dec_head (data m))) (my_mac st) @ out)] \<and>
     ring st' = ring (ring_put (mac (dec_head (data m))) (chap_get_random (e_dev env)) st) \<and>
     ap_wf st' \<and> sysstat st' = sysstat st \<and> ap_links st' = ap_links st \<and> length out = sizeof_ap_reg \<and>
     dec_ap_reg out = (reg_request env (data m) st)\<lparr>chap := slice 4 CHAP_LEN out\<rparr> \<and>
     snd (chap_msg_cmp_md5 passwd True out sizeof_ap_reg (random (dec_head (data m)))) = 0"
  using broadcast_answer [OF assms, of passwd] by blast

theorem broadcast_answered_witness:
  "\<exists>st' out. ap_msg_proc [119] ex_ap_env ex_brd_msg ex_ap = Some (Inr st') \<and>
     sent st' = [Frame (eth_header [1, 2, 3, 4, 5, 6] ex_ap_mac @ out)] \<and>
     snd (chap_msg_cmp_md5 [119] True out sizeof_ap_reg 7) = 0"
proof -
  have "ss_isreg (sysstat ex_ap) = 0" "sent ex_ap = []" "my_mac ex_ap = ex_ap_mac"
    by (simp_all add: ex_ap_def ap_init_def)
  moreover have "msg_type (dec_head (data ex_brd_msg)) = MSG_AC_BRD" "proto ex_brd_msg = MSG_PROTO_ETH"
    "msg_len ex_brd_msg = 144" "mac (dec_head (data ex_brd_msg)) = [1, 2, 3, 4, 5, 6]"
    "random (dec_head (data ex_brd_msg)) = 7"
    unfolding ex_brd_head(2) by (simp_all add: msg_head_t.defs ex_brd_def ex_brd_msg_def)
  ultimately show ?thesis
    using broadcast_answered [OF ex_ap_wf ex_env_wf, of ex_brd_msg "[119]"] ex_brd_head(3)
    by (simp add: sizeof_ac_brd_def) blast
qed

text \<open>
  C13. Accepting a response: a response that passes the length and digest checks, received
  while no connection is open, sets the identity, the address and the server of the
  controller, marks the access point registered, and connects to the server: the new socket
  is registered with the event loop, in a list that keeps its invariant.
\<close>

theorem response_registers_and_connects:
  assumes "resp_ok passwd env m st" "ss_sock (sysstat st) < 0"
    and "s_addr (acaddr (dec_ac_reg_resp (data m))) \<noteq> 0"
    and "link_inv (ap_links st) ps" "connects env st p"
  shows "\<exists>st'. ap_msg_proc passwd env m st = Some (Inr st') \<and>
     ap_view st' = resp_view (e_setaddr env) (data m) st \<and> ss_isreg (sysstat st') = 1 \<and>
     ss_sock (sysstat st') = c_socket (e_connect env) \<and> link_inv (ap_links st') (ps @ [p]) \<and>
     watched (ap_links st') = (watched (ap_links st))(c_socket (e_connect env) \<mapsto> p)"
  using assms by (rule response_connects)

theorem response_registers_and_connects_witness:
  "\<exists>st'. ap_msg_proc [119] ex_ap_env ex_resp_msg ex_challenged = Some (Inr st') \<and>
     ss_isreg (sysstat st') = 1 \<and> ss_sock (sysstat st') = 5 \<and> watched (ap_links st') 5 = Some 1"
proof -
  have l: "ap_links ex_challenged = link_init {}" "ss_sock (sysstat ex_challenged) = -1"
    by (simp_all add: ex_challenged_def ex_ap_def ap_init_def)
  then have inv: "link_inv (ap_links ex_challenged) []" by (simp add: link_inv_init)
  have "connects ex_ap_env ex_challenged 1"
    using l by (simp add: connects_def ex_ap_env_def link_init_def)
  moreover have "c_socket (e_connect ex_ap_env) = 5" by (simp add: ex_ap_env_def)
  ultimately show ?thesis
    using response_registers_and_connects [OF ex_resp_ok [OF refl], of "[]" 1] l inv ex_resp_data(4)
    by (auto simp: link_init_def)
qed

text \<open>
  Registering again while connected cuts the connection: the socket is closed but its
  number is kept, so \<^verbatim>\<open>ac_reconnect\<close> takes it for the connection of another thread and does
  nothing. The access point counts as registered with a closed socket, and the node of that
  socket stays in the list although nothing watches it any more.
\<close>

theorem reregistration_keeps_closed_socket:
  assumes "resp_ok passwd env m st" "0 \<le> ss_sock (sysstat st)"
  shows "\<exists>st'. ap_msg_proc passwd env m st = Some (Inr st') \<and> ss_isreg (sysstat st') = 1 \<and>
     ss_sock (sysstat st') = ss_sock (sysstat st) \<and>
     ss_sock (sysstat st') \<notin> open_fds (ap_links st') \<and>
     watched (ap_links st') (ss_sock (sysstat st')) = None \<and>
     nodes (ap_links st') = nodes (ap_links st)"
proof -
  have l: "20 \<le> length (data m)" using assms(1) by (simp add: resp_ok_def sizeof_ac_reg_resp_def)
  obtain st' where st': "accept_resp env (dec_ac_reg_resp (zero_chap (data m))) st = Inr st'"
    "ss_sock (sysstat st') = ss_sock (sysstat st)"
    "ap_links st' = close_fd (ss_sock (sysstat st)) (ap_links st)"
    using accept_resp_connected [OF assms(2)] by blast
  have "ss_isreg (sysstat st') = 1"
    using accept_resp_view [OF st'(1)] by (simp add: ap_view_def resp_view_def Let_def)
  with st' resp_ok_accepts [OF assms(1)] show ?thesis by (simp add: close_fd_def)
qed

theorem reregistration_keeps_closed_socket_witness:
  "\<exists>st'. ap_msg_proc [119] ex_ap_env ex_resp_msg
       (ex_challenged\<lparr>sysstat := (sysstat ex_challenged)\<lparr>ss_sock := 5\<rparr>\<rparr>) = Some (Inr st') \<and>
     ss_sock (sysstat st') = 5 \<and> 5 \<notin> open_fds (ap_links st')"
proof -
  let ?st = "ex_challenged\<lparr>sysstat := (sysstat ex_challenged)\<lparr>ss_sock := 5\<rparr>\<rparr>"
  have "ring ?st = ring ex_challenged" by (simp add: ring_def)
  from reregistration_keeps_closed_socket [OF ex_resp_ok [OF this]] show ?thesis by auto
qed

text \<open>
  The lookup of a challenge in every state a run can reach: the ring is searched from the
  newest entry and then from the oldest on, and zero is returned when the address has none.
  After every tenth challenge, and before the first, the search starts before the array.
\<close>

theorem get_random_search:
  assumes "ap_run passwd (ap_init mc addr server dll links) es st"
  shows "get_random hw st =
     (if rm_offset st = 0 then Inl OutOfBounds
      else Inr (first_match hw (rotate (rm_offset st - 1) (random_map st))))"
  using ap_run_ring [OF assms ring_inv_init] get_random_eq [of st hw] get_random_zero [of st hw]
  by (simp add: ring_inv_def)

theorem get_random_search_witness:
  "get_random [1, 2, 3, 4, 5, 6] (ap_init [] zero_sockaddr zero_sockaddr dll links) = Inl OutOfBounds"
  using get_random_search [OF ap_run.start, of "[1, 2, 3, 4, 5, 6]" "[]" zero_sockaddr zero_sockaddr dll links]
  by (simp add: ap_init_def)

text \<open>
  C21. A registration response of the right length that arrives when no challenge was handed
  out since the ring last started over, for instance before any broadcast, reads before the
  array, whatever its digest.
\<close>

theorem response_before_challenge_faults:
  assumes "rm_offset st = 0" "msg_type (dec_head (data m)) = MSG_AC_REG_RESP"
    and "int sizeof_ac_reg_resp \<le> msg_len m" "msg_len m < 2 ^ 31"
  shows "ap_msg_proc passwd env m st = Some (Inl OutOfBounds)"
  using assms msg_len_ok [OF assms(3,4)]
  by (simp add: ap_msg_proc_def msg_types proc_reg_resp_def get_random_zero)

theorem response_before_challenge_faults_witness:
  "ap_msg_proc [119] ex_ap_env ex_resp_msg ex_ap = Some (Inl OutOfBounds)"
proof (rule response_before_challenge_faults [OF ex_offset])
  show "msg_type (dec_head (data ex_resp_msg)) = MSG_AC_REG_RESP"
    using ex_resp_data(3) by (simp add: authentic_resp_def)
qed (simp_all add: ex_resp_msg_def sizeof_ac_reg_resp_def)

text \<open>
  With two controllers the wrong challenge is found: when each of them broadcasts twice in
  turn, the search for the first one returns its first challenge, not its last, so the
  response to its last broadcast fails the digest check.
\<close>

theorem get_random_two_controllers:
  assumes "length a = ETH_ALEN" "length b = ETH_ALEN" "a \<noteq> b" "a \<noteq> replicate ETH_ALEN 0"
    and "random_map st = replicate LOCAL_AC_MAX (0, replicate ETH_ALEN 0)" "rm_offset st = 0"
  shows "get_random a (ring_put b s2 (ring_put a r2 (ring_put b s1 (ring_put a r1 st)))) = Inr r1"
proof -
  have rep: "replicate 10 z = [z, z, z, z, z, z, z, z, z, z]" for z :: "u32 \<times> byte list"
    by (simp add: numeral_eq_Suc)
  have upd3: "(x # y # z # w # ws)[3 := v] = x # y # z # v # ws" for x y z w v :: "u32 \<times> byte list" and ws
    by (simp add: eval_nat_numeral)
  have rot3: "rotate 3 (x # y # z # ws) = ws @ [x, y, z]" for x y z :: "u32 \<times> byte list" and ws
    by (simp add: eval_nat_numeral)
  let ?z = "(0, replicate ETH_ALEN 0) :: u32 \<times> byte list"
  define st1 st2 st3 st4 where st: "st1 = ring_put a r1 st" "st2 = ring_put b s1 st1"
    "st3 = ring_put a r2 st2" "st4 = ring_put b s2 st3"
  have st1: "random_map st1 = [(r1, a), ?z, ?z, ?z, ?z, ?z, ?z, ?z, ?z, ?z]" "rm_offset st1 = 1"
    using assms(1,5,6) rep [of ?z] by (simp_all add: st(1) ring_put_def LOCAL_AC_MAX_def)
  have st2: "random_map st2 = [(r1, a), (s1, b), ?z, ?z, ?z, ?z, ?z, ?z, ?z, ?z]" "rm_offset st2 = 2"
    using assms(2) st1 by (simp_all add: st(2) ring_put_def LOCAL_AC_MAX_def)
  have st3: "random_map st3 = [(r1, a), (s1, b), (r2, a), ?z, ?z, ?z, ?z, ?z, ?z, ?z]" "rm_offset st3 = 3"
    using assms(1) st2 by (simp_all add: st(3) ring_put_def LOCAL_AC_MAX_def numeral_2_eq_2)
  have st4: "random_map st4 = [(r1, a), (s1, b), (r2, a), (s2, b), ?z, ?z, ?z, ?z, ?z, ?z]" "rm_offset st4 = 4"
    using assms(2) st3 upd3 by (simp_all add: st(4) ring_put_def LOCAL_AC_MAX_def)
  then have "rotate (rm_offset st4 - 1) (random_map st4) = rotate 3 [(r1, a), (s1, b), (r2, a), (s2, b), ?z, ?z, ?z, ?z, ?z, ?z]"
    by simp
  also have "rotate 3 [(r1, a), (s1, b), (r2, a), (s2, b), ?z, ?z, ?z, ?z, ?z, ?z] =
      [(s2, b), ?z, ?z, ?z, ?z, ?z, ?z, (r1, a), (s1, b), (r2, a)]"
    by (simp add: rot3)
  finally have "get_random a st4 = Inr r1"
    using get_random_eq [of st4 a] st4 assms(1,2,4)
    by (simp add: LOCAL_AC_MAX_def assms(3) [symmetric] eq_commute [of b a])
  then show ?thesis by (simp add: st)
qed

theorem get_random_two_controllers_witness:
  "get_random [1, 2, 3, 4, 5, 6] (ring_put [6, 5, 4, 3, 2, 1] 40 (ring_put [1, 2, 3, 4, 5, 6] 30
     (ring_put [6, 5, 4, 3, 2, 1] 20 (ring_put [1, 2, 3, 4, 5, 6] 10 ex_ap)))) = Inr 10"
proof (rule get_random_two_controllers)
  show "random_map ex_ap = replicate LOCAL_AC_MAX (0, replicate ETH_ALEN 0)"
    by (simp add: ex_ap_def ap_init_def)
  show "[1, 2, 3, 4, 5, 6] \<noteq> replicate ETH_ALEN (0 :: byte)" by (simp add: ETH_ALEN_def numeral_eq_Suc)
qed (simp_all add: ETH_ALEN_def ex_offset)

end
