(* ===== verification/Ac_Process.thy ===== *)
theory Ac_Process
  imports Chap Link Ac_Travel Resource
begin

text \<open>
  The controller, \<^verbatim>\<open>ac/process.c\<close> and the receive and broadcast threads of \<^verbatim>\<open>ac/net.c\<close>: the
  check and the answer of a registration, the command that answers a status report, the
  dispatch of a message, the loss of an access point, and what a received frame or stream
  does to the table of access points.
\<close>

section \<open>State\<close>

datatype ac_func = Ac_dllrecv | Ac_netrcv

text \<open>
  \<open>ac_random\<close> and \<open>ac_uuid\<close> are \<^verbatim>\<open>struct ac_t ac\<close>; \<open>ac_mac\<close> and \<open>ac_addr\<close> are \<^verbatim>\<open>argument.mac\<close> and
  \<^verbatim>\<open>argument.addr\<close>. \<open>ac_sent\<close> collects what was put on the wire, newest last.
\<close>

record ac_state =
  ac_random :: u32
  ac_uuid :: "byte list"
  ac_mac :: "byte list"
  ac_addr :: sockaddr_in
  ap_reg_cnt :: u32
  ac_pool :: ippool_t
  ac_dll :: dll_state
  ac_links :: "ac_func link_state"
  ac_sent :: "wire list"

text \<open>
  What a handler gets from outside: whether the allocations succeed, the content of fresh
  memory, the bytes of \<^verbatim>\<open>/dev/random\<close>, and the answers of the kernel.
\<close>

record ac_env =
  a_chap_malloc :: bool
  a_calloc :: bool
  a_dev :: dev_read
  a_eth_ok :: bool
  a_tcp :: "send_answer list"
  a_cmd_malloc :: bool
  a_mem :: "byte list option"

text \<open>
  \<^verbatim>\<open>ac_init\<close>: \<open>out\<close> is what \<^verbatim>\<open>fread\<close> delivers of the output of the command, at most 49 bytes. The
  last of them is overwritten; without output the process exits.
\<close>

definition ac_init_uuid :: "byte list \<Rightarrow> byte list res" where
  "ac_init_uuid out =
     (let buf = put_at 0 (take (UUID_LEN - 1) out) (replicate UUID_LEN 0);
          size = length (take (UUID_LEN - 1) out)
      in if size = 0 then Inl ProcessExit else Inr (buf[size - 1 := 0]))"

section \<open>Registration\<close>

text \<open>The answer of a request: the record of the packet, before and after the digest.\<close>

definition ac_resp :: "ac_state \<Rightarrow> u32 \<Rightarrow> sockaddr_in option \<Rightarrow> msg_ac_reg_resp_t" where
  "ac_resp st rnd ip =
     (let resp = dec_ac_reg_resp (replicate sizeof_ac_reg_resp 0);
          resp = fill_msg_header (ac_mac st) resp MSG_AC_REG_RESP (Some (ac_uuid st)) rnd;
          resp = resp\<lparr>acaddr := ac_addr st\<rparr>
      in case ip of None \<Rightarrow> resp | Some a \<Rightarrow> resp\<lparr>apaddr := a\<rparr>)"

definition ac_net_send :: "ac_env \<Rightarrow> int \<Rightarrow> int \<Rightarrow> byte list \<Rightarrow> byte list \<Rightarrow> nat \<Rightarrow> ac_state \<Rightarrow>
    (int \<times> ac_state) res option" where
  "ac_net_send env prot sock dmac msg len st =
     bind_ro (net_send prot sock dmac msg len (a_eth_ok env) (a_tcp env) (ac_dll st))
       (\<lambda>(r, w, dll). Some (Inr (r, st\<lparr>ac_dll := dll, ac_sent := ac_sent st @ w\<rparr>)))"

text \<open>
  The part behind the digest check. \<open>debug_build\<close> tells whether \<^verbatim>\<open>DEBUG\<close> is defined, as the
  Makefile does: then \<^verbatim>\<open>pr_ipv4\<close> reads the address it is given, also a null pointer.
\<close>

definition ap_reg_lease :: "bool \<Rightarrow> byte list \<Rightarrow> ac_env \<Rightarrow> message_t \<Rightarrow> msg_ap_reg_t \<Rightarrow> ac_state \<times> ap_t \<Rightarrow>
    (ac_state \<times> ap_t) res option" where
  "ap_reg_lease debug_build passwd env m msg sa =
     (let (st, a) = sa in
      bind_ro (res_ip_conflict (ipv4 msg) (mac msg) (ac_pool st)) (\<lambda>c.
        let addr = (if c \<noteq> 0 then None else Some (ipv4 msg)) in
        if debug_build \<and> addr = None then Some (Inl NullDeref)
        else bind_ro (res_ip_alloc addr (mac msg) (ac_pool st)) (\<lambda>(ip, pool).
          if debug_build \<and> ip = None then Some (Inl NullDeref)
          else let st = st\<lparr>ac_pool := pool\<rparr> in
            if \<not> a_calloc env then Some (Inr (st, a))
            else let a = a\<lparr>ap_random := chap_get_random (a_dev env)\<rparr> in
              bind_ro (case ip of None \<Rightarrow> Some (Inr None)
                       | Some p \<Rightarrow> Some (bind_res (ip_at pool p) (\<lambda>i. Inr (Some (ip_ipv4 i))))) (\<lambda>ip4.
                let out = chap_fill_msg_md5 passwd (enc_ac_reg_resp (ac_resp st (ap_random a) ip4))
                            sizeof_ac_reg_resp (random msg) in
                bind_ro (ac_net_send env (proto m) (ap_sock a) (mac msg) out sizeof_ac_reg_resp st)
                  (\<lambda>(_, st). Some (Inr (st\<lparr>ap_reg_cnt := ap_reg_cnt st + 1\<rparr>, a)))))))"

definition ap_reg :: "bool \<Rightarrow> byte list \<Rightarrow> ac_env \<Rightarrow> message_t \<Rightarrow> ac_state \<times> ap_t \<Rightarrow>
    (ac_state \<times> ap_t) res option" where
  "ap_reg debug_build passwd env m sa =
     (if (word_of_int (msg_len m) :: 64 word) < of_nat sizeof_ap_reg then Some (Inr sa)
      else let (bytes, differs) =
            chap_msg_cmp_md5 passwd (a_chap_malloc env) (data m) sizeof_ap_reg (ac_random (fst sa)) in
        if differs \<noteq> 0 then Some (Inr sa)
        else ap_reg_lease debug_build passwd env m (dec_ap_reg bytes) sa)"

section \<open>Status report\<close>

definition ap_lost :: "int \<Rightarrow> ac_state \<Rightarrow> ac_state res option" where
  "ap_lost sock st =
     bind_ro (delete_sockarr sock (ac_links st)) (\<lambda>l. Some (Inr (st\<lparr>ac_links := l\<rparr>)))"

text \<open>
  The SSID of the report is printed up to its NUL; \<^verbatim>\<open>strcpy\<close> writes to the memory of the command
  before it is tested for null. \<open>cmd_bytes\<close> is \<^verbatim>\<open>cmdtest;\<close>. The packet lies in memory from
  \<^verbatim>\<open>malloc\<close>, whose content stays in the digest field.
\<close>

definition cmd_bytes :: "byte list" where
  "cmd_bytes = [99, 109, 100, 116, 101, 115, 116, 59]"

definition ap_status_report :: "ac_env \<Rightarrow> message_t \<Rightarrow> ac_state \<times> ap_t \<Rightarrow>
    (ac_state \<times> ap_t) res option" where
  "ap_status_report env m sa =
     (let (st, a) = sa; totallen = sizeof_head + length cmd_bytes in
      if 0 \<notin> set (drop (sizeof_head + 4) (data m)) then Some (Inl OutOfBounds)
      else if \<not> a_cmd_malloc env then Some (Inl NullDeref)
      else if \<not> totallen \<le> NET_PKT_DATALEN then Some (Inl AssertFail)
      else case a_mem env of
        None \<Rightarrow> Some (Inr sa)
      | Some mem \<Rightarrow>
          let head = fill_msg_header (ac_mac st) (dec_head mem) MSG_AC_CMD (Some (ac_uuid st))
                       (random (dec_head (data m)));
              out = put_at sizeof_head cmd_bytes (put_at 0 (enc_head head) mem) in
          bind_ro (tcp_sendpkt (ap_sock a) out totallen (a_tcp env)) (\<lambda>(ret, bs).
            let st = st\<lparr>ac_sent := ac_sent st @ (if bs = [] then [] else [Stream (ap_sock a) bs])\<rparr> in
            bind_ro (if ret \<le> 0 then ap_lost (ap_sock a) st else Some (Inr st))
              (\<lambda>st. Some (Inr (st, a)))))"

section \<open>The handler of a message\<close>

definition ac_uuid_equ :: "byte list \<Rightarrow> byte list \<Rightarrow> bool" where
  "ac_uuid_equ src dest \<longleftrightarrow> strncmp_eq (UUID_LEN - 1) src dest"

definition is_mine :: "message_t \<Rightarrow> ac_state \<Rightarrow> bool" where
  "is_mine m st =
     (let head = dec_head (data m) in
      if (word_of_int (msg_len m) :: 64 word) < of_nat sizeof_head then False
      else if \<not> ac_uuid_equ (acuuid head) (ac_uuid st) \<and> msg_type head = MSG_AP_RESP then False
      else True)"

definition ac_msg_proc :: "bool \<Rightarrow> byte list \<Rightarrow> ac_env \<Rightarrow> message_t \<Rightarrow> ac_state \<times> ap_t \<Rightarrow>
    (ac_state \<times> ap_t) res option" where
  "ac_msg_proc debug_build passwd env m sa =
     (if \<not> is_mine m (fst sa) then Some (Inr sa)
      else let ty = msg_type (dec_head (data m)) in
        if ty = MSG_AP_REG then ap_reg debug_build passwd env m sa
        else if ty = MSG_AP_STATUS then ap_status_report env m sa
        else Some (Inr sa))"

section \<open>The broadcast\<close>

text \<open>
  One round of the thread \<^verbatim>\<open>net_dllbrd\<close>. The packet \<open>mem\<close> comes from \<^verbatim>\<open>malloc\<close> before the first round;
  only its header is written, the digest field and \<^verbatim>\<open>takeover\<close> keep what the memory held.
\<close>

definition net_dllbrd :: "byte list \<Rightarrow> dev_read \<Rightarrow> bool \<Rightarrow> ac_state \<Rightarrow> (byte list \<times> ac_state) res" where
  "net_dllbrd mem dev ok st =
     (let st = st\<lparr>ac_random := chap_get_random dev\<rparr>;
          head = fill_msg_header (ac_mac st) (dec_head mem) MSG_AC_BRD (Some (ac_uuid st)) (ac_random st);
          mem = put_at 0 (enc_head head) mem
      in bind_res (dll_brdcast mem sizeof_ac_brd ok (ac_dll st)) (\<lambda>(_, f, dll).
           Inr (mem, st\<lparr>ac_dll := dll,
             ac_sent := ac_sent st @ (case f of None \<Rightarrow> [] | Some fr \<Rightarrow> [Frame fr])\<rparr>)))"

end
