(* ===== verification/Ac_Trust.thy ===== *)
theory Ac_Trust
  imports Ac_Process
begin

text \<open>
  Whom the controller gives an address, \<^verbatim>\<open>ac/process.c\<close>: what a step changes, the runs of the
  controller as a step relation, the answer to an authentic request, the crash on a
  conflicting one, and an example.
\<close>

section \<open>A request that is accepted\<close>

definition ac_wf :: "ac_state \<Rightarrow> bool" where
  "ac_wf st \<longleftrightarrow> dll_wf (ac_mac st) (ac_dll st) \<and> wf_sockaddr (ac_addr st) \<and>
     length (ac_uuid st) = UUID_LEN"

text \<open>\<open>m\<close> is a registration request that passes the length and digest checks.\<close>

definition req_ok :: "byte list \<Rightarrow> ac_env \<Rightarrow> message_t \<Rightarrow> ac_state \<Rightarrow> bool" where
  "req_ok passwd env m st \<longleftrightarrow> int sizeof_ap_reg \<le> msg_len m \<and> msg_len m < 2 ^ 31 \<and>
     sizeof_ap_reg \<le> length (data m) \<and> a_chap_malloc env \<and>
     authentic_req passwd (data m) (ac_random st)"

lemma ap_reg_split:
  "ap_reg debug_build passwd env m (st, a) =
     (if (word_of_int (msg_len m) :: 64 word) < of_nat sizeof_ap_reg then Some (Inr (st, a))
      else if snd (chap_msg_cmp_md5 passwd (a_chap_malloc env) (data m) sizeof_ap_reg (ac_random st)) \<noteq> 0
      then Some (Inr (st, a))
      else ap_reg_lease debug_build passwd env m (dec_ap_reg (zero_chap (data m))) (st, a))"
proof -
  obtain d where d: "chap_msg_cmp_md5 passwd (a_chap_malloc env) (data m) sizeof_ap_reg (ac_random st) =
      (zero_chap (data m), d)"
    using fst_chap_msg_cmp [of passwd "a_chap_malloc env" "data m" sizeof_ap_reg "ac_random st"]
    by (cases "chap_msg_cmp_md5 passwd (a_chap_malloc env) (data m) sizeof_ap_reg (ac_random st)") simp
  then show ?thesis by (simp add: ap_reg_def)
qed

lemma req_ok_accepts:
  assumes "req_ok passwd env m st"
  shows "ac_msg_proc debug_build passwd env m (st, a) =
     ap_reg_lease debug_build passwd env m (dec_ap_reg (zero_chap (data m))) (st, a)"
proof -
  have l: "20 \<le> length (data m)" and au: "authentic_req passwd (data m) (ac_random st)"
    using assms by (simp_all add: req_ok_def sizeof_ap_reg_def)
  have len: "\<not> (word_of_int (msg_len m) :: 64 word) < of_nat sizeof_ap_reg"
    "\<not> (word_of_int (msg_len m) :: 64 word) < of_nat sizeof_head"
    using assms msg_len_ok [of sizeof_ap_reg "msg_len m"] msg_len_ok [of sizeof_head "msg_len m"]
    by (simp_all add: req_ok_def sizeof_ap_reg_def sizeof_head_def)
  have "snd (chap_msg_cmp_md5 passwd (a_chap_malloc env) (data m) sizeof_ap_reg (ac_random st)) = 0"
    using au assms l by (simp add: signed_accepted authentic_req_def req_ok_def)
  then show ?thesis
    using len au by (simp add: ac_msg_proc_def is_mine_def Let_def authentic_req_def ap_reg_split msg_types)
qed

section \<open>What a step changes\<close>

text \<open>
  A step keeps the identity of the controller and changes the pool by at most one lease, to the
  sender of an authentic request.
\<close>

definition ac_ident :: "ac_state \<Rightarrow> u32 \<times> byte list \<times> byte list \<times> sockaddr_in" where
  "ac_ident st = (ac_random st, ac_uuid st, ac_mac st, ac_addr st)"

lemma ac_net_send_frame:
  "ac_net_send env prot sock dmac msg len st = Some (Inr (r, st')) \<Longrightarrow>
   ac_ident st' = ac_ident st \<and> ac_pool st' = ac_pool st"
  by (auto simp: ac_net_send_def bind_ro_Inr_iff ac_ident_def)

lemma ap_lost_frame:
  "ap_lost sock st = Some (Inr st') \<Longrightarrow> ac_ident st' = ac_ident st \<and> ac_pool st' = ac_pool st"
  by (auto simp: ap_lost_def bind_ro_Inr_iff ac_ident_def)

lemma ap_status_frame:
  "ap_status_report env m (st, a) = Some (Inr (st', a')) \<Longrightarrow>
   ac_ident st' = ac_ident st \<and> ac_pool st' = ac_pool st"
  unfolding ap_status_report_def Let_def
  by (auto simp: bind_ro_Inr_iff ac_ident_def split: if_splits option.splits dest!: ap_lost_frame)

lemma ap_reg_lease_frame:
  assumes "ap_reg_lease debug_build passwd env m msg (st, a) = Some (Inr (st', a'))"
  shows "ac_ident st' = ac_ident st \<and>
     (\<exists>w ip. res_ip_alloc w (mac msg) (ac_pool st) = Some (Inr (ip, ac_pool st')))"
proof -
  obtain c where c: "res_ip_conflict (ipv4 msg) (mac msg) (ac_pool st) = Some (Inr c)"
    using assms by (auto simp: ap_reg_lease_def bind_ro_Inr_iff)
  define w where "w = (if c \<noteq> 0 then None else Some (ipv4 msg))"
  obtain ip pool where ip: "res_ip_alloc w (mac msg) (ac_pool st) = Some (Inr (ip, pool))"
    using assms c by (auto simp: ap_reg_lease_def bind_ro_Inr_iff w_def Let_def split: if_splits)
  have "ac_ident st' = ac_ident (st\<lparr>ac_pool := pool\<rparr>) \<and> ac_pool st' = pool"
    using assms c ip
    by (auto simp: ap_reg_lease_def bind_ro_Inr_iff w_def [symmetric] Let_def ac_ident_def
        split: if_splits dest!: ac_net_send_frame)
  then show ?thesis using ip by (auto simp: ac_ident_def)
qed


lemma ap_reg_frame:
  assumes "ap_reg debug_build passwd env m (st, a) = Some (Inr (st', a'))" "20 \<le> length (data m)"
  shows "ac_ident st' = ac_ident st \<and> (ac_pool st' = ac_pool st \<or>
     signed passwd (data m) sizeof_ap_reg (ac_random st) \<and>
     (\<exists>w ip. res_ip_alloc w (mac (dec_head (data m))) (ac_pool st) = Some (Inr (ip, ac_pool st'))))"
proof -
  consider "st' = st" | "signed passwd (data m) sizeof_ap_reg (ac_random st)"
      "ap_reg_lease debug_build passwd env m (dec_ap_reg (zero_chap (data m))) (st, a) = Some (Inr (st', a'))"
    using assms by (auto simp: ap_reg_split signed_accepted split: if_splits)
  then show ?thesis
    by cases (use assms(2) in \<open>auto dest!: ap_reg_lease_frame\<close>)
qed

lemma ac_msg_proc_frame:
  assumes "ac_msg_proc debug_build passwd env m (st, a) = Some (Inr (st', a'))" "20 \<le> length (data m)"
  shows "ac_ident st' = ac_ident st \<and> (ac_pool st' = ac_pool st \<or>
     authentic_req passwd (data m) (ac_random st) \<and>
     (\<exists>w ip. res_ip_alloc w (mac (dec_head (data m))) (ac_pool st) = Some (Inr (ip, ac_pool st'))))"
proof -
  consider "st' = st" | "msg_type (dec_head (data m)) = MSG_AP_REG"
      "ap_reg debug_build passwd env m (st, a) = Some (Inr (st', a'))"
    | "ap_status_report env m (st, a) = Some (Inr (st', a'))"
    using assms by (auto simp: ac_msg_proc_def Let_def split: if_splits)
  then show ?thesis
  proof cases
    case 2
    with ap_reg_frame [OF 2(2) assms(2)] show ?thesis by (auto simp: authentic_req_def)
  next
    case 3
    with ap_status_frame [OF 3] show ?thesis by simp
  qed simp
qed

section \<open>Runs of the controller\<close>

text \<open>
  What can happen to the controller between two reloads of its addresses: a message is handled
  for some access point, a broadcast is due, or a connection is lost.
\<close>

datatype ac_event =
    Request message_t ac_env ap_t | Broadcast "byte list" dev_read bool | Ap_lost int

inductive ac_step :: "bool \<Rightarrow> byte list \<Rightarrow> ac_state \<Rightarrow> ac_event \<Rightarrow> ac_state \<Rightarrow> bool" for dbg passwd where
  request: "DLL_PKT_DATALEN \<le> length (data m) \<Longrightarrow>
     ac_msg_proc dbg passwd env m (st, a) = Some (Inr (st', a')) \<Longrightarrow>
     ac_step dbg passwd st (Request m env a) st'"
| broadcast: "net_dllbrd mem dev ok st = Inr (mem', st') \<Longrightarrow> ac_step dbg passwd st (Broadcast mem dev ok) st'"
| lost: "ap_lost sock st = Some (Inr st') \<Longrightarrow> ac_step dbg passwd st (Ap_lost sock) st'"

inductive ac_run :: "bool \<Rightarrow> byte list \<Rightarrow> ac_state \<Rightarrow> ac_event list \<Rightarrow> ac_state \<Rightarrow> bool" for dbg passwd st where
  start: "ac_run dbg passwd st [] st"
| step: "ac_run dbg passwd st es st1 \<Longrightarrow> ac_step dbg passwd st1 e st2 \<Longrightarrow> ac_run dbg passwd st (es @ [e]) st2"

text \<open>The request in a run that entitles \<open>hw\<close> to a lease.\<close>

definition requested :: "bool \<Rightarrow> byte list \<Rightarrow> ac_state \<Rightarrow> ac_event list \<Rightarrow> byte list \<Rightarrow> bool" where
  "requested dbg passwd st es hw \<longleftrightarrow> (\<exists>es1 m env a es2 st1. es = es1 @ Request m env a # es2 \<and>
     ac_run dbg passwd st es1 st1 \<and> authentic_req passwd (data m) (ac_random st1) \<and>
     mac (dec_head (data m)) = hw)"

lemma requested_append: "requested dbg passwd st es hw \<Longrightarrow> requested dbg passwd st (es @ es') hw"
  unfolding requested_def by fastforce

lemma ac_step_pool:
  assumes "ac_step dbg passwd st e st'"
  shows "ac_pool st' = ac_pool st \<or> (\<exists>m env a w ip. e = Request m env a \<and>
     DLL_PKT_DATALEN \<le> length (data m) \<and> authentic_req passwd (data m) (ac_random st) \<and>
     res_ip_alloc w (mac (dec_head (data m))) (ac_pool st) = Some (Inr (ip, ac_pool st')))"
  using assms
proof cases
  case (request m env a a')
  then have "20 \<le> length (data m)" by (simp add: dll_lens)
  from ac_msg_proc_frame [OF request(3) this] request(1,2) show ?thesis by blast
next
  case (broadcast mem dev ok mem')
  then show ?thesis by (auto simp: net_dllbrd_def Let_def bind_res_Inr_iff split: option.splits)
next
  case (lost sock)
  then show ?thesis using ap_lost_frame by blast
qed

lemma pool_abs_alloc_cases:
  assumes "pool_abs s A L" "res_ip_alloc w hw s = Some (Inr (ip, s'))"
  shows "\<exists>x. x \<in> A \<and> pool_abs s' (A - {x}) (L(x \<mapsto> take ETH_ALEN hw))"
proof (cases "A = {}")
  case True
  then obtain qs where "pool_inv s [] qs" using assms(1) by (auto simp: pool_abs_def)
  then show ?thesis using res_ip_alloc_empty assms(2) by fastforce
next
  case False
  with ip_pool.alloc_law [OF assms(1), of w hw] assms(2) show ?thesis by auto
qed

lemma ac_run_leases:
  assumes "ac_run dbg passwd st es st'" "pool_abs (ac_pool st) A0 Map.empty"
  shows "\<exists>A L. pool_abs (ac_pool st') A L \<and> A \<union> dom L = A0 \<and> (\<forall>hw\<in>ran L. requested dbg passwd st es hw)"
  using assms
proof (induction rule: ac_run.induct)
  case start
  then show ?case by (intro exI [of _ A0] exI [of _ Map.empty]) simp
next
  case (step es st1 e st2)
  then obtain A L where ih: "pool_abs (ac_pool st1) A L" "A \<union> dom L = A0"
    "\<forall>hw\<in>ran L. requested dbg passwd st es hw" by blast
  then have old: "\<forall>hw\<in>ran L. requested dbg passwd st (es @ [e]) hw" by (simp add: requested_append)
  from ac_step_pool [OF step(2)] show ?case
  proof (elim disjE exE conjE)
    assume "ac_pool st2 = ac_pool st1"
    with ih(1,2) old show ?thesis by auto
  next
    fix m env a w ip
    assume e: "e = Request m env a" "DLL_PKT_DATALEN \<le> length (data m)"
      and au: "authentic_req passwd (data m) (ac_random st1)"
      and al: "res_ip_alloc w (mac (dec_head (data m))) (ac_pool st1) = Some (Inr (ip, ac_pool st2))"
    obtain x where x: "x \<in> A" "pool_abs (ac_pool st2) (A - {x}) (L(x \<mapsto> take ETH_ALEN (mac (dec_head (data m)))))"
      using pool_abs_alloc_cases [OF ih(1) al] by blast
    have "length (mac (dec_head (data m))) = ETH_ALEN"
      using e(2) by (intro mac_dec_head_length) (simp add: dll_lens)
    then have t: "take ETH_ALEN (mac (dec_head (data m))) = mac (dec_head (data m))" by simp
    have "requested dbg passwd st (es @ [e]) (mac (dec_head (data m)))"
      using step(1) e(1) au unfolding requested_def by blast
    then have "\<forall>hw\<in>ran (L(x \<mapsto> mac (dec_head (data m)))). requested dbg passwd st (es @ [e]) hw"
      using old by (auto simp: ran_def split: if_splits)
    moreover have "(A - {x}) \<union> dom (L(x \<mapsto> mac (dec_head (data m)))) = A0" using ih(2) x(1) by auto
    ultimately show ?thesis using x(2) unfolding t by blast
  qed
qed


section \<open>The answer to a request\<close>

lemma ac_resp_sel [simp]:
  "random (ac_resp st r ip) = r" "mac (ac_resp st r ip) = take ETH_ALEN (ac_mac st)"
  "acuuid (ac_resp st r ip) = take UUID_LEN (ac_uuid st)" "msg_type (ac_resp st r ip) = MSG_AC_REG_RESP"
  "acaddr (ac_resp st r ip) = ac_addr st" "apaddr (ac_resp st r (Some x)) = x"
  by (simp_all add: ac_resp_def Let_def fill_msg_header_def split: option.split)

lemma ac_resp_wf:
  assumes "ac_wf st" "wf_sockaddr x"
  shows "wf_head (ac_resp st r (Some x))" "wf_sockaddr (acaddr (ac_resp st r (Some x)))"
    "wf_sockaddr (apaddr (ac_resp st r (Some x)))"
    "length (enc_ac_reg_resp (ac_resp st r (Some x))) = sizeof_ac_reg_resp"
proof -
  have c: "chap (ac_resp st r (Some x)) = chap (dec_head (replicate sizeof_ac_reg_resp 0))"
    by (simp add: ac_resp_def Let_def fill_msg_header_def dec_ac_reg_resp_def msg_head_t.defs msg_ac_reg_resp_t.defs)
  have "length (chap (dec_head (replicate sizeof_ac_reg_resp 0))) = CHAP_LEN"
    by (rule dec_head_lengths) (simp add: sizeof_ac_reg_resp_def)
  moreover have "length (ac_mac st) = ETH_ALEN" using assms(1) by (simp add: ac_wf_def dll_wf_def)
  ultimately show w: "wf_head (ac_resp st r (Some x))"
    using assms(1) by (simp add: wf_head_def c ac_wf_def)
  show s: "wf_sockaddr (acaddr (ac_resp st r (Some x)))" "wf_sockaddr (apaddr (ac_resp st r (Some x)))"
    using assms by (simp_all add: ac_wf_def)
  show "length (enc_ac_reg_resp (ac_resp st r (Some x))) = sizeof_ac_reg_resp"
    using w s unfolding enc_ac_reg_resp_def sizeof_ac_reg_resp_def
    by (simp only: length_append length_enc_head length_enc_sockaddr)
qed

text \<open>
  The sender of the request may have the address it asks for: the address is not leased to
  anybody else.
\<close>

definition may_have :: "sockaddr_in \<Rightarrow> byte list \<Rightarrow> ippool_t \<Rightarrow> ptr list \<Rightarrow> bool" where
  "may_have x hw pool qs \<longleftrightarrow> s_addr x = 0 \<or>
     (\<forall>own. lease_map pool qs (s_addr x) = Some own \<longrightarrow> own = take ETH_ALEN hw)"

lemma conflict_iff:
  assumes "pool_inv pool ps qs"
  shows "res_ip_conflict x hw pool = Some (Inr (if may_have x hw pool qs then 0 else 1))"
proof -
  have "pool_abs pool (addr_of pool ` set ps) (lease_map pool qs)"
    using assms by (auto simp: pool_abs_def)
  from ip_pool.conflict_law [OF this] show ?thesis by (auto simp: may_have_def)
qed

lemma ap_reg_lease_eq:
  assumes wf: "ac_wf st" and inv: "pool_inv (ac_pool st) ps qs" and ne: "ps \<noteq> []"
    and ips: "\<forall>p\<in>set ps. wf_sockaddr (ip_ipv4 (the (ips (ac_pool st) p)))"
    and may: "may_have (ipv4 msg) (mac msg) (ac_pool st) qs"
    and env: "a_calloc env" "a_eth_ok env" and eth: "proto m = MSG_PROTO_ETH"
    and hw: "length (mac msg) = ETH_ALEN"
  shows "\<exists>st' p out. ap_reg_lease debug_build passwd env m msg (st, a) =
       Some (Inr (st', a\<lparr>ap_random := chap_get_random (a_dev env)\<rparr>)) \<and>
     ac_sent st' = ac_sent st @ [Frame (eth_header (mac msg) (ac_mac st) @ out)] \<and>
     out = chap_fill_msg_md5 passwd (enc_ac_reg_resp (ac_resp st (chap_get_random (a_dev env))
             (Some (ip_ipv4 (the (ips (ac_pool st) p)))))) sizeof_ac_reg_resp (random msg) \<and>
     p \<in> set ps \<and> pool_inv (ac_pool st') (remove1 p ps) (p # qs) \<and>
     addr_of (ac_pool st') = addr_of (ac_pool st) \<and> owner_of (ac_pool st') p = mac msg \<and>
     ap_reg_cnt st' = ap_reg_cnt st + 1 \<and> ac_wf st' \<and> ac_ident st' = ac_ident st \<and>
     rcvpkt (ac_dll st') = rcvpkt (ac_dll st) \<and> rcv_locked (ac_dll st') = rcv_locked (ac_dll st)"
proof -
  let ?r = "chap_get_random (a_dev env)"
  obtain p xs ys h where s: "ps = xs @ p # ys"
    "res_ip_alloc (Some (ipv4 msg)) (mac msg) (ac_pool st) = Some (Inr (Some p,
       (ac_pool st)\<lparr>links := h, ips := leased p (mac msg) (ac_pool st), left := left (ac_pool st) - 1\<rparr>))"
    "pool_inv ((ac_pool st)\<lparr>links := h, ips := leased p (mac msg) (ac_pool st), left := left (ac_pool st) - 1\<rparr>)
       (xs @ ys) (p # qs)"
    using res_ip_alloc_spec [OF inv ne, of "Some (ipv4 msg)" "mac msg"] by (elim exE conjE) (rule that)
  let ?pool = "(ac_pool st)\<lparr>links := h, ips := leased p (mac msg) (ac_pool st), left := left (ac_pool st) - 1\<rparr>"
  let ?x = "ip_ipv4 (the (ips (ac_pool st) p))"
  let ?st = "st\<lparr>ac_pool := ?pool\<rparr>"
  let ?out = "chap_fill_msg_md5 passwd (enc_ac_reg_resp (ac_resp st ?r (Some ?x))) sizeof_ac_reg_resp (random msg)"
  have p: "p \<in> set ps" by (simp add: s(1))
  have at: "ip_at ?pool p = Inr ((the (ips (ac_pool st) p))\<lparr>ip_apmac := take ETH_ALEN (mac msg)\<rparr>)"
    by (simp add: ip_at_def leased_def)
  have x: "wf_sockaddr ?x" using ips p by blast
  have same: "ac_resp ?st = ac_resp st" by (simp add: ac_resp_def fun_eq_iff)
  have wf': "ac_wf ?st" "dll_wf (ac_mac st) (ac_dll st)" using wf by (simp_all add: ac_wf_def)
  have len: "length ?out = sizeof_ac_reg_resp"
    using ac_resp_wf(4) [OF wf x, of ?r] by (simp add: sizeof_ac_reg_resp_def)
  obtain dll' where d: "net_send MSG_PROTO_ETH (ap_sock a) (mac msg) ?out sizeof_ac_reg_resp True (a_tcp env) (ac_dll st) =
      Some (Inr (0, [Frame (eth_header (mac msg) (ac_mac st) @ ?out)], dll'))" "dll_wf (ac_mac st) dll'"
    "rcvpkt dll' = rcvpkt (ac_dll st)" "rcv_locked dll' = rcv_locked (ac_dll st)"
    using net_send_eth [OF wf'(2) _ len hw, of "ap_sock a" "a_tcp env"]
    by (auto simp: dll_lens sizeof_ac_reg_resp_def)
  let ?st' = "?st\<lparr>ac_dll := dll', ac_sent := ac_sent st @ [Frame (eth_header (mac msg) (ac_mac st) @ ?out)],
      ap_reg_cnt := ap_reg_cnt st + 1\<rparr>"
  have "ac_net_send env MSG_PROTO_ETH (ap_sock a) (mac msg) ?out sizeof_ac_reg_resp ?st =
      Some (Inr (0, ?st\<lparr>ac_dll := dll', ac_sent := ac_sent st @ [Frame (eth_header (mac msg) (ac_mac st) @ ?out)]\<rparr>))"
    using d(1) env(2) by (simp add: ac_net_send_def)
  then have eq: "ap_reg_lease debug_build passwd env m msg (st, a) = Some (Inr (?st', a\<lparr>ap_random := ?r\<rparr>))"
    using conflict_iff [OF inv, of "ipv4 msg" "mac msg"] may env(1) s(2) at eth
    by (simp add: ap_reg_lease_def Let_def same)
  have "p \<notin> set xs" using inv by (auto simp: s(1) pool_inv_def dlist_def)
  then have r: "remove1 p ps = xs @ ys" by (simp add: s(1) remove1_append)
  show ?thesis
    unfolding eq
    by (intro exI [of _ ?st'] exI [of _ p] exI [of _ ?out])
      (use s(3) r p d wf hw in \<open>simp add: ac_wf_def ac_ident_def\<close>)
qed

lemma ap_reg_lease_conflict:
  assumes "pool_inv (ac_pool st) ps qs" "\<not> may_have (ipv4 msg) (mac msg) (ac_pool st) qs"
  shows "ap_reg_lease True passwd env m msg (st, a) = Some (Inl NullDeref)"
  using conflict_iff [OF assms(1), of "ipv4 msg" "mac msg"] assms(2)
  by (simp add: ap_reg_lease_def)


section \<open>An example\<close>

definition ex_ac_mac :: "byte list" where "ex_ac_mac = [1, 2, 3, 4, 5, 6]"

definition ex_ac :: ac_state where
  "ex_ac = \<lparr>ac_random = 7, ac_uuid = replicate 50 65, ac_mac = ex_ac_mac,
     ac_addr = zero_sockaddr\<lparr>s_addr := 0x0100000A\<rparr>, ap_reg_cnt = 0, ac_pool = ex_pool,
     ac_dll = init_pktbuf ex_ac_mac (replicate 1536 0), ac_links = link_init {}, ac_sent = []\<rparr>"

definition ex_ac_env :: ac_env where
  "ex_ac_env = \<lparr>a_chap_malloc = True, a_calloc = True, a_dev = ([9, 0, 0, 0], 0), a_eth_ok = True, a_tcp = [],
     a_cmd_malloc = True, a_mem = None\<rparr>"

definition ex_req_msg :: "u32 \<Rightarrow> message_t" where
  "ex_req_msg x = \<lparr>proto = MSG_PROTO_ETH, msg_len = 110,
     data = chap_fill_msg_md5 [119] (enc_ap_reg (ex_reg\<lparr>ipv4 := zero_sockaddr\<lparr>s_addr := x\<rparr>\<rparr>) @ replicate 402 0)
              sizeof_ap_reg 7\<rparr>"

lemma ex_ac_wf: "ac_wf ex_ac"
proof -
  have "dll_wf ex_ac_mac (init_pktbuf ex_ac_mac (replicate 1536 0))"
    by (rule dll_wf_init) (simp_all add: ex_ac_mac_def ETH_ALEN_def dll_lens)
  then show ?thesis
    by (simp add: ac_wf_def ex_ac_def wf_sockaddr_def zero_sockaddr_def UUID_LEN_def)
qed

lemma ex_req:
  "length (data (ex_req_msg x)) = 498" "mac (dec_head (data (ex_req_msg x))) = [1, 2, 3, 4, 5, 6]"
  "s_addr (ipv4 (dec_ap_reg (data (ex_req_msg x)))) = x" "req_ok [119] ex_ac_env (ex_req_msg x) ex_ac"
proof -
  let ?q = "ex_reg\<lparr>ipv4 := zero_sockaddr\<lparr>s_addr := x\<rparr>\<rparr>"
  have w: "wf_head ?q" "wf_sockaddr (ipv4 ?q)"
    by (simp_all add: ex_reg_def wf_head_def msg_lens wf_sockaddr_def zero_sockaddr_def)
  have "data (ex_req_msg x) = chap_fill_msg_md5 [119] (enc_ap_reg ?q @ replicate 402 0) sizeof_ap_reg 7"
    by (simp add: ex_req_msg_def)
  note o = req_on_wire [OF w this]
  show l: "length (data (ex_req_msg x)) = 498" using o(1) by (simp add: sizeof_ap_reg_def)
  have "mac (dec_head (data (ex_req_msg x))) = mac (dec_ap_reg (data (ex_req_msg x)))" by simp
  then show "mac (dec_head (data (ex_req_msg x))) = [1, 2, 3, 4, 5, 6]"
    unfolding o(2) by (simp add: ex_reg_def)
  show "s_addr (ipv4 (dec_ap_reg (data (ex_req_msg x)))) = x"
    unfolding o(2) by (simp add: ex_reg_def)
  have "authentic_req [119] (data (ex_req_msg x)) 7"
    by (rule o(3)) (simp add: ex_reg_def)
  then show "req_ok [119] ex_ac_env (ex_req_msg x) ex_ac"
    using l by (simp add: req_ok_def sizeof_ap_reg_def) (simp add: ex_req_msg_def ex_ac_env_def ex_ac_def)
qed

lemma dec_ap_reg_zero_chap [simp]:
  "20 \<le> length bs \<Longrightarrow> ipv4 (dec_ap_reg (zero_chap bs)) = ipv4 (dec_ap_reg bs)"
  by (simp add: dec_ap_reg_def msg_head_t.defs msg_ap_reg_t.defs slice_zero_chap)

lemma request_answer:
  assumes "ac_wf st" "req_ok passwd env m st" "a_calloc env" "a_eth_ok env" "proto m = MSG_PROTO_ETH"
    and "pool_inv (ac_pool st) ps qs" "ps \<noteq> []"
    and "\<forall>p\<in>set ps. wf_sockaddr (ip_ipv4 (the (ips (ac_pool st) p)))"
    and "may_have (ipv4 (dec_ap_reg (data m))) (mac (dec_head (data m))) (ac_pool st) qs"
  shows "\<exists>st' p out. ac_msg_proc debug_build passwd env m (st, a) =
       Some (Inr (st', a\<lparr>ap_random := chap_get_random (a_dev env)\<rparr>)) \<and>
     p \<in> set ps \<and> pool_inv (ac_pool st') (remove1 p ps) (p # qs) \<and>
     owner_of (ac_pool st') p = mac (dec_head (data m)) \<and> ap_reg_cnt st' = ap_reg_cnt st + 1 \<and>
     ac_sent st' = ac_sent st @ [Frame (eth_header (mac (dec_head (data m))) (ac_mac st) @ out)] \<and>
     length out = sizeof_ac_reg_resp \<and> authentic_resp passwd out (random (dec_head (data m))) \<and>
     dec_ac_reg_resp out = (ac_resp st (chap_get_random (a_dev env))
       (Some (ip_ipv4 (the (ips (ac_pool st) p)))))\<lparr>chap := slice 4 CHAP_LEN out\<rparr>"
proof -
  have l: "20 \<le> length (data m)" "76 \<le> length (data m)"
    using assms(2) by (simp_all add: req_ok_def sizeof_ap_reg_def)
  let ?msg = "dec_ap_reg (zero_chap (data m))"
  have hw: "length (mac ?msg) = ETH_ALEN" using l by (simp add: mac_dec_head_length)
  have may: "may_have (ipv4 ?msg) (mac ?msg) (ac_pool st) qs" using assms(9) l by simp
  obtain st' p out where o: "ap_reg_lease debug_build passwd env m ?msg (st, a) =
       Some (Inr (st', a\<lparr>ap_random := chap_get_random (a_dev env)\<rparr>))"
     "ac_sent st' = ac_sent st @ [Frame (eth_header (mac ?msg) (ac_mac st) @ out)]"
     "out = chap_fill_msg_md5 passwd (enc_ac_reg_resp (ac_resp st (chap_get_random (a_dev env))
             (Some (ip_ipv4 (the (ips (ac_pool st) p)))))) sizeof_ac_reg_resp (random ?msg)"
     "p \<in> set ps" "pool_inv (ac_pool st') (remove1 p ps) (p # qs)"
     "owner_of (ac_pool st') p = mac ?msg" "ap_reg_cnt st' = ap_reg_cnt st + 1"
    using ap_reg_lease_eq [OF assms(1,6,7,8) may assms(3,4,5) hw, of debug_build passwd a]
    by (elim exE conjE) (rule that)
  have "wf_sockaddr (ip_ipv4 (the (ips (ac_pool st) p)))" using assms(8) o(4) by blast
  note w = ac_resp_wf [OF assms(1) this, of "chap_get_random (a_dev env)"]
  note out = resp_on_wire [OF w(1,2,3), of out passwd "[]", simplified, OF o(3)]
  show ?thesis
    unfolding req_ok_accepts [OF assms(2)] o(1)
    by (intro exI [of _ st'] exI [of _ p] exI [of _ out]) (use o out l in simp)
qed

lemma ac_resp_fields:
  assumes "ac_wf st"
  shows "(ac_resp st r (Some x))\<lparr>chap := c\<rparr> = \<lparr>random = r, chap = c, acuuid = ac_uuid st, mac = ac_mac st,
     msg_type = MSG_AC_REG_RESP, acaddr = ac_addr st, apaddr = x\<rparr>"
  using assms by (simp add: ac_resp_def Let_def fill_msg_header_def ac_wf_def dll_wf_def dec_ac_reg_resp_def
      msg_head_t.defs msg_ac_reg_resp_t.defs)

section \<open>Properties\<close>

text \<open>
  C4. Who holds an address: in every run of the controller from a pool without leases, the
  addresses are divided into free and leased ones, none is lost or doubled, and whoever holds
  one sent a registration request whose digest is right under the password for the
  challenge that the controller was broadcasting when the request was handled.
\<close>

theorem leases_by_authentic_request:
  assumes "ac_run debug_build passwd st es st'" "pool_abs (ac_pool st) A0 Map.empty"
  shows "\<exists>A L. pool_abs (ac_pool st') A L \<and> A \<union> dom L = A0 \<and> A \<inter> dom L = {} \<and>
     (\<forall>hw\<in>ran L. requested debug_build passwd st es hw)"
proof -
  obtain A L where "pool_abs (ac_pool st') A L" "A \<union> dom L = A0" "\<forall>hw\<in>ran L. requested debug_build passwd st es hw"
    using ac_run_leases [OF assms] by blast
  with ip_pool.disjoint_law show ?thesis by blast
qed

definition ex_free_pool :: ippool_t where
  "ex_free_pool = \<lparr>links = \<lparr>next_p = [POOL \<mapsto> 3, 3 \<mapsto> 4, 4 \<mapsto> POOL, ALLOC \<mapsto> ALLOC],
      prev_p = [POOL \<mapsto> 4, 4 \<mapsto> 3, 3 \<mapsto> POOL, ALLOC \<mapsto> ALLOC]\<rparr>,
     ips = [3 \<mapsto> ex_ip (replicate 6 0) 0x0100000A, 4 \<mapsto> ex_ip (replicate 6 0) 0x0200000A],
     total = 2, left = 2\<rparr>"

lemma ex_free_pool_inv: "pool_inv ex_free_pool [3, 4] []"
  by (simp add: pool_inv_def ex_free_pool_def dlist_def pool_heads addr_of_def ex_ip_def) auto

theorem leases_by_authentic_request_witness:
  "\<exists>st' A L. ac_run True [119] (ex_ac\<lparr>ac_pool := ex_free_pool\<rparr>)
       [Request (ex_req_msg 0x0200000A) ex_ac_env (ap zero_node)] st' \<and>
     pool_abs (ac_pool st') A L \<and> A \<union> dom L = {0x0100000A, 0x0200000A} \<and>
     (\<forall>hw\<in>ran L. hw = [1, 2, 3, 4, 5, 6])"
proof -
  let ?st = "ex_ac\<lparr>ac_pool := ex_free_pool\<rparr>" and ?m = "ex_req_msg 0x0200000A"
  have q: "req_ok [119] ex_ac_env ?m ?st" using ex_req(4) by (simp add: req_ok_def)
  have wf: "ac_wf ?st" using ex_ac_wf by (simp add: ac_wf_def)
  have inv: "pool_inv (ac_pool ?st) [3, 4] []" by (simp add: ex_free_pool_inv)
  let ?msg = "dec_ap_reg (zero_chap (data ?m))"
  have e: "a_calloc ex_ac_env" "a_eth_ok ex_ac_env" "proto ?m = MSG_PROTO_ETH" "length (mac ?msg) = ETH_ALEN"
    using ex_req(1,2) by (simp_all add: ex_ac_env_def ex_req_msg_def ETH_ALEN_def)
  have w: "\<forall>p\<in>set [3, 4]. wf_sockaddr (ip_ipv4 (the (ips (ac_pool ?st) p)))"
    by (simp add: ex_free_pool_def ex_ip_def wf_sockaddr_def zero_sockaddr_def)
  have may: "may_have (ipv4 ?msg) (mac ?msg) (ac_pool ?st) []" by (simp add: may_have_def lease_map_def)
  obtain st' a' where "ac_msg_proc True [119] ex_ac_env ?m (?st, ap zero_node) = Some (Inr (st', a'))"
    using ap_reg_lease_eq [OF wf inv _ w may e, of True "[119]" "ap zero_node"]
    unfolding req_ok_accepts [OF q] by blast
  then have "ac_run True [119] ?st ([] @ [Request ?m ex_ac_env (ap zero_node)]) st'"
    by (intro ac_run.step [OF ac_run.start] ac_step.request) (simp_all add: ex_req(1) dll_lens)
  then have run: "ac_run True [119] ?st [Request ?m ex_ac_env (ap zero_node)] st'" by simp
  have "lease_map ex_free_pool [] = Map.empty" by (simp add: lease_map_def)
  then have "pool_abs (ac_pool ?st) {0x0100000A, 0x0200000A} Map.empty"
    using ex_free_pool_inv unfolding pool_abs_def
    by (intro exI [of _ "[3, 4]"] exI [of _ "[]"]) (simp add: addr_of_def ex_free_pool_def ex_ip_def)
  from leases_by_authentic_request [OF run this] obtain A L where l: "pool_abs (ac_pool st') A L"
    "A \<union> dom L = {0x0100000A, 0x0200000A}"
    "\<forall>hw\<in>ran L. requested True [119] ?st [Request ?m ex_ac_env (ap zero_node)] hw"
    by blast
  have "requested True [119] ?st [Request ?m ex_ac_env (ap zero_node)] hw \<Longrightarrow> hw = [1, 2, 3, 4, 5, 6]" for hw
    by (auto simp: requested_def Cons_eq_append_conv ex_req(2))
  with run l show ?thesis by blast
qed

text \<open>
  C12. Answering a request: an authentic request of an access point that may have the address it
  asks for is met while an address is free. One address moves from the free to the leased
  list, owned by the sender, and one frame is sent back, authentic for the challenge of the request. Its
  bytes are a response with the new challenge, the identity, hardware address and socket address of the
  controller and, in \<^verbatim>\<open>apaddr\<close>, the address of the pool entry that was leased.
\<close>

theorem registration_answered:
  assumes "ac_wf st" "req_ok passwd env m st" "a_calloc env" "a_eth_ok env" "proto m = MSG_PROTO_ETH"
    and "pool_inv (ac_pool st) ps qs" "ps \<noteq> []"
    and "\<forall>p\<in>set ps. wf_sockaddr (ip_ipv4 (the (ips (ac_pool st) p)))"
    and "may_have (ipv4 (dec_ap_reg (data m))) (mac (dec_head (data m))) (ac_pool st) qs"
  shows "\<exists>st' p out. ac_msg_proc debug_build passwd env m (st, a) =
       Some (Inr (st', a\<lparr>ap_random := chap_get_random (a_dev env)\<rparr>)) \<and>
     p \<in> set ps \<and> pool_inv (ac_pool st') (remove1 p ps) (p # qs) \<and>
     owner_of (ac_pool st') p = mac (dec_head (data m)) \<and> ap_reg_cnt st' = ap_reg_cnt st + 1 \<and>
     ac_sent st' = ac_sent st @ [Frame (eth_header (mac (dec_head (data m))) (ac_mac st) @ out)] \<and>
     length out = sizeof_ac_reg_resp \<and> authentic_resp passwd out (random (dec_head (data m))) \<and>
     dec_ac_reg_resp out = \<lparr>random = chap_get_random (a_dev env), chap = slice 4 CHAP_LEN out, acuuid = ac_uuid st,
       mac = ac_mac st, msg_type = MSG_AC_REG_RESP, acaddr = ac_addr st, apaddr = ip_ipv4 (the (ips (ac_pool st) p))\<rparr>"
  using request_answer [OF assms, of debug_build a] by (simp only: ac_resp_fields [OF assms(1)])

theorem registration_answered_witness:
  "\<exists>st' p out. ac_msg_proc True [119] ex_ac_env (ex_req_msg 0x0200000A) (ex_ac, ap zero_node) =
       Some (Inr (st', (ap zero_node)\<lparr>ap_random := 9\<rparr>)) \<and>
     ac_sent st' = [Frame (eth_header [1, 2, 3, 4, 5, 6] ex_ac_mac @ out)] \<and>
     owner_of (ac_pool st') p = [1, 2, 3, 4, 5, 6] \<and> p \<in> {3, 4} \<and>
     random (dec_ac_reg_resp out) = 9 \<and> acuuid (dec_ac_reg_resp out) = replicate 50 65 \<and>
     s_addr (acaddr (dec_ac_reg_resp out)) = 0x0100000A \<and>
     s_addr (apaddr (dec_ac_reg_resp out)) = (if p = 3 then 0x0100000A else 0x0200000A)"
proof -
  have m: "may_have (ipv4 (dec_ap_reg (data (ex_req_msg 0x0200000A)))) (mac (dec_head (data (ex_req_msg 0x0200000A)))) (ac_pool ex_ac) [5]"
    unfolding may_have_def ex_req(3) by (simp add: lease_map_def ex_ac_def ex_pool_addr)
  have inv: "pool_inv (ac_pool ex_ac) [3, 4] [5]" by (simp add: ex_ac_def ex_pool_inv)
  have w: "\<forall>p\<in>set [3, 4]. wf_sockaddr (ip_ipv4 (the (ips (ac_pool ex_ac) p)))"
    by (simp add: ex_ac_def ex_pool_def ex_ip_def wf_sockaddr_def zero_sockaddr_def)
  have e: "a_calloc ex_ac_env" "a_eth_ok ex_ac_env" "chap_get_random (a_dev ex_ac_env) = 9"
    "proto (ex_req_msg 0x0200000A) = MSG_PROTO_ETH"
    by (simp_all add: ex_ac_env_def ex_req_msg_def chap_get_random_def of_le32_def put_at_def le32_def)
  have s: "ac_sent ex_ac = []" "ac_mac ex_ac = ex_ac_mac" by (simp_all add: ex_ac_def)
  from registration_answered [OF ex_ac_wf ex_req(4) e(1,2,4) inv list.distinct(2) w m, of True "ap zero_node"]
  obtain st' p out where o: "ac_msg_proc True [119] ex_ac_env (ex_req_msg 0x0200000A) (ex_ac, ap zero_node) =
       Some (Inr (st', (ap zero_node)\<lparr>ap_random := 9\<rparr>))" "p \<in> {3, 4}"
     "ac_sent st' = [Frame (eth_header [1, 2, 3, 4, 5, 6] ex_ac_mac @ out)]"
     "owner_of (ac_pool st') p = [1, 2, 3, 4, 5, 6]"
     "dec_ac_reg_resp out = \<lparr>random = 9, chap = slice 4 CHAP_LEN out, acuuid = ac_uuid ex_ac,
       mac = ex_ac_mac, msg_type = MSG_AC_REG_RESP, acaddr = ac_addr ex_ac,
       apaddr = ip_ipv4 (the (ips (ac_pool ex_ac) p))\<rparr>"
    unfolding e(3) s ex_req(2) append_Nil list.set by (elim exE conjE) (rule that)
  show ?thesis
    by (intro exI [of _ st'] exI [of _ p] exI [of _ out] conjI o, unfold o(5))
      (use o(2) in \<open>auto simp: ex_ac_def ex_pool_def ex_ip_def zero_sockaddr_def\<close>)
qed

text \<open>
  C20. An authentic request for an address that is leased to another access point stops the
  controller as the Makefile builds it: the wanted address is dropped and the null pointer is
  handed to \<^verbatim>\<open>pr_ipv4\<close>.
\<close>

theorem conflicting_request_crashes:
  assumes "req_ok passwd env m st" "pool_inv (ac_pool st) ps qs"
    and "\<not> may_have (ipv4 (dec_ap_reg (data m))) (mac (dec_head (data m))) (ac_pool st) qs"
  shows "ac_msg_proc True passwd env m (st, a) = Some (Inl NullDeref)"
proof -
  have "20 \<le> length (data m)" using assms(1) by (simp add: req_ok_def sizeof_ap_reg_def)
  with assms(3) show ?thesis
    unfolding req_ok_accepts [OF assms(1)] by (intro ap_reg_lease_conflict [OF assms(2)]) simp
qed

theorem conflicting_request_crashes_witness:
  "ac_msg_proc True [119] ex_ac_env (ex_req_msg 0x0300000A) (ex_ac, ap zero_node) = Some (Inl NullDeref)"
proof (rule conflicting_request_crashes [OF ex_req(4)])
  show "pool_inv (ac_pool ex_ac) [3, 4] [5]" by (simp add: ex_ac_def ex_pool_inv)
  show "\<not> may_have (ipv4 (dec_ap_reg (data (ex_req_msg 0x0300000A))))
      (mac (dec_head (data (ex_req_msg 0x0300000A)))) (ac_pool ex_ac) [5]"
    unfolding may_have_def ex_req(2,3)
    by (simp add: lease_map_def ex_ac_def ex_pool_addr ex_owner_def ETH_ALEN_def)
qed

end
