(* ===== verification/Ap_Net.thy ===== *)
theory Ap_Net
  imports Ap_Answers
begin

text \<open>
  The receive callbacks of the access point, \<^verbatim>\<open>ap/net.c\<close>: a frame or the bytes of a
  connection become a message in the queue, and an error of any connection drops the
  connection to the controller. The state pairs the access point with its message queue.
\<close>

section \<open>Callbacks\<close>

text \<open>
  \<open>alloc\<close> is the result of \<^verbatim>\<open>malloc\<close> for the message and \<open>mem\<close> the content of its data area.
\<close>

definition ap_net_dllrecv :: "ptr option \<Rightarrow> byte list \<Rightarrow> byte list option \<Rightarrow> ap_state \<times> msg_queue \<Rightarrow>
    (ap_state \<times> msg_queue) res" where
  "ap_net_dllrecv alloc mem frame sq =
     (let (st, q) = sq in
      case alloc of
        None \<Rightarrow> Inr sq
      | Some p \<Rightarrow> bind_res (dll_rcv DLL_PKT_DATALEN frame (ap_dll st)) (\<lambda>(rcvlen, buf, dll).
          let st = st\<lparr>ap_dll := dll\<rparr> in
          if rcvlen < int ETH_HLEN then Inr (st, q)
          else bind_res (ap_receive p \<lparr>proto = MSG_PROTO_ETH, msg_len = rcvlen,
                   data = (case buf of None \<Rightarrow> mem | Some b \<Rightarrow> b)\<rparr> q) (\<lambda>q. Inr (st, q))))"

definition ap_lost_conn :: "ap_state \<times> msg_queue \<Rightarrow> (ap_state \<times> msg_queue) res option" where
  "ap_lost_conn sq = bind_ro (ac_lost (fst sq)) (\<lambda>st. Some (Inr (st, snd sq)))"

text \<open>
  \<open>answers\<close> are what happens on the socket of the node; the bytes go to the data area of the message,
  which is as long as \<open>mem\<close>.
\<close>

definition ap_net_netrcv :: "'f sockarr_t \<Rightarrow> ptr option \<Rightarrow> byte list \<Rightarrow> recv_answer list \<Rightarrow>
    ap_state \<times> msg_queue \<Rightarrow> (ap_state \<times> msg_queue) res option" where
  "ap_net_netrcv sockarr alloc mem answers sq =
     (if epoll_error (retevents sockarr) then ap_lost_conn sq
      else case alloc of
        None \<Rightarrow> Some (Inr sq)
      | Some p \<Rightarrow> bind_ro (tcp_rcv (sa_sock sockarr) mem NET_PKT_DATALEN answers) (\<lambda>(rcvlen, buf).
          if rcvlen = 0 then ap_lost_conn sq
          else Some (bind_res (ap_receive p \<lparr>proto = MSG_PROTO_TCP, msg_len = int rcvlen, data = buf\<rparr>
                   (snd sq)) (\<lambda>q. Inr (fst sq, q)))))"

end
