(* ===== verification/Ac_Net.thy ===== *)
theory Ac_Net
  imports Ac_Trust
begin

text \<open>
  The receive callbacks of the controller, \<^verbatim>\<open>ac/net.c\<close>: a frame or the bytes of a connection
  are queued at the node of the access point whose address the packet names, and an error
  drops the connection. The state pairs the controller with the table of access points.
\<close>

section \<open>Callbacks\<close>

text \<open>
  \<open>alloc\<close> and \<open>node\<close> are the results of \<^verbatim>\<open>malloc\<close> for the message and of \<^verbatim>\<open>calloc\<close> for a node,
  \<open>mem\<close> is the content of the data area of the message. A failed lookup frees the message.
\<close>

definition queue_packet :: "nref \<Rightarrow> (ap_t \<Rightarrow> ap_t) \<Rightarrow> ptr \<Rightarrow> message_t \<Rightarrow> ac_state \<times> hash_state \<Rightarrow>
    (ac_state \<times> hash_state) res" where
  "queue_packet r f p m sh =
     node_receive r p m (fst sh, upd_node r (\<lambda>n. n\<lparr>ap := f (ap n)\<rparr>) (snd sh))"

definition ac_net_dllrecv :: "ptr option \<Rightarrow> byte list \<Rightarrow> ptr option \<Rightarrow> byte list option \<Rightarrow>
    ac_state \<times> hash_state \<Rightarrow> (ac_state \<times> hash_state) res option" where
  "ac_net_dllrecv alloc mem node frame sh =
     (let (st, tbl) = sh in
      case alloc of
        None \<Rightarrow> Some (Inr sh)
      | Some p \<Rightarrow> bind_ro (Some (dll_rcv DLL_PKT_DATALEN frame (ac_dll st))) (\<lambda>(rcvlen, buf, dll).
          let st = st\<lparr>ac_dll := dll\<rparr> in
          if rcvlen < int ETH_HLEN then Some (Inr (st, tbl))
          else let bytes = (case buf of None \<Rightarrow> mem | Some b \<Rightarrow> b);
                   hw = mac (dec_head bytes) in
            bind_ro (hash_ap hw node tbl) (\<lambda>(r, tbl). case r of
                None \<Rightarrow> Some (Inr (st, tbl))
              | Some r \<Rightarrow> Some (queue_packet r (\<lambda>a. a\<lparr>ap_mac := hw\<rparr>) p
                  \<lparr>proto = MSG_PROTO_ETH, msg_len = rcvlen, data = bytes\<rparr> (st, tbl)))))"

definition ac_lost_conn :: "int \<Rightarrow> ac_state \<times> hash_state \<Rightarrow> (ac_state \<times> hash_state) res option" where
  "ac_lost_conn sock sh = bind_ro (ap_lost sock (fst sh)) (\<lambda>st. Some (Inr (st, snd sh)))"

definition ac_net_netrcv :: "'f sockarr_t \<Rightarrow> ptr option \<Rightarrow> byte list \<Rightarrow> ptr option \<Rightarrow> recv_answer list \<Rightarrow>
    ac_state \<times> hash_state \<Rightarrow> (ac_state \<times> hash_state) res option" where
  "ac_net_netrcv sockarr alloc mem node answers sh =
     (if epoll_error (retevents sockarr) then ac_lost_conn (sa_sock sockarr) sh
      else if retevents sockarr AND EPOLLIN = 0 then Some (Inr sh)
      else case alloc of
        None \<Rightarrow> Some (Inr sh)
      | Some p \<Rightarrow> bind_ro (tcp_rcv (sa_sock sockarr) mem NET_PKT_DATALEN answers) (\<lambda>(rcvlen, bytes).
          if rcvlen = 0 then ac_lost_conn (sa_sock sockarr) sh
          else
            bind_ro (hash_ap (mac (dec_head bytes)) node (snd sh)) (\<lambda>(r, tbl). case r of
                None \<Rightarrow> Some (Inr (fst sh, tbl))
              | Some r \<Rightarrow> Some (queue_packet r (\<lambda>a. a\<lparr>ap_sock := sa_sock sockarr\<rparr>) p
                  \<lparr>proto = MSG_PROTO_TCP, msg_len = int rcvlen, data = bytes\<rparr> (fst sh, tbl)))))"

section \<open>A packet is queued\<close>

text \<open>
  The bucket of the address \<open>hw\<close> is idle or belongs to \<open>hw\<close>, and its queue holds \<open>pms\<close>.
\<close>

definition at_home :: "byte list \<Rightarrow> hash_state \<Rightarrow> (ptr \<times> message_t) list \<Rightarrow> bool" where
  "at_home hw tbl pms \<longleftrightarrow> (let b = buckets tbl (hash_key hw 6) in
     \<not> held tbl (hash_key hw 6) \<and> queue_holds (queue b) pms \<and>
     (if key b = IDLE_AP then pms = [] else ap_mac (ap b) = hw))"

lemma hash_ap_home:
  assumes inv: "hash_inv tbl" and hw: "length hw = 6" and home: "at_home hw tbl pms"
  defines "i \<equiv> hash_key hw 6"
  shows "\<exists>tbl'. hash_ap hw node tbl = Some (Inr (Some (Bucket i), tbl')) \<and> hash_inv tbl' \<and>
     held tbl' = held tbl \<and> key (buckets tbl' i) \<noteq> IDLE_AP \<and>
     queue (buckets tbl' i) = queue (buckets tbl i) \<and>
     ap (buckets tbl' i) = (ap (buckets tbl i))\<lparr>ap_mac := hw\<rparr> \<and>
     (\<forall>j. j \<noteq> i \<longrightarrow> buckets tbl' j = buckets tbl j)"
proof (cases "key (buckets tbl i) = IDLE_AP")
  case True
  let ?t = "hash_new (Bucket i) i hw tbl"
  have q: "queue_holds (queue (buckets tbl i)) []" using home True by (auto simp: at_home_def i_def Let_def)
  then have "tail (queue (buckets tbl i)) = HeadSlot" by (simp add: queue_holds_Nil queue_rel_def chain_rel_def)
  then have "(queue (buckets tbl i))\<lparr>tail := HeadSlot\<rparr> = queue (buckets tbl i)" by simp
  moreover have "i \<noteq> IDLE_AP" using hash_key_bound [of hw 6] by (simp add: IDLE_AP_def i_def)
  moreover have "\<not> held tbl i" using home by (simp add: at_home_def i_def Let_def)
  moreover have "hash_inv ?t" using inv hw by (simp add: hash_inv_new_bucket i_def)
  moreover have "held ?t = held tbl" by (simp add: hash_new_def Let_def)
  ultimately show ?thesis
    using True hw hash_ap_idle [of tbl hw node]
    by (intro exI [of _ ?t]) (simp add: i_def hash_new_def Let_def hash_ap_def)
next
  case False
  have h: "\<not> held tbl i" "ap_mac (ap (buckets tbl i)) = hw"
    using home False by (simp_all add: at_home_def i_def Let_def)
  have "hash_ap hw node tbl = Some (Inr (Some (Bucket i), tbl))"
    using hash_ap_hit [OF inv h(1) meta_eq_to_obj_eq [OF i_def], of node] h False by simp
  with inv h False show ?thesis by (intro exI [of _ tbl]) auto
qed


lemma buckets_upd [simp]: "buckets (upd_node (Bucket i) f tbl) = (buckets tbl)(i := f (buckets tbl i))"
  by simp

lemma queue_packet_bucket:
  assumes q: "queue_holds (queue (buckets tbl i)) pms" "queue_fresh (queue (buckets tbl i)) p"
    and inv: "hash_inv tbl" and f: "length (ap_mac (f (ap (buckets tbl i)))) = ETH_ALEN"
  shows "\<exists>tbl'. queue_packet (Bucket i) f p m (st, tbl) = Inr (st, tbl') \<and> hash_inv tbl' \<and>
     held tbl' = held tbl \<and> key (buckets tbl' i) = key (buckets tbl i) \<and>
     queue_holds (queue (buckets tbl' i)) (pms @ [(p, m)]) \<and>
     ap (buckets tbl' i) = f (ap (buckets tbl i)) \<and> (\<forall>j. j \<noteq> i \<longrightarrow> buckets tbl' j = buckets tbl j)"
proof -
  obtain q' where q': "ac_receive p m (queue (buckets tbl i)) = Inr q'" "queue_holds q' (pms @ [(p, m)])"
    using queue_holds_ac_receive [OF q] by blast
  let ?t1 = "upd_node (Bucket i) (\<lambda>n. n\<lparr>ap := f (ap n)\<rparr>) tbl"
  let ?t = "upd_node (Bucket i) (\<lambda>n. n\<lparr>queue := q'\<rparr>) ?t1"
  have "queue_packet (Bucket i) f p m (st, tbl) = Inr (st, ?t)"
    using q'(1) by (simp add: queue_packet_def node_receive_def on_node_def)
  moreover have "hash_inv ?t" using inv f by (auto simp: hash_inv_def)
  ultimately show ?thesis using q'(2) by (intro exI [of _ ?t]) simp
qed

lemma ac_net_dllrecv_queues:
  assumes dll: "dll_wf (ac_mac st) (ac_dll st)" "\<not> rcv_locked (ac_dll st)"
    and frame: "length d = ETH_ALEN" "length s = ETH_ALEN" "length bs = n" "n \<le> DLL_PKT_DATALEN" "80 \<le> n"
    and inv: "hash_inv tbl" and home: "at_home (mac (dec_head bs)) tbl pms"
    and fresh: "queue_fresh (queue (buckets tbl (hash_key (mac (dec_head bs)) 6))) p"
  defines "m \<equiv> \<lparr>proto = MSG_PROTO_ETH, msg_len = int (min (n + 14) DLL_PKT_DATALEN),
                data = bs @ drop (14 + n) (rcvpkt (ac_dll st))\<rparr>"
    and "hw \<equiv> mac (dec_head bs)" and "i \<equiv> hash_key (mac (dec_head bs)) 6"
  shows "\<exists>dll tbl'. ac_net_dllrecv (Some p) mem node (Some (eth_header d s @ bs)) (st, tbl) =
       Some (Inr (st\<lparr>ac_dll := dll\<rparr>, tbl')) \<and> dll_wf (ac_mac st) dll \<and> \<not> rcv_locked dll \<and>
     hash_inv tbl' \<and> held tbl' = held tbl \<and> key (buckets tbl' i) \<noteq> IDLE_AP \<and>
     queue_holds (queue (buckets tbl' i)) (pms @ [(p, m)]) \<and>
     ap (buckets tbl' i) = (ap (buckets tbl i))\<lparr>ap_mac := hw\<rparr> \<and>
     (\<forall>j. j \<noteq> i \<longrightarrow> buckets tbl' j = buckets tbl j)"
proof -
  obtain dll where r: "dll_rcv DLL_PKT_DATALEN (Some (eth_header d s @ bs)) (ac_dll st) =
      Inr (msg_len m, Some (data m), dll)" "dll_wf (ac_mac st) dll" "\<not> rcv_locked dll"
    using dll_rcv_frame [OF dll frame(1-4)] unfolding m_def by auto
  have hw: "mac (dec_head (data m)) = hw" "length hw = 6"
    using frame(3,5) by (simp_all add: m_def hw_def dec_head_append dec_head_lengths(3) ETH_ALEN_def)
  have len: "\<not> msg_len m < int ETH_HLEN" using frame(5) by (simp add: m_def dll_lens)
  obtain tbl1 where h: "hash_ap hw node tbl = Some (Inr (Some (Bucket i), tbl1))" "hash_inv tbl1"
    "held tbl1 = held tbl" "key (buckets tbl1 i) \<noteq> IDLE_AP"
    "queue (buckets tbl1 i) = queue (buckets tbl i)" "ap (buckets tbl1 i) = (ap (buckets tbl i))\<lparr>ap_mac := hw\<rparr>"
    "\<forall>j. j \<noteq> i \<longrightarrow> buckets tbl1 j = buckets tbl j"
    using hash_ap_home [OF inv hw(2), of pms node] home unfolding hw_def i_def by blast
  have q: "queue_holds (queue (buckets tbl1 i)) pms" "queue_fresh (queue (buckets tbl1 i)) p"
    using home fresh h(5) by (simp_all add: at_home_def i_def Let_def)
  have f: "length (ap_mac ((ap (buckets tbl1 i))\<lparr>ap_mac := hw\<rparr>)) = ETH_ALEN"
    using hw(2) by (simp add: ETH_ALEN_def)
  obtain tbl2 where p: "queue_packet (Bucket i) (\<lambda>a. a\<lparr>ap_mac := hw\<rparr>) p m (st\<lparr>ac_dll := dll\<rparr>, tbl1) =
      Inr (st\<lparr>ac_dll := dll\<rparr>, tbl2)" "hash_inv tbl2" "held tbl2 = held tbl1"
    "key (buckets tbl2 i) = key (buckets tbl1 i)" "queue_holds (queue (buckets tbl2 i)) (pms @ [(p, m)])"
    "ap (buckets tbl2 i) = (ap (buckets tbl1 i))\<lparr>ap_mac := hw\<rparr>"
    "\<forall>j. j \<noteq> i \<longrightarrow> buckets tbl2 j = buckets tbl1 j"
    using queue_packet_bucket [OF q h(2), of "\<lambda>a. a\<lparr>ap_mac := hw\<rparr>" m "st\<lparr>ac_dll := dll\<rparr>"] f by blast
  have "m = \<lparr>proto = MSG_PROTO_ETH, msg_len = msg_len m, data = data m\<rparr>" by (simp add: m_def)
  then have "ac_net_dllrecv (Some p) mem node (Some (eth_header d s @ bs)) (st, tbl) =
      Some (Inr (st\<lparr>ac_dll := dll\<rparr>, tbl2))"
    using r(1) len h(1) p(1) by (simp add: ac_net_dllrecv_def hw Let_def)
  then show ?thesis using r p h by (intro exI [of _ dll] exI [of _ tbl2]) simp
qed

end
