(* ===== verification/Handshake.thy ===== *)
theory Handshake
  imports Ap_Net Ac_Net
begin

text \<open>
  The registration of an access point as an exchange of both programs: a frame that one side
  sent runs through the receive callback, the message queue and the handler of the other.
  Broadcast, request, response: the theory composes the three and proves that they
  end with a registered access point that owns a leased address.
\<close>

section \<open>One packet through a program\<close>

text \<open>
  A frame arrives at the access point, its callback queues it, and the processing thread takes
  and handles it.
\<close>

definition ap_turn :: "byte list \<Rightarrow> ap_env \<Rightarrow> ptr \<Rightarrow> byte list \<Rightarrow> byte list \<Rightarrow> ap_state \<times> msg_queue \<Rightarrow>
    (ap_state \<times> msg_queue) res option" where
  "ap_turn passwd env p mem frame sq =
     bind_ro (Some (ap_net_dllrecv (Some p) mem (Some frame) sq)) (\<lambda>(st, q).
     bind_ro (Some (ap_message_delete q)) (\<lambda>(r, q). case r of
         None \<Rightarrow> Some (Inr (st, q))
       | Some msg \<Rightarrow> (case cells q msg of
           None \<Rightarrow> Some (Inl UseAfterFree)
         | Some m \<Rightarrow>
             bind_ro (ap_msg_proc passwd env m st) (\<lambda>st.
             bind_ro (Some (message_free msg q)) (\<lambda>q. Some (Inr (st, q)))))))"

text \<open>The same at the controller; \<open>i\<close> is the bucket that the processing thread visits.\<close>

definition ac_turn :: "bool \<Rightarrow> byte list \<Rightarrow> ac_env \<Rightarrow> ptr \<Rightarrow> byte list \<Rightarrow> ptr option \<Rightarrow> byte list \<Rightarrow> nat \<Rightarrow>
    ac_state \<times> hash_state \<Rightarrow> (ac_state \<times> hash_state) res option" where
  "ac_turn debug_build passwd env p mem node frame i sh =
     bind_ro (ac_net_dllrecv (Some p) mem node (Some frame) sh) (\<lambda>sh.
     bind_ro (Some (on_node (Bucket i) ac_message_delete sh)) (\<lambda>(r, sh). case r of
         None \<Rightarrow> Some (Inr sh)
       | Some msg \<Rightarrow> (case node_cell (Bucket i) sh msg of
           None \<Rightarrow> Some (Inl UseAfterFree)
         | Some m \<Rightarrow>
             bind_ro (ac_msg_proc debug_build passwd env m (fst sh, ap (buckets (snd sh) i))) (\<lambda>(st, a).
             Some (node_free (Bucket i) msg (st, upd_node (Bucket i) (\<lambda>n. n\<lparr>ap := a\<rparr>) (snd sh)))))))"

text \<open>The cells of the queue after each of its operations, and what follows a packet in a buffer.\<close>

lemma ap_delete_cells: "ap_message_delete q = Inr (r, q') \<Longrightarrow> cells q' = cells q"
  unfolding ap_message_delete_def Let_def by (auto split: if_splits option.splits)

lemma message_free_cells: "message_free p q = Inr q' \<Longrightarrow> cells q' = (cells q)(p := None)"
  unfolding message_free_def by (auto split: if_splits option.splits)

lemma truncate_head: "msg_head_t.truncate (h :: msg_head_t) = h"
  by (cases h) (simp add: msg_head_t.defs)

lemma dec_ap_reg_append: "96 \<le> length bs \<Longrightarrow> dec_ap_reg (bs @ rest) = dec_ap_reg bs"
  by (simp add: dec_ap_reg_def dec_head_append slice_def dec_sockaddr_def msg_lens)

lemma dec_ac_reg_resp_append: "112 \<le> length bs \<Longrightarrow> dec_ac_reg_resp (bs @ rest) = dec_ac_reg_resp bs"
  by (simp add: dec_ac_reg_resp_def dec_head_append slice_def dec_sockaddr_def msg_lens)

lemma ap_net_dllrecv_queues:
  assumes dll: "ap_wf st" "\<not> rcv_locked (ap_dll st)"
    and frame: "length d = ETH_ALEN" "length s = ETH_ALEN" "length bs = n" "n \<le> DLL_PKT_DATALEN" "1 \<le> n"
    and q: "queue_holds q pms" "queue_fresh q p"
  defines "m \<equiv> \<lparr>proto = MSG_PROTO_ETH, msg_len = int (min (n + 14) DLL_PKT_DATALEN),
                data = bs @ drop (14 + n) (rcvpkt (ap_dll st))\<rparr>"
  shows "\<exists>dll q'. ap_net_dllrecv (Some p) mem (Some (eth_header d s @ bs)) (st, q) =
       Inr (st\<lparr>ap_dll := dll\<rparr>, q') \<and> dll_wf (my_mac st) dll \<and> \<not> rcv_locked dll \<and>
     queue_holds q' (pms @ [(p, m)]) \<and> cells q' = (cells q)(p \<mapsto> m)"
proof -
  have wf: "dll_wf (my_mac st) (ap_dll st)" using dll(1) by (simp add: ap_wf_def)
  obtain dll where r: "dll_rcv DLL_PKT_DATALEN (Some (eth_header d s @ bs)) (ap_dll st) =
      Inr (msg_len m, Some (data m), dll)" "dll_wf (my_mac st) dll" "\<not> rcv_locked dll"
    using dll_rcv_frame [OF wf dll(2) frame(1-4)] unfolding m_def by auto
  have len: "\<not> msg_len m < int ETH_HLEN" using frame(5) by (simp add: m_def dll_lens)
  obtain q' where q': "ap_receive p m q = Inr q'" "queue_holds q' (pms @ [(p, m)])"
    using apq.ins_law [OF q] by blast
  have "m = \<lparr>proto = MSG_PROTO_ETH, msg_len = msg_len m, data = data m\<rparr>" by (simp add: m_def)
  then show ?thesis
    using r q' ap_receive_cells [OF q'(1)] len
    by (intro exI [of _ dll] exI [of _ q']) (simp add: ap_net_dllrecv_def)
qed

lemma ap_turn_handles:
  assumes dll: "ap_wf st" "\<not> rcv_locked (ap_dll st)"
    and frame: "length d = ETH_ALEN" "length s = ETH_ALEN" "length bs = n" "n \<le> DLL_PKT_DATALEN" "1 \<le> n"
    and q: "queue_holds q []" "queue_fresh q p"
  defines "m \<equiv> \<lparr>proto = MSG_PROTO_ETH, msg_len = int (min (n + 14) DLL_PKT_DATALEN),
                data = bs @ drop (14 + n) (rcvpkt (ap_dll st))\<rparr>"
  shows "\<exists>dll q'. dll_wf (my_mac st) dll \<and> \<not> rcv_locked dll \<and> queue_holds q' [] \<and>
     ap_turn passwd env p mem (eth_header d s @ bs) (st, q) =
       bind_ro (ap_msg_proc passwd env m (st\<lparr>ap_dll := dll\<rparr>)) (\<lambda>st. Some (Inr (st, q'))) \<and>
     cells q' = cells q"
proof -
  obtain dll q1 where r: "ap_net_dllrecv (Some p) mem (Some (eth_header d s @ bs)) (st, q) =
      Inr (st\<lparr>ap_dll := dll\<rparr>, q1)" "dll_wf (my_mac st) dll" "\<not> rcv_locked dll" "queue_holds q1 [(p, m)]"
    "cells q1 = (cells q)(p \<mapsto> m)"
    using ap_net_dllrecv_queues [OF dll frame q, of mem] unfolding m_def by auto
  obtain q2 where q2: "ap_message_delete q1 = Inr (Some p, q2)" "queue_taken q2 p m []"
    using apq.del_law [OF r(4)] by blast
  obtain q3 where q3: "message_free p q2 = Inr q3" "queue_holds q3 []"
    using apq.rel_law [OF q2(2)] by blast
  have "cells q2 p = Some m" using apq.load_law [OF q2(2)] .
  moreover have "cells q3 = cells q"
  proof -
    have "cells q p = None" using q(2) by (simp add: queue_fresh_def)
    then show ?thesis using r(5) ap_delete_cells [OF q2(1)] message_free_cells [OF q3(1)] by auto
  qed
  ultimately show ?thesis
    using r q2 q3 by (intro exI [of _ dll] exI [of _ q3]) (simp add: ap_turn_def)
qed

lemma ac_turn_handles:
  assumes dll: "ac_wf st" "\<not> rcv_locked (ac_dll st)"
    and frame: "length d = ETH_ALEN" "length s = ETH_ALEN" "length bs = n" "n \<le> DLL_PKT_DATALEN" "80 \<le> n"
    and inv: "hash_inv tbl" and home: "at_home hw tbl []" and hw: "hw = mac (dec_head bs)"
    and fresh: "queue_fresh (queue (buckets tbl (hash_key hw 6))) p"
  defines "m \<equiv> \<lparr>proto = MSG_PROTO_ETH, msg_len = int (min (n + 14) DLL_PKT_DATALEN),
                data = bs @ drop (14 + n) (rcvpkt (ac_dll st))\<rparr>"
    and "i \<equiv> hash_key hw 6"
  shows "\<exists>dll tbl'. dll_wf (ac_mac st) dll \<and> \<not> rcv_locked dll \<and> 
     ac_turn debug_build passwd env p mem node (eth_header d s @ bs) i (st, tbl) =
       bind_ro (ac_msg_proc debug_build passwd env m (st\<lparr>ac_dll := dll\<rparr>, (ap (buckets tbl i))\<lparr>ap_mac := hw\<rparr>))
         (\<lambda>(st, a). Some (Inr (st, tbl' a))) \<and>
     (\<forall>a. length (ap_mac a) = ETH_ALEN \<longrightarrow> hash_inv (tbl' a)) \<and>
     (\<forall>a. ap_mac a = hw \<longrightarrow> at_home hw (tbl' a) []) \<and>
     (\<forall>a. ap (buckets (tbl' a) i) = a) \<and> (\<forall>a j. j \<noteq> i \<longrightarrow> buckets (tbl' a) j = buckets tbl j)"
proof -
  have wf: "dll_wf (ac_mac st) (ac_dll st)" using dll(1) by (simp add: ac_wf_def)
  obtain dll t1 where r: "ac_net_dllrecv (Some p) mem node (Some (eth_header d s @ bs)) (st, tbl) =
       Some (Inr (st\<lparr>ac_dll := dll\<rparr>, t1))" "dll_wf (ac_mac st) dll" "\<not> rcv_locked dll"
     "hash_inv t1" "held t1 = held tbl" "key (buckets t1 i) \<noteq> IDLE_AP"
     "queue_holds (queue (buckets t1 i)) [(p, m)]"
     "ap (buckets t1 i) = (ap (buckets tbl i))\<lparr>ap_mac := hw\<rparr>"
     "\<forall>j. j \<noteq> i \<longrightarrow> buckets t1 j = buckets tbl j"
    using ac_net_dllrecv_queues [OF wf dll(2) frame inv home [unfolded hw] fresh [unfolded hw], of mem node]
    unfolding m_def i_def hw by auto
  obtain q2 where q2: "ac_message_delete (queue (buckets t1 i)) = Inr (Some p, q2)" "queue_taken q2 p m []"
    using acq.del_law [OF r(7)] by blast
  obtain q3 where q3: "message_free p q2 = Inr q3" "queue_holds q3 []"
    using acq.rel_law [OF q2(2)] by blast
  have c: "cells q2 p = Some m" using acq.load_law [OF q2(2)] .
  define t where "t a = t1\<lparr>buckets := (buckets t1)(i := (buckets t1 i)\<lparr>ap := a, queue := q3\<rparr>)\<rparr>" for a
  let ?k = "\<lambda>(st, a). Some (Inr (st, t a))"
  have e: "ac_turn debug_build passwd env p mem node (eth_header d s @ bs) i (st, tbl) =
      bind_ro (ac_msg_proc debug_build passwd env m (st\<lparr>ac_dll := dll\<rparr>, ap (buckets t1 i))) ?k"
    using r(1) q2(1) q3(1) c by (simp add: ac_turn_def on_node_def node_cell_def node_free_def t_def)
  have h: "\<not> held tbl i" using home by (simp add: at_home_def i_def Let_def)
  have "hash_inv (t a)" if "length (ap_mac a) = ETH_ALEN" for a
    using r(4) that by (auto simp: hash_inv_def t_def)
  moreover have "at_home hw (t a) []" if "ap_mac a = hw" for a
    using that q3(2) r(5,6) h by (simp add: at_home_def t_def i_def [symmetric])
  ultimately show ?thesis
    using r e by (intro exI [of _ dll] exI [of _ t]) (simp add: t_def)
qed

section \<open>The three turns\<close>

lemma net_dllbrd_sends:
  assumes wf: "ac_wf st" and mem: "length mem = sizeof_ac_brd"
  shows "\<exists>mem' st' out. net_dllbrd mem dev True st = Inr (mem', st') \<and>
     ac_sent st' = ac_sent st @ [Frame (eth_header (replicate ETH_ALEN 0xff) (ac_mac st) @ out)] \<and>
     ac_wf st' \<and> ac_pool st' = ac_pool st \<and> ac_ident st' = (chap_get_random dev, ac_uuid st, ac_mac st, ac_addr st) \<and>
     rcv_locked (ac_dll st') = rcv_locked (ac_dll st) \<and>
     length out = sizeof_ac_brd \<and> msg_type (dec_head out) = MSG_AC_BRD \<and> mac (dec_head out) = ac_mac st \<and>
     acuuid (dec_head out) = ac_uuid st \<and> random (dec_head out) = chap_get_random dev"
proof -
  let ?r = "chap_get_random dev"
  let ?head = "fill_msg_header (ac_mac st) (dec_head mem) MSG_AC_BRD (Some (ac_uuid st)) ?r"
  let ?out = "put_at 0 (enc_head ?head) mem"
  have m: "length (ac_mac st) = ETH_ALEN" "length (ac_uuid st) = UUID_LEN" "dll_wf (ac_mac st) (ac_dll st)"
    using wf by (simp_all add: ac_wf_def dll_wf_def)
  have "length (chap (dec_head mem)) = CHAP_LEN"
    using mem by (intro dec_head_lengths) (simp add: sizeof_ac_brd_def)
  then have w: "wf_head ?head" using m by (simp add: wf_head_def)
  have o: "?out = enc_head ?head @ drop 80 mem"
    using w mem by (simp add: put_at_0 sizeof_ac_brd_def)
  have l: "length ?out = sizeof_ac_brd" using w mem by (simp add: o sizeof_ac_brd_def)
  obtain dll where d: "dll_brdcast ?out sizeof_ac_brd True (ac_dll st) =
      Inr (0, Some (eth_header (replicate ETH_ALEN 0xff) (ac_mac st) @ ?out), dll)" "dll_wf (ac_mac st) dll"
    using dll_brdcast_eq [OF m(3), of sizeof_ac_brd ?out] l by (auto simp: dll_lens sizeof_ac_brd_def)
  then have lk: "rcv_locked dll = rcv_locked (ac_dll st)"
    by (auto simp: dll_brdcast_def Let_def split: if_splits)
  have h: "dec_head ?out = ?head" using w by (simp add: o truncate_head)
  show ?thesis
    using d lk wf l m
    by (intro exI [of _ ?out] exI [of _ "st\<lparr>ac_random := ?r, ac_dll := dll,
        ac_sent := ac_sent st @ [Frame (eth_header (replicate ETH_ALEN 0xff) (ac_mac st) @ ?out)]\<rparr>"] exI [of _ ?out])
      (simp add: net_dllbrd_def Let_def h ac_wf_def ac_ident_def)
qed


text \<open>What is handled is the payload followed by what the receive buffer held.\<close>

lemma request_turn:
  assumes st: "ap_wf st" "\<not> rcv_locked (ap_dll st)" "ss_isreg (sysstat st) = 0" and env: "env_wf env"
    and q: "queue_holds q []" "queue_fresh q p"
    and brd: "length d = ETH_ALEN" "length s = ETH_ALEN" "length brd = sizeof_ac_brd"
      "msg_type (dec_head brd) = MSG_AC_BRD"
  shows "\<exists>st' q' out. ap_turn passwd env p mem (eth_header d s @ brd) (st, q) = Some (Inr (st', q')) \<and>
     sent st' = sent st @ [Frame (eth_header (mac (dec_head brd)) (my_mac st) @ out)] \<and>
     ring st' = ring (ring_put (mac (dec_head brd)) (chap_get_random (e_dev env)) st) \<and>
     ap_wf st' \<and> \<not> rcv_locked (ap_dll st') \<and> ap_static st st' \<and> sysstat st' = sysstat st \<and>
     ap_links st' = ap_links st \<and> queue_holds q' [] \<and> cells q' = cells q \<and>
     length out = sizeof_ap_reg \<and> authentic_req passwd out (random (dec_head brd)) \<and>
     mac (dec_head out) = my_mac st \<and> random (dec_head out) = chap_get_random (e_dev env) \<and>
     ipv4 (dec_ap_reg out) = my_addr st"
proof -
  define m where "m = \<lparr>proto = MSG_PROTO_ETH, msg_len = int (min (sizeof_ac_brd + 14) DLL_PKT_DATALEN),
                data = brd @ drop (14 + sizeof_ac_brd) (rcvpkt (ap_dll st))\<rparr>"
  have len: "sizeof_ac_brd \<le> DLL_PKT_DATALEN" "1 \<le> sizeof_ac_brd"
    by (simp_all add: sizeof_ac_brd_def dll_lens)
  obtain dll q' where t: "dll_wf (my_mac st) dll" "\<not> rcv_locked dll" "queue_holds q' []"
    "ap_turn passwd env p mem (eth_header d s @ brd) (st, q) =
       bind_ro (ap_msg_proc passwd env m (st\<lparr>ap_dll := dll\<rparr>)) (\<lambda>st. Some (Inr (st, q')))" "cells q' = cells q"
    using ap_turn_handles [OF st(1,2) brd(1,2,3) len q, of passwd env mem] unfolding m_def by blast
  let ?st = "st\<lparr>ap_dll := dll\<rparr>"
  have wf: "ap_wf ?st" using st(1) t(1) by (simp add: ap_wf_def)
  have h: "dec_head (data m) = dec_head brd"
    using brd(3) by (simp add: m_def dec_head_append sizeof_ac_brd_def)
  have m: "ss_isreg (sysstat ?st) = 0" "msg_type (dec_head (data m)) = MSG_AC_BRD" "proto m = MSG_PROTO_ETH"
    "int sizeof_ac_brd \<le> msg_len m" "msg_len m < 2 ^ 31" "sizeof_ac_brd \<le> length (data m)"
    using st(3) brd(3,4) h by (simp_all add: m_def sizeof_ac_brd_def dll_lens)
  obtain st' out where o: "ap_msg_proc passwd env m ?st = Some (Inr st')"
    "sent st' = sent ?st @ [Frame (eth_header (mac (dec_head brd)) (my_mac ?st) @ out)]"
    "ring st' = ring (ring_put (mac (dec_head brd)) (chap_get_random (e_dev env)) ?st)"
    "ap_wf st'" "sysstat st' = sysstat ?st" "ap_links st' = ap_links ?st" "length out = sizeof_ap_reg"
    "ap_static ?st st'" "rcv_locked (ap_dll st') = rcv_locked (ap_dll ?st)"
    "dec_ap_reg out = (reg_request env (data m) ?st)\<lparr>chap := slice 4 CHAP_LEN out\<rparr>"
    "snd (chap_msg_cmp_md5 passwd True out sizeof_ap_reg (random (dec_head brd))) = 0"
    using broadcast_answer [OF wf env m, of passwd] unfolding h by (elim exE conjE) (rule that)
  have sel: "mac (dec_head out) = mac (dec_ap_reg out)" "random (dec_head out) = random (dec_ap_reg out)"
    "msg_type (dec_head out) = msg_type (dec_ap_reg out)"
    by simp_all
  have l: "20 \<le> length out" using o(7) by (simp add: sizeof_ap_reg_def)
  have mm: "length (my_mac st) = ETH_ALEN" using st(1) by (simp add: ap_wf_def dll_wf_def)
  have f: "mac (dec_head out) = my_mac st" "random (dec_head out) = chap_get_random (e_dev env)"
    "ipv4 (dec_ap_reg out) = my_addr st" "msg_type (dec_head out) = MSG_AP_REG"
    unfolding sel o(10) using mm by (simp_all add: reg_request_def)
  have "authentic_req passwd out (random (dec_head brd))"
    using o(11) l f(4) by (simp add: signed_accepted authentic_req_def)
  moreover have "ring (ring_put (mac (dec_head brd)) (chap_get_random (e_dev env)) ?st) =
      ring (ring_put (mac (dec_head brd)) (chap_get_random (e_dev env)) st)"
    by (intro ring_ring_put) (simp add: ring_def)
  moreover have "ap_static st st'" using o(8) by (simp add: ap_static_def ap_view_def)
  ultimately show ?thesis
    using o t f by (intro exI [of _ st'] exI [of _ q'] exI [of _ out]) simp
qed

lemma answer_turn:
  assumes st: "ac_wf st" "\<not> rcv_locked (ac_dll st)"
    and req: "length d = ETH_ALEN" "length s = ETH_ALEN" "length req = sizeof_ap_reg"
      "authentic_req passwd req (ac_random st)" "mac (dec_head req) = hw" "chap_bounded passwd sizeof_ap_reg"
    and inv: "hash_inv tbl" and home: "at_home hw tbl []"
    and fresh: "queue_fresh (queue (buckets tbl (hash_key hw 6))) p"
    and env: "a_chap_malloc env" "a_calloc env" "a_eth_ok env"
    and pool: "pool_inv (ac_pool st) ps qs" "ps \<noteq> []"
      "\<forall>p\<in>set ps. wf_sockaddr (ip_ipv4 (the (ips (ac_pool st) p)))"
    and may: "may_have (ipv4 (dec_ap_reg req)) hw (ac_pool st) qs"
  shows "\<exists>st' tbl' ip out. ac_turn debug_build passwd env p mem node (eth_header d s @ req) (hash_key hw 6) (st, tbl) =
       Some (Inr (st', tbl')) \<and>
     ac_sent st' = ac_sent st @ [Frame (eth_header hw (ac_mac st) @ out)] \<and>
     ip \<in> set ps \<and> pool_inv (ac_pool st') (remove1 ip ps) (ip # qs) \<and> owner_of (ac_pool st') ip = hw \<and>
     hash_inv tbl' \<and> at_home hw tbl' [] \<and> ap_mac (ap (buckets tbl' (hash_key hw 6))) = hw \<and>
     length out = sizeof_ac_reg_resp \<and> authentic_resp passwd out (random (dec_head req)) \<and>
     dec_ac_reg_resp out = (ac_resp st (chap_get_random (a_dev env))
       (Some (ip_ipv4 (the (ips (ac_pool st) ip)))))\<lparr>chap := slice 4 CHAP_LEN out\<rparr>"
proof -
  define m where "m = \<lparr>proto = MSG_PROTO_ETH, msg_len = int (min (sizeof_ap_reg + 14) DLL_PKT_DATALEN),
                data = req @ drop (14 + sizeof_ap_reg) (rcvpkt (ac_dll st))\<rparr>"
  have len: "sizeof_ap_reg \<le> DLL_PKT_DATALEN" "80 \<le> sizeof_ap_reg"
    by (simp_all add: sizeof_ap_reg_def dll_lens)
  obtain dll tbl' where t: "dll_wf (ac_mac st) dll" "\<not> rcv_locked dll"
    "ac_turn debug_build passwd env p mem node (eth_header d s @ req) (hash_key hw 6) (st, tbl) =
       bind_ro (ac_msg_proc debug_build passwd env m (st\<lparr>ac_dll := dll\<rparr>,
           (ap (buckets tbl (hash_key hw 6)))\<lparr>ap_mac := hw\<rparr>))
         (\<lambda>(st, a). Some (Inr (st, tbl' a)))"
     "\<forall>a. length (ap_mac a) = ETH_ALEN \<longrightarrow> hash_inv (tbl' a)"
     "\<forall>a. ap_mac a = hw \<longrightarrow> at_home hw (tbl' a) []" "\<forall>a. ap (buckets (tbl' a) (hash_key hw 6)) = a"
    using ac_turn_handles [OF st req(1,2,3) len inv home req(5) [symmetric] fresh, of debug_build passwd env mem node,
      folded m_def]
    by (elim exE conjE) (rule that)
  let ?st = "st\<lparr>ac_dll := dll\<rparr>" and ?a = "(ap (buckets tbl (hash_key hw 6)))\<lparr>ap_mac := hw\<rparr>"
  have wf: "ac_wf ?st" using st(1) t(1) by (simp add: ac_wf_def)
  have l: "96 \<le> length req" using req(3) by (simp add: sizeof_ap_reg_def)
  have h: "dec_head (data m) = dec_head req" "dec_ap_reg (data m) = dec_ap_reg req"
    using l by (simp_all add: m_def dec_head_append dec_ap_reg_append)
  have "signed passwd (data m) sizeof_ap_reg (ac_random st)"
    using req(3,4,6) l by (simp add: m_def signed_append authentic_req_def)
  then have ok: "req_ok passwd env m ?st"
    using env(1) req(3,4) h(1) by (simp add: req_ok_def authentic_req_def)
      (simp add: m_def sizeof_ap_reg_def dll_lens)
  have p: "proto m = MSG_PROTO_ETH" by (simp add: m_def)
  have pool': "pool_inv (ac_pool ?st) ps qs"
    "\<forall>p\<in>set ps. wf_sockaddr (ip_ipv4 (the (ips (ac_pool ?st) p)))"
    "may_have (ipv4 (dec_ap_reg (data m))) (mac (dec_head (data m))) (ac_pool ?st) qs"
    using pool may h req(5) by simp_all
  obtain st' ip out where o: "ac_msg_proc debug_build passwd env m (?st, ?a) =
       Some (Inr (st', ?a\<lparr>ap_random := chap_get_random (a_dev env)\<rparr>))"
     "ip \<in> set ps" "pool_inv (ac_pool st') (remove1 ip ps) (ip # qs)"
     "owner_of (ac_pool st') ip = mac (dec_head (data m))" "ap_reg_cnt st' = ap_reg_cnt ?st + 1"
     "ac_sent st' = ac_sent ?st @ [Frame (eth_header (mac (dec_head (data m))) (ac_mac ?st) @ out)]"
     "length out = sizeof_ac_reg_resp" "authentic_resp passwd out (random (dec_head (data m)))"
     "dec_ac_reg_resp out = (ac_resp ?st (chap_get_random (a_dev env))
       (Some (ip_ipv4 (the (ips (ac_pool ?st) ip)))))\<lparr>chap := slice 4 CHAP_LEN out\<rparr>"
    using request_answer [OF wf ok env(2,3) p pool'(1) pool(2) pool'(2,3), of debug_build ?a]
    by (elim exE conjE) (rule that)
  let ?t = "tbl' (?a\<lparr>ap_random := chap_get_random (a_dev env)\<rparr>)"
  have hl: "length hw = ETH_ALEN" using req(5) l mac_dec_head_length [of req] by simp
  have same: "ac_resp ?st = ac_resp st" by (simp add: ac_resp_def fun_eq_iff)
  show ?thesis
    by (intro exI [of _ st'] exI [of _ ?t] exI [of _ ip] exI [of _ out])
      (use o t hl req(5) h same in simp)
qed

lemma response_turn:
  assumes st: "ap_wf st" "\<not> rcv_locked (ap_dll st)" "ss_sock (sysstat st) < 0"
    and q: "queue_holds q []" "queue_fresh q p"
    and resp: "length d = ETH_ALEN" "length s = ETH_ALEN" "length resp = sizeof_ac_reg_resp"
      "authentic_resp passwd resp rnd" "get_random (mac (dec_head resp)) st = Inr rnd"
      "s_addr (acaddr (dec_ac_reg_resp resp)) \<noteq> 0" "chap_bounded passwd sizeof_ac_reg_resp"
    and env: "e_chap_malloc env" "link_inv (ap_links st) ls" "connects env st l"
  shows "\<exists>st' q'. ap_turn passwd env p mem (eth_header d s @ resp) (st, q) = Some (Inr (st', q')) \<and>
     ap_view st' = resp_view (e_setaddr env) resp st \<and> ss_isreg (sysstat st') = 1 \<and>
     ss_sock (sysstat st') = c_socket (e_connect env) \<and> queue_holds q' [] \<and>
     link_inv (ap_links st') (ls @ [l]) \<and>
     watched (ap_links st') = (watched (ap_links st))(c_socket (e_connect env) \<mapsto> l)"
proof -
  define m where "m = \<lparr>proto = MSG_PROTO_ETH, msg_len = int (min (sizeof_ac_reg_resp + 14) DLL_PKT_DATALEN),
                data = resp @ drop (14 + sizeof_ac_reg_resp) (rcvpkt (ap_dll st))\<rparr>"
  have len: "sizeof_ac_reg_resp \<le> DLL_PKT_DATALEN" "1 \<le> sizeof_ac_reg_resp"
    by (simp_all add: sizeof_ac_reg_resp_def dll_lens)
  obtain dll q' where t: "dll_wf (my_mac st) dll" "\<not> rcv_locked dll" "queue_holds q' []"
    "ap_turn passwd env p mem (eth_header d s @ resp) (st, q) =
       bind_ro (ap_msg_proc passwd env m (st\<lparr>ap_dll := dll\<rparr>)) (\<lambda>st. Some (Inr (st, q')))"
    using ap_turn_handles [OF st(1,2) resp(1,2,3) len q, of passwd env mem] unfolding m_def by blast
  let ?st = "st\<lparr>ap_dll := dll\<rparr>"
  have l: "112 \<le> length resp" using resp(3) by (simp add: sizeof_ac_reg_resp_def)
  have h: "dec_head (data m) = dec_head resp" "dec_ac_reg_resp (data m) = dec_ac_reg_resp resp"
    using l by (simp_all add: m_def dec_head_append dec_ac_reg_resp_append)
  have "signed passwd (data m) sizeof_ac_reg_resp rnd"
    using resp(3,4,7) l by (simp add: m_def signed_append authentic_resp_def)
  moreover have "get_random (mac (dec_head resp)) ?st = Inr rnd"
    using resp(5) get_random_ring [of ?st st] by (simp add: ring_def)
  ultimately have ok: "resp_ok passwd env m ?st"
    using env(1) resp(3,4) h(1) by (simp add: resp_ok_def authentic_resp_def)
      (simp add: m_def sizeof_ac_reg_resp_def dll_lens)
  have c: "ss_sock (sysstat ?st) < 0" "s_addr (acaddr (dec_ac_reg_resp (data m))) \<noteq> 0"
    "link_inv (ap_links ?st) ls" "connects env ?st l"
    using st(3) resp(6) env(2,3) h(2) by (simp_all add: connects_def)
  have v: "resp_view (e_setaddr env) (data m) ?st = resp_view (e_setaddr env) resp st"
    using h(2) by (simp add: resp_view_def Let_def)
  from response_connects [OF ok c] t(3,4) v show ?thesis by auto
qed

section \<open>The handshake\<close>

text \<open>
  An access point that waits for a controller: not registered, not connected, its queue empty,
  and the ring not at its last entry; \<open>ls\<close> are its watched sockets.
\<close>

definition ap_waits :: "ap_state \<Rightarrow> msg_queue \<Rightarrow> ptr list \<Rightarrow> bool" where
  "ap_waits st q ls \<longleftrightarrow> ap_wf st \<and> \<not> rcv_locked (ap_dll st) \<and> ss_isreg (sysstat st) = 0 \<and>
     ss_sock (sysstat st) < 0 \<and> rm_offset st + 1 < LOCAL_AC_MAX \<and> queue_holds q [] \<and>
     link_inv (ap_links st) ls"

text \<open>
  A controller that can serve the access point with the address \<open>hw\<close>: an address is free, and
  the bucket of \<open>hw\<close> is idle or its own and has no messages.
\<close>

definition ac_serves :: "byte list \<Rightarrow> ac_state \<Rightarrow> hash_state \<Rightarrow> ptr list \<Rightarrow> ptr list \<Rightarrow> bool" where
  "ac_serves hw st tbl ps qs \<longleftrightarrow> ac_wf st \<and> \<not> rcv_locked (ac_dll st) \<and> s_addr (ac_addr st) \<noteq> 0 \<and>
     pool_inv (ac_pool st) ps qs \<and> ps \<noteq> [] \<and>
     (\<forall>p\<in>set ps. wf_sockaddr (ip_ipv4 (the (ips (ac_pool st) p)))) \<and>
     hash_inv tbl \<and> at_home hw tbl []"

lemma eth_header_lengths: "ap_wf st \<Longrightarrow> length (my_mac st) = ETH_ALEN" "ac_wf a \<Longrightarrow> length (ac_mac a) = ETH_ALEN"
  by (simp_all add: ap_wf_def ac_wf_def dll_wf_def)

lemma handshake_runs:
  assumes ap: "ap_waits st q ls" "queue_fresh q m1" "queue_fresh q m3"
    and ac: "ac_serves (my_mac st) ac tbl ps qs" "may_have (my_addr st) (my_mac st) (ac_pool ac) qs"
      "queue_fresh (queue (buckets tbl (hash_key (my_mac st) 6))) m2"
    and env: "env_wf env1" "e_chap_malloc env2" "connects env2 st l"
      "a_chap_malloc aenv" "a_calloc aenv" "a_eth_ok aenv"
    and brd: "length brdmem = sizeof_ac_brd" and pw: "length passwd + 64 \<le> 2 ^ 32"
  shows "\<exists>mem' ac1 brd st1 q1 req ac2 tbl2 resp ip st2 q2.
     net_dllbrd brdmem dev True ac = Inr (mem', ac1) \<and> ac_sent ac1 = ac_sent ac @ [Frame brd] \<and>
     ap_turn passwd env1 m1 junk brd (st, q) = Some (Inr (st1, q1)) \<and> sent st1 = sent st @ [Frame req] \<and>
     ac_turn debug_build passwd aenv m2 junk node req (hash_key (my_mac st) 6) (ac1, tbl) = Some (Inr (ac2, tbl2)) \<and>
     ac_sent ac2 = ac_sent ac1 @ [Frame resp] \<and>
     ap_turn passwd env2 m3 junk resp (st1, q1) = Some (Inr (st2, q2)) \<and>
     ip \<in> set ps \<and> pool_inv (ac_pool ac2) (remove1 ip ps) (ip # qs) \<and> owner_of (ac_pool ac2) ip = my_mac st \<and>
     ap_mac (ap (buckets tbl2 (hash_key (my_mac st) 6))) = my_mac st \<and>
     (let a = ip_ipv4 (the (ips (ac_pool ac) ip)) in
      ap_view st2 = (strncpy UUID_LEN (ac_uuid ac), ac_mac ac, 1, ac_addr ac,
        if s_addr a \<noteq> 0 \<and> e_setaddr env2 then Some (a\<lparr>sin_family := 2\<rparr>) else nic_addr st)) \<and>
     ss_sock (sysstat st2) = c_socket (e_connect env2) \<and> link_inv (ap_links st2) (ls @ [l]) \<and>
     watched (ap_links st2) = (watched (ap_links st))(c_socket (e_connect env2) \<mapsto> l)"
proof -
  note apd = ap(1) [unfolded ap_waits_def] and acd = ac(1) [unfolded ac_serves_def]
  have cb: "chap_bounded passwd sizeof_ap_reg" "chap_bounded passwd sizeof_ac_reg_resp"
    using pw by (simp_all add: chap_bounded_def sizeof_ap_reg_def sizeof_ac_reg_resp_def)
  have wf: "ap_wf st" "ac_wf ac" using apd acd by simp_all
  have apf: "\<not> rcv_locked (ap_dll st)" "ss_isreg (sysstat st) = 0" "ss_sock (sysstat st) < 0" "queue_holds q []"
    "link_inv (ap_links st) ls" "rm_offset st + 1 < LOCAL_AC_MAX"
    using apd by simp_all
  have acf: "\<not> rcv_locked (ac_dll ac)" "s_addr (ac_addr ac) \<noteq> 0" "pool_inv (ac_pool ac) ps qs" "ps \<noteq> []"
    "\<forall>p\<in>set ps. wf_sockaddr (ip_ipv4 (the (ips (ac_pool ac) p)))" "hash_inv tbl" "at_home (my_mac st) tbl []"
    using acd by simp_all
  have mm: "length (my_mac st) = ETH_ALEN" "length (ac_mac ac) = ETH_ALEN" "length (ac_uuid ac) = UUID_LEN"
    using eth_header_lengths wf by (auto simp: ac_wf_def)
  obtain mem' ac1 brd where b: "net_dllbrd brdmem dev True ac = Inr (mem', ac1)"
     "ac_sent ac1 = ac_sent ac @ [Frame (eth_header (replicate ETH_ALEN 0xff) (ac_mac ac) @ brd)]"
     "ac_wf ac1" "ac_pool ac1 = ac_pool ac" "ac_ident ac1 = (chap_get_random dev, ac_uuid ac, ac_mac ac, ac_addr ac)"
     "rcv_locked (ac_dll ac1) = rcv_locked (ac_dll ac)"
     "length brd = sizeof_ac_brd" "msg_type (dec_head brd) = MSG_AC_BRD" "mac (dec_head brd) = ac_mac ac"
     "acuuid (dec_head brd) = ac_uuid ac" "random (dec_head brd) = chap_get_random dev"
    using net_dllbrd_sends [OF wf(2) brd, of dev] by (elim exE conjE) (rule that)
  have id: "ac_random ac1 = chap_get_random dev" "ac_uuid ac1 = ac_uuid ac" "ac_mac ac1 = ac_mac ac"
    "ac_addr ac1 = ac_addr ac"
    using b(5) by (simp_all add: ac_ident_def)
  have ff: "length (replicate ETH_ALEN 0xff :: byte list) = ETH_ALEN" by simp
  obtain st1 q1 req where r: "ap_turn passwd env1 m1 junk (eth_header (replicate ETH_ALEN 0xff) (ac_mac ac) @ brd) (st, q) =
       Some (Inr (st1, q1))"
     "sent st1 = sent st @ [Frame (eth_header (mac (dec_head brd)) (my_mac st) @ req)]"
     "ring st1 = ring (ring_put (mac (dec_head brd)) (chap_get_random (e_dev env1)) st)"
     "ap_wf st1" "\<not> rcv_locked (ap_dll st1)" "ap_static st st1" "sysstat st1 = sysstat st"
     "ap_links st1 = ap_links st" "queue_holds q1 []" "cells q1 = cells q"
     "length req = sizeof_ap_reg" "authentic_req passwd req (random (dec_head brd))"
     "mac (dec_head req) = my_mac st" "random (dec_head req) = chap_get_random (e_dev env1)"
     "ipv4 (dec_ap_reg req) = my_addr st"
    using request_turn [OF wf(1) apf(1,2) env(1) apf(4) ap(2) ff mm(2) b(7,8), of passwd junk]
    by (elim exE conjE) (rule that)
  have ac1f: "\<not> rcv_locked (ac_dll ac1)" "authentic_req passwd req (ac_random ac1)" "pool_inv (ac_pool ac1) ps qs"
    "\<forall>p\<in>set ps. wf_sockaddr (ip_ipv4 (the (ips (ac_pool ac1) p)))"
    "may_have (ipv4 (dec_ap_reg req)) (my_mac st) (ac_pool ac1) qs"
    using b(4,6,11) acf(1,3,5) r(12,15) id(1) ac(2) by simp_all
  obtain ac2 tbl2 ip resp where a: "ac_turn debug_build passwd aenv m2 junk node
       (eth_header (ac_mac ac) (my_mac st) @ req) (hash_key (my_mac st) 6) (ac1, tbl) = Some (Inr (ac2, tbl2))"
     "ac_sent ac2 = ac_sent ac1 @ [Frame (eth_header (my_mac st) (ac_mac ac1) @ resp)]"
     "ip \<in> set ps" "pool_inv (ac_pool ac2) (remove1 ip ps) (ip # qs)" "owner_of (ac_pool ac2) ip = my_mac st"
     "hash_inv tbl2" "at_home (my_mac st) tbl2 []" "ap_mac (ap (buckets tbl2 (hash_key (my_mac st) 6))) = my_mac st"
     "length resp = sizeof_ac_reg_resp" "authentic_resp passwd resp (random (dec_head req))"
     "dec_ac_reg_resp resp = (ac_resp ac1 (chap_get_random (a_dev aenv))
       (Some (ip_ipv4 (the (ips (ac_pool ac1) ip)))))\<lparr>chap := slice 4 CHAP_LEN resp\<rparr>"
    using answer_turn [OF b(3) ac1f(1) mm(2,1) r(11) ac1f(2) r(13) cb(1) acf(6,7) ac(3) env(4-6) ac1f(3) acf(4) ac1f(4,5),
        of debug_build junk node]
    by (elim exE conjE) (rule that)
  let ?ip = "ip_ipv4 (the (ips (ac_pool ac) ip))"
  have sel: "mac (dec_head resp) = mac (dec_ac_reg_resp resp)" "acuuid (dec_head resp) = acuuid (dec_ac_reg_resp resp)"
    by simp_all
  have c: "mac (dec_head resp) = ac_mac ac" "acuuid (dec_head resp) = ac_uuid ac"
    "acaddr (dec_ac_reg_resp resp) = ac_addr ac" "apaddr (dec_ac_reg_resp resp) = ?ip"
    unfolding sel a(11) using id mm b(4) by simp_all
  have g: "get_random (mac (dec_head resp)) st1 = Inr (random (dec_head req))"
    using get_random_ring [OF r(3)] get_random_ring_put [OF wf(1) apf(6) mm(2)] c(1) b(9) r(14) by simp
  have v: "resp_view (e_setaddr env2) resp st1 = (strncpy UUID_LEN (ac_uuid ac), ac_mac ac, 1, ac_addr ac,
        if s_addr ?ip \<noteq> 0 \<and> e_setaddr env2 then Some (?ip\<lparr>sin_family := 2\<rparr>) else nic_addr st)"
    using c acf(2) r(6) by (simp add: resp_view_def Let_def ap_static_def ap_view_def)
  have "ss_sock (sysstat st1) < 0" "queue_fresh q1 m3" "s_addr (acaddr (dec_ac_reg_resp resp)) \<noteq> 0"
    "link_inv (ap_links st1) ls" "connects env2 st1 l"
    using r(7,8,10) apf(3,5) ap(3) c(3) acf(2) env(3) by (simp_all add: queue_fresh_def connects_def)
  then obtain st2 q2 where f: "ap_turn passwd env2 m3 junk (eth_header (my_mac st) (ac_mac ac) @ resp) (st1, q1) =
      Some (Inr (st2, q2))" "ap_view st2 = resp_view (e_setaddr env2) resp st1"
     "ss_sock (sysstat st2) = c_socket (e_connect env2)" "link_inv (ap_links st2) (ls @ [l])"
     "watched (ap_links st2) = (watched (ap_links st1))(c_socket (e_connect env2) \<mapsto> l)"
    using response_turn [OF r(4,5) _ r(9) _ mm(1,2) a(9,10) g _ cb(2) env(2)] by blast
  show ?thesis
    by (intro exI [of _ mem'] exI [of _ ac1] exI [of _ "eth_header (replicate ETH_ALEN 0xff) (ac_mac ac) @ brd"]
        exI [of _ st1] exI [of _ q1] exI [of _ "eth_header (ac_mac ac) (my_mac st) @ req"] exI [of _ ac2]
        exI [of _ tbl2] exI [of _ "eth_header (my_mac st) (ac_mac ac) @ resp"] exI [of _ ip] exI [of _ st2] exI [of _ q2])
      (use b(1,2,9) r(1,2,8) a(1-5,8) f v id in \<open>simp add: Let_def\<close>)
qed

section \<open>Property\<close>

text \<open>
  C2. The handshake works: a waiting access point and a controller with a free address, both
  with the same password. The controller broadcasts, the access point answers the frame with
  a request, the controller answers that with a response, and the access point handles the
  response. Each step sends the frame that the next one takes. In the end the access point is
  registered with this controller, watches one connection to its server and has the address
  that the controller leased to it; the pool lost exactly this address.
\<close>

theorem registration_handshake:
  assumes ap: "ap_waits st q ls" "queue_fresh q m1" "queue_fresh q m3"
    and ac: "ac_serves (my_mac st) ac tbl ps qs" "may_have (my_addr st) (my_mac st) (ac_pool ac) qs"
      "queue_fresh (queue (buckets tbl (hash_key (my_mac st) 6))) m2"
    and env: "env_wf env1" "e_chap_malloc env2" "connects env2 st l"
      "a_chap_malloc aenv" "a_calloc aenv" "a_eth_ok aenv"
    and brd: "length brdmem = sizeof_ac_brd" and pw: "length passwd + 64 \<le> 2 ^ 32"
  shows "\<exists>mem' ac1 brd st1 q1 req ac2 tbl2 resp ip st2 q2.
     net_dllbrd brdmem dev True ac = Inr (mem', ac1) \<and> ac_sent ac1 = ac_sent ac @ [Frame brd] \<and>
     ap_turn passwd env1 m1 junk brd (st, q) = Some (Inr (st1, q1)) \<and> sent st1 = sent st @ [Frame req] \<and>
     ac_turn debug_build passwd aenv m2 junk node req (hash_key (my_mac st) 6) (ac1, tbl) = Some (Inr (ac2, tbl2)) \<and>
     ac_sent ac2 = ac_sent ac1 @ [Frame resp] \<and>
     ap_turn passwd env2 m3 junk resp (st1, q1) = Some (Inr (st2, q2)) \<and>
     ip \<in> set ps \<and> pool_inv (ac_pool ac2) (remove1 ip ps) (ip # qs) \<and> owner_of (ac_pool ac2) ip = my_mac st \<and>
     ap_mac (ap (buckets tbl2 (hash_key (my_mac st) 6))) = my_mac st \<and>
     (let a = ip_ipv4 (the (ips (ac_pool ac) ip)) in
      ap_view st2 = (strncpy UUID_LEN (ac_uuid ac), ac_mac ac, 1, ac_addr ac,
        if s_addr a \<noteq> 0 \<and> e_setaddr env2 then Some (a\<lparr>sin_family := 2\<rparr>) else nic_addr st)) \<and>
     ss_sock (sysstat st2) = c_socket (e_connect env2) \<and> link_inv (ap_links st2) (ls @ [l]) \<and>
     watched (ap_links st2) = (watched (ap_links st))(c_socket (e_connect env2) \<mapsto> l)"
  by (rule handshake_runs [OF assms])

lemma ex_waits: "ap_waits ex_ap ap_queue_init []"
proof -
  have "ap_links ex_ap = link_init {}" by (simp add: ex_ap_def ap_init_def)
  then have "link_inv (ap_links ex_ap) []" by (simp add: link_inv_init)
  moreover have "\<not> rcv_locked (ap_dll ex_ap)" "ss_isreg (sysstat ex_ap) = 0" "ss_sock (sysstat ex_ap) < 0"
    "rm_offset ex_ap + 1 < LOCAL_AC_MAX"
    by (simp_all add: ex_ap_def ap_init_def init_pktbuf_def Let_def LOCAL_AC_MAX_def)
  moreover have "queue_holds ap_queue_init []"
    by (simp add: ap_queue_init_def queue_holds_Nil queue_rel_def chain_rel_def)
  ultimately show ?thesis using ex_ap_wf by (simp add: ap_waits_def)
qed

lemma ex_serves: "ac_serves ex_ap_mac ex_ac hash_init [3, 4] [5]"
proof -
  have p: "pool_inv (ac_pool ex_ac) [3, 4] [5]" by (simp add: ex_ac_def ex_pool_inv)
  moreover have "\<forall>p\<in>set [3, 4]. wf_sockaddr (ip_ipv4 (the (ips (ac_pool ex_ac) p)))"
    by (simp add: ex_ac_def ex_pool_def ex_ip_def wf_sockaddr_def zero_sockaddr_def)
  moreover have "\<not> rcv_locked (ac_dll ex_ac)" "s_addr (ac_addr ex_ac) \<noteq> 0"
    by (simp_all add: ex_ac_def init_pktbuf_def Let_def)
  moreover have "at_home ex_ap_mac hash_init []"
    by (simp add: at_home_def hash_init_def zero_node_def zero_queue_def queue_holds_Nil queue_rel_def chain_rel_def)
  ultimately show ?thesis using ex_ac_wf hash_inv_init by (simp add: ac_serves_def)
qed

theorem registration_handshake_witness:
  "\<exists>mem' ac1 brd st1 q1 req ac2 tbl2 resp st2 q2.
     net_dllbrd (replicate 130 0) ([7, 0, 0, 0], 0) True ex_ac = Inr (mem', ac1) \<and> ac_sent ac1 = [Frame brd] \<and>
     ap_turn [119] ex_ap_env 20 [] brd (ex_ap, ap_queue_init) = Some (Inr (st1, q1)) \<and> sent st1 = [Frame req] \<and>
     ac_turn True [119] ex_ac_env 21 [] None req (hash_key ex_ap_mac 6) (ac1, hash_init) = Some (Inr (ac2, tbl2)) \<and>
     ac_sent ac2 = ac_sent ac1 @ [Frame resp] \<and>
     ap_turn [119] ex_ap_env 22 [] resp (st1, q1) = Some (Inr (st2, q2)) \<and>
     ss_sock (sysstat st2) = 5 \<and> watched (ap_links st2) 5 = Some 1"
proof -
  have mm: "my_mac ex_ap = ex_ap_mac" "my_addr ex_ap = zero_sockaddr" "ap_links ex_ap = link_init {}"
    "sent ex_ap = []" "ac_sent ex_ac = []"
    by (simp_all add: ex_ap_def ap_init_def ex_ac_def)
  have f: "queue_fresh ap_queue_init p" "queue_fresh (queue (buckets hash_init i)) p" for p i
    by (simp_all add: queue_fresh_def ap_queue_init_def hash_init_def zero_node_def zero_queue_def)
  have may: "may_have (my_addr ex_ap) (my_mac ex_ap) (ac_pool ex_ac) [5]"
    by (simp add: may_have_def mm zero_sockaddr_def)
  have c: "connects ex_ap_env ex_ap 1" using mm(3) by (simp add: connects_def ex_ap_env_def link_init_def)
  have e: "e_chap_malloc ex_ap_env" "a_chap_malloc ex_ac_env" "a_calloc ex_ac_env" "a_eth_ok ex_ac_env"
    "c_socket (e_connect ex_ap_env) = 5"
    by (simp_all add: ex_ap_env_def ex_ac_env_def)
  have b: "length (replicate 130 (0 :: byte)) = sizeof_ac_brd" by (simp add: sizeof_ac_brd_def)
  have pw: "length [119 :: byte] + 64 \<le> 2 ^ 32" by simp
  show ?thesis
    using registration_handshake [where dev = "([7, 0, 0, 0], 0)" and junk = "[]" and debug_build = True and node = None,
        OF ex_waits f(1) [of 20] f(1) [of 22] ex_serves [folded mm(1)] may f(2) [of _ 21] ex_env_wf e(1) c e(2-4) b pw]
    unfolding mm e(5) append_Nil by (elim exE conjE) (intro exI conjI, assumption+, simp)
qed

end
