(* ===== verification/C_Strings.thy ===== *)
theory C_Strings
  imports Prelude
begin

text \<open>
  The functions of \<^verbatim>\<open>ctype.h\<close>, \<^verbatim>\<open>stdlib.h\<close> and \<^verbatim>\<open>string.h\<close> that the parsers of the command line and of
  JSON use, on char lists, and the decimal notation as its own inverse.
\<close>

section \<open>Characters and numbers\<close>

abbreviation (input) code_of :: "char \<Rightarrow> nat" where "code_of \<equiv> of_char"

definition isspace :: "char \<Rightarrow> bool" where
  "isspace c \<longleftrightarrow> code_of c = 32 \<or> 9 \<le> code_of c \<and> code_of c \<le> 13"

definition isdigit :: "char \<Rightarrow> bool" where
  "isdigit c \<longleftrightarrow> 48 \<le> code_of c \<and> code_of c \<le> 57"

definition NUL :: char where "NUL = CHR 0x00"

text \<open>What the functions of \<^verbatim>\<open>string.h\<close> see of a buffer.\<close>

definition cstr :: "string \<Rightarrow> string" where
  "cstr s = takeWhile (\<lambda>c. c \<noteq> NUL) s"

lemma cstr_append: "NUL \<notin> set t \<Longrightarrow> cstr (t @ NUL # r) = t"
  unfolding cstr_def by (subst takeWhile_append2) auto

definition digits_value :: "string \<Rightarrow> int" where
  "digits_value s = foldl (\<lambda>n c. 10 * n + (int (code_of c) - 48)) 0 (takeWhile isdigit s)"

text \<open>The number that \<^verbatim>\<open>strtol\<close> reads in base ten, before the limits of its type.\<close>

definition signed_value :: "string \<Rightarrow> int" where
  "signed_value s =
     (case dropWhile isspace s of
        [] \<Rightarrow> 0
      | c # cs \<Rightarrow> if c = CHR ''-'' then - digits_value cs
          else if c = CHR ''+'' then digits_value cs else digits_value (c # cs))"

text \<open>\<^verbatim>\<open>strtol(s, NULL, 10)\<close>; \<open>None\<close> sets \<^verbatim>\<open>errno\<close>.\<close>

definition strtol10 :: "string \<Rightarrow> int option" where
  "strtol10 s = (if - (2 ^ 63) \<le> signed_value s \<and> signed_value s < 2 ^ 63 then Some (signed_value s) else None)"

text \<open>\<^verbatim>\<open>atoi\<close>: the library computes a \<^verbatim>\<open>long\<close>, which saturates, and cuts it to 32 bits.\<close>

definition atoi :: "string \<Rightarrow> u32" where
  "atoi s = word_of_int (max (- (2 ^ 63)) (min (2 ^ 63 - 1) (signed_value s)))"

fun show_nat :: "nat \<Rightarrow> string" where
  "show_nat n = (if n < 10 then [] else show_nat (n div 10)) @ [char_of (48 + n mod 10)]"

text \<open>\<^verbatim>\<open>%d\<close>.\<close>

definition show_int :: "int \<Rightarrow> string" where
  "show_int i = (if i < 0 then CHR ''-'' # show_nat (nat (- i)) else show_nat (nat i))"

text \<open>\<^verbatim>\<open>strncpy\<close> writes exactly \<open>n\<close> chars.\<close>

definition strncpy_chars :: "nat \<Rightarrow> string \<Rightarrow> string" where
  "strncpy_chars n s = take n s @ replicate (n - length s) NUL"

lemma length_strncpy_chars [simp]: "length (strncpy_chars n s) = n"
  by (simp add: strncpy_chars_def)

section \<open>Decimal notation\<close>

lemma isdigit_char_of: "n < 10 \<Longrightarrow> isdigit (char_of (48 + n :: nat))"
  by (simp add: isdigit_def)

lemma digits_value_snoc:
  "\<forall>c\<in>set s. isdigit c \<Longrightarrow> isdigit c \<Longrightarrow> digits_value (s @ [c]) = 10 * digits_value s + (int (of_char c) - 48)"
  by (simp add: digits_value_def takeWhile_eq_all_conv [THEN iffD2])

declare show_nat.simps [simp del]

lemma show_nat_digits: "c \<in> set (show_nat n) \<Longrightarrow> isdigit c"
  by (induction n rule: show_nat.induct) (subst (asm) show_nat.simps, auto simp: isdigit_char_of split: if_splits)

lemma digits_value_show_nat [simp]: "digits_value (show_nat n) = int n"
proof (induction n rule: show_nat.induct)
  case (1 n)
  have c: "isdigit (char_of (48 + n mod 10))" by (rule isdigit_char_of) simp
  show ?case
  proof (cases "n < 10")
    case True
    then show ?thesis by (subst show_nat.simps) (simp add: digits_value_def isdigit_char_of)
  next
    case False
    have "digits_value (show_nat n) = 10 * digits_value (show_nat (n div 10)) + int (n mod 10)"
      using False digits_value_snoc [OF _ c, of "show_nat (n div 10)"] show_nat_digits
      by (subst show_nat.simps) simp
    with 1 False show ?thesis by (simp add: zdiv_int zmod_int)
  qed
qed

lemma show_nat_not_Nil [simp]: "show_nat n \<noteq> []"
  by (subst show_nat.simps) simp

lemma isdigit_not: "isdigit c \<Longrightarrow> \<not> isspace c \<and> c \<noteq> CHR ''-'' \<and> c \<noteq> CHR ''+''"
  by (auto simp: isdigit_def isspace_def)

lemma signed_value_show_nat [simp]: "signed_value (show_nat n) = int n"
proof -
  obtain c cs where s: "show_nat n = c # cs" by (cases "show_nat n") simp_all
  then have "isdigit c" using show_nat_digits [of c n] by simp
  with s isdigit_not [of c] show ?thesis
    using digits_value_show_nat [of n] by (simp add: signed_value_def)
qed

lemma strtol10_show_nat: "n < 2 ^ 63 \<Longrightarrow> strtol10 (show_nat n) = Some (int n)"
  unfolding strtol10_def signed_value_show_nat by (simp add: zless_nat_eq_int_zless nat_less_iff [symmetric])

end
