(* ===== verification/C_Numbers.thy ===== *)
theory C_Numbers
  imports C_Strings
begin

text \<open>
  \<^verbatim>\<open>strtol\<close>, \<^verbatim>\<open>strtoul\<close> and \<^verbatim>\<open>strtod\<close> with an end pointer, as \<^verbatim>\<open>json_read_array\<close> uses them: how many
  chars they read, and the number. The base is zero, so that the text chooses between octal,
  decimal and hexadecimal notation.
\<close>

section \<open>Integers\<close>

text \<open>The value of a digit; 36 and more for every other char.\<close>

definition digit_of :: "char \<Rightarrow> nat" where
  "digit_of c =
     (if isdigit c then code_of c - 48
      else if 97 \<le> code_of c \<and> code_of c \<le> 122 then code_of c - 87
      else if 65 \<le> code_of c \<and> code_of c \<le> 90 then code_of c - 55
      else 36)"

definition is_sign :: "char \<Rightarrow> bool" where
  "is_sign c \<longleftrightarrow> c = CHR ''-'' \<or> c = CHR ''+''"

definition hex_prefix :: "string \<Rightarrow> bool" where
  "hex_prefix t \<longleftrightarrow> (case t of c # d # _ \<Rightarrow> c = CHR ''0'' \<and> (d = CHR ''x'' \<or> d = CHR ''X'') | _ \<Rightarrow> False)"

text \<open>The base, and the length of the prefix that says it.\<close>

definition base_of :: "string \<Rightarrow> nat \<times> nat" where
  "base_of t =
     (if hex_prefix t \<and> length t > 2 \<and> digit_of (t ! 2) < 16 then (16, 2)
      else if t \<noteq> [] \<and> hd t = CHR ''0'' then (8, 0)
      else (10, 0))"

text \<open>
  The sign, the number behind it without a limit, and the number of chars read; \<open>None\<close> when
  there is no number.
\<close>

definition scan_int :: "string \<Rightarrow> (bool \<times> nat \<times> nat) option" where
  "scan_int s =
     (let r = dropWhile isspace s;
          sign = (if r \<noteq> [] \<and> is_sign (hd r) then 1 else 0);
          t = drop sign r; (base, prefix) = base_of t;
          digits = takeWhile (\<lambda>c. digit_of c < base) (drop prefix t)
      in if digits = [] then None
         else Some (sign = 1 \<and> hd r = CHR ''-'', foldl (\<lambda>n c. base * n + digit_of c) 0 digits,
                    length (takeWhile isspace s) + sign + prefix + length digits))"

text \<open>\<^verbatim>\<open>(int)strtol(s, &ep, 0)\<close>: a \<^verbatim>\<open>long\<close> saturates and is cut to 32 bits. With the number of chars.\<close>

definition strtol0 :: "string \<Rightarrow> u32 \<times> nat" where
  "strtol0 s =
     (case scan_int s of None \<Rightarrow> (0, 0) | Some (neg, n, k) \<Rightarrow>
        (word_of_int (max (- (2 ^ 63)) (min (2 ^ 63 - 1) (if neg then - int n else int n))), k))"

text \<open>\<^verbatim>\<open>(unsigned int)strtoul(s, &ep, 0)\<close>: a minus sign negates modulo \<open>2^64\<close>, too large a number is \<^verbatim>\<open>ULONG_MAX\<close>.\<close>

definition strtoul0 :: "string \<Rightarrow> u32 \<times> nat" where
  "strtoul0 s =
     (case scan_int s of None \<Rightarrow> (0, 0) | Some (neg, n, k) \<Rightarrow>
        (if int n \<ge> 2 ^ 64 then word_of_int (2 ^ 64 - 1) else if neg then - of_nat n else of_nat n, k))"

section \<open>Floating point\<close>

text \<open>A mantissa needs a digit before or behind its point.\<close>

definition mantissa_len :: "nat \<Rightarrow> string \<Rightarrow> nat" where
  "mantissa_len base t =
     (let i = takeWhile (\<lambda>c. digit_of c < base) t; r = drop (length i) t in
      if r \<noteq> [] \<and> hd r = CHR ''.'' then
        let f = takeWhile (\<lambda>c. digit_of c < base) (tl r) in
        if i = [] \<and> f = [] then 0 else length i + 1 + length f
      else length i)"

text \<open>An exponent is the letter, a sign and at least one digit, or nothing.\<close>

definition exponent_len :: "char \<Rightarrow> char \<Rightarrow> string \<Rightarrow> nat" where
  "exponent_len lower upper t =
     (case t of [] \<Rightarrow> 0 | c # r \<Rightarrow>
        if c \<noteq> lower \<and> c \<noteq> upper then 0
        else let sign = (if r \<noteq> [] \<and> is_sign (hd r) then 1 else 0); d = takeWhile isdigit (drop sign r) in
             if d = [] then 0 else 1 + sign + length d)"

definition to_lower :: "char \<Rightarrow> char" where
  "to_lower c = (if 65 \<le> code_of c \<and> code_of c \<le> 90 then char_of (code_of c + 32) else c)"

definition starts_nocase :: "string \<Rightarrow> string \<Rightarrow> bool" where
  "starts_nocase w t \<longleftrightarrow> map to_lower (take (length w) t) = w"

text \<open>\<^verbatim>\<open>nan\<close> may have a sequence of letters, digits and underscores in parentheses.\<close>

definition nan_len :: "string \<Rightarrow> nat" where
  "nan_len t =
     (let r = drop 3 t; w = takeWhile (\<lambda>c. digit_of c < 36 \<or> c = CHR ''_'') (tl r) in
      if r \<noteq> [] \<and> hd r = CHR ''('' \<and> length w + 1 < length r \<and> r ! (length w + 1) = CHR '')''
      then 3 + length w + 2 else 3)"

definition real_len :: "string \<Rightarrow> nat" where
  "real_len t =
     (if starts_nocase ''infinity'' t then 8 else if starts_nocase ''inf'' t then 3
      else if starts_nocase ''nan'' t then nan_len t
      else if hex_prefix t \<and> mantissa_len 16 (drop 2 t) > 0 then
        let m = 2 + mantissa_len 16 (drop 2 t) in m + exponent_len (CHR ''p'') (CHR ''P'') (drop m t)
      else let m = mantissa_len 10 t in
        if m = 0 then 0 else m + exponent_len (CHR ''e'') (CHR ''E'') (drop m t))"

text \<open>
  \<^verbatim>\<open>strtod(s, &ep)\<close>: the text whose value the result is, and the number of chars read. Without
  a number the result is zero.
\<close>

definition strtod_text :: "string \<Rightarrow> string \<times> nat" where
  "strtod_text s =
     (let r = dropWhile isspace s;
          sign = (if r \<noteq> [] \<and> is_sign (hd r) then 1 else 0); n = real_len (drop sign r)
      in if n = 0 then (''0'', 0) else (take (sign + n) r, length (takeWhile isspace s) + sign + n))"

section \<open>Decimal numbers\<close>

lemma digit_of_digit: "isdigit c \<Longrightarrow> digit_of c = code_of c - 48 \<and> digit_of c < 10"
  by (auto simp: digit_of_def isdigit_def)

lemma digit_of_ten: "digit_of c < 10 \<longleftrightarrow> isdigit c"
  by (auto simp: digit_of_def isdigit_def)

lemma foldl_digits:
  "\<forall>c\<in>set ds. isdigit c \<Longrightarrow>
   foldl (\<lambda>n c. 10 * n + (int (code_of c) - 48)) (int m) ds = int (foldl (\<lambda>n c. 10 * n + digit_of c) m ds)"
proof (induction ds arbitrary: m)
  case (Cons c ds)
  then have "int (digit_of c) = int (code_of c) - 48" by (simp add: digit_of_def isdigit_def of_nat_diff)
  then have "10 * int m + (int (code_of c) - 48) = int (10 * m + digit_of c)" by simp
  with Cons show ?case by (simp del: of_nat_add of_nat_mult)
qed simp

lemma show_nat_leading: "0 < n \<Longrightarrow> hd (show_nat n) \<noteq> CHR ''0''"
proof (induction n rule: show_nat.induct)
  case (1 n)
  have c: "of_char (char_of (48 + n mod 10) :: char) = 48 + n mod 10" by simp
  show ?case
  proof (cases "n < 10")
    case True
    have "char_of (48 + n) \<noteq> CHR ''0''"
    proof
      assume "char_of (48 + n) = CHR ''0''"
      then have "of_char (char_of (48 + n) :: char) = (of_char (CHR ''0'') :: nat)" by simp
      with True 1(2) show False by simp
    qed
    with True show ?thesis by (subst show_nat.simps) simp
  next
    case False
    then have "0 < n div 10" by simp
    with 1(1) False show ?thesis by (subst show_nat.simps) simp
  qed
qed

lemma takeWhile_all: "\<forall>c\<in>set ds. P c \<Longrightarrow> cs = [] \<or> \<not> P (hd cs) \<Longrightarrow> takeWhile P (ds @ cs) = ds"
  by (cases cs) (auto simp: takeWhile_append2)

lemma digit_of_36: "digit_of c = 36 \<Longrightarrow> \<not> isdigit c \<and> c \<noteq> CHR ''x'' \<and> c \<noteq> CHR ''X''"
  by (auto simp: digit_of_def isdigit_def)

text \<open>A decimal number with neither a letter nor a digit behind it; zero counts as octal.\<close>

lemma scan_int_show_nat:
  assumes "cs = [] \<or> digit_of (hd cs) = 36"
  shows "scan_int (show_nat n @ cs) = Some (False, n, length (show_nat n))"
proof -
  obtain c ds where s: "show_nat n = c # ds" by (cases "show_nat n") simp_all
  have c: "isdigit c" using show_nat_digits [of c n] s by auto
  have d: "\<forall>c\<in>set (show_nat n). isdigit c" using show_nat_digits by blast
  define b where "b = (if n = 0 then 8 else 10 :: nat)"
  have z: "show_nat 0 = ''0''" by (subst show_nat.simps) (simp add: char_of_def bit_Suc_0_iff)
  have b: "base_of (show_nat n @ cs) = (b, 0)"
  proof (cases "n = 0")
    case True
    show ?thesis
    proof (cases cs)
      case (Cons e es)
      with assms digit_of_36 [of e] show ?thesis by (simp add: True z b_def base_of_def hex_prefix_def)
    qed (simp add: True z b_def base_of_def hex_prefix_def)
  next
    case False
    then have "c \<noteq> CHR ''0''" using show_nat_leading [of n] s by simp
    with False show ?thesis by (simp add: base_of_def hex_prefix_def s b_def split: list.split)
  qed
  have lt: "digit_of c < b" if "c \<in> set (show_nat n)" for c
    using that show_nat_digits [OF that] digit_of_digit [of c] by (cases "n = 0") (auto simp: b_def z digit_of_def isdigit_def)
  have t: "takeWhile (\<lambda>c. digit_of c < b) (show_nat n @ cs) = show_nat n"
    using lt assms by (intro takeWhile_all) (auto simp: b_def)
  have v: "foldl (\<lambda>n c. b * n + digit_of c) 0 (show_nat n) = n"
  proof (cases "n = 0")
    case True
    then show ?thesis by (simp add: z digit_of_def isdigit_def)
  next
    case False
    have "int n = foldl (\<lambda>n c. 10 * n + (int (code_of c) - 48)) (int 0) (show_nat n)"
      using digits_value_show_nat [of n] d by (simp add: digits_value_def takeWhile_eq_all_conv [THEN iffD2])
    also have "\<dots> = int (foldl (\<lambda>n c. 10 * n + digit_of c) 0 (show_nat n))" by (rule foldl_digits [OF d])
    finally show ?thesis using False by (simp add: b_def)
  qed
  have w: "takeWhile isspace (show_nat n @ cs) = []" "dropWhile isspace (show_nat n @ cs) = show_nat n @ cs"
    "\<not> is_sign (hd (show_nat n))"
    using isdigit_not [OF c(1)] by (simp_all add: s is_sign_def)
  show ?thesis by (simp add: scan_int_def Let_def w b t v)
qed

lemma strtol0_show_nat:
  assumes "n < 2 ^ 31" "cs = [] \<or> digit_of (hd cs) = 36"
  shows "strtol0 (show_nat n @ cs) = (of_nat n, length (show_nat n))"
proof -
  have "max (- (2 ^ 63)) (min (2 ^ 63 - 1) (int n)) = int n" using assms(1) by simp
  then show ?thesis by (simp add: strtol0_def scan_int_show_nat [OF assms(2)])
qed

end
