(* ===== verification/Json.thy ===== *)
theory Json
  imports C_Strings
begin

text \<open>
  The JSON reader with fixed-extent memory, \<^verbatim>\<open>lib/mjson.c\<close>: the state machine of
  \<^verbatim>\<open>json_internal_read_object\<close>, the defaults, the conversion and storing of values, and the
  texts of the error codes. Where the targets of the object lie and the reader of arrays are
  arguments of the definitions; \<^verbatim>\<open>Json_Array\<close> has \<^verbatim>\<open>json_read_array\<close> and supplies both.
\<close>

section \<open>Attributes and targets\<close>

datatype json_type =
    t_integer | t_uinteger | t_real | t_string | t_boolean | t_character | t_time
  | t_object | t_structobject | t_array | t_check | t_ignore

text \<open>
  The union of defaults. A \<^verbatim>\<open>double\<close> is represented by the decimal text whose value it is, so
  that \<^verbatim>\<open>atof\<close> keeps the text.
\<close>

record json_dflt =
  d_integer :: u32
  d_real :: string
  d_boolean :: bool
  d_character :: char
  d_check :: string

record 'k json_attr_t =
  at_name :: string
  at_type :: json_type
  at_addr :: 'k
  at_dflt :: json_dflt
  at_len :: nat
  at_map :: "(string \<times> int) list option"
  at_nodefault :: bool

text \<open>
  The variables that the addresses \<open>'k\<close> point to, one map per type of the pointer; a string
  is the whole array of chars, and \<open>js_ptr\<close> are the variables that are pointers to chars.
  \<open>js_cells\<close> says at which addresses there is a variable of a type: a write to any other address is out
  of bounds. An array of numbers is one such variable per element.
\<close>

datatype json_cell = C_int | C_uint | C_double | C_bool | C_char | C_ptr

record 'k json_store =
  js_integer :: "'k \<Rightarrow> u32"
  js_uinteger :: "'k \<Rightarrow> u32"
  js_real :: "'k \<Rightarrow> string"
  js_string :: "'k \<Rightarrow> string"
  js_boolean :: "'k \<Rightarrow> bool"
  js_character :: "'k \<Rightarrow> char"
  js_ptr :: "'k \<Rightarrow> 'k"
  js_cells :: "json_cell \<Rightarrow> 'k \<Rightarrow> bool"

definition JSON_ATTR_MAX :: nat where "JSON_ATTR_MAX = 31"
definition JSON_VAL_MAX :: nat where "JSON_VAL_MAX = 512"

lemmas json_maxima = JSON_ATTR_MAX_def JSON_VAL_MAX_def

definition JSON_ERR_OBSTART :: int where "JSON_ERR_OBSTART = 1"
definition JSON_ERR_ATTRSTART :: int where "JSON_ERR_ATTRSTART = 2"
definition JSON_ERR_BADATTR :: int where "JSON_ERR_BADATTR = 3"
definition JSON_ERR_ATTRLEN :: int where "JSON_ERR_ATTRLEN = 4"
definition JSON_ERR_NOARRAY :: int where "JSON_ERR_NOARRAY = 5"
definition JSON_ERR_NOBRAK :: int where "JSON_ERR_NOBRAK = 6"
definition JSON_ERR_STRLONG :: int where "JSON_ERR_STRLONG = 7"
definition JSON_ERR_TOKLONG :: int where "JSON_ERR_TOKLONG = 8"
definition JSON_ERR_BADTRAIL :: int where "JSON_ERR_BADTRAIL = 9"
definition JSON_ERR_CHECKFAIL :: int where "JSON_ERR_CHECKFAIL = 16"
definition JSON_ERR_NOPARSTR :: int where "JSON_ERR_NOPARSTR = 17"
definition JSON_ERR_BADENUM :: int where "JSON_ERR_BADENUM = 18"
definition JSON_ERR_QNONSTRING :: int where "JSON_ERR_QNONSTRING = 19"
definition JSON_ERR_NONQSTRING :: int where "JSON_ERR_NONQSTRING = 19"
definition JSON_ERR_NULLPTR :: int where "JSON_ERR_NULLPTR = 22"

text \<open>A write to the variable of type \<open>c\<close> at the address \<open>k\<close>; \<open>f\<close> is the update of the store.\<close>

definition put_cell :: "json_cell \<Rightarrow> 'k \<Rightarrow> ('k json_store \<Rightarrow> 'k json_store) \<Rightarrow> 'k json_store \<Rightarrow> 'k json_store res" where
  "put_cell c k f st = (if js_cells st c k then Inr (f st) else Inl OutOfBounds)"

definition put_int :: "'k \<Rightarrow> u32 \<Rightarrow> 'k json_store \<Rightarrow> 'k json_store res" where
  "put_int k v = put_cell C_int k (\<lambda>st. st\<lparr>js_integer := (js_integer st)(k := v)\<rparr>)"

definition put_uint :: "'k \<Rightarrow> u32 \<Rightarrow> 'k json_store \<Rightarrow> 'k json_store res" where
  "put_uint k v = put_cell C_uint k (\<lambda>st. st\<lparr>js_uinteger := (js_uinteger st)(k := v)\<rparr>)"

definition put_real :: "'k \<Rightarrow> string \<Rightarrow> 'k json_store \<Rightarrow> 'k json_store res" where
  "put_real k v = put_cell C_double k (\<lambda>st. st\<lparr>js_real := (js_real st)(k := v)\<rparr>)"

definition put_bool :: "'k \<Rightarrow> bool \<Rightarrow> 'k json_store \<Rightarrow> 'k json_store res" where
  "put_bool k v = put_cell C_bool k (\<lambda>st. st\<lparr>js_boolean := (js_boolean st)(k := v)\<rparr>)"

definition put_character :: "'k \<Rightarrow> char \<Rightarrow> 'k json_store \<Rightarrow> 'k json_store res" where
  "put_character k v = put_cell C_char k (\<lambda>st. st\<lparr>js_character := (js_character st)(k := v)\<rparr>)"

definition put_ptr :: "'k \<Rightarrow> 'k \<Rightarrow> 'k json_store \<Rightarrow> 'k json_store res" where
  "put_ptr k v = put_cell C_ptr k (\<lambda>st. st\<lparr>js_ptr := (js_ptr st)(k := v)\<rparr>)"

lemmas put_defs = put_cell_def put_int_def put_uint_def put_real_def put_bool_def put_character_def put_ptr_def

text \<open>A write of chars to the start of the array at an address; it must fit.\<close>

definition put_chars :: "'k \<Rightarrow> string \<Rightarrow> 'k json_store \<Rightarrow> 'k json_store res" where
  "put_chars k cs st =
     (if length cs \<le> length (js_string st k)
      then Inr (st\<lparr>js_string := (js_string st)(k := put_at 0 cs (js_string st k))\<rparr>)
      else Inl OutOfBounds)"

text \<open>
  Where the object that is read lies: \<open>pl_target\<close> is the address that \<^verbatim>\<open>json_target_address\<close> has
  for a line of the table, \<open>None\<close> for a null pointer, and \<open>pl_parallel\<close> says that the object is a
  later element of an array that is spread over parallel arrays. An object outside every
  array has the addresses of the table.
\<close>

record 'k json_place =
  pl_target :: "'k json_attr_t \<Rightarrow> 'k option"
  pl_parallel :: bool

definition has_target :: "json_type \<Rightarrow> bool" where
  "has_target ty \<longleftrightarrow> ty = t_integer \<or> ty = t_uinteger \<or> ty = t_time \<or> ty = t_real \<or> ty = t_string \<or>
     ty = t_boolean \<or> ty = t_character"

definition top_place :: "'k json_place" where
  "top_place = \<lparr>pl_target = (\<lambda>a. if has_target (at_type a) then Some (at_addr a) else None), pl_parallel = False\<rparr>"

text \<open>
  The default of one attribute. The result of this and of the next functions is zero or an
  error code, and the store.
\<close>

definition json_default :: "'k json_place \<Rightarrow> 'k json_attr_t \<Rightarrow> 'k json_store \<Rightarrow> (int \<times> 'k json_store) res" where
  "json_default pl a st =
     (case pl_target pl a of None \<Rightarrow> Inr (0, st) | Some k \<Rightarrow>
      let d = at_dflt a in
      case at_type a of
        t_integer \<Rightarrow> bind_res (put_int k (d_integer d) st) (\<lambda>st. Inr (0, st))
      | t_uinteger \<Rightarrow> bind_res (put_uint k (d_integer d) st) (\<lambda>st. Inr (0, st))
      | t_time \<Rightarrow> bind_res (put_real k (d_real d) st) (\<lambda>st. Inr (0, st))
      | t_real \<Rightarrow> bind_res (put_real k (d_real d) st) (\<lambda>st. Inr (0, st))
      | t_string \<Rightarrow>
          if pl_parallel pl then Inr (JSON_ERR_NOPARSTR, st)
          else bind_res (put_chars k [NUL] st) (\<lambda>st. Inr (0, st))
      | t_boolean \<Rightarrow> bind_res (put_bool k (d_boolean d) st) (\<lambda>st. Inr (0, st))
      | t_character \<Rightarrow> bind_res (put_character k (d_character d) st) (\<lambda>st. Inr (0, st))
      | _ \<Rightarrow> Inr (0, st))"

fun json_defaults :: "'k json_place \<Rightarrow> 'k json_attr_t list \<Rightarrow> 'k json_store \<Rightarrow> (int \<times> 'k json_store) res" where
  "json_defaults pl [] st = Inr (0, st)"
| "json_defaults pl (a # attrs) st =
     bind_res (if at_nodefault a then Inr (0, st) else json_default pl a st) (\<lambda>(status, st).
       if status \<noteq> 0 then Inr (status, st) else json_defaults pl attrs st)"

text \<open>Converting and storing the text \<open>v\<close>. Without \<^verbatim>\<open>TIME_ENABLE\<close> a time is not stored.\<close>

definition json_store_value :: "'k json_place \<Rightarrow> 'k json_attr_t \<Rightarrow> string \<Rightarrow> 'k json_store \<Rightarrow>
    (int \<times> 'k json_store) res" where
  "json_store_value pl a v st =
     (case pl_target pl a of None \<Rightarrow> Inr (0, st) | Some k \<Rightarrow>
      case at_type a of
        t_integer \<Rightarrow> bind_res (put_int k (atoi v) st) (\<lambda>st. Inr (0, st))
      | t_uinteger \<Rightarrow> bind_res (put_uint k (atoi v) st) (\<lambda>st. Inr (0, st))
      | t_real \<Rightarrow> bind_res (put_real k v st) (\<lambda>st. Inr (0, st))
      | t_string \<Rightarrow>
          if pl_parallel pl then Inr (JSON_ERR_NOPARSTR, st)
          else bind_res (put_chars k (strncpy_chars (at_len a) v) st) (\<lambda>st. Inr (0, st))
      | t_boolean \<Rightarrow> bind_res (put_bool k (v = ''true'') st) (\<lambda>st. Inr (0, st))
      | t_character \<Rightarrow>
          if length v > 1 then Inr (JSON_ERR_STRLONG, st)
          else bind_res (put_character k (case v of [] \<Rightarrow> NUL | c # _ \<Rightarrow> c) st) (\<lambda>st. Inr (0, st))
      | t_check \<Rightarrow> if d_check (at_dflt a) \<noteq> v then Inr (JSON_ERR_CHECKFAIL, st) else Inr (0, st)
      | _ \<Rightarrow> Inr (0, st))"

section \<open>The state machine\<close>

datatype json_phase =
    P_init | P_await_attr | P_in_attr | P_await_value | P_in_val_string | P_in_escape
  | P_in_val_token | P_post_val | P_post_array

text \<open>
  \<open>ps_attr\<close> and \<open>ps_val\<close> are the chars between the start of \<^verbatim>\<open>attrbuf\<close>, \<^verbatim>\<open>valbuf\<close> and the write
  pointer, \<open>None\<close> for a null pointer; \<open>ps_cursor\<close> is the table from the attribute that \<^verbatim>\<open>cursor\<close>
  points to on, and \<open>ps_end\<close> what was assigned to \<^verbatim>\<open>*end\<close>.
\<close>

record 'k json_state =
  ps_phase :: json_phase
  ps_attr :: "string option"
  ps_val :: "string option"
  ps_quoted :: bool
  ps_cursor :: "'k json_attr_t list"
  ps_maxlen :: int
  ps_store :: "'k json_store"
  ps_end :: "string option"

text \<open>
  One round of the loop: it goes on with the rest of the input, leaves for \<^verbatim>\<open>good_parse\<close>, or
  returns an error code.
\<close>

datatype 'k json_step = Next string "'k json_state" | Good string "'k json_state" | Fail int "'k json_state"

definition step_init :: "char \<Rightarrow> string \<Rightarrow> 'k json_state \<Rightarrow> 'k json_step" where
  "step_init c cp st =
     (if isspace c then Next cp st
      else if c = CHR ''{'' then Next cp (st\<lparr>ps_phase := P_await_attr\<rparr>)
      else Fail JSON_ERR_OBSTART (st\<lparr>ps_end := Some (c # cp)\<rparr>))"

definition step_await_attr :: "char \<Rightarrow> string \<Rightarrow> 'k json_state \<Rightarrow> 'k json_step" where
  "step_await_attr c cp st =
     (if isspace c then Next cp st
      else if c = CHR 0x22 then
        Next cp (st\<lparr>ps_phase := P_in_attr, ps_attr := Some [], ps_end := Some (c # cp)\<rparr>)
      else if c = CHR ''}'' then Next cp st
      else Fail JSON_ERR_ATTRSTART (st\<lparr>ps_end := Some (c # cp)\<rparr>))"

text \<open>\<^verbatim>\<open>maxlen\<close> keeps its value for a type that has no limit.\<close>

definition json_maxlen :: "'k json_attr_t \<Rightarrow> int \<Rightarrow> int" where
  "json_maxlen a old =
     (if at_type a = t_string then int (at_len a) - 1
      else if at_type a = t_check then int (length (d_check (at_dflt a)))
      else if at_type a = t_time \<or> at_type a = t_ignore then int JSON_VAL_MAX
      else if at_map a \<noteq> None then int JSON_VAL_MAX
      else old)"

text \<open>\<^verbatim>\<open>*pattr++ = c\<close>: \<^verbatim>\<open>attrbuf\<close> has \<^verbatim>\<open>JSON_ATTR_MAX + 1\<close> chars.\<close>

definition put_attr :: "char \<Rightarrow> string \<Rightarrow> string res" where
  "put_attr c buf = (if length buf < JSON_ATTR_MAX + 1 then Inr (buf @ [c]) else Inl OutOfBounds)"

lemma put_attr_fits: "length buf < JSON_ATTR_MAX \<Longrightarrow> put_attr c buf = Inr (buf @ [c])"
  by (simp add: put_attr_def)

definition step_in_attr :: "'k json_attr_t list \<Rightarrow> char \<Rightarrow> string \<Rightarrow> 'k json_state \<Rightarrow> 'k json_step res" where
  "step_in_attr attrs c cp st =
     (case ps_attr st of
        None \<Rightarrow> Inr (Fail JSON_ERR_NULLPTR st)
      | Some buf \<Rightarrow>
          if c = CHR 0x22 then
            bind_res (put_attr NUL buf) (\<lambda>_.
              case dropWhile (\<lambda>a. at_name a \<noteq> buf) attrs of
                [] \<Rightarrow> Inr (Fail JSON_ERR_BADATTR st)
              | a # as \<Rightarrow> Inr (Next cp (st\<lparr>ps_phase := P_await_value, ps_cursor := a # as,
                  ps_maxlen := json_maxlen a (ps_maxlen st), ps_val := Some []\<rparr>)))
          else if length buf \<ge> JSON_ATTR_MAX - 1 then Inr (Fail JSON_ERR_ATTRLEN st)
          else bind_res (put_attr c buf) (\<lambda>buf. Inr (Next cp (st\<lparr>ps_attr := Some buf\<rparr>))))"

text \<open>
  \<open>read_array\<close> stands for \<^verbatim>\<open>json_read_array\<close>, given the address of the description of the array:
  its return value, the number of chars before the one that \<^verbatim>\<open>cp\<close> points to afterwards, and
  the store.
\<close>

type_synonym 'k array_reader = "'k \<Rightarrow> string \<Rightarrow> 'k json_store \<Rightarrow> (int \<times> nat \<times> 'k json_store) res"

definition step_await_value :: "'k array_reader \<Rightarrow>
    char \<Rightarrow> string \<Rightarrow> 'k json_state \<Rightarrow> 'k json_step res" where
  "step_await_value read_array c cp st =
     (let a = hd (ps_cursor st) in
      if isspace c \<or> c = CHR '':'' then Inr (Next cp st)
      else if c = CHR ''['' then
        if at_type a \<noteq> t_array then Inr (Fail JSON_ERR_NOARRAY (st\<lparr>ps_end := Some (c # cp)\<rparr>))
        else bind_res (read_array (at_addr a) (c # cp) (ps_store st)) (\<lambda>(status, n, s).
               if status \<noteq> 0 then Inr (Fail status (st\<lparr>ps_store := s\<rparr>))
               else Inr (Next (drop n cp) (st\<lparr>ps_store := s, ps_phase := P_post_array\<rparr>)))
      else if at_type a = t_array then Inr (Fail JSON_ERR_NOBRAK (st\<lparr>ps_end := Some (c # cp)\<rparr>))
      else if c = CHR 0x22 then
        Inr (Next cp (st\<lparr>ps_quoted := True, ps_phase := P_in_val_string, ps_val := Some []\<rparr>))
      else Inr (Next cp (st\<lparr>ps_quoted := False, ps_phase := P_in_val_token, ps_val := Some [c]\<rparr>)))"

text \<open>\<^verbatim>\<open>*pval++ = c\<close>: \<^verbatim>\<open>valbuf\<close> has \<^verbatim>\<open>JSON_VAL_MAX + 1\<close> chars.\<close>

definition put_val :: "char \<Rightarrow> string \<Rightarrow> string res" where
  "put_val c v = (if length v < JSON_VAL_MAX + 1 then Inr (v @ [c]) else Inl OutOfBounds)"

definition step_in_val_string :: "char \<Rightarrow> string \<Rightarrow> 'k json_state \<Rightarrow> 'k json_step res" where
  "step_in_val_string c cp st =
     (case ps_val st of
        None \<Rightarrow> Inr (Fail JSON_ERR_NULLPTR st)
      | Some v \<Rightarrow>
          if c = CHR 0x5C then Inr (Next cp (st\<lparr>ps_phase := P_in_escape\<rparr>))
          else if c = CHR 0x22 then
            bind_res (put_val NUL v) (\<lambda>_. Inr (Next cp (st\<lparr>ps_phase := P_post_val\<rparr>)))
          else if length v > JSON_VAL_MAX - 1 \<or> int (length v) > ps_maxlen st
          then Inr (Fail JSON_ERR_STRLONG st)
          else bind_res (put_val c v) (\<lambda>v. Inr (Next cp (st\<lparr>ps_val := Some v\<rparr>))))"

text \<open>
  The loop that collects the digits of \<^verbatim>\<open>\u\<close>: it tests \<^verbatim>\<open>cp[n]\<close> while it advances \<^verbatim>\<open>cp\<close>, so it
  looks at every second char. The result is the number of chars passed; a test behind the end
  of the text \<open>s\<close> is out of bounds.
\<close>

fun uescape_loop :: "nat \<Rightarrow> nat \<Rightarrow> string \<Rightarrow> nat res" where
  "uescape_loop 0 n s = Inr n"
| "uescape_loop (Suc k) n s =
     (if 2 * n > length s then Inl OutOfBounds
      else if 2 * n = length s then Inr n
      else uescape_loop k (n + 1) s)"

text \<open>
  The first char collected is the \<open>u\<close> itself, so \<^verbatim>\<open>sscanf\<close> matches nothing and the char
  written comes from the uninitialised variable \<open>garbage\<close>.
\<close>

definition step_in_escape :: "char \<Rightarrow> char \<Rightarrow> string \<Rightarrow> 'k json_state \<Rightarrow> 'k json_step res" where
  "step_in_escape garbage c cp st =
     (case ps_val st of
        None \<Rightarrow> Inr (Fail JSON_ERR_NULLPTR st)
      | Some v \<Rightarrow>
          bind_res (if c = CHR ''u'' then uescape_loop 4 0 (c # cp) else Inr 1) (\<lambda>n.
          bind_res (put_val (if c = CHR ''b'' then CHR 0x08 else if c = CHR ''f'' then CHR 0x0C
              else if c = CHR ''n'' then CHR 0x0A else if c = CHR ''r'' then CHR 0x0D
              else if c = CHR ''t'' then CHR 0x09 else if c = CHR ''u'' then garbage else c) v) (\<lambda>v.
          Inr (Next (drop n (c # cp)) (st\<lparr>ps_val := Some v, ps_phase := P_in_val_string\<rparr>)))))"

definition step_in_val_token :: "char \<Rightarrow> string \<Rightarrow> 'k json_state \<Rightarrow> 'k json_step res" where
  "step_in_val_token c cp st =
     (case ps_val st of
        None \<Rightarrow> Inr (Fail JSON_ERR_NULLPTR st)
      | Some v \<Rightarrow>
          if isspace c \<or> c = CHR '','' \<or> c = CHR ''}'' then
            bind_res (put_val NUL v) (\<lambda>_.
              Inr (Next (if c = CHR ''}'' \<or> c = CHR '','' then c # cp else cp) (st\<lparr>ps_phase := P_post_val\<rparr>)))
          else if length v > JSON_VAL_MAX - 1 then Inr (Fail JSON_ERR_TOKLONG st)
          else bind_res (put_val c v) (\<lambda>v. Inr (Next cp (st\<lparr>ps_val := Some v\<rparr>))))"

text \<open>Seeking forward for an attribute of the same name whose type fits the value.\<close>

definition json_fits :: "bool \<Rightarrow> string \<Rightarrow> json_type \<Rightarrow> bool" where
  "json_fits quoted v ty \<longleftrightarrow>
     quoted \<and> (ty = t_string \<or> ty = t_time) \<or>
     (v = ''true'' \<or> v = ''false'') \<and> ty = t_boolean \<or>
     v \<noteq> [] \<and> isdigit (hd v) \<and>
       (if CHR ''.'' \<in> set v then ty = t_real else ty = t_integer \<or> ty = t_uinteger)"

fun json_seek :: "bool \<Rightarrow> string \<Rightarrow> string \<Rightarrow> 'k json_attr_t list \<Rightarrow> 'k json_attr_t list" where
  "json_seek quoted v buf [] = []"
| "json_seek quoted v buf (a # as) =
     (if json_fits quoted v (at_type a) \<or> as = [] \<or> at_name (hd as) \<noteq> buf then a # as
      else json_seek quoted v buf as)"

definition step_post_array :: "char \<Rightarrow> string \<Rightarrow> 'k json_state \<Rightarrow> 'k json_step" where
  "step_post_array c cp st =
     (if isspace c then Next cp st
      else if c = CHR '','' then Next cp (st\<lparr>ps_phase := P_await_attr\<rparr>)
      else if c = CHR ''}'' then Good cp st
      else Fail JSON_ERR_BADTRAIL (st\<lparr>ps_end := Some (c # cp)\<rparr>))"

text \<open>
  The value is converted and stored, and the same char is looked at as after an array. White
  space keeps the phase, so that the next char stores the value again.
\<close>

definition step_post_val :: "'k json_place \<Rightarrow> char \<Rightarrow> string \<Rightarrow> 'k json_state \<Rightarrow> 'k json_step res" where
  "step_post_val pl c cp st =
     (let v = cstr (the (ps_val st));
          cursor = json_seek (ps_quoted st) v (the (ps_attr st)) (ps_cursor st);
          st = st\<lparr>ps_cursor := cursor\<rparr>; a = hd cursor; ty = at_type a in
      if ps_quoted st \<and> ty \<noteq> t_string \<and> ty \<noteq> t_character \<and> ty \<noteq> t_check \<and> ty \<noteq> t_time \<and>
         ty \<noteq> t_ignore \<and> at_map a = None
      then Inr (Fail JSON_ERR_QNONSTRING st)
      else if \<not> ps_quoted st \<and> (ty = t_string \<or> ty = t_check \<or> ty = t_time \<or> at_map a \<noteq> None)
      then Inr (Fail JSON_ERR_NONQSTRING st)
      else case (case at_map a of None \<Rightarrow> Some v | Some m \<Rightarrow> map_option show_int (map_of m v)) of
        None \<Rightarrow> Inr (Fail JSON_ERR_BADENUM st)
      | Some v \<Rightarrow>
          let st = st\<lparr>ps_val := Some v\<rparr> in
          bind_res (json_store_value pl a v (ps_store st)) (\<lambda>(status, s).
            let st = st\<lparr>ps_store := s\<rparr> in
            if status \<noteq> 0 then Inr (Fail status st)
            else Inr (step_post_array c cp st)))"

definition json_step :: "'k json_place \<Rightarrow> 'k array_reader \<Rightarrow> char \<Rightarrow>
    'k json_attr_t list \<Rightarrow> char \<Rightarrow> string \<Rightarrow> 'k json_state \<Rightarrow> 'k json_step res" where
  "json_step pl read_array garbage attrs c cp st =
     (case ps_phase st of
        P_init \<Rightarrow> Inr (step_init c cp st)
      | P_await_attr \<Rightarrow> Inr (step_await_attr c cp st)
      | P_in_attr \<Rightarrow> step_in_attr attrs c cp st
      | P_await_value \<Rightarrow> step_await_value read_array c cp st
      | P_in_val_string \<Rightarrow> step_in_val_string c cp st
      | P_in_escape \<Rightarrow> step_in_escape garbage c cp st
      | P_in_val_token \<Rightarrow> step_in_val_token c cp st
      | P_post_val \<Rightarrow> step_post_val pl c cp st
      | P_post_array \<Rightarrow> Inr (step_post_array c cp st))"

text \<open>
  Every round consumes a char, except the one that ends a token: it leaves the comma or brace
  to the next phase.
\<close>

lemma uescape_loop_mono: "uescape_loop k n s = Inr m \<Longrightarrow> n \<le> m"
  by (induction k n s rule: uescape_loop.induct) (auto split: if_splits)

lemma uescape_loop_pos: "uescape_loop 4 0 (c # cp) = Inr m \<Longrightarrow> 0 < m"
  using uescape_loop_mono [of 3 1 "c # cp" m] by (simp add: numeral_eq_Suc)

lemma step_post_array_Next: "step_post_array c cp st = Next cp' st' \<Longrightarrow> cp' = cp"
  by (auto simp: step_post_array_def split: if_splits)

lemma json_step_shrinks:
  assumes "json_step pl read_array garbage attrs c cp st = Inr (Next cp' st')"
  shows "length cp' \<le> length cp \<or> ps_phase st = P_in_val_token \<and> cp' = c # cp \<and> ps_phase st' = P_post_val"
proof (cases "ps_phase st")
  case P_in_escape
  then have "\<exists>n. 0 < n \<and> cp' = drop n (c # cp)"
    using assms uescape_loop_pos [of c cp]
    by (fastforce simp: json_step_def step_in_escape_def bind_res_Inr_iff split: option.splits if_splits)
  then show ?thesis by (auto simp: drop_Cons')
next
  case P_post_val
  then have "cp' = cp"
    using assms
    by (auto simp: json_step_def step_post_val_def Let_def bind_res_Inr_iff
        split: option.splits if_splits dest!: step_post_array_Next)
  then show ?thesis by simp
next
  case P_in_val_token
  then show ?thesis
    using assms by (auto simp: json_step_def step_in_val_token_def bind_res_Inr_iff split: option.splits if_splits)
qed (use assms in \<open>auto simp: json_step_def step_init_def step_await_attr_def step_in_attr_def
      step_await_value_def step_in_val_string_def Let_def bind_res_Inr_iff
      split: option.splits if_splits list.splits prod.splits dest!: step_post_array_Next\<close>)

function json_loop :: "'k json_place \<Rightarrow> 'k array_reader \<Rightarrow> char \<Rightarrow>
    'k json_attr_t list \<Rightarrow> string \<Rightarrow> 'k json_state \<Rightarrow> (int \<times> 'k json_state) res" where
  "json_loop pl read_array garbage attrs [] st = Inr (0, st\<lparr>ps_end := Some []\<rparr>)"
| "json_loop pl read_array garbage attrs (c # cp) st =
     (case json_step pl read_array garbage attrs c cp st of
        Inl e \<Rightarrow> Inl e
      | Inr (Fail e st) \<Rightarrow> Inr (e, st)
      | Inr (Good cp st) \<Rightarrow> Inr (0, st\<lparr>ps_end := Some (dropWhile isspace cp)\<rparr>)
      | Inr (Next cp st) \<Rightarrow> json_loop pl read_array garbage attrs cp st)"
  by pat_completeness auto
termination
  by (relation "measure (\<lambda>(_, _, _, _, cp, st). 2 * length cp + (if ps_phase st = P_in_val_token then 1 else 0))")
    (auto dest!: json_step_shrinks)

text \<open>The state before the loop, and the reader.\<close>

definition json_start :: "'k json_store \<Rightarrow> 'k json_state" where
  "json_start s = \<lparr>ps_phase = P_init, ps_attr = None, ps_val = None, ps_quoted = False,
     ps_cursor = [], ps_maxlen = 0, ps_store = s, ps_end = None\<rparr>"

definition json_internal_read_object :: "'k json_place \<Rightarrow> 'k array_reader \<Rightarrow> char \<Rightarrow>
    string \<Rightarrow> 'k json_attr_t list \<Rightarrow> 'k json_store \<Rightarrow> (int \<times> string option \<times> 'k json_store) res" where
  "json_internal_read_object pl read_array garbage cp attrs s =
     bind_res (json_defaults pl attrs s) (\<lambda>(status, s).
       if status \<noteq> 0 then Inr (status, None, s)
       else bind_res (json_loop pl read_array garbage attrs (cstr cp) (json_start s)) (\<lambda>(status, st).
              Inr (status, ps_end st, ps_store st)))"

definition json_read_object :: "'k array_reader \<Rightarrow> char \<Rightarrow>
    string \<Rightarrow> 'k json_attr_t list \<Rightarrow> 'k json_store \<Rightarrow> (int \<times> string option \<times> 'k json_store) res" where
  "json_read_object = json_internal_read_object top_place"

lemmas json_read_object_defs = json_read_object_def json_internal_read_object_def

section \<open>The texts of the errors\<close>

definition json_error_string :: "int \<Rightarrow> string" where
  "json_error_string err =
     (let errors = [
        ''unknown error while parsing JSON'',
        ''non-whitespace when expecting object start'',
        ''non-whitespace when expecting attribute start'',
        ''unknown attribute name'',
        ''attribute name too long'',
        ''saw [ when not expecting array'',
        ''array element specified, but no ['',
        ''string value too long'',
        ''token value too long'',
        ''garbage while expecting comma or } or ]'',
        ''didn'' @ [CHR 0x27] @ ''t find expected array start'',
        ''error while parsing object array'',
        ''too many array elements'',
        ''garbage while expecting array comma'',
        ''unsupported array element type'',
        ''error while string parsing'',
        ''check attribute not matched'',
        ''can'' @ [CHR 0x27] @ ''t support strings in parallel arrays'',
        ''invalid enumerated value'',
        ''saw quoted value when expecting nonstring'',
        ''didn'' @ [CHR 0x27] @ ''t see quoted value when expecting string'',
        ''other data conversion error'',
        ''unexpected null value or attribute pointer'']
      in if err \<le> 0 \<or> err \<ge> int (length errors) then errors ! 0 else errors ! nat err)"

end
