(* ===== verification/Json_Members.thy ===== *)
theory Json_Members
  imports Json
begin

text \<open>
  Reading back: the text of an object with string members, and what the state machine of
  \<^verbatim>\<open>lib/mjson.c\<close> makes of it.
\<close>

section \<open>Texts of objects\<close>

definition json_member :: "string \<Rightarrow> string \<Rightarrow> string" where
  "json_member k v = [CHR 0x22] @ k @ [CHR 0x22, CHR '':'', CHR 0x22] @ v @ [CHR 0x22]"

fun json_members :: "(string \<times> string) list \<Rightarrow> string" where
  "json_members [] = []"
| "json_members [(k, v)] = json_member k v"
| "json_members ((k, v) # kvs) = json_member k v @ [CHR '',''] @ json_members kvs"

definition json_text :: "(string \<times> string) list \<Rightarrow> string" where
  "json_text kvs = [CHR ''{''] @ json_members kvs @ [CHR ''}'']"

text \<open>Chars that stand for themselves inside quotes.\<close>

definition plain :: "string \<Rightarrow> bool" where
  "plain s \<longleftrightarrow> CHR 0x22 \<notin> set s \<and> CHR 0x5C \<notin> set s \<and> NUL \<notin> set s"

definition attr_of :: "'k json_attr_t list \<Rightarrow> string \<Rightarrow> 'k json_attr_t" where
  "attr_of attrs k = hd (dropWhile (\<lambda>a. at_name a \<noteq> k) attrs)"

text \<open>A member that the table can take: a string attribute, and sizes within the buffers.\<close>

definition fits_table :: "'k json_attr_t list \<Rightarrow> string \<times> string \<Rightarrow> bool" where
  "fits_table attrs kv \<longleftrightarrow> fst kv \<in> at_name ` set attrs \<and> plain (fst kv) \<and> plain (snd kv) \<and>
     length (fst kv) < JSON_ATTR_MAX \<and> length (snd kv) \<le> at_len (attr_of attrs (fst kv)) \<and>
     length (snd kv) \<le> JSON_VAL_MAX"

definition string_table :: "'k json_attr_t list \<Rightarrow> bool" where
  "string_table attrs \<longleftrightarrow> (\<forall>a\<in>set attrs. at_type a = t_string \<and> at_map a = None)"

definition sized :: "'k json_attr_t list \<Rightarrow> 'k json_store \<Rightarrow> bool" where
  "sized attrs s \<longleftrightarrow> (\<forall>a\<in>set attrs. length (js_string s (at_addr a)) = at_len a)"

definition store_member :: "'k json_attr_t list \<Rightarrow> string \<times> string \<Rightarrow> 'k json_store \<Rightarrow> 'k json_store" where
  "store_member attrs kv s = (let a = attr_of attrs (fst kv) in
     s\<lparr>js_string := (js_string s)(at_addr a := strncpy_chars (at_len a) (snd kv))\<rparr>)"

lemma attr_of_table:
  assumes "k \<in> at_name ` set attrs"
  shows "\<exists>as. dropWhile (\<lambda>a. at_name a \<noteq> k) attrs = attr_of attrs k # as" "attr_of attrs k \<in> set attrs"
    "at_name (attr_of attrs k) = k"
proof -
  have "dropWhile (\<lambda>a. at_name a \<noteq> k) attrs \<noteq> []" using assms by (auto simp: dropWhile_eq_Nil_conv)
  then obtain a as where d: "dropWhile (\<lambda>a. at_name a \<noteq> k) attrs = a # as" by (meson neq_Nil_conv)
  then have "a \<in> set attrs" by (metis list.set_intros(1) set_dropWhileD)
  moreover have "at_name a = k" using d by (simp add: dropWhile_eq_Cons_conv)
  ultimately show "\<exists>as. dropWhile (\<lambda>a. at_name a \<noteq> k) attrs = attr_of attrs k # as"
    "attr_of attrs k \<in> set attrs" "at_name (attr_of attrs k) = k"
    using d by (simp_all add: attr_of_def)
qed

section \<open>Scanning\<close>

lemmas json_step_defs = json_step_def step_init_def step_await_attr_def step_in_attr_def
  step_await_value_def step_in_val_string_def step_post_array_def

lemma loop_attr_name:
  assumes "ps_phase st = P_in_attr" "ps_attr st = Some buf" "CHR 0x22 \<notin> set k"
    and "length buf + length k < JSON_ATTR_MAX"
  shows "json_loop pl ra g attrs (k @ cp) st = json_loop pl ra g attrs cp (st\<lparr>ps_attr := Some (buf @ k)\<rparr>)"
  using assms
proof (induction k arbitrary: st buf)
  case Nil
  then have "st\<lparr>ps_attr := Some (buf @ [])\<rparr> = st" by (cases st) simp
  then show ?case by simp
next
  case (Cons c k)
  then have "json_step pl ra g attrs c (k @ cp) st = Inr (Next (k @ cp) (st\<lparr>ps_attr := Some (buf @ [c])\<rparr>))"
    by (auto simp: json_step_defs put_attr_fits)
  with Cons.IH [of "st\<lparr>ps_attr := Some (buf @ [c])\<rparr>" "buf @ [c]"] Cons.prems show ?case by simp
qed

lemma loop_val_string:
  assumes "ps_phase st = P_in_val_string" "ps_val st = Some w" "plain v"
    and "length w + length v \<le> JSON_VAL_MAX" "int (length w + length v) \<le> ps_maxlen st + 1"
  shows "json_loop pl ra g attrs (v @ cp) st = json_loop pl ra g attrs cp (st\<lparr>ps_val := Some (w @ v)\<rparr>)"
  using assms
proof (induction v arbitrary: st w)
  case Nil
  then have "st\<lparr>ps_val := Some (w @ [])\<rparr> = st" by (cases st) simp
  then show ?case by simp
next
  case (Cons c v)
  then have "json_step pl ra g attrs c (v @ cp) st = Inr (Next (v @ cp) (st\<lparr>ps_val := Some (w @ [c])\<rparr>))"
    by (auto simp: json_step_defs plain_def put_val_def)
  with Cons.IH [of "st\<lparr>ps_val := Some (w @ [c])\<rparr>" "w @ [c]"] Cons.prems show ?case
    by (simp add: plain_def)
qed

lemma cstr_plain: "NUL \<notin> set s \<Longrightarrow> cstr s = s"
  unfolding cstr_def by (rule takeWhile_eq_all_conv [THEN iffD2]) auto

text \<open>A name in its quotes.\<close>

lemma loop_key:
  assumes "ps_phase st = P_await_attr" "k \<in> at_name ` set attrs" "plain k" "length k < JSON_ATTR_MAX"
  shows "\<exists>as. json_loop pl ra g attrs (CHR 0x22 # k @ CHR 0x22 # cp) st =
     json_loop pl ra g attrs cp (st\<lparr>ps_phase := P_await_value, ps_attr := Some k, ps_val := Some [],
       ps_cursor := attr_of attrs k # as, ps_maxlen := json_maxlen (attr_of attrs k) (ps_maxlen st),
       ps_end := Some (CHR 0x22 # k @ CHR 0x22 # cp)\<rparr>) \<and> dropWhile (\<lambda>a. at_name a \<noteq> k) attrs = attr_of attrs k # as"
proof -
  obtain as where as: "dropWhile (\<lambda>a. at_name a \<noteq> k) attrs = attr_of attrs k # as"
    using attr_of_table(1) [OF assms(2)] by blast
  define st1 where "st1 = st\<lparr>ps_phase := P_in_attr, ps_attr := Some [], ps_end := Some (CHR 0x22 # k @ CHR 0x22 # cp)\<rparr>"
  have "json_loop pl ra g attrs (CHR 0x22 # k @ CHR 0x22 # cp) st = json_loop pl ra g attrs (k @ CHR 0x22 # cp) st1"
    using assms(1) by (simp add: json_step_defs isspace_def st1_def)
  also have "\<dots> = json_loop pl ra g attrs (CHR 0x22 # cp) (st1\<lparr>ps_attr := Some k\<rparr>)"
    using loop_attr_name [of st1 "[]" k pl ra g attrs "CHR 0x22 # cp"] assms(3,4) by (simp add: st1_def plain_def)
  finally have "json_loop pl ra g attrs (CHR 0x22 # k @ CHR 0x22 # cp) st =
      json_loop pl ra g attrs (CHR 0x22 # cp) (st1\<lparr>ps_attr := Some k\<rparr>)" .
  note l = this
  show ?thesis
    unfolding l using as assms(4) by (intro exI [of _ as], cases st) (simp add: json_step_defs put_attr_fits st1_def)
qed

text \<open>A name, from its first quote to the first quote of the value.\<close>

lemma loop_name:
  assumes "ps_phase st = P_await_attr" "k \<in> at_name ` set attrs" "plain k" "length k < JSON_ATTR_MAX"
    and "at_type (attr_of attrs k) \<noteq> t_array"
  shows "\<exists>st'. json_loop pl ra g attrs ([CHR 0x22] @ k @ [CHR 0x22, CHR '':'', CHR 0x22] @ cp) st =
       json_loop pl ra g attrs cp st' \<and> ps_phase st' = P_in_val_string \<and> ps_val st' = Some [] \<and>
     ps_quoted st' \<and> ps_attr st' = Some k \<and> (\<exists>as. ps_cursor st' = attr_of attrs k # as) \<and>
     ps_maxlen st' = json_maxlen (attr_of attrs k) (ps_maxlen st) \<and> ps_store st' = ps_store st"
proof -
  obtain as where key: "json_loop pl ra g attrs (CHR 0x22 # k @ CHR 0x22 # CHR '':'' # CHR 0x22 # cp) st =
     json_loop pl ra g attrs (CHR '':'' # CHR 0x22 # cp) (st\<lparr>ps_phase := P_await_value, ps_attr := Some k, ps_val := Some [],
       ps_cursor := attr_of attrs k # as, ps_maxlen := json_maxlen (attr_of attrs k) (ps_maxlen st),
       ps_end := Some (CHR 0x22 # k @ CHR 0x22 # CHR '':'' # CHR 0x22 # cp)\<rparr>)" (is "_ = json_loop pl ra g attrs _ ?st")
    using loop_key [OF assms(1-4)] by blast
  with assms(5) show ?thesis
    by (intro exI [of _ "?st\<lparr>ps_quoted := True, ps_phase := P_in_val_string, ps_val := Some []\<rparr>"])
      (simp add: json_step_defs isspace_def)
qed

text \<open>A whole member with the comma or brace behind it.\<close>

lemma json_store_string:
  assumes "at_type a = t_string" "length (js_string s (at_addr a)) = at_len a"
  shows "json_store_value top_place a v s = Inr (0, s\<lparr>js_string := (js_string s)(at_addr a := strncpy_chars (at_len a) v)\<rparr>)"
  using assms by (simp add: json_store_value_def top_place_def has_target_def put_chars_def put_at_def)

lemma loop_member:
  assumes st: "ps_phase st = P_await_attr" and kv: "fits_table attrs (k, v)"
    and tab: "string_table attrs" "sized attrs (ps_store st)"
  shows "\<exists>st'. json_loop top_place ra g attrs (json_member k v @ c # cp) st =
        (case step_post_array c cp st' of
           Next cp st \<Rightarrow> json_loop top_place ra g attrs cp st
         | Good cp st \<Rightarrow> Inr (0, st\<lparr>ps_end := Some (dropWhile isspace cp)\<rparr>)
         | Fail e st \<Rightarrow> Inr (e, st)) \<and>
     ps_store st' = store_member attrs (k, v) (ps_store st)"
proof -
  let ?a = "attr_of attrs k"
  have f: "k \<in> at_name ` set attrs" "plain k" "plain v" "length k < JSON_ATTR_MAX" "length v \<le> at_len ?a"
    "length v \<le> JSON_VAL_MAX"
    using kv by (simp_all add: fits_table_def)
  note at = attr_of_table [OF f(1)]
  have a: "at_type ?a = t_string" "at_map ?a = None" "length (js_string (ps_store st) (at_addr ?a)) = at_len ?a"
    using tab at(2) by (auto simp: string_table_def sized_def)
  let ?name = "[CHR 0x22] @ k @ [CHR 0x22, CHR '':'', CHR 0x22]"
  have m: "json_member k v @ r = ?name @ v @ CHR 0x22 # r" for r by (simp add: json_member_def)
  obtain st1 where s1: "json_loop top_place ra g attrs (?name @ v @ CHR 0x22 # c # cp) st =
      json_loop top_place ra g attrs (v @ CHR 0x22 # c # cp) st1"
    "ps_phase st1 = P_in_val_string" "ps_val st1 = Some []" "ps_quoted st1" "ps_attr st1 = Some k"
    "\<exists>as. ps_cursor st1 = ?a # as" "ps_maxlen st1 = int (at_len ?a) - 1" "ps_store st1 = ps_store st"
    using loop_name [OF st f(1,2,4), of top_place ra g "v @ CHR 0x22 # c # cp"] a(1) by (auto simp: json_maxlen_def)
  obtain as where as: "ps_cursor st1 = ?a # as" using s1(6) by blast
  have "json_loop top_place ra g attrs (v @ CHR 0x22 # c # cp) st1 =
      json_loop top_place ra g attrs (CHR 0x22 # c # cp) (st1\<lparr>ps_val := Some v\<rparr>)"
    using loop_val_string [OF s1(2,3) f(3), of top_place ra g attrs "CHR 0x22 # c # cp"] f(5,6) s1(7) by simp
  also have "\<dots> = json_loop top_place ra g attrs (c # cp) (st1\<lparr>ps_val := Some v, ps_phase := P_post_val\<rparr>)"
    using s1(2) f(6) by (simp add: json_step_defs put_val_def)
  finally have l: "json_loop top_place ra g attrs (json_member k v @ c # cp) st =
      json_loop top_place ra g attrs (c # cp) (st1\<lparr>ps_val := Some v, ps_phase := P_post_val\<rparr>)"
    using s1(1) m by simp
  let ?st = "st1\<lparr>ps_phase := P_post_val, ps_cursor := ?a # as, ps_val := Some v,
      ps_store := store_member attrs (k, v) (ps_store st)\<rparr>"
  have "cstr v = v" using f(3) by (intro cstr_plain) (simp add: plain_def)
  then have "step_post_val top_place c cp (st1\<lparr>ps_val := Some v, ps_phase := P_post_val\<rparr>) = Inr (step_post_array c cp ?st)"
    using s1(4,5,8) as a by (simp add: step_post_val_def json_fits_def Let_def json_store_string store_member_def)
  then show ?thesis
    unfolding l by (intro exI [of _ ?st]) (simp add: json_step_def)
qed

lemma sized_store_member:
  assumes "sized attrs s" "fst kv \<in> at_name ` set attrs"
  shows "sized attrs (store_member attrs kv s)"
  unfolding sized_def
proof
  fix a assume a: "a \<in> set attrs"
  let ?b = "attr_of attrs (fst kv)"
  have "length (js_string s (at_addr a)) = at_len a" "length (js_string s (at_addr ?b)) = at_len ?b"
    using assms(1) a attr_of_table(2) [OF assms(2)] by (simp_all add: sized_def)
  then show "length (js_string (store_member attrs kv s) (at_addr a)) = at_len a"
    by (cases "at_addr a = at_addr ?b") (simp_all add: store_member_def Let_def)
qed

lemma loop_members:
  assumes "kvs \<noteq> []" "ps_phase st = P_await_attr" "\<forall>kv\<in>set kvs. fits_table attrs kv"
    and "string_table attrs" "sized attrs (ps_store st)"
  shows "\<exists>st'. json_loop top_place ra g attrs (json_members kvs @ [CHR ''}''] @ cp) st = Inr (0, st') \<and>
     ps_store st' = fold (store_member attrs) kvs (ps_store st) \<and> ps_end st' = Some (dropWhile isspace cp)"
  using assms
proof (induction kvs arbitrary: st rule: json_members.induct)
  case (2 k v)
  then obtain st' where "json_loop top_place ra g attrs (json_member k v @ CHR ''}'' # cp) st =
        Inr (0, st'\<lparr>ps_end := Some (dropWhile isspace cp)\<rparr>)"
      "ps_store st' = store_member attrs (k, v) (ps_store st)"
    using loop_member [of st attrs k v ra g "CHR ''}''" cp] by (auto simp: step_post_array_def isspace_def)
  then show ?case by simp
next
  case (3 k v kv kvs)
  let ?rest = "json_members (kv # kvs) @ [CHR ''}''] @ cp"
  obtain st' where st': "json_loop top_place ra g attrs (json_member k v @ CHR '','' # ?rest) st =
        json_loop top_place ra g attrs ?rest (st'\<lparr>ps_phase := P_await_attr\<rparr>)"
      "ps_store st' = store_member attrs (k, v) (ps_store st)"
    using 3 loop_member [of st attrs k v ra g "CHR '',''" ?rest] by (auto simp: step_post_array_def isspace_def)
  have "fst (k, v) \<in> at_name ` set attrs" using 3(4) by (simp add: fits_table_def)
  then have "sized attrs (ps_store (st'\<lparr>ps_phase := P_await_attr\<rparr>))"
    using sized_store_member [OF 3(6), of "(k, v)"] st'(2) by simp
  with 3(1) [of "st'\<lparr>ps_phase := P_await_attr\<rparr>"] 3(4,5) st' show ?case by simp
qed simp

section \<open>Reading an object\<close>

lemma json_defaults_string:
  assumes "string_table attrs" "\<forall>a\<in>set attrs. \<not> at_nodefault a \<and> 0 < at_len a" "sized A s" "set attrs \<subseteq> set A"
  shows "\<exists>s'. json_defaults top_place attrs s = Inr (0, s') \<and> sized A s' \<and>
     (\<forall>k. k \<in> at_addr ` set attrs \<or> cstr (js_string s k) = [] \<longrightarrow> cstr (js_string s' k) = [])"
  using assms
proof (induction attrs arbitrary: s)
  case Nil
  then show ?case by simp
next
  case (Cons a attrs)
  let ?k = "at_addr a"
  have a: "at_type a = t_string" "length (js_string s ?k) = at_len a" "0 < at_len a" "\<not> at_nodefault a"
    using Cons.prems by (auto simp: string_table_def sized_def)
  let ?s = "s\<lparr>js_string := (js_string s)(?k := put_at 0 [NUL] (js_string s ?k))\<rparr>"
  have d: "json_default top_place a s = Inr (0, ?s)" using a by (simp add: json_default_def top_place_def has_target_def put_chars_def Let_def)
  have l: "length (put_at 0 [NUL] (js_string s ?k)) = length (js_string s ?k)"
    using a(2,3) by (simp add: put_at_def)
  have "sized A ?s" using Cons.prems(3) l by (auto simp: sized_def)
  then obtain s' where s': "json_defaults top_place attrs ?s = Inr (0, s')" "sized A s'"
    "\<forall>k. k \<in> at_addr ` set attrs \<or> cstr (js_string ?s k) = [] \<longrightarrow> cstr (js_string s' k) = []"
    using Cons.IH [of ?s] Cons.prems by (auto simp: string_table_def)
  have z: "cstr (put_at 0 [NUL] (js_string s ?k)) = []" by (simp add: put_at_def cstr_def)
  have "cstr (js_string s' k) = []" if "k \<in> at_addr ` set (a # attrs) \<or> cstr (js_string s k) = []" for k
  proof -
    have "k \<in> at_addr ` set attrs \<or> cstr (js_string ?s k) = []" using that z by auto
    then show ?thesis using s'(3) by blast
  qed
  with s' d a(4) show ?case by simp
qed

lemma NUL_json_members: "\<forall>kv\<in>set kvs. fits_table attrs kv \<Longrightarrow> NUL \<notin> set (json_members kvs)"
  by (induction kvs rule: json_members.induct)
    (auto simp: json_member_def fits_table_def plain_def NUL_def)

lemma cstr_json_text: "\<forall>kv\<in>set kvs. fits_table attrs kv \<Longrightarrow> cstr (json_text kvs) = json_text kvs"
  using NUL_json_members [of kvs attrs] by (intro cstr_plain) (auto simp: json_text_def NUL_def)

lemma read_members:
  assumes "kvs \<noteq> []" "\<forall>kv\<in>set kvs. fits_table attrs kv" "string_table attrs" "sized attrs s"
    and "json_defaults top_place attrs s0 = Inr (0, s)" "cstr cp = json_text kvs"
  shows "json_read_object ra g cp attrs s0 = Inr (0, Some [], fold (store_member attrs) kvs s)"
proof -
  let ?st = "(json_start s)\<lparr>ps_phase := P_await_attr\<rparr>"
  obtain st' where st': "json_loop top_place ra g attrs (json_members kvs @ [CHR ''}'']) ?st = Inr (0, st')"
    "ps_store st' = fold (store_member attrs) kvs s" "ps_end st' = Some []"
    using loop_members [OF assms(1) _ assms(2,3), of ?st ra g "[]"] assms(4) by (auto simp: json_start_def)
  have "json_loop top_place ra g attrs (json_text kvs) (json_start s) =
      json_loop top_place ra g attrs (json_members kvs @ [CHR ''}'']) ?st"
    by (simp add: json_text_def json_step_def step_init_def json_start_def isspace_def)
  then show ?thesis using st' assms(5,6) by (simp add: json_read_object_defs)
qed

text \<open>What the fold leaves at the address of an attribute, when the names are distinct.\<close>

lemma fold_store_member:
  assumes "distinct (map fst kvs)" "\<forall>kv\<in>set kvs. fst kv \<in> at_name ` set attrs" "inj_on at_addr (set attrs)"
    and "k \<in> at_name ` set attrs"
  shows "js_string (fold (store_member attrs) kvs s) (at_addr (attr_of attrs k)) =
     (case map_of kvs k of None \<Rightarrow> js_string s (at_addr (attr_of attrs k))
      | Some v \<Rightarrow> strncpy_chars (at_len (attr_of attrs k)) v)"
  using assms(1,2)
proof (induction kvs arbitrary: s)
  case Nil
  then show ?case by simp
next
  case (Cons kv kvs)
  obtain n v where kv: "kv = (n, v)" by (cases kv)
  have n: "n \<in> at_name ` set attrs" using Cons.prems(2) by (simp add: kv)
  have eq: "at_addr (attr_of attrs n) = at_addr (attr_of attrs k) \<longleftrightarrow> n = k"
    using attr_of_table(2,3) [OF n] attr_of_table(2,3) [OF assms(4)] assms(3) by (metis inj_onD)
  have one: "js_string (store_member attrs kv s) (at_addr (attr_of attrs k)) =
      (if n = k then strncpy_chars (at_len (attr_of attrs k)) v else js_string s (at_addr (attr_of attrs k)))"
    using eq by (auto simp: kv store_member_def Let_def)
  have ih: "js_string (fold (store_member attrs) (kv # kvs) s) (at_addr (attr_of attrs k)) =
      (case map_of kvs k of None \<Rightarrow> js_string (store_member attrs kv s) (at_addr (attr_of attrs k))
       | Some v \<Rightarrow> strncpy_chars (at_len (attr_of attrs k)) v)"
    using Cons.IH [of "store_member attrs kv s"] Cons.prems by simp
  show ?case
  proof (cases "n = k")
    case True
    then have "map_of kvs k = None" using Cons.prems(1) by (simp add: kv map_of_eq_None_iff)
    then show ?thesis using True unfolding ih one by (simp add: kv)
  next
    case False
    then show ?thesis unfolding ih one by (simp add: kv)
  qed
qed

end
