(* ===== verification/Json_Array.thy ===== *)
theory Json_Array
  imports Json C_Numbers
begin

text \<open>
  The arrays of the JSON reader, \<^verbatim>\<open>json_read_array\<close> of \<^verbatim>\<open>lib/mjson.c\<close>: descriptions of arrays, the
  addresses of the elements and of their members, and the elements of each type. The reader of the arrays
  inside an element is an argument; \<^verbatim>\<open>Json_Nested\<close> supplies it. Addresses are numbers of bytes.
\<close>

section \<open>Descriptions and addresses\<close>

text \<open>
  The union \<^verbatim>\<open>arr\<close> of a description: the table and place of objects, the pointers and chars
  of strings, and \<open>ar_store\<close>, the array of numbers or booleans.
\<close>

record json_array_t =
  ar_type :: json_type
  ar_subtype :: "nat json_attr_t list"
  ar_base :: nat
  ar_stride :: nat
  ar_ptrs :: nat
  ar_chars :: nat
  ar_storelen :: int
  ar_store :: nat
  ar_count :: "nat option"
  ar_maxlen :: int

definition JSON_ERR_ARRAYSTART :: int where "JSON_ERR_ARRAYSTART = 10"
definition JSON_ERR_SUBTOOLONG :: int where "JSON_ERR_SUBTOOLONG = 12"
definition JSON_ERR_BADSUBTRAIL :: int where "JSON_ERR_BADSUBTRAIL = 13"
definition JSON_ERR_SUBTYPE :: int where "JSON_ERR_SUBTYPE = 14"
definition JSON_ERR_BADSTRING :: int where "JSON_ERR_BADSTRING = 15"
definition JSON_ERR_BADNUM :: int where "JSON_ERR_BADNUM = 21"

lemmas json_array_errors = JSON_ERR_ARRAYSTART_def JSON_ERR_SUBTOOLONG_def JSON_ERR_BADSUBTRAIL_def
  JSON_ERR_SUBTYPE_def JSON_ERR_BADSTRING_def JSON_ERR_BADNUM_def JSON_ERR_NOPARSTR_def

text \<open>Sizes of the types that are indexed.\<close>

definition SIZEOF_INT :: nat where "SIZEOF_INT = 4"
definition SIZEOF_DOUBLE :: nat where "SIZEOF_DOUBLE = 8"
definition SIZEOF_PTR :: nat where "SIZEOF_PTR = 8"

lemmas json_sizes = SIZEOF_INT_def SIZEOF_DOUBLE_def SIZEOF_PTR_def

text \<open>
  The target of a line of the table. In an array of structures the address of the line is the
  offset of a member.
\<close>

definition json_target_address :: "nat json_attr_t \<Rightarrow> json_array_t option \<Rightarrow> nat \<Rightarrow> nat option" where
  "json_target_address cursor parent offset =
     (if parent = None \<or> ar_type (the parent) \<noteq> t_structobject then
        case at_type cursor of
          t_ignore \<Rightarrow> None
        | t_integer \<Rightarrow> Some (at_addr cursor + SIZEOF_INT * offset)
        | t_uinteger \<Rightarrow> Some (at_addr cursor + SIZEOF_INT * offset)
        | t_time \<Rightarrow> Some (at_addr cursor + SIZEOF_DOUBLE * offset)
        | t_real \<Rightarrow> Some (at_addr cursor + SIZEOF_DOUBLE * offset)
        | t_string \<Rightarrow> Some (at_addr cursor)
        | t_boolean \<Rightarrow> Some (at_addr cursor + offset)
        | t_character \<Rightarrow> Some (at_addr cursor + offset)
        | _ \<Rightarrow> None
      else Some (ar_base (the parent) + offset * ar_stride (the parent) + at_addr cursor))"

lemma json_target_address_top:
  "(\<lambda>a. json_target_address a None 0) = pl_target top_place"
proof
  fix a show "json_target_address a None 0 = pl_target top_place a"
    by (cases "at_type a") (simp_all add: json_target_address_def top_place_def has_target_def)
qed

definition array_place :: "json_array_t \<Rightarrow> nat \<Rightarrow> nat json_place" where
  "array_place arr offset =
     \<lparr>pl_target = (\<lambda>a. json_target_address a (Some arr) offset),
      pl_parallel = (ar_type arr \<noteq> t_structobject \<and> 0 < offset)\<rparr>"

section \<open>Elements\<close>

text \<open>\<^verbatim>\<open>*tp = c\<close>, where \<^verbatim>\<open>tp\<close> points \<open>i\<close> chars behind the address \<open>k\<close>.\<close>

definition put_char :: "'k \<Rightarrow> nat \<Rightarrow> char \<Rightarrow> 'k json_store \<Rightarrow> 'k json_store res" where
  "put_char k i c s =
     (if i < length (js_string s k) then Inr (s\<lparr>js_string := (js_string s)(k := (js_string s k)[i := c])\<rparr>)
      else Inl OutOfBounds)"

definition skip_one_space :: "string \<Rightarrow> string" where
  "skip_one_space cp = (case cp of c # cs \<Rightarrow> if isspace c then cs else cp | [] \<Rightarrow> [])"

text \<open>
  The chars of a string, up to its closing quote. The result of this and of the next functions
  is the status, \<^verbatim>\<open>cp\<close>, the distance of \<^verbatim>\<open>tp\<close> from \<^verbatim>\<open>store\<close>, and the store.
\<close>

fun array_chars :: "nat \<Rightarrow> int \<Rightarrow> string \<Rightarrow> nat \<Rightarrow> nat json_store \<Rightarrow> (int \<times> string \<times> nat \<times> nat json_store) res" where
  "array_chars k storelen [] tp s = Inr (JSON_ERR_BADSTRING, [], tp, s)"
| "array_chars k storelen (c # cp) tp s =
     (if \<not> int tp < storelen then Inr (JSON_ERR_BADSTRING, c # cp, tp, s)
      else if c = CHR 0x22 then bind_res (put_char k tp NUL s) (\<lambda>s. Inr (0, cp, tp + 1, s))
      else bind_res (put_char k tp c s) (array_chars k storelen cp (tp + 1)))"

definition array_string :: "json_array_t \<Rightarrow> nat \<Rightarrow> string \<Rightarrow> nat \<Rightarrow> nat json_store \<Rightarrow>
    (int \<times> string \<times> nat \<times> nat json_store) res" where
  "array_string arr offset cp tp s =
     (case skip_one_space cp of
        [] \<Rightarrow> Inr (JSON_ERR_BADSTRING, [], tp, s)
      | c # cp \<Rightarrow>
          if c \<noteq> CHR 0x22 then Inr (JSON_ERR_BADSTRING, c # cp, tp, s)
          else bind_res (put_ptr (ar_ptrs arr + SIZEOF_PTR * offset) (ar_chars arr + tp) s)
                 (array_chars (ar_chars arr) (ar_storelen arr) cp tp))"

text \<open>A number that was scanned: it is stored before the end pointer is looked at.\<close>

definition scanned :: "nat \<Rightarrow> string \<Rightarrow> nat \<Rightarrow> nat json_store \<Rightarrow> (int \<times> string \<times> nat \<times> nat json_store) res" where
  "scanned n cp tp s = Inr (if n = 0 then JSON_ERR_BADNUM else 0, drop n cp, tp, s)"

text \<open>
  One element. A time is skipped without reading anything, and a boolean that is neither \<^verbatim>\<open>true\<close>
  nor \<^verbatim>\<open>false\<close> as well.
\<close>

definition array_element :: "nat array_reader \<Rightarrow> char \<Rightarrow> json_array_t \<Rightarrow> nat \<Rightarrow> string \<Rightarrow> nat \<Rightarrow>
    nat json_store \<Rightarrow> (int \<times> string \<times> nat \<times> nat json_store) res" where
  "array_element read_array garbage arr offset cp tp s =
     (case ar_type arr of
        t_time \<Rightarrow> Inr (0, cp, tp, s)
      | t_string \<Rightarrow> array_string arr offset cp tp s
      | t_integer \<Rightarrow> (case strtol0 cp of (v, n) \<Rightarrow>
          bind_res (put_int (ar_store arr + SIZEOF_INT * offset) v s) (scanned n cp tp))
      | t_uinteger \<Rightarrow> (case strtoul0 cp of (v, n) \<Rightarrow>
          bind_res (put_uint (ar_store arr + SIZEOF_INT * offset) v s) (scanned n cp tp))
      | t_real \<Rightarrow> (case strtod_text cp of (v, n) \<Rightarrow>
          bind_res (put_real (ar_store arr + SIZEOF_DOUBLE * offset) v s) (scanned n cp tp))
      | t_boolean \<Rightarrow>
          if take 4 cp = ''true''
          then bind_res (put_bool (ar_store arr + offset) True s) (\<lambda>s. Inr (0, drop 4 cp, tp, s))
          else if take 5 cp = ''false''
          then bind_res (put_bool (ar_store arr + offset) False s) (\<lambda>s. Inr (0, drop 5 cp, tp, s))
          else Inr (0, cp, tp, s)
      | ty \<Rightarrow>
          if ty = t_object \<or> ty = t_structobject then
            bind_res (json_internal_read_object (array_place arr offset) read_array garbage cp (ar_subtype arr) s)
              (\<lambda>(status, end, s). Inr (status, case end of Some cp \<Rightarrow> cp | None \<Rightarrow> [], tp, s))
          else Inr (JSON_ERR_SUBTYPE, cp, tp, s))"

section \<open>The loop\<close>

definition set_count :: "json_array_t \<Rightarrow> nat \<Rightarrow> nat json_store \<Rightarrow> nat json_store res" where
  "set_count arr n s = (case ar_count arr of None \<Rightarrow> Inr s | Some k \<Rightarrow> put_int k (of_nat n) s)"

text \<open>
  The rounds from \<open>offset\<close> on, of which \<open>n\<close> are left. The result is the status, \<^verbatim>\<open>*end\<close> and the
  store; \<^verbatim>\<open>arrcount\<close> is one more than \<^verbatim>\<open>offset\<close> behind each element.
\<close>

primrec array_elements :: "nat array_reader \<Rightarrow> char \<Rightarrow> json_array_t \<Rightarrow> nat \<Rightarrow> nat \<Rightarrow> string \<Rightarrow> nat \<Rightarrow>
    nat json_store \<Rightarrow> (int \<times> string option \<times> nat json_store) res" where
  "array_elements read_array garbage arr 0 offset cp tp s = Inr (JSON_ERR_SUBTOOLONG, Some cp, s)"
| "array_elements read_array garbage arr (Suc n) offset cp tp s =
     bind_res (array_element read_array garbage arr offset cp tp s) (\<lambda>(status, cp, tp, s).
       if status \<noteq> 0 then Inr (status, None, s)
       else (case skip_one_space cp of
               [] \<Rightarrow> Inr (JSON_ERR_BADSUBTRAIL, None, s)
             | c # cp \<Rightarrow>
                 if c = CHR '']'' then bind_res (set_count arr (offset + 1) s) (\<lambda>s. Inr (0, Some (c # cp), s))
                 else if c = CHR '','' then array_elements read_array garbage arr n (offset + 1) cp tp s
                 else Inr (JSON_ERR_BADSUBTRAIL, None, s)))"

definition json_read_array :: "nat array_reader \<Rightarrow> char \<Rightarrow> string \<Rightarrow> json_array_t \<Rightarrow> nat json_store \<Rightarrow>
    (int \<times> string option \<times> nat json_store) res" where
  "json_read_array read_array garbage cp arr s =
     (case dropWhile isspace (cstr cp) of
        [] \<Rightarrow> Inr (JSON_ERR_ARRAYSTART, None, s)
      | c # cp \<Rightarrow>
          if c \<noteq> CHR ''['' then Inr (JSON_ERR_ARRAYSTART, None, s)
          else let cp = dropWhile isspace cp in
               if cp \<noteq> [] \<and> hd cp = CHR '']'' then bind_res (set_count arr 0 s) (\<lambda>s. Inr (0, Some cp, s))
               else array_elements read_array garbage arr (nat (ar_maxlen arr)) 0 cp 0 s)"

text \<open>
  An array inside an object: \<open>at_position\<close> turns the end into the number of chars before it.
\<close>

definition at_position :: "string \<Rightarrow> (int \<times> string option \<times> 'k json_store) res \<Rightarrow> (int \<times> nat \<times> 'k json_store) res" where
  "at_position cp r = bind_res r (\<lambda>(status, end, s).
     Inr (status, (case end of None \<Rightarrow> 0 | Some rest \<Rightarrow> length cp - length rest), s))"

end
