(* ===== verification/Json_Nested.thy ===== *)
theory Json_Nested
  imports Json_Array "HOL-Library.Sublist"
begin

text \<open>
  How far the JSON reader gets in the text: every function of \<^verbatim>\<open>lib/mjson.c\<close> leaves a suffix, and
  an array inside an element is shorter than the array around it. So the mutual recursion of the
  code ends, and defines the reader of nested arrays.
\<close>

section \<open>Suffixes\<close>

named_theorems suffixes "what the readers leave is a suffix"

lemma suffix_dropWhile [suffixes]: "suffix (dropWhile P cs) cs"
  by (rule suffixI [of _ "takeWhile P cs"]) simp

lemma suffix_drop_Cons [suffixes]: "suffix (drop n cs) (c # cs)"
  by (rule suffix_order.trans [OF suffix_drop]) (simp add: suffix_ConsI)

lemma suffix_skip_one_space [suffixes]: "suffix (skip_one_space cp) cp"
  by (simp add: skip_one_space_def suffix_ConsI split: list.split)

lemma json_step_suffix:
  assumes "json_step pl ra g attrs c cp st = Inr (Next cp' st')"
  shows "suffix cp' (c # cp)"
proof -
  have d: "suffix (drop n (c # cp)) (c # cp)" "suffix (drop n cp) (c # cp)" for n
    by (rule suffix_drop) (rule suffix_drop_Cons)
  have "cp' = cp \<or> cp' = c # cp \<or> (\<exists>n. cp' = drop n (c # cp)) \<or> (\<exists>n. cp' = drop n cp)"
    using assms
    by (cases "ps_phase st")
      (auto simp: json_step_def step_init_def step_await_attr_def step_in_attr_def step_await_value_def
        step_in_val_string_def step_in_val_token_def step_in_escape_def step_post_val_def Let_def bind_res_Inr_iff
        split: option.splits if_splits list.splits prod.splits dest!: step_post_array_Next)
  with d show ?thesis by (auto simp: suffix_ConsI)
qed

lemma step_post_array_results:
  "step_post_array c cp st = Good cp' st' \<Longrightarrow> cp' = cp" "step_post_array c cp st = Fail e st' \<Longrightarrow> e \<noteq> 0"
  by (auto simp: step_post_array_def JSON_ERR_BADTRAIL_def split: if_splits)

lemmas json_error_codes = JSON_ERR_OBSTART_def JSON_ERR_ATTRSTART_def JSON_ERR_BADATTR_def JSON_ERR_ATTRLEN_def
  JSON_ERR_NOARRAY_def JSON_ERR_NOBRAK_def JSON_ERR_STRLONG_def JSON_ERR_TOKLONG_def JSON_ERR_BADTRAIL_def
  JSON_ERR_BADENUM_def JSON_ERR_QNONSTRING_def JSON_ERR_NONQSTRING_def JSON_ERR_NULLPTR_def

lemmas json_steps = json_step_def step_init_def step_await_attr_def step_in_attr_def step_await_value_def
  step_in_val_string_def step_in_val_token_def step_in_escape_def step_post_val_def

lemma json_step_Good: "json_step pl ra g attrs c cp st = Inr (Good cp' st') \<Longrightarrow> cp' = cp"
  by (cases "ps_phase st")
    (auto simp: json_steps Let_def bind_res_Inr_iff split: option.splits if_splits list.splits prod.splits
      dest!: step_post_array_results)

lemma json_step_Fail: "json_step pl ra g attrs c cp st = Inr (Fail e st') \<Longrightarrow> e \<noteq> 0"
  by (cases "ps_phase st")
    (auto simp: json_steps json_error_codes Let_def bind_res_Inr_iff
      split: option.splits if_splits list.splits prod.splits dest!: step_post_array_results)

lemma json_loop_suffix:
  "json_loop pl ra g attrs cp st = Inr (0, st') \<Longrightarrow> \<exists>rest. ps_end st' = Some rest \<and> suffix rest cp"
proof (induction pl ra g attrs cp st rule: json_loop.induct)
  case (2 pl ra g attrs c cp st)
  show ?case
  proof (cases "json_step pl ra g attrs c cp st")
    case (Inr r)
    show ?thesis
    proof (cases r)
      case (Next cp' st1)
      with 2 Inr obtain rest where "ps_end st' = Some rest" "suffix rest cp'" by auto
      then show ?thesis
        using json_step_suffix [of pl ra g attrs c cp st cp' st1] Inr Next suffix_order.trans by blast
    next
      case (Good cp' st1)
      then have "cp' = cp" using Inr json_step_Good by blast
      then show ?thesis
        using 2(2) Inr Good suffix_dropWhile [of isspace cp] by (auto intro: suffix_ConsI)
    qed (use 2(2) Inr json_step_Fail [of pl ra g attrs c cp st] in auto)
  qed (use 2(2) in simp)
qed auto

lemma suffix_cstr: "suffix (dropWhile P (cstr cs)) (cstr cs)"
  by (rule suffix_dropWhile)

lemma read_object_suffix:
  assumes "json_internal_read_object pl ra g cp attrs s = Inr (0, fin, s')"
  shows "\<exists>rest. fin = Some rest \<and> suffix rest (cstr cp)"
proof -
  obtain s1 st where "json_loop pl ra g attrs (cstr cp) (json_start s1) = Inr (0, st)" "ps_end st = fin"
    using assms by (auto simp: json_internal_read_object_def bind_res_Inr_iff split: if_splits)
  then show ?thesis using json_loop_suffix by blast
qed

lemma array_chars_suffix:
  "array_chars k len cp tp s = Inr (e, cp', tp', s') \<Longrightarrow> suffix cp' cp"
proof (induction k len cp tp s rule: array_chars.induct)
  case (2 k len c cp tp s)
  consider "cp' = c # cp" | "cp' = cp"
    | s1 where "put_char k tp c s = Inr s1" "array_chars k len cp (tp + 1) s1 = Inr (e, cp', tp', s')"
      "int tp < len" "c \<noteq> CHR 0x22"
    using 2(2) by (auto simp: bind_res_Inr_iff split: if_splits)
  then show ?case
  proof cases
    case 3
    with 2(1) [of s1] show ?thesis by (simp add: suffix_ConsI)
  qed (simp_all add: suffix_ConsI)
qed simp

lemma array_string_suffix:
  assumes "array_string arr offset cp tp s = Inr (e, cp', tp', s')"
  shows "suffix cp' cp"
proof (cases "skip_one_space cp")
  case (Cons c cs)
  then have "suffix (c # cs) cp" using suffix_skip_one_space [of cp] by simp
  moreover have "suffix cp' (c # cs)"
    using assms Cons array_chars_suffix [of "ar_chars arr" "ar_storelen arr" cs tp _ e cp' tp' s']
    by (auto simp: array_string_def bind_res_Inr_iff intro: suffix_ConsI split: if_splits)
  ultimately show ?thesis using suffix_order.trans by blast
qed (use assms in \<open>simp add: array_string_def\<close>)

lemma cstr_no_NUL: "NUL \<notin> set cp \<Longrightarrow> cstr cp = cp"
  unfolding cstr_def by (rule takeWhile_eq_all_conv [THEN iffD2]) auto

lemma array_element_suffix:
  assumes "array_element ra g arr offset cp tp s = Inr (0, cp', tp', s')" "NUL \<notin> set cp"
  shows "suffix cp' cp"
proof (cases "ar_type arr = t_object \<or> ar_type arr = t_structobject")
  case True
  then obtain status fin s1 where
    "json_internal_read_object (array_place arr offset) ra g cp (ar_subtype arr) s = Inr (status, fin, s1)"
    "status = 0" "cp' = (case fin of Some cp \<Rightarrow> cp | None \<Rightarrow> [])"
    using assms(1) by (auto simp: array_element_def bind_res_Inr_iff)
  then show ?thesis using read_object_suffix cstr_no_NUL [OF assms(2)] by fastforce
next
  case False
  then show ?thesis
    using assms(1) array_string_suffix by (cases "ar_type arr")
      (auto simp: array_element_def scanned_def JSON_ERR_SUBTYPE_def bind_res_Inr_iff suffix_drop split: if_splits prod.splits)
qed

lemma suffix_NUL: "suffix rest cp \<Longrightarrow> NUL \<notin> set cp \<Longrightarrow> NUL \<notin> set rest"
  using set_mono_suffix by blast

lemma array_elements_suffix:
  assumes "array_elements ra g arr n offset cp tp s = Inr (status, Some rest, s')" "NUL \<notin> set cp"
  shows "suffix rest cp"
  using assms
proof (induction n arbitrary: offset cp tp s)
  case (Suc n)
  obtain e cp1 tp1 s1 where el: "array_element ra g arr offset cp tp s = Inr (e, cp1, tp1, s1)"
    using Suc(2) by (auto simp: bind_res_Inr_iff)
  with Suc(2) have "e = 0" by (auto split: if_splits)
  with el Suc(3) have s1: "suffix cp1 cp" using array_element_suffix by blast
  obtain c cp2 where c: "skip_one_space cp1 = c # cp2"
    using Suc(2) el \<open>e = 0\<close> by (cases "skip_one_space cp1") auto
  have c1: "suffix (c # cp2) cp" using suffix_skip_one_space [of cp1] c s1 suffix_order.trans by metis
  then have c2: "suffix cp2 cp" by (rule suffix_ConsD)
  consider "rest = c # cp2" | "array_elements ra g arr n (offset + 1) cp2 tp1 s1 = Inr (status, Some rest, s')"
    using Suc(2) el c \<open>e = 0\<close> by (auto simp: bind_res_Inr_iff split: if_splits)
  then show ?case
  proof cases
    case 2
    then have "suffix rest cp2" using Suc(1) suffix_NUL [OF c2 Suc(3)] \<open>e = 0\<close> by blast
    then show ?thesis using c2 suffix_order.trans by blast
  qed (use c1 in simp)
qed simp

lemma NUL_cstr: "NUL \<notin> set (cstr cp)"
  by (auto simp: cstr_def dest: set_takeWhileD)

lemma json_read_array_suffix:
  assumes "json_read_array ra g cp arr s = Inr (status, Some rest, s')"
  shows "suffix rest (cstr cp) \<and> length rest < length (cstr cp)"
proof -
  obtain c cp1 where c: "dropWhile isspace (cstr cp) = c # cp1" "c = CHR ''[''"
    using assms by (auto simp: json_read_array_def split: list.splits if_splits)
  let ?cp = "dropWhile isspace cp1"
  have s1: "suffix (c # cp1) (cstr cp)" using suffix_dropWhile [of isspace "cstr cp"] c(1) by simp
  have s2: "suffix ?cp cp1" by (rule suffix_dropWhile)
  have "NUL \<notin> set ?cp" using s1 s2 NUL_cstr [of cp] by (metis suffix_ConsD suffix_NUL)
  then have "suffix rest ?cp"
    using assms c array_elements_suffix [of ra g arr "nat (ar_maxlen arr)" 0 ?cp 0 s]
    by (auto simp: json_read_array_def Let_def bind_res_Inr_iff split: if_splits)
  then have "suffix rest cp1" using s2 suffix_order.trans by blast
  then show ?thesis using s1 suffix_length_le [of rest cp1] suffix_length_le [OF s1]
    by (auto intro: suffix_order.trans dest: suffix_ConsD)
qed

section \<open>The recursive equation\<close>

text \<open>Readers that agree on the texts shorter than \<open>n\<close>.\<close>

definition agree :: "nat \<Rightarrow> 'k array_reader \<Rightarrow> 'k array_reader \<Rightarrow> bool" where
  "agree n ra ra' \<longleftrightarrow> (\<forall>k cs s. length cs < n \<longrightarrow> ra k cs s = ra' k cs s)"

lemma json_loop_agree:
  assumes "agree n ra ra'" "length cp < n"
  shows "json_loop pl ra g attrs cp st = json_loop pl ra' g attrs cp st"
  using assms
proof (induction pl ra g attrs cp st rule: json_loop.induct)
  case (2 pl ra g attrs c cp st)
  have ra: "ra k (d # cp) s = ra' k (d # cp) s" for d k s using 2(2,3) by (simp add: agree_def)
  have step: "json_step pl ra g attrs c cp st = json_step pl ra' g attrs c cp st"
    using ra by (simp add: json_step_def step_await_value_def Let_def split: json_phase.split)
  show ?case
  proof (cases "\<exists>cp' st'. json_step pl ra g attrs c cp st = Inr (Next cp' st')")
    case True
    then obtain cp' st' where r: "json_step pl ra g attrs c cp st = Inr (Next cp' st')" by blast
    then have "length cp' < n" using suffix_length_le [OF json_step_suffix [OF r]] 2(3) by simp
    with 2(1) [OF r refl 2(2)] r step show ?thesis by simp
  next
    case False
    with step show ?thesis by (auto split: sum.split json_step.split)
  qed
qed simp

lemma length_cstr: "length (cstr cp) \<le> length cp"
  by (simp add: cstr_def length_takeWhile_le)

lemma read_object_agree:
  assumes "agree n ra ra'" "length cp < n"
  shows "json_internal_read_object pl ra g cp attrs s = json_internal_read_object pl ra' g cp attrs s"
proof -
  have "length (cstr cp) < n" using assms(2) length_cstr [of cp] by simp
  from json_loop_agree [OF assms(1) this] show ?thesis by (simp add: json_internal_read_object_def cong: if_cong)
qed

lemma array_element_agree:
  assumes "agree n ra ra'" "length cp < n"
  shows "array_element ra g arr offset cp tp s = array_element ra' g arr offset cp tp s"
  using read_object_agree [OF assms] by (simp add: array_element_def split: json_type.split)

lemma array_elements_agree:
  assumes "agree n ra ra'" "length cp < n" "NUL \<notin> set cp"
  shows "array_elements ra g arr m offset cp tp s = array_elements ra' g arr m offset cp tp s"
  using assms(2,3)
proof (induction m arbitrary: offset cp tp s)
  case (Suc m)
  note el = array_element_agree [OF assms(1) Suc(2), of g arr offset tp s]
  show ?case
  proof (cases "\<exists>cp1 tp1 s1 c cp2. array_element ra g arr offset cp tp s = Inr (0, cp1, tp1, s1) \<and> skip_one_space cp1 = c # cp2")
    case True
    then obtain cp1 tp1 s1 c cp2 where
      r: "array_element ra g arr offset cp tp s = Inr (0, cp1, tp1, s1)" "skip_one_space cp1 = c # cp2" by blast
    have "suffix cp1 cp" using r(1) Suc(3) by (rule array_element_suffix)
    then have "suffix (c # cp2) cp" using suffix_skip_one_space [of cp1] r(2) suffix_order.trans by metis
    then have "suffix cp2 cp" by (rule suffix_ConsD)
    then have "length cp2 < n" "NUL \<notin> set cp2"
      using suffix_length_le [of cp2 cp] suffix_NUL [of cp2 cp] Suc(2,3) by auto
    with Suc(1) r el show ?thesis by simp
  next
    case False
    show ?thesis
    proof (cases "array_element ra g arr offset cp tp s")
      case (Inr r)
      obtain e cp1 tp1 s1 where "r = (e, cp1, tp1, s1)" by (cases r)
      with Inr False el show ?thesis by (auto split: list.split)
    qed (use el in simp)
  qed
qed simp

lemma json_read_array_agree:
  assumes "agree (length cp) ra ra'"
  shows "json_read_array ra g cp arr s = json_read_array ra' g cp arr s"
proof (cases "dropWhile isspace (cstr cp)")
  case (Cons c cp1)
  have s1: "suffix (c # cp1) (cstr cp)" using suffix_dropWhile [of isspace "cstr cp"] Cons by simp
  have s2: "suffix (dropWhile isspace cp1) cp1" by (rule suffix_dropWhile)
  have "suffix (dropWhile isspace cp1) (cstr cp)" using s1 s2 by (blast intro: suffix_order.trans dest: suffix_ConsD)
  then have n: "NUL \<notin> set (dropWhile isspace cp1)" using NUL_cstr suffix_NUL by blast
  have "length (dropWhile isspace cp1) < length cp"
    using suffix_length_le [OF s1] suffix_length_le [OF s2] length_cstr [of cp] by simp
  from array_elements_agree [OF assms this n] Cons show ?thesis by (simp add: json_read_array_def Let_def)
qed (simp only: json_read_array_def list.case)

lemma json_read_array_cong [fundef_cong]:
  assumes "\<And>k' cp' s'. length cp' < length cp \<Longrightarrow> ra k' cp' s' = ra' k' cp' s'"
  shows "json_read_array ra g cp arr s = json_read_array ra' g cp arr s"
  by (rule json_read_array_agree) (simp add: agree_def assms)

text \<open>
  The reader of the code, which calls itself for an array inside an element; \<open>arrays\<close> has the description at every
  address. It terminates for every text, also with tables that contain themselves, since an array
  inside an element is shorter than the text around it.
\<close>

function read_array_at :: "(nat \<Rightarrow> json_array_t) \<Rightarrow> char \<Rightarrow> nat array_reader" where
  "read_array_at arrays garbage k cp s = at_position cp (json_read_array
     (\<lambda>k' cp' s'. read_array_at arrays garbage k' cp' s') garbage cp (arrays k) s)"
  by pat_completeness auto
termination by (relation "measure (\<lambda>(_, _, _, cp, _). length cp)") simp_all

declare read_array_at.simps [simp del]

end
