(* ===== verification/Json_Bounds.thy ===== *)
theory Json_Bounds
  imports Json_Members Json_Nested
begin

text \<open>
  The buffers of the JSON reader: without escapes every write of \<^verbatim>\<open>lib/mjson.c\<close> stays in bounds
  and every text gets a result, with arrays at any depth; with escapes the value buffer
  overflows.
\<close>

section \<open>The invariant\<close>

text \<open>The memory that there is: how long the array of chars at each address is, and the variables.\<close>

type_synonym 'k rooms = "('k \<Rightarrow> nat) \<times> (json_cell \<Rightarrow> 'k \<Rightarrow> bool)"

definition sizes :: "'k json_store \<Rightarrow> 'k rooms" where
  "sizes s = (\<lambda>k. length (js_string s k), js_cells s)"

lemma sizes_update [simp]:
  "sizes (s\<lparr>js_integer := i\<rparr>) = sizes s" "sizes (s\<lparr>js_uinteger := i\<rparr>) = sizes s"
  "sizes (s\<lparr>js_real := r\<rparr>) = sizes s" "sizes (s\<lparr>js_boolean := b\<rparr>) = sizes s"
  "sizes (s\<lparr>js_character := c\<rparr>) = sizes s" "sizes (s\<lparr>js_ptr := p\<rparr>) = sizes s"
  by (simp_all add: sizes_def)

lemma put_in_room:
  "snd (sizes s) C_int k \<Longrightarrow> \<exists>s'. put_int k v s = Inr s' \<and> sizes s' = sizes s"
  "snd (sizes s) C_uint k \<Longrightarrow> \<exists>s'. put_uint k v s = Inr s' \<and> sizes s' = sizes s"
  "snd (sizes s) C_double k \<Longrightarrow> \<exists>s'. put_real k r s = Inr s' \<and> sizes s' = sizes s"
  "snd (sizes s) C_bool k \<Longrightarrow> \<exists>s'. put_bool k b s = Inr s' \<and> sizes s' = sizes s"
  "snd (sizes s) C_char k \<Longrightarrow> \<exists>s'. put_character k c s = Inr s' \<and> sizes s' = sizes s"
  "snd (sizes s) C_ptr k \<Longrightarrow> \<exists>s'. put_ptr k p s = Inr s' \<and> sizes s' = sizes s"
  by (simp_all add: put_defs sizes_def)

lemma stored_safe:
  "\<exists>s1. r = Inr s1 \<and> sizes s1 = L \<Longrightarrow> \<exists>e s'. bind_res r (\<lambda>s. Inr (e0, s)) = Inr (e, s') \<and> sizes s' = L"
  by auto

text \<open>The variable that an attribute or an element of a type is stored in.\<close>

definition cell_of :: "json_type \<Rightarrow> json_cell option" where
  "cell_of ty = (case ty of t_integer \<Rightarrow> Some C_int | t_uinteger \<Rightarrow> Some C_uint | t_real \<Rightarrow> Some C_double
     | t_time \<Rightarrow> Some C_double | t_boolean \<Rightarrow> Some C_bool | t_character \<Rightarrow> Some C_char | _ \<Rightarrow> None)"

definition elem_size :: "json_type \<Rightarrow> nat" where
  "elem_size ty = (case ty of t_real \<Rightarrow> SIZEOF_DOUBLE | t_boolean \<Rightarrow> 1 | _ \<Rightarrow> SIZEOF_INT)"

text \<open>
  The array of every string attribute takes what \<^verbatim>\<open>strncpy\<close> writes, every other attribute that is stored
  has its variable, and the description of every array attribute is one of \<open>K\<close>. The descriptions of \<open>K\<close> are
  in bounds when there is a variable for each of their \<^verbatim>\<open>maxlen\<close> elements, the chars of strings are
  as many as they say, the tables of their objects fit for every element, and the count has its variable.
\<close>

definition table_fits :: "'k json_place \<Rightarrow> 'k json_attr_t list \<Rightarrow> 'k set \<Rightarrow> 'k rooms \<Rightarrow> bool" where
  "table_fits pl attrs K L \<longleftrightarrow> (\<forall>a\<in>set attrs.
     (\<forall>k. pl_target pl a = Some k \<longrightarrow>
        (at_type a = t_string \<longrightarrow> 1 \<le> fst L k \<and> at_len a \<le> fst L k) \<and>
        (\<forall>c. cell_of (at_type a) = Some c \<longrightarrow> snd L c k)) \<and>
     (at_type a = t_array \<longrightarrow> at_addr a \<in> K))"

definition layout_fits :: "(nat \<Rightarrow> json_array_t) \<Rightarrow> nat set \<Rightarrow> nat rooms \<Rightarrow> bool" where
  "layout_fits arrays K L \<longleftrightarrow> (\<forall>k\<in>K. let arr = arrays k; ty = ar_type arr; n = nat (ar_maxlen arr) in
     (\<forall>c. ar_count arr = Some c \<longrightarrow> snd L C_int c) \<and>
     (ty \<in> {t_integer, t_uinteger, t_real, t_boolean} \<longrightarrow>
        (\<forall>i<n. snd L (the (cell_of ty)) (ar_store arr + elem_size ty * i))) \<and>
     (ty = t_string \<longrightarrow> ar_storelen arr \<le> int (fst L (ar_chars arr)) \<and>
        (\<forall>i<n. snd L C_ptr (ar_ptrs arr + SIZEOF_PTR * i))) \<and>
     (ty = t_object \<or> ty = t_structobject \<longrightarrow>
        (\<forall>i<n. table_fits (array_place arr i) (ar_subtype arr) K L)))"

text \<open>A reader of arrays that returns and keeps the sizes, on texts shorter than \<open>n\<close> without a backslash.\<close>

definition reader_safe :: "nat \<Rightarrow> 'k array_reader \<Rightarrow> 'k set \<Rightarrow> 'k rooms \<Rightarrow> bool" where
  "reader_safe n ra K L \<longleftrightarrow> (\<forall>k\<in>K. \<forall>cs s. length cs < n \<and> CHR 0x5C \<notin> set cs \<and> sizes s = L \<longrightarrow>
     (\<exists>status m s'. ra k cs s = Inr (status, m, s') \<and> sizes s' = L))"

definition json_inv :: "'k json_attr_t list \<Rightarrow> 'k rooms \<Rightarrow> 'k json_state \<Rightarrow> bool" where
  "json_inv attrs L st \<longleftrightarrow> ps_phase st \<noteq> P_in_escape \<and> sizes (ps_store st) = L \<and>
     set (ps_cursor st) \<subseteq> set attrs \<and>
     (ps_phase st \<in> {P_await_value, P_in_val_string, P_in_val_token, P_post_val} \<longrightarrow> ps_cursor st \<noteq> []) \<and>
     (ps_phase st = P_in_attr \<longrightarrow> (\<forall>buf. ps_attr st = Some buf \<longrightarrow> length buf < JSON_ATTR_MAX)) \<and>
     (ps_phase st \<in> {P_in_val_string, P_in_val_token} \<longrightarrow> (\<forall>v. ps_val st = Some v \<longrightarrow> length v \<le> JSON_VAL_MAX))"

lemma put_chars_fits:
  "length cs \<le> fst (sizes s) k \<Longrightarrow> \<exists>s'. put_chars k cs s = Inr s' \<and> sizes s' = sizes s"
  by (auto simp: put_chars_def put_at_def sizes_def)

lemma json_store_value_fits:
  assumes "table_fits pl attrs K (sizes s)" "a \<in> set attrs"
  shows "\<exists>e s'. json_store_value pl a v s = Inr (e, s') \<and> sizes s' = sizes s"
proof (cases "pl_target pl a")
  case (Some k)
  show ?thesis
  proof (cases "at_type a = t_string")
    case True
    then have "length (strncpy_chars (at_len a) v) \<le> fst (sizes s) k"
      using assms Some by (simp add: table_fits_def)
    from put_chars_fits [OF this] True Some show ?thesis by (auto simp: json_store_value_def)
  next
    case False
    have "\<forall>c. cell_of (at_type a) = Some c \<longrightarrow> snd (sizes s) c k"
      using assms Some by (auto simp: table_fits_def)
    then show ?thesis
      using Some False
      by (cases "at_type a") (auto simp: json_store_value_def cell_of_def intro!: stored_safe put_in_room)
  qed
qed (simp add: json_store_value_def)

lemma json_default_fits:
  assumes "table_fits pl attrs K (sizes s)" "a \<in> set attrs"
  shows "\<exists>e s'. json_default pl a s = Inr (e, s') \<and> sizes s' = sizes s"
proof (cases "pl_target pl a")
  case (Some k)
  show ?thesis
  proof (cases "at_type a = t_string")
    case True
    then have "length [NUL] \<le> fst (sizes s) k"
      using assms Some by (simp add: table_fits_def)
    from put_chars_fits [OF this] True Some show ?thesis by (auto simp: json_default_def)
  next
    case False
    have "\<forall>c. cell_of (at_type a) = Some c \<longrightarrow> snd (sizes s) c k"
      using assms Some by (auto simp: table_fits_def)
    then show ?thesis
      using Some False
      by (cases "at_type a") (auto simp: json_default_def cell_of_def Let_def intro!: stored_safe put_in_room)
  qed
qed (simp add: json_default_def)

lemma json_defaults_fits:
  assumes "table_fits pl attrs K (sizes s)" "set as \<subseteq> set attrs"
  shows "\<exists>e s'. json_defaults pl as s = Inr (e, s') \<and> sizes s' = sizes s"
  using assms
proof (induction as arbitrary: s)
  case (Cons a as)
  obtain e s1 where s1: "(if at_nodefault a then Inr (0, s) else json_default pl a s) = Inr (e, s1)" "sizes s1 = sizes s"
    using json_default_fits [OF Cons.prems(1), of a] Cons.prems(2) by (cases "at_nodefault a") auto
  show ?case
  proof (cases "e = 0")
    case True
    with Cons.IH [of s1] Cons.prems s1 show ?thesis by simp
  qed (use s1 in simp)
qed simp

definition step_ok :: "'k json_attr_t list \<Rightarrow> 'k rooms \<Rightarrow> 'k json_step \<Rightarrow> bool" where
  "step_ok attrs L r \<longleftrightarrow> (case r of Next cp st \<Rightarrow> json_inv attrs L st
     | Good cp st \<Rightarrow> sizes (ps_store st) = L | Fail e st \<Rightarrow> sizes (ps_store st) = L)"

lemma step_ok_simps [simp]:
  "step_ok attrs L (Next cp st) \<longleftrightarrow> json_inv attrs L st" "step_ok attrs L (Good cp st) \<longleftrightarrow> sizes (ps_store st) = L"
  "step_ok attrs L (Fail e st) \<longleftrightarrow> sizes (ps_store st) = L"
  by (simp_all add: step_ok_def)

lemma json_inv_sizes: "json_inv attrs L st \<Longrightarrow> sizes (ps_store st) = L"
  by (simp add: json_inv_def)

lemma json_seek_sub: "cs \<noteq> [] \<Longrightarrow> json_seek q v buf cs \<noteq> [] \<and> set (json_seek q v buf cs) \<subseteq> set cs"
  by (induction q v buf cs rule: json_seek.induct) auto

lemma step_post_array_inv: "json_inv attrs L st \<Longrightarrow> step_ok attrs L (step_post_array c cp st)"
  by (auto simp: step_post_array_def json_inv_def)

lemma step_post_val_inv:
  assumes inv: "json_inv attrs L st" "ps_phase st = P_post_val" and fits: "table_fits pl attrs K L"
  shows "\<exists>r. step_post_val pl c cp st = Inr r \<and> step_ok attrs L r"
proof -
  let ?v = "cstr (the (ps_val st))"
  let ?cur = "json_seek (ps_quoted st) ?v (the (ps_attr st)) (ps_cursor st)"
  have ne: "ps_cursor st \<noteq> []" using inv by (simp add: json_inv_def)
  have "set (ps_cursor st) \<subseteq> set attrs" using inv(1) by (simp add: json_inv_def)
  then have sub: "?cur \<noteq> []" "set ?cur \<subseteq> set attrs"
    using json_seek_sub [OF ne, of "ps_quoted st" ?v "the (ps_attr st)"] by (blast intro: subset_trans)+
  then have c: "?cur \<noteq> []" "set ?cur \<subseteq> set attrs" "hd ?cur \<in> set attrs"
    using hd_in_set [OF sub(1)] by blast+
  have L: "sizes (ps_store st) = L" using inv(1) by (rule json_inv_sizes)
  have "\<exists>r. bind_res (json_store_value pl (hd ?cur) w (ps_store st)) (\<lambda>(status, s).
      if status \<noteq> 0 then Inr (Fail status (st\<lparr>ps_cursor := ?cur, ps_val := Some w, ps_store := s\<rparr>))
      else Inr (step_post_array c cp (st\<lparr>ps_cursor := ?cur, ps_val := Some w, ps_store := s\<rparr>))) = Inr r \<and>
    step_ok attrs L r" for w
  proof -
    obtain e s' where s': "json_store_value pl (hd ?cur) w (ps_store st) = Inr (e, s')" "sizes s' = L"
      using json_store_value_fits [of pl attrs K "ps_store st" "hd ?cur" w] fits c(3) L by auto
    have "json_inv attrs L (st\<lparr>ps_cursor := ?cur, ps_val := Some w, ps_store := s'\<rparr>)"
      using c s'(2) inv(2) by (simp add: json_inv_def)
    from step_post_array_inv [OF this] s' show ?thesis by simp
  qed
  then show ?thesis
    using L unfolding step_post_val_def Let_def by (auto split: option.split)
qed

lemma step_in_attr_inv:
  assumes inv: "json_inv attrs L st" "ps_phase st = P_in_attr"
  shows "\<exists>r. step_in_attr attrs c cp st = Inr r \<and> step_ok attrs L r"
proof (cases "ps_attr st")
  case (Some buf)
  then have "length buf < JSON_ATTR_MAX" using inv by (simp add: json_inv_def)
  note put = put_attr_fits [OF this]
  show ?thesis
  proof (cases "dropWhile (\<lambda>a. at_name a \<noteq> buf) attrs")
    case Nil
    show ?thesis using inv by (auto simp: step_in_attr_def json_inv_def Some Nil put)
  next
    case (Cons a as)
    have "set (dropWhile (\<lambda>a. at_name a \<noteq> buf) attrs) \<subseteq> set attrs" by (auto dest: set_dropWhileD)
    with Some Cons inv show ?thesis by (auto simp: step_in_attr_def json_inv_def put)
  qed
qed (use json_inv_sizes [OF inv(1)] in \<open>simp add: step_in_attr_def\<close>)

lemma step_await_value_inv:
  assumes inv: "json_inv attrs L st" "ps_phase st = P_await_value" and fits: "table_fits pl attrs K L"
    and ra: "reader_safe n ra K L" "length (c # cp) < n" "CHR 0x5C \<notin> set (c # cp)"
  shows "\<exists>r. step_await_value ra c cp st = Inr r \<and> step_ok attrs L r"
proof (cases "at_type (hd (ps_cursor st)) = t_array")
  case True
  have "hd (ps_cursor st) \<in> set attrs" using inv by (auto simp: json_inv_def)
  then have "at_addr (hd (ps_cursor st)) \<in> K" using fits True by (simp add: table_fits_def)
  moreover have "sizes (ps_store st) = L" using inv(1) by (rule json_inv_sizes)
  ultimately obtain e m s' where
    "ra (at_addr (hd (ps_cursor st))) (c # cp) (ps_store st) = Inr (e, m, s')" "sizes s' = L"
    using ra unfolding reader_safe_def by blast
  with True inv show ?thesis by (auto simp: step_await_value_def Let_def json_inv_def)
next
  case False
  with inv show ?thesis by (auto simp: step_await_value_def Let_def json_inv_def JSON_VAL_MAX_def)
qed

lemma step_in_val_inv:
  assumes inv: "json_inv attrs L st" and c: "c \<noteq> CHR 0x5C"
  shows "ps_phase st = P_in_val_string \<Longrightarrow> \<exists>r. step_in_val_string c cp st = Inr r \<and> step_ok attrs L r"
    "ps_phase st = P_in_val_token \<Longrightarrow> \<exists>r. step_in_val_token c cp st = Inr r \<and> step_ok attrs L r"
proof -
  assume p: "ps_phase st = P_in_val_string"
  show "\<exists>r. step_in_val_string c cp st = Inr r \<and> step_ok attrs L r"
    using p inv c by (cases "ps_val st") (auto simp: step_in_val_string_def json_inv_def put_val_def JSON_VAL_MAX_def)
next
  assume p: "ps_phase st = P_in_val_token"
  show "\<exists>r. step_in_val_token c cp st = Inr r \<and> step_ok attrs L r"
    using p inv by (cases "ps_val st") (auto simp: step_in_val_token_def json_inv_def put_val_def JSON_VAL_MAX_def)
qed

lemma json_step_inv:
  assumes inv: "json_inv attrs L st" and fits: "table_fits pl attrs K L"
    and ra: "reader_safe n ra K L" "length (c # cp) < n" "CHR 0x5C \<notin> set (c # cp)"
  shows "\<exists>r. json_step pl ra g attrs c cp st = Inr r \<and> step_ok attrs L r"
proof (cases "ps_phase st")
  case P_await_value
  with step_await_value_inv [OF inv P_await_value fits ra] show ?thesis by (simp add: json_step_def)
next
  case P_in_attr
  with step_in_attr_inv [OF inv P_in_attr] show ?thesis by (simp add: json_step_def)
next
  case P_post_val
  with step_post_val_inv [OF inv P_post_val fits] show ?thesis by (simp add: json_step_def)
next
  case P_post_array
  with step_post_array_inv [OF inv] show ?thesis by (simp add: json_step_def)
next
  case P_in_val_string
  with step_in_val_inv(1) [OF inv, of c cp] ra(3) show ?thesis by (auto simp: json_step_def)
next
  case P_in_val_token
  with step_in_val_inv(2) [OF inv, of c cp] ra(3) show ?thesis by (auto simp: json_step_def)
next
  case P_in_escape
  then show ?thesis using inv by (simp add: json_inv_def)
qed (use inv in \<open>auto simp: json_step_def step_init_def step_await_attr_def json_inv_def JSON_ATTR_MAX_def\<close>)

lemma json_loop_inv:
  assumes "json_inv attrs L st" "table_fits pl attrs K L" "reader_safe n ra K L"
    and "length cp < n" "CHR 0x5C \<notin> set cp"
  shows "\<exists>e st'. json_loop pl ra g attrs cp st = Inr (e, st') \<and> sizes (ps_store st') = L"
  using assms
proof (induction pl ra g attrs cp st rule: json_loop.induct)
  case (2 pl ra g attrs c cp st)
  obtain r where r: "json_step pl ra g attrs c cp st = Inr r" "step_ok attrs L r"
    using json_step_inv [OF 2(2-6), of g] by auto
  show ?case
  proof (cases r)
    case (Next cp' st')
    have "suffix cp' (c # cp)"
      using json_step_suffix [of pl ra g attrs c cp st cp' st'] r(1) Next by simp
    then have "length cp' < n" "CHR 0x5C \<notin> set cp'"
      using 2(5,6) suffix_length_le [of cp' "c # cp"] set_mono_suffix [of cp' "c # cp"] by auto
    with 2(1) [of r cp' st'] 2(3,4) r Next show ?thesis by simp
  qed (use r in simp_all)
qed (simp add: json_inv_sizes)

lemma read_object_safe:
  assumes "table_fits pl attrs K L" "reader_safe n ra K L" "sizes s = L" "length cp < n" "CHR 0x5C \<notin> set cp"
  shows "\<exists>status fin s'. json_internal_read_object pl ra g cp attrs s = Inr (status, fin, s') \<and> sizes s' = L"
proof -
  obtain e s1 where s1: "json_defaults pl attrs s = Inr (e, s1)" "sizes s1 = L"
    using json_defaults_fits [of pl attrs K s attrs] assms(1,3) by auto
  have "json_inv attrs L (json_start s1)" using s1(2) by (simp add: json_inv_def json_start_def)
  moreover have "length (cstr cp) < n" using assms(4) length_cstr [of cp] by simp
  moreover have "CHR 0x5C \<notin> set (cstr cp)" using assms(5) by (auto simp: cstr_def dest: set_takeWhileD)
  ultimately obtain status st' where
    "json_loop pl ra g attrs (cstr cp) (json_start s1) = Inr (status, st')" "sizes (ps_store st') = L"
    using json_loop_inv [OF _ assms(1,2), of "json_start s1" "cstr cp" g] by auto
  then show ?thesis using s1 by (simp add: json_internal_read_object_def)
qed

section \<open>Arrays\<close>

lemma array_chars_safe:
  "storelen \<le> int (fst (sizes s) k) \<Longrightarrow>
   \<exists>e cp' tp' s'. array_chars k storelen cp tp s = Inr (e, cp', tp', s') \<and> sizes s' = sizes s"
proof (induction cp arbitrary: tp s)
  case (Cons c cp)
  show ?case
  proof (cases "int tp < storelen")
    case True
    have p: "\<exists>s1. put_char k tp d s = Inr s1 \<and> sizes s1 = sizes s" for d
      using True Cons.prems by (auto simp: put_char_def sizes_def)
    obtain s1 s2 where s1: "put_char k tp c s = Inr s1" "sizes s1 = sizes s" "put_char k tp NUL s = Inr s2" "sizes s2 = sizes s"
      using p [of c] p [of NUL] by blast
    obtain e cp' tp' s' where "array_chars k storelen cp (tp + 1) s1 = Inr (e, cp', tp', s')" "sizes s' = sizes s1"
      using Cons.IH [of s1 "tp + 1"] Cons.prems s1(2) by auto
    with s1 True show ?thesis by simp
  qed simp
qed simp

lemma array_string_safe:
  assumes "ar_storelen arr \<le> int (fst L (ar_chars arr)) \<and> snd L C_ptr (ar_ptrs arr + SIZEOF_PTR * offset)"
    and "sizes s = L"
  shows "\<exists>e cp' tp' s'. array_string arr offset cp tp s = Inr (e, cp', tp', s') \<and> sizes s' = L"
proof -
  obtain s1 where s1: "put_ptr (ar_ptrs arr + SIZEOF_PTR * offset) (ar_chars arr + tp) s = Inr s1" "sizes s1 = L"
    using put_in_room(6) [of s "ar_ptrs arr + SIZEOF_PTR * offset" "ar_chars arr + tp"] assms by auto
  have "\<exists>e cp' tp' s'. array_chars (ar_chars arr) (ar_storelen arr) cs tp s1 = Inr (e, cp', tp', s') \<and> sizes s' = L" for cs
    using array_chars_safe [of "ar_storelen arr" s1 "ar_chars arr" cs tp] s1(2) assms by simp
  with s1 assms(2) show ?thesis by (auto simp: array_string_def split: list.split)
qed

lemma scanned_safe:
  "\<exists>s1. r = Inr s1 \<and> sizes s1 = L \<Longrightarrow>
   \<exists>e cp' tp' s'. bind_res r (scanned n cp tp) = Inr (e, cp', tp', s') \<and> sizes s' = L"
  by (auto simp: scanned_def)

lemma array_element_safe:
  assumes lay: "layout_fits arrays K L" "k \<in> K" "offset < nat (ar_maxlen (arrays k))"
    and ra: "reader_safe n ra K L" "sizes s = L" "length cp < n" "CHR 0x5C \<notin> set cp"
  shows "\<exists>e cp' tp' s'. array_element ra g (arrays k) offset cp tp s = Inr (e, cp', tp', s') \<and> sizes s' = L"
proof -
  let ?arr = "arrays k" and ?ty = "ar_type (arrays k)"
  have obj: "?ty = t_object \<or> ?ty = t_structobject \<Longrightarrow> table_fits (array_place ?arr offset) (ar_subtype ?arr) K L"
    and str: "?ty = t_string \<Longrightarrow> ar_storelen ?arr \<le> int (fst L (ar_chars ?arr)) \<and>
      snd L C_ptr (ar_ptrs ?arr + SIZEOF_PTR * offset)"
    and num: "?ty \<in> {t_integer, t_uinteger, t_real, t_boolean} \<Longrightarrow>
      snd L (the (cell_of ?ty)) (ar_store ?arr + elem_size ?ty * offset)"
    using lay by (auto simp: layout_fits_def Let_def)
  show ?thesis
  proof (cases "?ty = t_object \<or> ?ty = t_structobject")
    case True
    from read_object_safe [OF obj [OF True] ra, of g] True show ?thesis by (auto simp: array_element_def)
  next
    case noobj: False
    show ?thesis
    proof (cases ?ty)
      case t_string
      with array_string_safe [OF str ra(2)] show ?thesis by (simp add: array_element_def)
    next
      case t_integer
      then have "\<exists>s1. put_int (ar_store ?arr + SIZEOF_INT * offset) v s = Inr s1 \<and> sizes s1 = L" for v
        using num put_in_room(1) [of s] ra(2) by (simp add: cell_of_def elem_size_def)
      from scanned_safe [OF this] t_integer show ?thesis by (simp add: array_element_def split: prod.split)
    next
      case t_uinteger
      then have "\<exists>s1. put_uint (ar_store ?arr + SIZEOF_INT * offset) v s = Inr s1 \<and> sizes s1 = L" for v
        using num put_in_room(2) [of s] ra(2) by (simp add: cell_of_def elem_size_def)
      from scanned_safe [OF this] t_uinteger show ?thesis by (simp add: array_element_def split: prod.split)
    next
      case t_real
      then have "\<exists>s1. put_real (ar_store ?arr + SIZEOF_DOUBLE * offset) v s = Inr s1 \<and> sizes s1 = L" for v
        using num put_in_room(3) [of s] ra(2) by (simp add: cell_of_def elem_size_def)
      from scanned_safe [OF this] t_real show ?thesis by (simp add: array_element_def split: prod.split)
    next
      case t_boolean
      then have "\<exists>s1. put_bool (ar_store ?arr + offset) v s = Inr s1 \<and> sizes s1 = L" for v
        using num put_in_room(4) [of s] ra(2) by (simp add: cell_of_def elem_size_def)
      from this [of True] this [of False] t_boolean ra(2) show ?thesis by (auto simp: array_element_def)
    qed (use noobj ra(2) in \<open>auto simp: array_element_def\<close>)
  qed
qed

lemma set_count_safe:
  assumes "layout_fits arrays K L" "k \<in> K" "sizes s = L"
  shows "\<exists>s'. set_count (arrays k) m s = Inr s' \<and> sizes s' = L"
  using assms put_in_room(1) [of s] by (auto simp: set_count_def layout_fits_def Let_def split: option.split)

lemma array_elements_safe:
  assumes lay: "layout_fits arrays K L" "k \<in> K" "reader_safe n ra K L"
    and "offset + m = nat (ar_maxlen (arrays k))" "sizes s = L" "length cp < n" "CHR 0x5C \<notin> set cp" "NUL \<notin> set cp"
  shows "\<exists>e fin s'. array_elements ra g (arrays k) m offset cp tp s = Inr (e, fin, s') \<and> sizes s' = L"
  using assms(4-8)
proof (induction m arbitrary: offset cp tp s)
  case (Suc m)
  have "offset < nat (ar_maxlen (arrays k))" using Suc(2) by simp
  from array_element_safe [OF lay(1,2) this lay(3) Suc(3-5), of g tp] obtain e cp1 tp1 s1 where
    el: "array_element ra g (arrays k) offset cp tp s = Inr (e, cp1, tp1, s1)" "sizes s1 = L" by blast
  show ?case
  proof (cases "e = 0 \<and> skip_one_space cp1 \<noteq> []")
    case True
    then obtain c cp2 where c: "skip_one_space cp1 = c # cp2" by (cases "skip_one_space cp1") auto
    have "suffix cp1 cp" using array_element_suffix el(1) True Suc(6) by blast
    then have "suffix (c # cp2) cp" using suffix_skip_one_space [of cp1] c suffix_order.trans by metis
    then have "suffix cp2 cp" by (rule suffix_ConsD)
    then have "length cp2 < n" "CHR 0x5C \<notin> set cp2" "NUL \<notin> set cp2"
      using Suc(4-6) suffix_length_le [of cp2 cp] set_mono_suffix [of cp2 cp] by auto
    with Suc(1) [of "offset + 1" s1 cp2 tp1] Suc(2) el True c set_count_safe [OF lay(1,2) el(2), of "Suc offset"]
    show ?thesis by auto
  next
    case False
    with el show ?thesis by (auto split: list.split)
  qed
qed simp

lemma json_read_array_safe:
  assumes lay: "layout_fits arrays K L" "k \<in> K" "reader_safe (length cp) ra K L" "sizes s = L" "CHR 0x5C \<notin> set cp"
  shows "\<exists>e fin s'. json_read_array ra g cp (arrays k) s = Inr (e, fin, s') \<and> sizes s' = L"
proof (cases "dropWhile isspace (cstr cp)")
  case Nil
  then show ?thesis unfolding json_read_array_def Nil using assms(4) by simp
next
  case (Cons c cp1)
  have s1: "suffix (c # cp1) (cstr cp)" using suffix_dropWhile [of isspace "cstr cp"] Cons by simp
  have s2: "suffix (dropWhile isspace cp1) cp1" by (rule suffix_dropWhile)
  have s3: "suffix (dropWhile isspace cp1) (cstr cp)" using s1 s2 by (blast intro: suffix_order.trans dest: suffix_ConsD)
  have n: "NUL \<notin> set (dropWhile isspace cp1)" using s3 NUL_cstr suffix_NUL by blast
  have b: "CHR 0x5C \<notin> set (dropWhile isspace cp1)"
    using set_mono_suffix [OF s3] assms(5) by (auto simp: cstr_def dest: set_takeWhileD)
  have l: "length (dropWhile isspace cp1) < length cp"
    using suffix_length_le [OF s1] suffix_length_le [OF s2] length_cstr [of cp] by simp
  have "\<exists>e fin s'. array_elements ra g (arrays k) (nat (ar_maxlen (arrays k))) 0 (dropWhile isspace cp1) 0 s =
      Inr (e, fin, s') \<and> sizes s' = L"
    by (rule array_elements_safe [OF lay(1-3) _ assms(4) l b n]) simp
  with Cons assms(4) set_count_safe [OF lay(1,2) assms(4), of 0] show ?thesis
    by (auto simp: json_read_array_def Let_def)
qed

lemma read_array_at_safe:
  assumes lay: "layout_fits arrays K L"
  shows "reader_safe n (read_array_at arrays g) K L"
proof (induction n rule: less_induct)
  case (less n)
  have "\<exists>status m s'. read_array_at arrays g k cs s = Inr (status, m, s') \<and> sizes s' = L"
    if t: "k \<in> K" "length cs < n" "CHR 0x5C \<notin> set cs" "sizes s = L" for k cs s
  proof -
    have eq: "read_array_at arrays g k cs s = at_position cs (json_read_array (read_array_at arrays g) g cs (arrays k) s)"
      by (rule read_array_at.simps)
    obtain e fin s' where "json_read_array (read_array_at arrays g) g cs (arrays k) s = Inr (e, fin, s')" "sizes s' = L"
      using json_read_array_safe [OF lay t(1) less [OF t(2)] t(4,3)] by blast
    then show ?thesis unfolding eq by (simp add: at_position_def)
  qed
  then show ?case unfolding reader_safe_def by blast
qed

section \<open>Escapes\<close>

lemma loop_escapes:
  assumes "ps_phase st = P_in_val_string" "ps_val st = Some w" "length w + n \<le> JSON_VAL_MAX + 1"
  shows "json_loop pl ra g attrs (concat (replicate n [CHR 0x5C, CHR ''n'']) @ cp) st =
     json_loop pl ra g attrs cp (st\<lparr>ps_val := Some (w @ replicate n (CHR 0x0A))\<rparr>)"
  using assms
proof (induction n arbitrary: st w)
  case 0
  then have "st\<lparr>ps_val := Some (w @ replicate 0 (CHR 0x0A))\<rparr> = st" by (cases st) simp
  then show ?case by simp
next
  case (Suc n)
  let ?rest = "concat (replicate n [CHR 0x5C, CHR ''n'']) @ cp"
  have step1: "json_step pl ra g attrs (CHR 0x5C) (CHR ''n'' # ?rest) st =
      Inr (Next (CHR ''n'' # ?rest) (st\<lparr>ps_phase := P_in_escape\<rparr>))"
    using Suc.prems by (simp add: json_step_def step_in_val_string_def)
  have "length w < JSON_VAL_MAX + 1" using Suc.prems(3) by simp
  then have step2: "json_step pl ra g attrs (CHR ''n'') ?rest (st\<lparr>ps_phase := P_in_escape\<rparr>) =
      Inr (Next ?rest (st\<lparr>ps_phase := P_in_val_string, ps_val := Some (w @ [CHR 0x0A])\<rparr>))"
    using Suc.prems(2) by (simp add: json_step_def step_in_escape_def put_val_def)
  have st: "st\<lparr>ps_phase := P_in_val_string, ps_val := Some (w @ [CHR 0x0A])\<rparr> = st\<lparr>ps_val := Some (w @ [CHR 0x0A])\<rparr>"
    using Suc.prems(1) by (cases st) simp
  have "json_loop pl ra g attrs (CHR 0x5C # CHR ''n'' # ?rest) st =
      json_loop pl ra g attrs ?rest (st\<lparr>ps_val := Some (w @ [CHR 0x0A])\<rparr>)"
    by (simp only: json_loop.simps step1 step2 st sum.case json_step.case)
  also have "\<dots> = json_loop pl ra g attrs cp (st\<lparr>ps_val := Some ((w @ [CHR 0x0A]) @ replicate n (CHR 0x0A))\<rparr>)"
    using Suc.IH [of "st\<lparr>ps_val := Some (w @ [CHR 0x0A])\<rparr>" "w @ [CHR 0x0A]"] Suc.prems by simp
  finally show ?case by simp
qed

section \<open>Properties\<close>

text \<open>
  C27. The reader stays in bounds: for every text without a backslash, every table of attributes
  whose variables exist and whose string arrays have the declared lengths, and arrays of every type, nested to any
  depth, that have a variable for each of their \<^verbatim>\<open>maxlen\<close> elements, it returns a status and faults nowhere. No
  write falls behind the 32 chars of the name buffer, the 513 of the value buffer, a string, or the
  \<^verbatim>\<open>maxlen\<close> elements of an array of numbers, booleans, pointers or structures, and no char is read behind the text.
\<close>

theorem json_reader_in_bounds:
  assumes "layout_fits arrays K (sizes s)" "table_fits top_place attrs K (sizes s)" "CHR 0x5C \<notin> set cp"
  shows "\<exists>status fin s'. json_read_object (read_array_at arrays g) g cp attrs s = Inr (status, fin, s') \<and>
     sizes s' = sizes s"
  unfolding json_read_object_def
  by (rule read_object_safe [OF assms(2) read_array_at_safe [OF assms(1), of "Suc (length cp)"] refl _ assms(3)]) simp

text \<open>
  An example: a string attribute, a number, and an array of structures whose members are a
  string and a list of strings.
\<close>

definition ex_attr :: "string \<Rightarrow> json_type \<Rightarrow> nat \<Rightarrow> nat \<Rightarrow> nat json_attr_t" where
  "ex_attr n ty k l = \<lparr>at_name = n, at_type = ty, at_addr = k,
     at_dflt = \<lparr>d_integer = 0, d_real = ''0'', d_boolean = False, d_character = NUL, d_check = []\<rparr>,
     at_len = l, at_map = None, at_nodefault = False\<rparr>"

definition ex_attrs :: "nat json_attr_t list" where
  "ex_attrs = [ex_attr ''name'' t_string 0 8, ex_attr ''port'' t_integer 8 0, ex_attr ''aps'' t_array 300 0]"

definition ex_vars :: "nat json_store" where
  "ex_vars = \<lparr>js_integer = (\<lambda>_. 0), js_uinteger = (\<lambda>_. 0), js_real = (\<lambda>_. []),
     js_string = (\<lambda>_. replicate 8 NUL), js_boolean = (\<lambda>_. False), js_character = (\<lambda>_. NUL), js_ptr = (\<lambda>k. k),
     js_cells = (\<lambda>c k. case c of C_int \<Rightarrow> k \<in> {8, 12, 400, 404} | C_ptr \<Rightarrow> k \<in> {200, 208, 216} | _ \<Rightarrow> False)\<rparr>"

definition no_array :: json_array_t where
  "no_array = \<lparr>ar_type = t_ignore, ar_subtype = [], ar_base = 0, ar_stride = 0, ar_ptrs = 0, ar_chars = 0,
     ar_storelen = 0, ar_store = 0, ar_count = None, ar_maxlen = 0\<rparr>"

definition ex_arrays :: "nat \<Rightarrow> json_array_t" where
  "ex_arrays = (\<lambda>_. no_array)(
     300 := no_array\<lparr>ar_type := t_structobject, ar_base := 100, ar_stride := 16, ar_maxlen := 4,
       ar_subtype := [ex_attr ''ssid'' t_string 0 8, ex_attr ''rates'' t_array 301 0], ar_count := Some 12\<rparr>,
     301 := no_array\<lparr>ar_type := t_string, ar_ptrs := 200, ar_chars := 250, ar_storelen := 8, ar_maxlen := 3\<rparr>)"

lemma ex_fits:
  "layout_fits ex_arrays {300, 301} (sizes ex_vars)" "table_fits top_place ex_attrs {300, 301} (sizes ex_vars)"
proof -
  have three: "i < 3 \<longleftrightarrow> i = 0 \<or> i = 1 \<or> i = 2" for i :: nat by auto
  show "layout_fits ex_arrays {300, 301} (sizes ex_vars)" "table_fits top_place ex_attrs {300, 301} (sizes ex_vars)"
    by (auto simp: layout_fits_def table_fits_def ex_arrays_def no_array_def ex_attrs_def ex_attr_def ex_vars_def
        sizes_def top_place_def has_target_def cell_of_def json_sizes Let_def three)
qed

text \<open>A name longer than its buffer, and a list of four strings in an array of three.\<close>

definition ex_text :: string where
  "ex_text = [CHR ''{'', CHR 0x22] @ ''aps'' @ [CHR 0x22] @ '':[{'' @ [CHR 0x22] @ ''rates'' @ [CHR 0x22] @ '':['' @
     concat (replicate 3 [CHR 0x22, CHR ''1'', CHR 0x22, CHR '','']) @ [CHR 0x22, CHR ''1'', CHR 0x22] @ '']}],'' @
     [CHR 0x22] @ replicate 40 (CHR ''n'') @ [CHR 0x22] @ '':1}''"

theorem json_reader_in_bounds_witness:
  "(\<exists>status fin s'. json_read_object (read_array_at ex_arrays NUL) NUL ex_text ex_attrs ex_vars =
      Inr (status, fin, s') \<and> sizes s' = sizes ex_vars) \<and>
   (\<exists>status fin s'. json_read_object (read_array_at ex_arrays NUL) NUL ([CHR ''{'', CHR 0x22] @ replicate 40 (CHR ''n''))
      ex_attrs ex_vars = Inr (status, fin, s') \<and> sizes s' = sizes ex_vars)"
  by (intro conjI json_reader_in_bounds [OF ex_fits]) (simp_all add: ex_text_def numeral_eq_Suc)

text \<open>
  C35. Escapes are not counted: a value of more than 513 escaped newlines is written past the end
  of the value buffer, whatever the length of the attribute is, since only chars without
  escape are checked against the limits.
\<close>

theorem json_escapes_overflow:
  assumes "k \<in> at_name ` set attrs" "plain k" "length k < JSON_ATTR_MAX" "at_type (attr_of attrs k) \<noteq> t_array"
    and "JSON_VAL_MAX + 1 < n" "json_defaults top_place attrs s = Inr (0, s1)" "NUL \<notin> set cp"
  shows "json_read_object ra g ([CHR ''{'', CHR 0x22] @ k @ [CHR 0x22, CHR '':'', CHR 0x22] @
     concat (replicate n [CHR 0x5C, CHR ''n'']) @ cp) attrs s = Inl OutOfBounds"
proof -
  note s1 = assms(6)
  obtain m where n: "n = (JSON_VAL_MAX + 1) + Suc m" using less_natE [OF assms(5)] by (metis add_Suc_right)
  let ?esc = "\<lambda>n. concat (replicate n [CHR 0x5C, CHR ''n''])"
  have e: "?esc n @ cp = ?esc (JSON_VAL_MAX + 1) @ CHR 0x5C # CHR ''n'' # ?esc m @ cp"
    unfolding n replicate_add concat_append by simp
  let ?text = "[CHR ''{'', CHR 0x22] @ k @ [CHR 0x22, CHR '':'', CHR 0x22] @ ?esc n @ cp"
  let ?st = "(json_start s1)\<lparr>ps_phase := P_await_attr\<rparr>"
  have "NUL \<notin> set (?esc n)" for n by (induction n) (simp_all add: NUL_def)
  then have "cstr ?text = ?text"
    using assms(2,7) by (intro cstr_plain) (auto simp: plain_def NUL_def)
  moreover have "json_loop top_place ra g attrs ?text (json_start s1) =
      json_loop top_place ra g attrs ([CHR 0x22] @ k @ [CHR 0x22, CHR '':'', CHR 0x22] @ ?esc n @ cp) ?st"
    by (simp add: json_step_def step_init_def json_start_def isspace_def)
  moreover obtain st' where st': "json_loop top_place ra g attrs ([CHR 0x22] @ k @ [CHR 0x22, CHR '':'', CHR 0x22] @ ?esc n @ cp) ?st =
      json_loop top_place ra g attrs (?esc n @ cp) st'" "ps_phase st' = P_in_val_string" "ps_val st' = Some []"
    using loop_name [of ?st k attrs top_place ra g "?esc n @ cp"] assms(1-4) by (auto simp: json_start_def)
  moreover have "json_loop top_place ra g attrs (?esc n @ cp) st' = Inl OutOfBounds"
  proof -
    define w where "w = replicate (JSON_VAL_MAX + 1) (CHR 0x0A)"
    have "json_loop top_place ra g attrs (?esc n @ cp) st' =
        json_loop top_place ra g attrs (CHR 0x5C # CHR ''n'' # ?esc m @ cp) (st'\<lparr>ps_val := Some w\<rparr>)"
      unfolding e w_def using loop_escapes [OF st'(2,3), of "JSON_VAL_MAX + 1"] by (simp only: append_Nil list.size)
    also have "\<dots> = Inl OutOfBounds"
      using st'(2) by (simp add: json_step_def step_in_val_string_def step_in_escape_def put_val_def w_def)
    finally show ?thesis .
  qed
  ultimately show ?thesis using s1 by (simp add: json_read_object_defs)
qed

theorem json_escapes_overflow_witness:
  "json_read_object (read_array_at ex_arrays NUL) NUL ([CHR ''{'', CHR 0x22] @ ''name'' @ [CHR 0x22, CHR '':'', CHR 0x22] @
     concat (replicate 600 [CHR 0x5C, CHR ''n'']) @ [CHR 0x22, CHR ''}'']) ex_attrs ex_vars = Inl OutOfBounds"
proof (rule json_escapes_overflow)
  show "at_type (attr_of ex_attrs ''name'') \<noteq> t_array"
    by (simp add: attr_of_def ex_attrs_def ex_attr_def)
  show "json_defaults top_place ex_attrs ex_vars = Inr (0, ex_vars)"
  proof -
    have "put_at 0 [NUL] (replicate 8 NUL) = replicate 8 NUL" by code_simp
    then show ?thesis
      by (simp add: ex_attrs_def ex_attr_def ex_vars_def json_default_def top_place_def has_target_def put_chars_def
          put_defs fun_upd_def fun_eq_iff)
  qed
qed (simp_all add: ex_attrs_def ex_attr_def plain_def NUL_def json_maxima)

end
