(* ===== verification/Json_Lists.thy ===== *)
theory Json_Lists
  imports Json_Bounds
begin

text \<open>
  What \<^verbatim>\<open>json_read_array\<close> leaves in memory: lists of strings and of numbers read back, a list that
  is too long stays within its array, and parallel arrays take one string at most.
\<close>

section \<open>Lists of strings\<close>

fun comma_list :: "string list \<Rightarrow> string" where
  "comma_list [] = []"
| "comma_list [s] = s"
| "comma_list (s # ss) = s @ CHR '','' # comma_list ss"

definition array_text :: "string list \<Rightarrow> string" where
  "array_text ss = CHR ''['' # comma_list ss @ [CHR '']'']"

definition quoted :: "string \<Rightarrow> string" where
  "quoted s = CHR 0x22 # s @ [CHR 0x22]"

text \<open>The bytes of the strings with their NULs.\<close>

definition packed :: "string list \<Rightarrow> string" where
  "packed ss = concat (map (\<lambda>s. s @ [NUL]) ss)"

lemma packed_simps [simp]: "packed [] = []" "packed (s # ss) = s @ NUL # packed ss"
  by (simp_all add: packed_def)

definition verbatim_text :: "string \<Rightarrow> bool" where
  "verbatim_text s \<longleftrightarrow> CHR 0x22 \<notin> set s \<and> NUL \<notin> set s"

lemma put_char_put_at:
  "i < length (js_string s k) \<Longrightarrow>
   put_char k i c s = Inr (s\<lparr>js_string := (js_string s)(k := put_at i [c] (js_string s k))\<rparr>)"
  by (simp add: put_char_def put_at_def upd_conv_take_nth_drop)

lemma put_at_step:
  "i < length xs \<Longrightarrow> put_at (Suc i) bs (put_at i [c] xs) = put_at i (c # bs) xs"
  by (simp add: put_at_def take_Suc_conv_app_nth add.commute)

lemma array_chars_written:
  assumes "verbatim_text t" "int (tp + length t) < storelen" "tp + length t < length (js_string s k)"
  shows "array_chars k storelen (t @ CHR 0x22 # cp) tp s =
     Inr (0, cp, tp + length t + 1, s\<lparr>js_string := (js_string s)(k := put_at tp (t @ [NUL]) (js_string s k))\<rparr>)"
  using assms
proof (induction t arbitrary: tp s)
  case Nil
  then show ?case by (simp add: put_char_put_at fun_upd_def)
next
  case (Cons c t)
  let ?s = "s\<lparr>js_string := (js_string s)(k := put_at tp [c] (js_string s k))\<rparr>"
  have l: "length (js_string ?s k) = length (js_string s k)" using Cons.prems(3) by (simp add: put_at_def)
  have "array_chars k storelen (t @ CHR 0x22 # cp) (tp + 1) ?s = Inr (0, cp, tp + 1 + length t + 1,
      ?s\<lparr>js_string := (js_string ?s)(k := put_at (tp + 1) (t @ [NUL]) (js_string ?s k))\<rparr>)"
    using Cons.prems l by (intro Cons.IH) (simp_all add: verbatim_text_def)
  then have "array_chars k storelen (t @ CHR 0x22 # cp) (tp + 1) ?s = Inr (0, cp, tp + length (c # t) + 1,
      s\<lparr>js_string := (js_string s)(k := put_at tp ((c # t) @ [NUL]) (js_string s k))\<rparr>)"
    using Cons.prems(3) by (simp add: put_at_step)
  then show ?case
    using Cons.prems by (auto simp: put_char_put_at verbatim_text_def fun_upd_def)
qed

text \<open>One string, followed by a comma or the bracket.\<close>

lemma array_string_written:
  assumes "ar_type arr = t_string" "verbatim_text t" "int (tp + length t) < ar_storelen arr"
    and "tp + length t < length (js_string s (ar_chars arr))" "js_cells s C_ptr (ar_ptrs arr + SIZEOF_PTR * offset)"
  shows "array_element ra g arr offset (quoted t @ cp) tp s = Inr (0, cp, tp + length t + 1,
     s\<lparr>js_ptr := (js_ptr s)(ar_ptrs arr + SIZEOF_PTR * offset := ar_chars arr + tp),
       js_string := (js_string s)(ar_chars arr := put_at tp (t @ [NUL]) (js_string s (ar_chars arr)))\<rparr>)"
  using assms array_chars_written [OF assms(2,3)]
  by (simp add: array_element_def array_string_def quoted_def skip_one_space_def isspace_def put_ptr_def put_cell_def)

definition strings_stored :: "json_array_t \<Rightarrow> nat \<Rightarrow> nat \<Rightarrow> string list \<Rightarrow> nat json_store \<Rightarrow> nat json_store \<Rightarrow> bool" where
  "strings_stored arr offset tp ss s s' \<longleftrightarrow> js_cells s' = js_cells s \<and>
     js_string s' (ar_chars arr) = put_at tp (packed ss) (js_string s (ar_chars arr)) \<and>
     (\<forall>i<offset. js_ptr s' (ar_ptrs arr + SIZEOF_PTR * i) = js_ptr s (ar_ptrs arr + SIZEOF_PTR * i)) \<and>
     (\<forall>i<length ss. js_ptr s' (ar_ptrs arr + SIZEOF_PTR * (offset + i)) = ar_chars arr + tp + length (packed (take i ss)))"

lemma put_at_append:
  "tp + length t \<le> length xs \<Longrightarrow> put_at (tp + length t) bs (put_at tp t xs) = put_at tp (t @ bs) xs"
  by (simp add: put_at_def ac_simps)

lemma strings_stored_Cons:
  assumes "strings_stored arr (Suc offset) (tp + length t + 1) ss
      (s\<lparr>js_ptr := (js_ptr s)(ar_ptrs arr + SIZEOF_PTR * offset := ar_chars arr + tp),
         js_string := (js_string s)(ar_chars arr := put_at tp (t @ [NUL]) (js_string s (ar_chars arr)))\<rparr>) s'"
    and "tp + length t < length (js_string s (ar_chars arr))"
  shows "strings_stored arr offset tp (t # ss) s s'"
proof -
  have "put_at (tp + length (t @ [NUL])) (packed ss) (put_at tp (t @ [NUL]) (js_string s (ar_chars arr))) =
      put_at tp ((t @ [NUL]) @ packed ss) (js_string s (ar_chars arr))"
    using assms(2) by (intro put_at_append) simp
  moreover have "js_ptr s' (ar_ptrs arr + SIZEOF_PTR * (offset + i)) =
      ar_chars arr + tp + length (packed (take i (t # ss)))" if "i < length (t # ss)" for i
    using assms(1) that by (cases i) (auto simp: strings_stored_def json_sizes)
  ultimately show ?thesis using assms(1) by (auto simp: strings_stored_def json_sizes)
qed

lemma counted:
  assumes "ar_count arr = Some c" "js_cells s C_int c"
  shows "set_count arr n s = Inr (s\<lparr>js_integer := (js_integer s)(c := of_nat n)\<rparr>)"
  using assms by (simp add: set_count_def put_int_def put_cell_def)

text \<open>The rest of the list, in the form that the loop meets it.\<close>

lemma comma_list_Cons: "comma_list (s # ss) @ cp = s @ (if ss = [] then cp else CHR '','' # comma_list ss @ cp)"
  by (cases ss) simp_all

lemma strings_elements:
  assumes "ss \<noteq> []" "\<forall>t\<in>set ss. verbatim_text t" "ar_type arr = t_string" "length ss \<le> m"
    and "int (tp + length (packed ss)) \<le> ar_storelen arr"
    and "tp + length (packed ss) \<le> length (js_string s (ar_chars arr))"
    and "\<forall>i<length ss. js_cells s C_ptr (ar_ptrs arr + SIZEOF_PTR * (offset + i))"
  shows "\<exists>s'. array_elements ra g arr m offset (comma_list (map quoted ss) @ CHR '']'' # cp) tp s =
      bind_res (set_count arr (offset + length ss) s') (\<lambda>s. Inr (0, Some (CHR '']'' # cp), s)) \<and>
      strings_stored arr offset tp ss s s'"
  using assms
proof (induction ss arbitrary: m offset tp s)
  case (Cons t ss)
  obtain m' where m: "m = Suc m'" using Cons.prems(4) by (cases m) simp_all
  let ?s = "s\<lparr>js_ptr := (js_ptr s)(ar_ptrs arr + SIZEOF_PTR * offset := ar_chars arr + tp),
      js_string := (js_string s)(ar_chars arr := put_at tp (t @ [NUL]) (js_string s (ar_chars arr)))\<rparr>"
  have fit: "tp + length t < length (js_string s (ar_chars arr))" using Cons.prems(6) by simp
  have len: "length (js_string ?s (ar_chars arr)) = length (js_string s (ar_chars arr))"
    using fit by (simp add: put_at_def)
  have el: "array_element ra g arr offset (quoted t @ r) tp s = Inr (0, r, tp + length t + 1, ?s)" for r
    using Cons.prems(1-6) Cons.prems(7) [rule_format, of 0] fit by (intro array_string_written) auto
  let ?rest = "if ss = [] then CHR '']'' # cp else CHR '','' # comma_list (map quoted ss) @ CHR '']'' # cp"
  have el: "array_element ra g arr offset (comma_list (map quoted (t # ss)) @ CHR '']'' # cp) tp s =
      Inr (0, ?rest, tp + length t + 1, ?s)"
    using el [of ?rest] by (simp only: list.map comma_list_Cons map_is_Nil_conv)
  show ?case
  proof (cases "ss = []")
    case True
    have "strings_stored arr (Suc offset) (tp + length t + 1) [] ?s ?s"
      using fit len by (simp add: strings_stored_def put_at_def)
    from strings_stored_Cons [OF this fit] True el show ?thesis
      by (intro exI [of _ ?s]) (simp add: m skip_one_space_def isspace_def)
  next
    case False
    have "\<exists>s'. array_elements ra g arr m' (offset + 1) (comma_list (map quoted ss) @ CHR '']'' # cp) (tp + length t + 1) ?s =
        bind_res (set_count arr (offset + 1 + length ss) s') (\<lambda>s. Inr (0, Some (CHR '']'' # cp), s)) \<and>
        strings_stored arr (offset + 1) (tp + length t + 1) ss ?s s'"
      using Cons.prems(2-6) False len Cons.prems(7) [rule_format, of "Suc _"] by (intro Cons.IH) (simp_all add: m)
    then obtain s' where s': "array_elements ra g arr m' (Suc offset) (comma_list (map quoted ss) @ CHR '']'' # cp)
          (tp + length t + 1) ?s =
          bind_res (set_count arr (offset + length (t # ss)) s') (\<lambda>s. Inr (0, Some (CHR '']'' # cp), s))"
        "strings_stored arr (Suc offset) (tp + length t + 1) ss ?s s'" by auto
    from strings_stored_Cons [OF s'(2) fit] s'(1) el False show ?thesis
      by (intro exI [of _ s']) (simp add: m skip_one_space_def isspace_def)
  qed
qed simp

lemma packed_string: "i < length ss \<Longrightarrow> \<forall>t\<in>set ss. NUL \<notin> set t \<Longrightarrow>
   cstr (drop (length (packed (take i ss))) (packed ss @ cs)) = ss ! i"
proof (induction ss arbitrary: i)
  case (Cons t ss)
  show ?case
  proof (cases i)
    case 0
    have "takeWhile (\<lambda>c. c \<noteq> NUL) (t @ NUL # packed ss @ cs) = t"
      using Cons.prems(2) by (subst takeWhile_append2) auto
    with 0 show ?thesis by (simp add: cstr_def)
  qed (use Cons in simp)
qed simp

lemma comma_list_NUL: "\<forall>t\<in>set ss. NUL \<notin> set t \<Longrightarrow> NUL \<notin> set (comma_list ss)"
  by (induction ss rule: comma_list.induct) (auto simp: NUL_def)

text \<open>How the reader starts on a list that is not empty.\<close>

definition starts_element :: "string \<Rightarrow> bool" where
  "starts_element t \<longleftrightarrow> NUL \<notin> set t \<and> t \<noteq> [] \<and> \<not> isspace (hd t) \<and> hd t \<noteq> CHR '']''"

lemma read_array_text:
  assumes "ss \<noteq> []" "\<forall>t\<in>set ss. starts_element t" "NUL \<notin> set cp"
  shows "json_read_array ra g (array_text ss @ cp) arr s =
     array_elements ra g arr (nat (ar_maxlen arr)) 0 (comma_list ss @ CHR '']'' # cp) 0 s"
proof -
  obtain t ts where ss: "ss = t # ts" using assms(1) by (cases ss) simp_all
  obtain c cs where t: "t = c # cs" using assms(2) ss by (cases t) (auto simp: starts_element_def)
  let ?cp = "comma_list ss @ CHR '']'' # cp"
  have b: "\<not> isspace (CHR ''['')" by (simp add: isspace_def)
  have c: "\<not> isspace c" "c \<noteq> CHR '']''" using assms(2) ss t by (auto simp: starts_element_def)
  have e: "?cp = c # cs @ (if ts = [] then CHR '']'' # cp else CHR '','' # comma_list ts @ CHR '']'' # cp)"
    unfolding ss comma_list_Cons by (simp add: t)
  have "cstr (array_text ss @ cp) = CHR ''['' # ?cp"
    using comma_list_NUL [of ss] assms(2,3) by (subst cstr_no_NUL) (auto simp: array_text_def NUL_def starts_element_def)
  then show ?thesis
    using c b by (simp add: json_read_array_def e del: comma_list.simps)
qed

text \<open>
  C29. A list of strings reads back: the text of any strings without quotes, written as a JSON
  array, gives an array of pointers, in the order of the list, to copies of the strings packed
  one behind the other into the store, and their number. It needs room for each string and
  its NUL, a pointer for each string, and a variable for the number.
\<close>

theorem string_list_roundtrip:
  assumes "ar_type arr = t_string" "\<forall>t\<in>set ss. verbatim_text t" "int (length ss) \<le> ar_maxlen arr" "ss \<noteq> []"
    and "int (length (packed ss)) \<le> ar_storelen arr" "length (packed ss) \<le> length (js_string s (ar_chars arr))"
    and "\<forall>i<length ss. js_cells s C_ptr (ar_ptrs arr + SIZEOF_PTR * i)"
    and "ar_count arr = Some c" "js_cells s C_int c"
  shows "\<exists>s'. json_read_array ra g (array_text (map quoted ss)) arr s = Inr (0, Some [CHR '']''], s') \<and>
     js_integer s' c = of_nat (length ss) \<and>
     (\<forall>i<length ss. \<exists>off. js_ptr s' (ar_ptrs arr + SIZEOF_PTR * i) = ar_chars arr + off \<and>
        cstr (drop off (js_string s' (ar_chars arr))) = ss ! i)"
proof -
  have "length ss \<le> nat (ar_maxlen arr)" using assms(3) by simp
  from strings_elements [OF assms(4,2,1) this, of 0 s 0 ra g "[]"] assms(5-7) obtain s1 where
    el: "array_elements ra g arr (nat (ar_maxlen arr)) 0 (comma_list (map quoted ss) @ [CHR '']'']) 0 s =
      bind_res (set_count arr (length ss) s1) (\<lambda>s. Inr (0, Some [CHR '']''], s))" and st: "strings_stored arr 0 0 ss s s1" by auto
  let ?s = "s1\<lparr>js_integer := (js_integer s1)(c := of_nat (length ss))\<rparr>"
  have "js_cells s1 C_int c" using st assms(9) by (simp add: strings_stored_def)
  note el = el [unfolded counted [OF assms(8) this] bind_res.simps]
  have st: "strings_stored arr 0 0 ss s ?s" using st by (simp add: strings_stored_def)
  have q: "\<forall>t\<in>set (map quoted ss). starts_element t"
    using assms(2) by (auto simp: starts_element_def quoted_def verbatim_text_def NUL_def isspace_def)
  have "json_read_array ra g (array_text (map quoted ss)) arr s = Inr (0, Some [CHR '']''], ?s)"
    using read_array_text [OF _ q, of "[]"] assms(4) el by simp
  moreover have "cstr (drop (length (packed (take i ss))) (js_string ?s (ar_chars arr))) = ss ! i" if "i < length ss" for i
    using packed_string [OF that, of "drop (length (packed ss)) (js_string s (ar_chars arr))"] assms(2) st
    by (simp add: strings_stored_def put_at_def verbatim_text_def)
  ultimately show ?thesis
    using st by (intro exI [of _ ?s]) (auto simp: strings_stored_def)
qed

theorem string_list_roundtrip_witness:
  "\<exists>s'. json_read_array (read_array_at ex_arrays NUL) NUL (array_text (map quoted [''11'', ''54'']))
       ((ex_arrays 301)\<lparr>ar_count := Some 12\<rparr>) ex_vars = Inr (0, Some [CHR '']''], s') \<and>
     js_integer s' 12 = of_nat (length [''11'', ''54'']) \<and>
     (\<forall>i<length [''11'', ''54'']. \<exists>off.
        js_ptr s' (ar_ptrs ((ex_arrays 301)\<lparr>ar_count := Some 12\<rparr>) + SIZEOF_PTR * i) =
          ar_chars ((ex_arrays 301)\<lparr>ar_count := Some 12\<rparr>) + off \<and>
        cstr (drop off (js_string s' (ar_chars ((ex_arrays 301)\<lparr>ar_count := Some 12\<rparr>)))) = [''11'', ''54''] ! i)"
  by (rule string_list_roundtrip)
    (simp_all add: ex_arrays_def no_array_def verbatim_text_def NUL_def ex_vars_def json_sizes less_Suc_eq numeral_2_eq_2)

section \<open>Lists of numbers\<close>

text \<open>The store behind numbers that lie \<open>d\<close> bytes apart, from the address \<open>k\<close> on.\<close>

primrec numbers_at :: "nat \<Rightarrow> nat \<Rightarrow> nat list \<Rightarrow> (nat \<Rightarrow> u32) \<Rightarrow> nat \<Rightarrow> u32" where
  "numbers_at d k [] f = f"
| "numbers_at d k (n # ns) f = numbers_at d (k + d) ns (f(k := of_nat n))"

lemma numbers_at_other: "\<forall>i<length ns. q \<noteq> k + d * i \<Longrightarrow> numbers_at d k ns f q = f q"
proof (induction ns arbitrary: k f)
  case (Cons n ns)
  have "q \<noteq> k" using Cons.prems by force
  moreover have "\<forall>i<length ns. q \<noteq> (k + d) + d * i"
  proof (intro allI impI)
    fix i assume "i < length ns"
    then show "q \<noteq> k + d + d * i"
      using Cons.prems [rule_format, of "Suc i"] by (simp add: add.assoc)
  qed
  ultimately have "numbers_at d (k + d) ns (f(k := of_nat n)) q = (f(k := of_nat n)) q"
    by (intro Cons.IH)
  with \<open>q \<noteq> k\<close> show ?case by simp
qed simp

lemma numbers_at_nth: "i < length ns \<Longrightarrow> 0 < d \<Longrightarrow> numbers_at d k ns f (k + d * i) = of_nat (ns ! i)"
proof (induction ns arbitrary: k f i)
  case (Cons n ns)
  show ?case
  proof (cases i)
    case 0
    have "numbers_at d (k + d) ns (f(k := of_nat n)) k = (f(k := of_nat n)) k"
      using Cons.prems(2) by (intro numbers_at_other) simp
    with 0 show ?thesis by simp
  next
    case (Suc j)
    with Cons.prems have "numbers_at d (k + d) ns (f(k := of_nat n)) (k + d + d * j) = of_nat (ns ! j)"
      by (intro Cons.IH) simp_all
    with Suc show ?thesis by (simp add: add.assoc)
  qed
qed simp

text \<open>
  \<open>enc\<close> is the text of an element that holds a number, and its number is stored \<open>d\<close> bytes
  behind that of the element before it.
\<close>

definition stores_number :: "nat array_reader \<Rightarrow> char \<Rightarrow> json_array_t \<Rightarrow> (nat \<Rightarrow> string) \<Rightarrow> nat \<Rightarrow> nat \<Rightarrow> bool" where
  "stores_number ra g arr enc k d \<longleftrightarrow> (\<forall>n offset cs tp s.
     n < 2 ^ 31 \<and> cs \<noteq> [] \<and> (hd cs = CHR '','' \<or> hd cs = CHR '']'') \<and> NUL \<notin> set cs \<and> js_cells s C_int (k + d * offset) \<longrightarrow>
     array_element ra g arr offset (enc n @ cs) tp s =
       Inr (0, cs, tp, s\<lparr>js_integer := (js_integer s)(k + d * offset := of_nat n)\<rparr>))"

lemma number_elements:
  assumes "ns \<noteq> []" "\<forall>n\<in>set ns. n < 2 ^ 31" "stores_number ra g arr enc k d"
    and "\<forall>i<m. js_cells s C_int (k + d * (offset + i))" "\<forall>n. NUL \<notin> set (enc n)" "NUL \<notin> set cp"
  shows "\<exists>fin. array_elements ra g arr m offset (comma_list (map enc ns) @ CHR '']'' # cp) tp s =
     (let f = numbers_at d (k + d * offset) (take m ns) (js_integer s) in
      if length ns \<le> m
      then bind_res (set_count arr (offset + length ns) (s\<lparr>js_integer := f\<rparr>)) (\<lambda>s. Inr (0, Some (CHR '']'' # cp), s))
      else Inr (JSON_ERR_SUBTOOLONG, fin, s\<lparr>js_integer := f\<rparr>))"
  using assms(1,2,4)
proof (induction ns arbitrary: m offset s)
  case (Cons n ns)
  show ?case
  proof (cases m)
    case (Suc m')
    define h where "h = (js_integer s)(k + d * offset := of_nat n)"
    let ?s = "s\<lparr>js_integer := h\<rparr>"
    let ?rest = "if ns = [] then CHR '']'' # cp else CHR '','' # comma_list (map enc ns) @ CHR '']'' # cp"
    have "NUL \<notin> set ?rest" using comma_list_NUL [of "map enc ns"] assms(5,6) by (auto simp: NUL_def)
    then have "array_element ra g arr offset (enc n @ ?rest) tp s = Inr (0, ?rest, tp, ?s)"
      unfolding h_def using Cons.prems(2) Cons.prems(3) [rule_format, of 0] Suc
      by (intro assms(3) [unfolded stores_number_def, rule_format]) auto
    then have el: "array_element ra g arr offset (comma_list (map enc (n # ns)) @ CHR '']'' # cp) tp s = Inr (0, ?rest, tp, ?s)"
      by (simp only: list.map comma_list_Cons map_is_Nil_conv)
    show ?thesis
    proof (cases "ns = []")
      case True
      with el Suc show ?thesis by (simp add: skip_one_space_def isspace_def Let_def h_def fun_upd_def)
    next
      case False
      let ?ih = "\<lambda>fin. array_elements ra g arr m' (Suc offset) (comma_list (map enc ns) @ CHR '']'' # cp) tp ?s =
         (let f = numbers_at d (k + d * Suc offset) (take m' ns) (js_integer ?s) in
          if length ns \<le> m'
          then bind_res (set_count arr (Suc offset + length ns) (?s\<lparr>js_integer := f\<rparr>)) (\<lambda>s. Inr (0, Some (CHR '']'' # cp), s))
          else Inr (JSON_ERR_SUBTOOLONG, fin, ?s\<lparr>js_integer := f\<rparr>))"
      have "\<exists>fin. ?ih fin"
        using Cons.prems(1,2) Cons.prems(3) [rule_format, of "Suc _"] Suc by (intro Cons.IH False) auto
      then obtain fin where ih: "?ih fin" ..
      define f where "f = numbers_at d (k + d * offset) (take m (n # ns)) (js_integer s)"
      have "numbers_at d (k + d * Suc offset) (take m' ns) (js_integer ?s) = f"
        by (simp add: Suc f_def h_def ac_simps)
      then have "array_elements ra g arr m' (Suc offset) (comma_list (map enc ns) @ CHR '']'' # cp) tp ?s =
         (if length (n # ns) \<le> m
          then bind_res (set_count arr (offset + length (n # ns)) (s\<lparr>js_integer := f\<rparr>)) (\<lambda>s. Inr (0, Some (CHR '']'' # cp), s))
          else Inr (JSON_ERR_SUBTOOLONG, fin, s\<lparr>js_integer := f\<rparr>))"
        using ih by (simp add: Suc Let_def)
      then show ?thesis
        unfolding f_def [symmetric] Let_def using el Suc False
        by (intro exI [of _ fin]) (simp add: skip_one_space_def isspace_def)
    qed
  qed (simp add: Let_def)
qed simp

text \<open>The whole list, for elements of any form.\<close>

definition numbers_stored :: "json_array_t \<Rightarrow> nat \<Rightarrow> nat \<Rightarrow> nat \<Rightarrow> nat list \<Rightarrow> int \<Rightarrow> nat json_store \<Rightarrow> nat json_store \<Rightarrow> bool" where
  "numbers_stored arr c k d ns status s s' \<longleftrightarrow>
     (if length ns \<le> nat (ar_maxlen arr) then status = 0 \<and> js_integer s' c = of_nat (length ns)
      else status = JSON_ERR_SUBTOOLONG \<and> js_integer s' c = js_integer s c) \<and>
     (\<forall>i < min (length ns) (nat (ar_maxlen arr)). js_integer s' (k + d * i) = of_nat (ns ! i)) \<and>
     (\<forall>q. q \<noteq> c \<and> (\<forall>i < nat (ar_maxlen arr). q \<noteq> k + d * i) \<longrightarrow> js_integer s' q = js_integer s q) \<and>
     s' = s\<lparr>js_integer := js_integer s'\<rparr>"

lemma read_numbers:
  assumes el: "stores_number ra g arr enc k d" and ns: "\<forall>n\<in>set ns. n < 2 ^ 31" "ns \<noteq> []" and d: "0 < d"
    and c: "ar_count arr = Some c" "\<forall>i<nat (ar_maxlen arr). c \<noteq> k + d * i"
    and cells: "\<forall>i<nat (ar_maxlen arr). js_cells s C_int (k + d * i)" "js_cells s C_int c"
    and enc: "\<forall>n. starts_element (enc n)" and cp: "NUL \<notin> set cp"
  shows "\<exists>status fin s'. json_read_array ra g (array_text (map enc ns) @ cp) arr s = Inr (status, fin, s') \<and>
     (status = 0 \<longrightarrow> fin = Some (CHR '']'' # cp)) \<and> numbers_stored arr c k d ns status s s'"
proof -
  let ?m = "nat (ar_maxlen arr)"
  let ?f = "numbers_at d k (take ?m ns) (js_integer s)"
  have count: "set_count arr (length ns) (s\<lparr>js_integer := ?f\<rparr>) = Inr (s\<lparr>js_integer := ?f(c := of_nat (length ns))\<rparr>)"
    using counted [OF c(1), of "s\<lparr>js_integer := ?f\<rparr>"] cells(2) by simp
  have "\<forall>n. NUL \<notin> set (enc n)" using enc by (simp add: starts_element_def)
  from number_elements [OF ns(2,1) el _ this cp, of ?m s 0 0] cells(1) obtain fin where
    "array_elements ra g arr ?m 0 (comma_list (map enc ns) @ CHR '']'' # cp) 0 s =
      (let f = numbers_at d (k + d * 0) (take ?m ns) (js_integer s) in
       if length ns \<le> ?m
       then bind_res (set_count arr (0 + length ns) (s\<lparr>js_integer := f\<rparr>)) (\<lambda>s. Inr (0, Some (CHR '']'' # cp), s))
       else Inr (JSON_ERR_SUBTOOLONG, fin, s\<lparr>js_integer := f\<rparr>))" by fastforce
  then have read: "json_read_array ra g (array_text (map enc ns) @ cp) arr s =
      (if length ns \<le> ?m then Inr (0, Some (CHR '']'' # cp), s\<lparr>js_integer := ?f(c := of_nat (length ns))\<rparr>)
       else Inr (JSON_ERR_SUBTOOLONG, fin, s\<lparr>js_integer := ?f\<rparr>))"
    using read_array_text [of "map enc ns" cp ra g arr s] ns(2) enc cp
    by (simp only: Let_def mult_0_right add_0_right add_0 count bind_res.simps) auto
  have other: "?f q = js_integer s q" if "\<forall>i<?m. q \<noteq> k + d * i" for q
    using that by (intro numbers_at_other) simp
  have elem: "?f (k + d * i) = of_nat (ns ! i)" if "i < min (length ns) ?m" for i
    using numbers_at_nth [of i "take ?m ns" d k "js_integer s"] that d by simp
  show ?thesis
  proof (cases "length ns \<le> ?m")
    case True
    moreover have "\<forall>i<length ns. k + d * i \<noteq> c" using True c(2) by (metis order_less_le_trans)
    ultimately show ?thesis
      unfolding read numbers_stored_def using other elem by (intro exI conjI) auto
  next
    case False
    with other elem c(2) show ?thesis
      by (auto simp: read numbers_stored_def JSON_ERR_SUBTOOLONG_def)
  qed
qed

lemma starts_element_show_nat: "starts_element (show_nat n)"
proof -
  have "isdigit (hd (show_nat n))" by (rule show_nat_digits [OF hd_in_set]) simp
  moreover have "\<not> isdigit NUL" by (simp add: isdigit_def NUL_def)
  moreover have "\<not> isdigit (CHR '']'')" by (simp add: isdigit_def)
  ultimately show ?thesis using show_nat_digits [of NUL n] isdigit_not unfolding starts_element_def by auto
qed

lemma integer_element:
  assumes "ar_type arr = t_integer"
  shows "stores_number ra g arr show_nat (ar_store arr) SIZEOF_INT"
  unfolding stores_number_def
proof (intro allI impI, elim conjE)
  fix n offset :: nat and cs :: string and tp and s :: "nat json_store"
  assume n: "n < 2 ^ 31" and cs: "cs \<noteq> []" "hd cs = CHR '','' \<or> hd cs = CHR '']''"
    and cell: "js_cells s C_int (ar_store arr + SIZEOF_INT * offset)"
  have "digit_of (hd cs) = 36" using cs(2) by (auto simp: digit_of_def isdigit_def)
  then show "array_element ra g arr offset (show_nat n @ cs) tp s =
      Inr (0, cs, tp, s\<lparr>js_integer := (js_integer s)(ar_store arr + SIZEOF_INT * offset := of_nat n)\<rparr>)"
    using assms cell strtol0_show_nat [OF n, of cs] by (simp add: array_element_def scanned_def put_int_def put_cell_def)
qed

text \<open>
  C30. A list of numbers reads back and stays in its array: the decimal text of any numbers below
  two to the 31, written as a JSON array, stores the first of them, as many as the array has
  elements, in their order. The list is accepted and counted when it fits and rejected as
  too long when not, and no other variable of any type changes. The array has its \<^verbatim>\<open>maxlen\<close> elements
  and the count its variable.
\<close>

theorem number_list_stored:
  assumes "ar_type arr = t_integer" "\<forall>n\<in>set ns. n < 2 ^ 31" "ns \<noteq> []"
    and "ar_count arr = Some c" "\<forall>i<nat (ar_maxlen arr). c \<noteq> ar_store arr + SIZEOF_INT * i"
    and "\<forall>i<nat (ar_maxlen arr). js_cells s C_int (ar_store arr + SIZEOF_INT * i)" "js_cells s C_int c"
  shows "\<exists>status fin s'. json_read_array ra g (array_text (map show_nat ns)) arr s = Inr (status, fin, s') \<and>
     (if length ns \<le> nat (ar_maxlen arr) then status = 0 \<and> js_integer s' c = of_nat (length ns)
      else status = JSON_ERR_SUBTOOLONG \<and> js_integer s' c = js_integer s c) \<and>
     (\<forall>i < min (length ns) (nat (ar_maxlen arr)). js_integer s' (ar_store arr + SIZEOF_INT * i) = of_nat (ns ! i)) \<and>
     (\<forall>q. q \<noteq> c \<and> (\<forall>i < nat (ar_maxlen arr). q \<noteq> ar_store arr + SIZEOF_INT * i) \<longrightarrow> js_integer s' q = js_integer s q) \<and>
     s' = s\<lparr>js_integer := js_integer s'\<rparr>"
proof -
  have "0 < SIZEOF_INT" "\<forall>n. starts_element (show_nat n)" "NUL \<notin> set []"
    using starts_element_show_nat by (simp_all add: json_sizes)
  from read_numbers [OF integer_element [OF assms(1)] assms(2,3) this(1) assms(4-7) this(2,3), of ra g] show ?thesis
    unfolding numbers_stored_def append_Nil2 by blast
qed

definition ex_numbers :: json_array_t where
  "ex_numbers = no_array\<lparr>ar_type := t_integer, ar_store := 400, ar_maxlen := 2, ar_count := Some 12\<rparr>"

theorem number_list_stored_witness:
  "\<exists>status fin s'. json_read_array (read_array_at ex_arrays NUL) NUL (array_text (map show_nat [7960, 7, 0])) ex_numbers ex_vars =
       Inr (status, fin, s') \<and>
     (if length [7960, 7, 0 :: nat] \<le> nat (ar_maxlen ex_numbers)
      then status = 0 \<and> js_integer s' 12 = of_nat (length [7960, 7, 0 :: nat])
      else status = JSON_ERR_SUBTOOLONG \<and> js_integer s' 12 = js_integer ex_vars 12) \<and>
     (\<forall>i < min (length [7960, 7, 0 :: nat]) (nat (ar_maxlen ex_numbers)).
        js_integer s' (ar_store ex_numbers + SIZEOF_INT * i) = of_nat ([7960, 7, 0] ! i)) \<and>
     (\<forall>q. q \<noteq> 12 \<and> (\<forall>i < nat (ar_maxlen ex_numbers). q \<noteq> ar_store ex_numbers + SIZEOF_INT * i) \<longrightarrow>
        js_integer s' q = js_integer ex_vars q) \<and>
     s' = ex_vars\<lparr>js_integer := js_integer s'\<rparr>"
proof (rule number_list_stored)
  have two: "i < 2 \<longleftrightarrow> i = 0 \<or> i = 1" for i :: nat by auto
  show "\<forall>i<nat (ar_maxlen ex_numbers). js_cells ex_vars C_int (ar_store ex_numbers + SIZEOF_INT * i)"
    by (auto simp: ex_numbers_def no_array_def json_sizes ex_vars_def two)
qed (simp_all add: ex_numbers_def no_array_def json_sizes ex_vars_def)

section \<open>Parallel arrays\<close>

lemma parallel_default:
  assumes "ar_type arr = t_object" "0 < offset" "a \<in> set as" "at_type a = t_string" "\<not> at_nodefault a"
  shows "json_defaults (array_place arr offset) as s \<noteq> Inr (0, s')"
  using assms(3)
proof (induction as arbitrary: s)
  case (Cons b as)
  let ?pl = "array_place arr offset"
  have par: "pl_parallel ?pl" using assms(1,2) by (simp add: array_place_def)
  show ?case
  proof (cases "at_nodefault b")
    case True
    with Cons assms(5) show ?thesis by auto
  next
    case False
    show ?thesis
    proof (cases "at_type b = t_string")
      case True
      have "pl_target ?pl b = Some (at_addr b)"
        using True assms(1) by (simp add: array_place_def json_target_address_def)
      with True False par show ?thesis by (simp add: json_default_def JSON_ERR_NOPARSTR_def)
    next
      case notstr: False
      have "a \<in> set as" using Cons.prems notstr assms(4) by auto
      then show ?thesis using Cons.IH False by (auto simp: bind_res_Inr_iff split: if_splits)
    qed
  qed
qed simp

lemma parallel_rejected:
  assumes "ar_type arr = t_object" "a \<in> set (ar_subtype arr)" "at_type a = t_string" "\<not> at_nodefault a"
  shows "array_elements ra g arr m (Suc offset) cp tp s \<noteq> Inr (0, fin, s')"
proof (cases m)
  case (Suc m')
  have "json_defaults (array_place arr (Suc offset)) (ar_subtype arr) s \<noteq> Inr (0, s1)" for s1
    using parallel_default [OF assms(1) _ assms(2-4), of "Suc offset"] by auto
  then have "array_element ra g arr (Suc offset) cp tp s = Inr (e, cp1, tp1, s1) \<Longrightarrow> e \<noteq> 0" for e cp1 tp1 s1
    using assms(1) by (auto simp: array_element_def json_internal_read_object_def bind_res_Inr_iff split: if_splits)
  then show ?thesis by (auto simp: Suc bind_res_Inr_iff split: if_splits)
qed (simp add: JSON_ERR_SUBTOOLONG_def)

text \<open>
  An array of objects that is spread over parallel arrays cannot have a string with a default:
  such an array is accepted only when it has one element at most.
\<close>

theorem parallel_strings_at_most_one:
  assumes "ar_type arr = t_object" "a \<in> set (ar_subtype arr)" "at_type a = t_string" "\<not> at_nodefault a"
    and "json_read_array ra g cp arr s = Inr (0, fin, s')" "ar_count arr = Some c"
  shows "js_integer s' c = 0 \<or> js_integer s' c = 1"
proof -
  note rej = parallel_rejected [OF assms(1-4), of ra g]
  obtain d cp1 where cp: "dropWhile isspace (cstr cp) = d # cp1"
    using assms(5) by (auto simp: json_read_array_def JSON_ERR_ARRAYSTART_def split: list.splits)
  have count: "js_integer s2 c = of_nat n" if "set_count arr n s1 = Inr s2" for n s1 s2
    using that assms(6) by (auto simp: set_count_def put_int_def put_cell_def split: if_splits)
  consider "set_count arr 0 s = Inr s'"
    | "array_elements ra g arr (nat (ar_maxlen arr)) 0 (dropWhile isspace cp1) 0 s = Inr (0, fin, s')"
    using assms(5) cp by (auto simp: json_read_array_def JSON_ERR_ARRAYSTART_def Let_def bind_res_Inr_iff split: if_splits)
  then show ?thesis
  proof cases
    case 2
    then obtain m where m: "nat (ar_maxlen arr) = Suc m"
      by (cases "nat (ar_maxlen arr)") (auto simp: JSON_ERR_SUBTOOLONG_def)
    obtain e cp2 tp s1 where el: "array_element ra g arr 0 (dropWhile isspace cp1) 0 s = Inr (e, cp2, tp, s1)"
      using 2 m by (auto simp: bind_res_Inr_iff)
    then have "set_count arr 1 s1 = Inr s'"
      using 2 m rej [of m 0 _ tp s1 fin s']
      by (auto simp: JSON_ERR_BADSUBTRAIL_def bind_res_Inr_iff split: if_splits list.splits)
    from count [OF this] show ?thesis by simp
  qed (use count in auto)
qed

end
