(* ===== verification/Json_Structs.thy ===== *)
theory Json_Structs
  imports Json_Lists
begin

text \<open>
  An array of structures inside an object: \<^verbatim>\<open>json_read_object\<close> calls \<^verbatim>\<open>json_read_array\<close>, which calls the
  reader of objects again for each element, with the members at their offsets.
\<close>

section \<open>Numbers as members\<close>

definition number_member :: "string \<Rightarrow> nat \<Rightarrow> string" where
  "number_member k n = CHR 0x22 # k @ CHR 0x22 # CHR '':'' # show_nat n"

definition number_struct :: "string \<Rightarrow> nat \<Rightarrow> string" where
  "number_struct k n = CHR ''{'' # number_member k n @ [CHR ''}'']"

lemma length_show_nat: "n < 10 ^ Suc k \<Longrightarrow> length (show_nat n) \<le> Suc k"
proof (induction k arbitrary: n)
  case 0
  then show ?case by (subst show_nat.simps) simp
next
  case (Suc k)
  then have "length (show_nat (n div 10)) \<le> Suc k" by (intro Suc.IH) simp
  then show ?case by (subst show_nat.simps) simp
qed

lemma atoi_show_nat: "n < 2 ^ 31 \<Longrightarrow> atoi (show_nat n) = of_nat n"
  by (simp add: atoi_def)

lemma loop_val_token:
  assumes "ps_phase st = P_in_val_token" "ps_val st = Some w" "\<forall>c\<in>set v. isdigit c" "length w + length v \<le> JSON_VAL_MAX"
  shows "json_loop pl ra g attrs (v @ cp) st = json_loop pl ra g attrs cp (st\<lparr>ps_val := Some (w @ v)\<rparr>)"
  using assms
proof (induction v arbitrary: st w)
  case Nil
  then have "st\<lparr>ps_val := Some (w @ [])\<rparr> = st" by (cases st) simp
  then show ?case by simp
next
  case (Cons c v)
  then have c: "\<not> isspace c" "c \<noteq> CHR '',''" "c \<noteq> CHR ''}''" using isdigit_not [of c] by (auto simp: isdigit_def)
  then have "json_step pl ra g attrs c (v @ cp) st = Inr (Next (v @ cp) (st\<lparr>ps_val := Some (w @ [c])\<rparr>))"
    using Cons.prems by (auto simp: json_step_def step_in_val_token_def put_val_def)
  with Cons.IH [of "st\<lparr>ps_val := Some (w @ [c])\<rparr>" "w @ [c]"] Cons.prems show ?case by simp
qed

text \<open>The member of a table with one line, up to the closing brace, in a place that has a target for it.\<close>

lemma loop_number_member:
  assumes "ps_phase st = P_await_attr" "plain (at_name a)" "length (at_name a) < JSON_ATTR_MAX"
    and "at_type a = t_integer" "at_map a = None" "n < 2 ^ 31"
    and "pl_target pl a = Some k" "js_cells (ps_store st) C_int k"
  shows "\<exists>st'. json_loop pl ra g [a] (number_member (at_name a) n @ CHR ''}'' # cp) st = Inr (0, st') \<and>
     ps_end st' = Some (dropWhile isspace cp) \<and>
     ps_store st' = (ps_store st)\<lparr>js_integer := (js_integer (ps_store st))(k := of_nat n)\<rparr>"
proof -
  obtain c v where v: "show_nat n = c # v" by (cases "show_nat n") simp_all
  have d: "isdigit c" "\<forall>c\<in>set v. isdigit c" using show_nat_digits [of _ n] v by auto
  have len: "length (show_nat n) \<le> 10" using length_show_nat [of n 9] assms(6) by simp
  have c: "\<not> isspace c" "c \<noteq> CHR '':''" "c \<noteq> CHR ''[''" "c \<noteq> CHR 0x22"
    using isdigit_not [OF d(1)] d(1) by (auto simp: isdigit_def)
  let ?rest = "CHR '':'' # show_nat n @ CHR ''}'' # cp"
  have at: "attr_of [a] (at_name a) = a" by (simp add: attr_of_def)
  from loop_key [OF assms(1) _ assms(2,3), of "[a]" pl ra g ?rest] at obtain as where
    key: "json_loop pl ra g [a] (CHR 0x22 # at_name a @ CHR 0x22 # ?rest) st = json_loop pl ra g [a] ?rest
      (st\<lparr>ps_phase := P_await_value, ps_attr := Some (at_name a), ps_val := Some [], ps_cursor := a # as,
       ps_maxlen := json_maxlen a (ps_maxlen st), ps_end := Some (CHR 0x22 # at_name a @ CHR 0x22 # ?rest)\<rparr>)"
      (is "_ = json_loop _ _ _ _ _ ?st1") and as: "as = []" by auto
  let ?st2 = "?st1\<lparr>ps_quoted := False, ps_phase := P_in_val_token, ps_val := Some [c]\<rparr>"
  have "json_loop pl ra g [a] ?rest ?st1 = json_loop pl ra g [a] (v @ CHR ''}'' # cp) ?st2"
    using c assms(4) by (simp add: v json_step_def step_await_value_def Let_def)
  also have "\<dots> = json_loop pl ra g [a] (CHR ''}'' # cp) (?st2\<lparr>ps_val := Some (show_nat n)\<rparr>)"
    using loop_val_token [of ?st2 "[c]" v pl ra g "[a]" "CHR ''}'' # cp"] d(2) len v by (simp add: json_maxima)
  also have "\<dots> = json_loop pl ra g [a] (CHR ''}'' # cp) (?st2\<lparr>ps_val := Some (show_nat n), ps_phase := P_post_val\<rparr>)"
    using len by (simp add: json_step_def step_in_val_token_def put_val_def json_maxima)
  finally have l: "json_loop pl ra g [a] (number_member (at_name a) n @ CHR ''}'' # cp) st =
      json_loop pl ra g [a] (CHR ''}'' # cp) (?st2\<lparr>ps_val := Some (show_nat n), ps_phase := P_post_val\<rparr>)"
    using key by (simp add: number_member_def)
  have cs: "cstr (show_nat n) = show_nat n"
    using starts_element_show_nat [of n] by (intro cstr_plain) (simp add: starts_element_def)
  show ?thesis
    unfolding l using assms(4,5,7,8) as cs atoi_show_nat [OF assms(6)]
    by (simp add: json_step_def step_post_val_def Let_def json_store_value_def put_int_def put_cell_def
        step_post_array_def isspace_def)
qed

section \<open>An array of structures\<close>

lemma NUL_number_struct: "plain k \<Longrightarrow> NUL \<notin> set (number_struct k n)"
  using starts_element_show_nat [of n]
  by (auto simp: number_struct_def number_member_def plain_def starts_element_def NUL_def)

lemma struct_element:
  assumes "ar_type arr = t_structobject" "ar_subtype arr = [a]" "plain (at_name a)" "length (at_name a) < JSON_ATTR_MAX"
    and "at_type a = t_integer" "at_map a = None"
  shows "stores_number ra g arr (number_struct (at_name a)) (ar_base arr + at_addr a) (ar_stride arr)"
  unfolding stores_number_def
proof (intro allI impI, elim conjE)
  fix n offset :: nat and cs :: string and tp and s :: "nat json_store"
  let ?k = "ar_base arr + at_addr a + ar_stride arr * offset" and ?pl = "array_place arr offset"
  assume n: "n < 2 ^ 31" and cs: "cs \<noteq> []" "hd cs = CHR '','' \<or> hd cs = CHR '']''" "NUL \<notin> set cs"
    and cell: "js_cells s C_int ?k"
  have target: "pl_target ?pl a = Some ?k" by (simp add: array_place_def json_target_address_def assms(1))
  define s0 where "s0 = (if at_nodefault a then s else s\<lparr>js_integer := (js_integer s)(?k := d_integer (at_dflt a))\<rparr>)"
  have dflt: "json_defaults ?pl [a] s = Inr (0, s0)"
    using target cell assms(5) by (simp add: json_default_def put_int_def put_cell_def s0_def Let_def)
  have c: "cstr (number_struct (at_name a) n @ cs) = number_struct (at_name a) n @ cs"
    using NUL_number_struct [OF assms(3)] cs(3) by (intro cstr_plain) simp
  let ?st = "(json_start s0)\<lparr>ps_phase := P_await_attr\<rparr>"
  have "js_cells (ps_store ?st) C_int ?k" using cell by (simp add: json_start_def s0_def)
  from loop_number_member [OF _ assms(3-6) n target this, of ra g cs] obtain st' where
    l: "json_loop ?pl ra g [a] (number_member (at_name a) n @ CHR ''}'' # cs) ?st = Inr (0, st')"
      "ps_end st' = Some (dropWhile isspace cs)" "ps_store st' = s0\<lparr>js_integer := (js_integer s0)(?k := of_nat n)\<rparr>"
    by (auto simp: json_start_def)
  have sp: "dropWhile isspace cs = cs" using cs(1,2) by (cases cs) (auto simp: isspace_def)
  have "json_loop ?pl ra g [a] (number_struct (at_name a) n @ cs) (json_start s0) = Inr (0, st')"
    using l(1) by (simp add: number_struct_def json_step_def step_init_def json_start_def isspace_def)
  moreover have "s0\<lparr>js_integer := (js_integer s0)(?k := of_nat n)\<rparr> = s\<lparr>js_integer := (js_integer s)(?k := of_nat n)\<rparr>"
    by (simp add: s0_def)
  ultimately show "array_element ra g arr offset (number_struct (at_name a) n @ cs) tp s =
      Inr (0, cs, tp, s\<lparr>js_integer := (js_integer s)(?k := of_nat n)\<rparr>)"
    using assms(1,2) dflt c l(2,3) sp by (simp add: array_element_def json_internal_read_object_def)
qed

definition structs_text :: "string \<Rightarrow> string \<Rightarrow> nat list \<Rightarrow> string" where
  "structs_text name k ns =
     CHR ''{'' # CHR 0x22 # name @ CHR 0x22 # CHR '':'' # array_text (map (number_struct k) ns) @ [CHR ''}'']"

text \<open>
  C28. An array of structures inside an object, such as \<^verbatim>\<open>{"aps":[{"port":7960},{"port":7}]}\<close>, is read in
  place: the number of each element is stored in the member of its structure, at
  \<^verbatim>\<open>base + i * stride + offset\<close>, and the elements are counted. The reader consumes the whole text. A list
  with more elements than the array has fills it, is refused with code 12 and is not counted. No other variable changes.
\<close>

theorem number_structs_stored:
  assumes "at_type b = t_array" "arrays (at_addr b) = arr" "ar_type arr = t_structobject" "ar_subtype arr = [a]"
    and "at_type a = t_integer" "at_map a = None" "0 < ar_stride arr"
    and "plain (at_name a)" "length (at_name a) < JSON_ATTR_MAX" "plain (at_name b)" "length (at_name b) < JSON_ATTR_MAX"
    and "\<forall>n\<in>set ns. n < 2 ^ 31" "ns \<noteq> []" "ar_count arr = Some c"
    and "\<forall>i<nat (ar_maxlen arr). c \<noteq> ar_base arr + at_addr a + ar_stride arr * i"
    and "\<forall>i<nat (ar_maxlen arr). js_cells s C_int (ar_base arr + at_addr a + ar_stride arr * i)" "js_cells s C_int c"
  shows "\<exists>status fin s'. json_read_object (read_array_at arrays g) g (structs_text (at_name b) (at_name a) ns) [b] s =
       Inr (status, fin, s') \<and>
     (if length ns \<le> nat (ar_maxlen arr) then status = 0 \<and> fin = Some [] \<and> js_integer s' c = of_nat (length ns)
      else status = JSON_ERR_SUBTOOLONG \<and> js_integer s' c = js_integer s c) \<and>
     (\<forall>i < min (length ns) (nat (ar_maxlen arr)).
        js_integer s' (ar_base arr + at_addr a + ar_stride arr * i) = of_nat (ns ! i)) \<and>
     (\<forall>q. q \<noteq> c \<and> (\<forall>i < nat (ar_maxlen arr). q \<noteq> ar_base arr + at_addr a + ar_stride arr * i) \<longrightarrow>
        js_integer s' q = js_integer s q) \<and>
     s' = s\<lparr>js_integer := js_integer s'\<rparr>"
proof -
  let ?ra = "read_array_at arrays g" and ?enc = "number_struct (at_name a)"
  let ?list = "array_text (map ?enc ns)" and ?text = "structs_text (at_name b) (at_name a) ns"
  have enc: "\<forall>n. starts_element (?enc n)"
    using NUL_number_struct [OF assms(8)] by (simp add: starts_element_def number_struct_def isspace_def)
  then have nul: "NUL \<notin> set ?list"
    using comma_list_NUL [of "map ?enc ns"] by (auto simp: array_text_def starts_element_def NUL_def)
  obtain status fin s' where r: "json_read_array ?ra g (?list @ [CHR ''}'']) arr s = Inr (status, fin, s')"
    "status = 0 \<longrightarrow> fin = Some (CHR '']'' # [CHR ''}''])"
    "numbers_stored arr c (ar_base arr + at_addr a) (ar_stride arr) ns status s s'"
    using read_numbers [OF struct_element [OF assms(3,4,8,9,5,6)] assms(12,13,7,14-17) enc, of "[CHR ''}'']" ?ra g]
    by (auto simp: NUL_def)
  then have at: "?ra (at_addr b) (?list @ [CHR ''}'']) s =
      Inr (status, (case fin of None \<Rightarrow> 0 | Some rest \<Rightarrow> Suc (length ?list) - length rest), s')"
    using assms(2) by (simp add: read_array_at.simps at_position_def split: option.split)
  let ?st0 = "(json_start s)\<lparr>ps_phase := P_await_attr\<rparr>"
  have "json_defaults top_place [b] s = Inr (0, s)"
    using assms(1) by (simp add: json_default_def top_place_def has_target_def)
  moreover have "cstr ?text = ?text"
    using nul assms(10) by (intro cstr_plain) (auto simp: structs_text_def plain_def NUL_def)
  moreover have "json_loop top_place ?ra g [b] ?text (json_start s) = json_loop top_place ?ra g [b]
      (CHR 0x22 # at_name b @ CHR 0x22 # CHR '':'' # ?list @ [CHR ''}'']) ?st0"
    by (simp add: structs_text_def json_step_def step_init_def json_start_def isspace_def)
  moreover have "attr_of [b] (at_name b) = b" by (simp add: attr_of_def)
  then obtain st1 where "json_loop top_place ?ra g [b] (CHR 0x22 # at_name b @ CHR 0x22 # CHR '':'' # ?list @ [CHR ''}'']) ?st0 =
      json_loop top_place ?ra g [b] (CHR '':'' # ?list @ [CHR ''}'']) st1"
      and st1: "ps_phase st1 = P_await_value" "ps_store st1 = s" "\<exists>as. ps_cursor st1 = b # as"
    using loop_key [OF _ _ assms(10,11), of ?st0 "[b]" top_place ?ra g "CHR '':'' # ?list @ [CHR ''}'']"]
    by (auto simp: json_start_def)
  moreover obtain st2 where "json_loop top_place ?ra g [b] (CHR '':'' # ?list @ [CHR ''}'']) st1 = Inr (status, st2)"
      "ps_store st2 = s'" "status = 0 \<longrightarrow> ps_end st2 = Some []"
  proof (cases "status = 0")
    case True
    then show ?thesis
      using that r(2) at st1 assms(1)
      by (fastforce simp: array_text_def json_step_def step_await_value_def step_post_array_def isspace_def Let_def)
  next
    case False
    then show ?thesis
      using that at st1 assms(1)
      by (fastforce simp: array_text_def json_step_def step_await_value_def isspace_def Let_def)
  qed
  ultimately have "json_read_object ?ra g ?text [b] s = Inr (status, ps_end st2, s')" "status = 0 \<longrightarrow> ps_end st2 = Some []"
    by (simp_all add: json_read_object_defs)
  with r(3) show ?thesis
    unfolding numbers_stored_def by (intro exI [of _ status] exI [of _ "ps_end st2"] exI [of _ s']) (simp split: if_splits)
qed

text \<open>A table with two structures of 16 bytes; the number is the member 4 bytes behind their start.\<close>

definition ex_structs :: json_array_t where
  "ex_structs = no_array\<lparr>ar_type := t_structobject, ar_subtype := [ex_attr ''port'' t_integer 4 0], ar_base := 100,
     ar_stride := 16, ar_maxlen := 2, ar_count := Some 12\<rparr>"

definition ex_struct_vars :: "nat json_store" where
  "ex_struct_vars = ex_vars\<lparr>js_cells := (\<lambda>c k. c = C_int \<and> k \<in> {12, 104, 120})\<rparr>"

definition ex_reads :: "nat list \<Rightarrow> (int \<times> string option \<times> nat json_store) res" where
  "ex_reads ns = json_read_object (read_array_at (\<lambda>_. ex_structs) NUL) NUL (structs_text ''aps'' ''port'' ns)
     [ex_attr ''aps'' t_array 300 0] ex_struct_vars"

theorem number_structs_stored_witness:
  "(\<exists>s'. ex_reads [7960, 7] = Inr (0, Some [], s') \<and> js_integer s' 12 = 2 \<and>
      js_integer s' 104 = 7960 \<and> js_integer s' 120 = 7) \<and>
   (\<exists>fin s'. ex_reads [7960, 7, 1] = Inr (12, fin, s') \<and> js_integer s' 12 = 0 \<and>
      js_integer s' 104 = 7960 \<and> js_integer s' 120 = 7)"
proof -
  let ?a = "ex_attr ''port'' t_integer 4 0" and ?b = "ex_attr ''aps'' t_array 300 0"
  have sel: "ar_type ex_structs = t_structobject" "ar_subtype ex_structs = [?a]" "ar_base ex_structs = 100"
    "ar_stride ex_structs = 16" "ar_maxlen ex_structs = 2" "ar_count ex_structs = Some 12"
    "at_name ?a = ''port''" "at_type ?a = t_integer" "at_map ?a = None" "at_addr ?a = 4" "at_name ?b = ''aps''" "at_type ?b = t_array"
    by (simp_all add: ex_structs_def no_array_def ex_attr_def)
  have two: "i < 2 \<longleftrightarrow> i = 0 \<or> i = 1" for i :: nat by auto
  have vars: "js_cells ex_struct_vars C_int k \<longleftrightarrow> k = 12 \<or> k = 104 \<or> k = 120" "js_integer ex_struct_vars k = 0" for k
    by (simp_all add: ex_struct_vars_def ex_vars_def)
  have r: "\<exists>status fin s'. ex_reads ns = Inr (status, fin, s') \<and>
      (if length ns \<le> 2 then status = 0 \<and> fin = Some [] \<and> js_integer s' 12 = of_nat (length ns)
       else status = 12 \<and> js_integer s' 12 = 0) \<and>
      js_integer s' 104 = of_nat (ns ! 0) \<and> js_integer s' 120 = of_nat (ns ! 1)"
    if "2 \<le> length ns" "\<forall>n\<in>set ns. n < 2 ^ 31" for ns
  proof -
    have "ns \<noteq> []" using that(1) by auto
    with number_structs_stored [of ?b "\<lambda>_. ex_structs" ex_structs ?a ns 12 ex_struct_vars NUL] that(2)
    obtain status fin s' where "ex_reads ns = Inr (status, fin, s')"
      "if length ns \<le> 2 then status = 0 \<and> fin = Some [] \<and> js_integer s' 12 = of_nat (length ns)
       else status = 12 \<and> js_integer s' 12 = 0"
      "\<forall>i<min (length ns) 2. js_integer s' (104 + 16 * i) = of_nat (ns ! i)"
      by (auto simp: sel vars two ex_reads_def plain_def NUL_def json_maxima JSON_ERR_SUBTOOLONG_def)
    with that(1) show ?thesis by (intro exI [of _ status] exI [of _ fin] exI [of _ s']) (auto simp: two)
  qed
  show ?thesis using r [of "[7960, 7]"] r [of "[7960, 7, 1]"] by simp
qed

end
