(* ===== verification/Sql.thy ===== *)
theory Sql
  imports C_Strings
begin

text \<open>
  The access to the database, \<^verbatim>\<open>ac/sql.c\<close>. The MySQL client is not part of the repository: what its
  calls return is an argument, and a null result handed to it is a null pointer followed.
\<close>

section \<open>A query\<close>

text \<open>
  What \<^verbatim>\<open>mysql_query\<close> returns, and the rows of \<^verbatim>\<open>mysql_store_result\<close>, \<open>None\<close> for a null pointer. A
  value of a row is \<open>None\<close> for an SQL \<^verbatim>\<open>NULL\<close>.
\<close>

record sql_answer =
  an_query :: int
  an_result :: "string option list list option"

text \<open>
  The result of the function with the stored rows, which belong to the caller when it is 0, and
  the value of \<^verbatim>\<open>*rows\<close>. The test \<^verbatim>\<open>!res\<close> is one of the address of the caller's variable, so a null
  result reaches \<^verbatim>\<open>mysql_num_rows\<close>.
\<close>

definition sql_query :: "sql_answer \<Rightarrow> (int \<times> string option list list option \<times> nat option) res" where
  "sql_query an =
     (if an_query an \<noteq> 0 then Inr (-1, None, None)
      else case an_result an of
        None \<Rightarrow> Inl NullDeref
      | Some rows \<Rightarrow> if length rows = 0 then Inr (-1, None, None) else Inr (0, Some rows, Some (length rows)))"

definition stored :: "string option list list \<Rightarrow> sql_answer" where
  "stored rows = \<lparr>an_query = 0, an_result = Some rows\<rparr>"

lemma sql_query_stored [simp]: "rows \<noteq> [] \<Longrightarrow> sql_query (stored rows) = Inr (0, Some rows, Some (length rows))"
  by (simp add: sql_query_def stored_def)

lemma sql_query_failed: "an_query an \<noteq> 0 \<Longrightarrow> sql_query an = Inr (-1, None, None)"
  by (simp add: sql_query_def)

text \<open>A result that the client cannot store ends the program.\<close>

lemma sql_query_null: "an_query an = 0 \<Longrightarrow> an_result an = None \<Longrightarrow> sql_query an = Inl NullDeref"
  by (simp add: sql_query_def)

section \<open>The columns of a table\<close>

definition COLMAX :: nat where "COLMAX = 128"

record tbl_dsc_t =
  col_num :: nat
  col_head :: "string list"

definition strcpy :: "string \<Rightarrow> string \<Rightarrow> string res" where
  "strcpy dst s = (if length s < length dst then Inr (put_at 0 (s @ [NUL]) dst) else Inl OutOfBounds)"

fun copy_names :: "string list \<Rightarrow> string list \<Rightarrow> string list res" where
  "copy_names [] mem = Inr mem"
| "copy_names (f # fs) [] = Inl OutOfBounds"
| "copy_names (f # fs) (m # mem) =
     (if \<not> length f < COLMAX - 1 then Inl AssertFail
      else bind_res (strcpy m f) (\<lambda>m. bind_res (copy_names fs mem) (\<lambda>mem. Inr (m # mem))))"

text \<open>\<open>cols\<close> are the names of the columns, \<open>malloc n\<close> the memory for \<open>n\<close> of them.\<close>

definition sql_tbl_col :: "string list option \<Rightarrow> (nat \<Rightarrow> string list option) \<Rightarrow> tbl_dsc_t res" where
  "sql_tbl_col cols malloc =
     (case cols of
        None \<Rightarrow> Inl ProcessExit
      | Some fs \<Rightarrow> (case malloc (length fs) of
            None \<Rightarrow> Inl ProcessExit
          | Some mem \<Rightarrow> bind_res (copy_names fs mem) (\<lambda>mem. Inr \<lparr>col_num = length fs, col_head = mem\<rparr>)))"

text \<open>The names that \<^verbatim>\<open>sql_query_res\<close> prints, \<^verbatim>\<open>col[i].name\<close>.\<close>

definition col_names :: "tbl_dsc_t \<Rightarrow> string list" where
  "col_names d = map cstr (take (col_num d) (col_head d))"

section \<open>Start\<close>

text \<open>The answers to \<^verbatim>\<open>mysql_init\<close>, \<^verbatim>\<open>mysql_real_connect\<close>, \<^verbatim>\<open>mysql_select_db\<close>, \<^verbatim>\<open>mysql_list_fields\<close>, \<^verbatim>\<open>malloc\<close>.\<close>

record sql_env =
  sq_init :: bool
  sq_connect :: bool
  sq_select :: int
  sq_fields :: "string list option"
  sq_malloc :: "nat \<Rightarrow> string list option"

definition sql_init :: "sql_env \<Rightarrow> tbl_dsc_t res" where
  "sql_init e =
     (if \<not> sq_init e then Inl ProcessExit
      else if \<not> sq_connect e then Inl ProcessExit
      else if sq_select e \<noteq> 0 then Inl ProcessExit
      else sql_tbl_col (sq_fields e) (sq_malloc e))"

text \<open>
  A database that can be reached: its table has columns of names below 127 bytes, and the
  memory is there, of any content.
\<close>

definition sql_granted :: "sql_env \<Rightarrow> string list \<Rightarrow> bool" where
  "sql_granted e names \<longleftrightarrow> sq_init e \<and> sq_connect e \<and> sq_select e = 0 \<and> sq_fields e = Some names \<and>
     (\<forall>n\<in>set names. NUL \<notin> set n \<and> length n < COLMAX - 1) \<and>
     (\<exists>mem. sq_malloc e (length names) = Some mem \<and> length mem = length names \<and> (\<forall>m\<in>set mem. length m = COLMAX))"

lemma strcpy_cstr:
  "NUL \<notin> set s \<Longrightarrow> length s < length dst \<Longrightarrow> \<exists>d. strcpy dst s = Inr d \<and> length d = length dst \<and> cstr d = s"
  by (auto simp: strcpy_def put_at_def cstr_append)

lemma copy_names_names:
  "length mem = length names \<Longrightarrow> \<forall>m\<in>set mem. length m = COLMAX \<Longrightarrow>
   \<forall>n\<in>set names. NUL \<notin> set n \<and> length n < COLMAX - 1 \<Longrightarrow>
   \<exists>h. copy_names names mem = Inr h \<and> map cstr h = names"
proof (induction names arbitrary: mem)
  case (Cons f fs)
  then obtain m ms where mem: "mem = m # ms" by (cases mem) auto
  obtain d where d: "strcpy m f = Inr d" "cstr d = f"
    using strcpy_cstr [of f m] Cons.prems mem by (auto simp: COLMAX_def)
  obtain h where "copy_names fs ms = Inr h" "map cstr h = fs" using Cons.IH [of ms] Cons.prems mem by auto
  with d Cons.prems(3) show ?case by (simp add: mem)
qed simp

lemma sql_init_granted:
  assumes "sql_granted e names"
  shows "\<exists>d. sql_init e = Inr d \<and> col_names d = names"
proof -
  obtain mem where mem: "sq_malloc e (length names) = Some mem" "length mem = length names" "\<forall>m\<in>set mem. length m = COLMAX"
    using assms by (auto simp: sql_granted_def)
  obtain h where h: "copy_names names mem = Inr h" "map cstr h = names"
    using copy_names_names [OF mem(2,3)] assms by (auto simp: sql_granted_def)
  then have "take (length names) h = h" by auto
  with assms mem h show ?thesis by (auto simp: sql_granted_def sql_init_def sql_tbl_col_def col_names_def)
qed

text \<open>
  The assertion is one byte stricter than the array: a name of 127 bytes would fit with its NUL
  and still ends the controller.
\<close>

lemma name_of_127:
  "length f = 127 \<Longrightarrow> length m = COLMAX \<Longrightarrow> copy_names (f # fs) (m # mem) = Inl AssertFail \<and> (\<exists>d. strcpy m f = Inr d)"
  by (simp add: COLMAX_def strcpy_def)

end
