(* ===== verification/Res_Check.thy ===== *)
theory Res_Check
  imports Json_Members Resource Sql
begin

text \<open>
  How the address range gets into the controller: the row of the database as a JSON text
  (\<^verbatim>\<open>sql_query_res\<close> of \<^verbatim>\<open>ac/sql.c\<close> with the macros of \<^verbatim>\<open>include/mjson.h\<close>), the table of
  attributes of \<^verbatim>\<open>ac/resource.h\<close>, and a round of the thread \<^verbatim>\<open>res_check\<close> of \<^verbatim>\<open>ac/resource.c\<close>.
\<close>

section \<open>Writing the text\<close>

text \<open>The variables \<^verbatim>\<open>buffer\<close> (array and offset into it) and \<^verbatim>\<open>len\<close> of \<^verbatim>\<open>sql_query_res\<close>.\<close>

record enc_state =
  en_buf :: string
  en_pos :: nat
  en_len :: int

text \<open>
  \<^verbatim>\<open>snprintf(buf, len, ...)\<close> of the text \<open>s\<close>: at most \<open>len\<close> chars with the NUL; the result is
  the length of the whole text. A negative \<open>len\<close> is a huge \<^verbatim>\<open>size_t\<close>.
\<close>

definition snprintf :: "nat \<Rightarrow> int \<Rightarrow> string \<Rightarrow> string \<Rightarrow> (string \<times> int) res" where
  "snprintf pos len s buf =
     (if len = 0 then Inr (buf, int (length s))
      else let out = (if len < 0 then s else take (nat len - 1) s) @ [NUL] in
        if pos + length out \<le> length buf then Inr (put_at pos out buf, int (length s))
        else Inl OutOfBounds)"

definition json_put :: "string \<Rightarrow> enc_state \<Rightarrow> enc_state res" where
  "json_put s e =
     bind_res (snprintf (en_pos e) (en_len e) s (en_buf e)) (\<lambda>(buf, hread).
       Inr \<lparr>en_buf = buf, en_pos = en_pos e + nat hread, en_len = en_len e - hread\<rparr>)"

definition json_encode_start :: "enc_state \<Rightarrow> enc_state res" where
  "json_encode_start e = json_put [CHR ''{''] e"

text \<open>A null pointer, the value of an SQL \<^verbatim>\<open>NULL\<close>, is printed as \<^verbatim>\<open>(null)\<close> by the C library.\<close>

definition json_encode :: "string \<Rightarrow> string option \<Rightarrow> enc_state \<Rightarrow> enc_state res" where
  "json_encode k v e =
     json_put (json_member k (case v of None \<Rightarrow> SQL_NULL | Some s \<Rightarrow> s) @ [CHR '','']) e"

definition json_encode_end :: "enc_state \<Rightarrow> enc_state res" where
  "json_encode_end e =
     (if \<not> 2 \<le> en_len e then Inl AssertFail
      else if en_pos e = 0 then Inl OutOfBounds
      else let e = (if en_buf e ! (en_pos e - 1) = CHR '',''
                    then e\<lparr>en_buf := (en_buf e)[en_pos e - 1 := NUL], en_len := en_len e + 1,
                           en_pos := en_pos e - 1\<rparr>
                    else e)
           in bind_res (snprintf (en_pos e) (en_len e) [CHR ''}''] (en_buf e)) (\<lambda>(buf, _).
                Inr (e\<lparr>en_buf := buf\<rparr>)))"

text \<open>\<open>names\<close> are the columns of the table at the start; the row has a value for each column of now.\<close>

fun encode_cols :: "string list \<Rightarrow> string option list \<Rightarrow> enc_state \<Rightarrow> enc_state res" where
  "encode_cols [] row e = Inr e"
| "encode_cols (k # names) row e =
     (if en_len e > 2
      then (case row of
          [] \<Rightarrow> Inl OutOfBounds
        | v # row \<Rightarrow> bind_res (json_encode k v e) (encode_cols names row))
      else Inr e)"

fun encode_rows :: "string list \<Rightarrow> string option list list \<Rightarrow> enc_state \<Rightarrow> enc_state res" where
  "encode_rows names [] e = Inr e"
| "encode_rows names (row # rows) e =
     bind_res (json_encode_start e) (\<lambda>e.
     bind_res (encode_cols names row e) (\<lambda>e.
     bind_res (json_encode_end e) (encode_rows names rows)))"

text \<open>The stored rows are never freed.\<close>

definition sql_query_res :: "string list \<Rightarrow> sql_answer \<Rightarrow> string \<Rightarrow> int \<Rightarrow> (int \<times> string) res" where
  "sql_query_res names answer buf len =
     bind_res (sql_query answer) (\<lambda>(ret, rows, _).
       if ret < 0 then Inr (-1, buf)
       else bind_res (encode_rows names (the rows) \<lparr>en_buf = buf, en_pos = 0, en_len = len\<rparr>)
          (\<lambda>e. Inr (0, en_buf e)))"

section \<open>The table of attributes and a round of the thread\<close>

definition IPLEN :: nat where "IPLEN = 20"

datatype res_key = K_start | K_end | K_mask

definition zero_dflt :: json_dflt where
  "zero_dflt = \<lparr>d_integer = 0, d_real = ''0'', d_boolean = False, d_character = NUL, d_check = []\<rparr>"

definition res_attr :: "string \<Rightarrow> res_key \<Rightarrow> res_key json_attr_t" where
  "res_attr n k = \<lparr>at_name = n, at_type = t_string, at_addr = k, at_dflt = zero_dflt, at_len = IPLEN,
     at_map = None, at_nodefault = False\<rparr>"

definition json_attrs :: "res_key json_attr_t list" where
  "json_attrs = [res_attr ''ip_start'' K_start, res_attr ''ip_end'' K_end, res_attr ''ip_mask'' K_mask]"

text \<open>
  The fields of \<^verbatim>\<open>resource\<close> as \<^verbatim>\<open>res_ip_reload\<close> reads them. An array without a NUL is read on
  behind its end.
\<close>

definition res_fields :: "res_key json_store \<Rightarrow> res_t \<Rightarrow> res_t res" where
  "res_fields s r =
     (if \<exists>k \<in> {K_start, K_end, K_mask}. NUL \<notin> set (js_string s k) then Inl OutOfBounds
      else Inr (r\<lparr>ip_start := cstr (js_string s K_start), ip_end := cstr (js_string s K_end),
                  ip_mask := cstr (js_string s K_mask)\<rparr>))"

text \<open>
  One round of \<^verbatim>\<open>res_check\<close>, after its sleep. The state: \<^verbatim>\<open>buffer\<close>, the arrays of \<^verbatim>\<open>resource\<close>,
  the strings of \<^verbatim>\<open>resource\<close> and the pool.
\<close>

definition res_check :: "(string \<Rightarrow> u32 option) \<Rightarrow> sockaddr_in \<Rightarrow> (nat \<Rightarrow> ptr option) \<Rightarrow>
    res_key array_reader \<Rightarrow> char \<Rightarrow>
    string list \<Rightarrow> sql_answer \<Rightarrow> string \<times> res_key json_store \<times> res_t \<times> ippool_t \<Rightarrow>
    (string \<times> res_key json_store \<times> res_t \<times> ippool_t) res option" where
  "res_check inet_aton tmp answers read_array garbage names answer st =
     (let (buf, s, r, pool) = st in
      bind_ro (Some (sql_query_res names answer buf 1024)) (\<lambda>(_, buf).
      bind_ro (Some (json_read_object read_array garbage buf json_attrs s)) (\<lambda>(status, _, s).
        if status \<noteq> 0 then Some (Inl ProcessExit)
        else bind_ro (Some (res_fields s r)) (\<lambda>r.
             bind_ro (res_ip_reload inet_aton tmp answers (r, pool)) (\<lambda>(r, pool).
               Some (Inr (buf, s, r, pool)))))))"

section \<open>The text that is written\<close>

text \<open>\<open>t\<close> is written so far, and there is room for more.\<close>

definition written :: "nat \<Rightarrow> string \<Rightarrow> enc_state \<Rightarrow> bool" where
  "written n t e \<longleftrightarrow> length (en_buf e) = n \<and> en_pos e = length t \<and>
     en_len e = int n - int (length t) \<and> take (length t) (en_buf e) = t"

lemma snprintf_fits:
  assumes "0 < len" "length s < nat len" "pos + nat len \<le> length buf"
  shows "snprintf pos len s buf = Inr (put_at pos (s @ [NUL]) buf, int (length s))"
  using assms by (simp add: snprintf_def Let_def)

lemma json_put_written:
  assumes "written n t e" "length t + length s < n"
  shows "\<exists>e'. json_put s e = Inr e' \<and> written n (t @ s) e'"
proof -
  have p: "snprintf (en_pos e) (en_len e) s (en_buf e) =
      Inr (put_at (length t) (s @ [NUL]) (en_buf e), int (length s))"
    using assms by (simp add: written_def snprintf_fits)
  have "length (put_at (length t) (s @ [NUL]) (en_buf e)) = n"
    using assms by (simp add: put_at_def written_def)
  moreover have "take (length t + length s) (put_at (length t) (s @ [NUL]) (en_buf e)) = t @ s"
    using assms by (simp add: put_at_def written_def)
  ultimately show ?thesis
    using assms p by (simp add: json_put_def written_def)
qed

fun cols_text :: "(string \<times> string option) list \<Rightarrow> string" where
  "cols_text [] = []"
| "cols_text ((k, v) # cols) = json_member k (case v of None \<Rightarrow> SQL_NULL | Some s \<Rightarrow> s) @ [CHR '',''] @ cols_text cols"

lemma encode_cols_written:
  assumes "written n t e" "length names \<le> length row" "length t + length (cols_text (zip names row)) + 2 \<le> n"
  shows "\<exists>e'. encode_cols names row e = Inr e' \<and> written n (t @ cols_text (zip names row)) e'"
  using assms
proof (induction names arbitrary: t e row)
  case (Cons k names)
  then obtain v vs where row: "row = v # vs" by (cases row) auto
  let ?m = "json_member k (case v of None \<Rightarrow> SQL_NULL | Some s \<Rightarrow> s) @ [CHR '','']"
  obtain e1 where e1: "json_put ?m e = Inr e1" "written n (t @ ?m) e1"
    using json_put_written [OF Cons.prems(1), of ?m] Cons.prems(3) by (auto simp: row)
  have "en_len e > 2" using Cons.prems(1,3) by (simp add: written_def json_member_def row)
  then have "encode_cols (k # names) row e = encode_cols names vs e1"
    using e1(1) by (simp add: json_encode_def row)
  with Cons.IH [OF e1(2), of vs] Cons.prems(2,3) show ?case by (simp add: row)
qed simp

definition col_member :: "string \<times> string option \<Rightarrow> string \<times> string" where
  "col_member c = (fst c, case snd c of None \<Rightarrow> SQL_NULL | Some s \<Rightarrow> s)"

lemma cols_text_members: "cols \<noteq> [] \<Longrightarrow> cols_text cols = json_members (map col_member cols) @ [CHR '','']"
proof (induction cols)
  case (Cons c cols)
  obtain k v where c: "c = (k, v)" by (cases c)
  show ?case
  proof (cases cols)
    case Nil
    then show ?thesis by (simp add: c col_member_def)
  next
    case (Cons c' cols')
    then show ?thesis using Cons.IH by (cases c') (simp add: c col_member_def)
  qed
qed simp

lemma take_nth_last: "take (length t) b = t \<Longrightarrow> t \<noteq> [] \<Longrightarrow> b ! (length t - 1) = last t"
  by (metis diff_less last_conv_nth length_greater_0_conv nth_take zero_less_one)

lemma json_encode_end_written:
  assumes w: "written n (t @ [CHR '','']) e" and n: "length t + 3 \<le> n"
  shows "\<exists>e'. json_encode_end e = Inr e' \<and> length (en_buf e') = n \<and>
     take (length t + 2) (en_buf e') = t @ [CHR ''}'', NUL]"
proof -
  let ?b = "(en_buf e)[length t := NUL]"
  have e: "length (en_buf e) = n" "en_pos e = length t + 1" "en_len e = int n - int (length t) - 1"
    using w by (simp_all add: written_def)
  have tk: "take (Suc (length t)) (en_buf e) = t @ [CHR '','']" using w by (simp add: written_def)
  then have last: "en_buf e ! length t = CHR '',''"
    using take_nth_last [of "t @ [CHR '','']" "en_buf e"] by simp
  have t: "take (length t) ?b = t"
    using arg_cong [OF tk, of "take (length t)"] by simp
  have p: "snprintf (length t) (int n - int (length t)) [CHR ''}''] ?b =
      Inr (put_at (length t) [CHR ''}'', NUL] ?b, 1)"
    using snprintf_fits [of "int n - int (length t)" "[CHR ''}'']" "length t" ?b] n e(1) by simp
  have b: "length (put_at (length t) [CHR ''}'', NUL] ?b) = n"
    "take (length t + 2) (put_at (length t) [CHR ''}'', NUL] ?b) = t @ [CHR ''}'', NUL]"
    using n e(1) t by (simp_all add: put_at_def)
  show ?thesis
    using p b last e(2,3) n by (simp add: json_encode_end_def)
qed

lemma sql_query_res_text:
  assumes "zip names row \<noteq> []" "length names \<le> length row" "length buf = n" "length (cols_text (zip names row)) + 3 \<le> n"
    and "NUL \<notin> set (cols_text (zip names row))"
  shows "\<exists>buf'. sql_query_res names (stored [row]) buf (int n) = Inr (0, buf') \<and> length buf' = n \<and>
     cstr buf' = json_text (map col_member (zip names row))"
proof -
  let ?cols = "zip names row" and ?e = "\<lparr>en_buf = buf, en_pos = 0, en_len = int n\<rparr>"
  have "written n [] ?e" using assms(3) by (simp add: written_def)
  then obtain e1 where e1: "json_encode_start ?e = Inr e1" "written n [CHR ''{''] e1"
    using json_put_written [of n "[]" ?e "[CHR ''{'']"] assms(4) by (auto simp: json_encode_start_def)
  obtain e2 where e2: "encode_cols names row e1 = Inr e2" "written n ([CHR ''{''] @ cols_text ?cols) e2"
    using encode_cols_written [OF e1(2) assms(2)] assms(4) by auto
  let ?t = "[CHR ''{''] @ json_members (map col_member ?cols)"
  have w: "written n (?t @ [CHR '','']) e2" using e2(2) cols_text_members [OF assms(1)] by simp
  moreover have "length ?t + 3 \<le> n" using assms(4) cols_text_members [OF assms(1)] by simp
  ultimately obtain e3 where e3: "json_encode_end e2 = Inr e3" "length (en_buf e3) = n"
    "take (length ?t + 2) (en_buf e3) = ?t @ [CHR ''}'', NUL]"
    using json_encode_end_written [of n ?t e2] by blast
  have "en_buf e3 = (?t @ [CHR ''}'']) @ NUL # drop (length ?t + 2) (en_buf e3)"
    using e3(3) append_take_drop_id [of "length ?t + 2" "en_buf e3"] by simp
  moreover have "NUL \<notin> set (?t @ [CHR ''}''])"
    using assms(5) cols_text_members [OF assms(1)] by (auto simp: NUL_def)
  ultimately have "cstr (en_buf e3) = ?t @ [CHR ''}'']" by (metis cstr_append)
  then show ?thesis
    using e1(1) e2(1) e3(1,2) by (simp add: sql_query_res_def json_text_def)
qed

section \<open>What the controller reads\<close>

text \<open>The value of a column: missing columns are empty, \<^verbatim>\<open>NULL\<close> is a text.\<close>

definition column :: "string list \<Rightarrow> string option list \<Rightarrow> string \<Rightarrow> string" where
  "column names row k = (case map_of (zip names row) k of
     None \<Rightarrow> [] | Some None \<Rightarrow> SQL_NULL | Some (Some v) \<Rightarrow> v)"

text \<open>Rows of known columns whose values are plain and have at most \<open>n\<close> chars.\<close>

definition row_ok :: "nat \<Rightarrow> string list \<Rightarrow> string option list \<Rightarrow> bool" where
  "row_ok n names row \<longleftrightarrow> distinct names \<and> length row = length names \<and>
     set names \<subseteq> {''ip_start'', ''ip_end'', ''ip_mask''} \<and>
     (\<forall>v. Some v \<in> set row \<longrightarrow> plain v \<and> length v \<le> n)"

lemmas json_attrs_defs = json_attrs_def res_attr_def

lemma json_attrs_facts:
  "string_table json_attrs" "inj_on at_addr (set json_attrs)"
  "at_name ` set json_attrs = {''ip_start'', ''ip_end'', ''ip_mask''}"
  "at_addr ` set json_attrs = {K_start, K_end, K_mask}"
  "attr_of json_attrs ''ip_start'' = res_attr ''ip_start'' K_start"
  "attr_of json_attrs ''ip_end'' = res_attr ''ip_end'' K_end"
  "attr_of json_attrs ''ip_mask'' = res_attr ''ip_mask'' K_mask"
  "a \<in> set json_attrs \<Longrightarrow> at_len a = IPLEN" "a \<in> set json_attrs \<Longrightarrow> \<not> at_nodefault a"
  by (auto simp: json_attrs_defs string_table_def attr_of_def)

lemma col_member_ok:
  assumes "row_ok n names row" "6 \<le> n" "n \<le> IPLEN" "c \<in> set (zip names row)"
  shows "fits_table json_attrs (col_member c)" "length (snd (col_member c)) \<le> n"
    "length (fst (col_member c)) \<le> 8"
proof -
  obtain k v where c: "c = (k, v)" by (cases c)
  have kv: "k \<in> set names" "v \<in> set row" using assms(4) by (auto simp: c dest: set_zip_leftD set_zip_rightD)
  have k: "k = ''ip_start'' \<or> k = ''ip_end'' \<or> k = ''ip_mask''"
    using assms(1) kv(1) by (auto simp: row_ok_def)
  have n: "plain SQL_NULL" "length SQL_NULL \<le> n" using assms(2) by (simp_all add: SQL_NULL_def plain_def NUL_def)
  have v: "plain (snd (col_member c)) \<and> length (snd (col_member c)) \<le> n"
    using assms(1) kv(2) n by (auto simp: c col_member_def row_ok_def split: option.split)
  then show "length (snd (col_member c)) \<le> n" by simp
  show "length (fst (col_member c)) \<le> 8" using k by (auto simp: c col_member_def)
  have "plain k" "length k < JSON_ATTR_MAX" using k by (auto simp: plain_def NUL_def json_maxima)
  then show "fits_table json_attrs (col_member c)"
    using v k attr_of_table(2) [of k json_attrs] json_attrs_facts(8) assms(3)
    by (auto simp: fits_table_def c col_member_def json_attrs_facts(3) json_maxima IPLEN_def)
qed

lemma length_cols_text:
  assumes "row_ok n names row" "6 \<le> n" "n \<le> IPLEN"
  shows "length (cols_text (zip names row)) \<le> 102" "NUL \<notin> set (cols_text (zip names row))"
proof -
  have m: "\<forall>c\<in>set (zip names row). fits_table json_attrs (col_member c) \<and> length (snd (col_member c)) \<le> 20 \<and>
      length (fst (col_member c)) \<le> 8"
    using col_member_ok [OF assms] assms(3) by (fastforce simp: IPLEN_def)
  have "length (cols_text cols) \<le> 34 * length cols \<and> NUL \<notin> set (cols_text cols)"
    if "\<forall>c\<in>set cols. fits_table json_attrs (col_member c) \<and> length (snd (col_member c)) \<le> 20 \<and>
        length (fst (col_member c)) \<le> 8" for cols
    using that
    by (induction cols rule: cols_text.induct)
      (auto simp: json_member_def col_member_def fits_table_def plain_def NUL_def)
  note l = this [OF m]
  have "card (set names) \<le> card {''ip_start'', ''ip_end'', ''ip_mask''}"
    using assms(1) by (intro card_mono) (simp_all add: row_ok_def)
  then have "length names \<le> 3" using assms(1) by (simp add: row_ok_def distinct_card)
  then show "length (cols_text (zip names row)) \<le> 102" "NUL \<notin> set (cols_text (zip names row))"
    using l assms(1) by (simp_all add: row_ok_def)
qed

lemma strncpy_reads: "plain v \<Longrightarrow> length v < n \<Longrightarrow> cstr (strncpy_chars n v) = v \<and> NUL \<in> set (strncpy_chars n v)"
  using cstr_append [of v "replicate (n - length v - 1) NUL"]
  by (cases "n - length v") (auto simp: strncpy_chars_def plain_def)

lemma cstr_Nil_NUL: "cstr b = [] \<Longrightarrow> b \<noteq> [] \<Longrightarrow> NUL \<in> set b"
  by (cases b) (auto simp: cstr_def split: if_splits)

lemma map_of_col_member:
  "map_of (map col_member cols) k = map_option (\<lambda>v. case v of None \<Rightarrow> SQL_NULL | Some s \<Rightarrow> s) (map_of cols k)"
  by (induction cols) (auto simp: col_member_def)

lemma sized_fold:
  "\<forall>kv\<in>set kvs. fits_table attrs kv \<Longrightarrow> sized attrs s \<Longrightarrow> sized attrs (fold (store_member attrs) kvs s)"
  by (induction kvs arbitrary: s) (auto simp: fits_table_def intro!: sized_store_member)

lemma read_row:
  assumes row: "row_ok n names row" "6 \<le> n" "n \<le> IPLEN" "names \<noteq> []" and s: "sized json_attrs s"
    and buf: "cstr buf = json_text (map col_member (zip names row))"
  shows "\<exists>s'. json_read_object ra g buf json_attrs s = Inr (0, Some [], s') \<and> sized json_attrs s' \<and>
     (\<forall>k \<in> at_name ` set json_attrs. case map_of (zip names row) k of
        None \<Rightarrow> cstr (js_string s' (at_addr (attr_of json_attrs k))) = []
      | Some v \<Rightarrow> js_string s' (at_addr (attr_of json_attrs k)) = strncpy_chars IPLEN (column names row k))"
proof -
  let ?kvs = "map col_member (zip names row)"
  have pos: "\<forall>a\<in>set json_attrs. \<not> at_nodefault a \<and> 0 < at_len a"
    using json_attrs_facts(8,9) by (simp add: IPLEN_def)
  obtain s1 where s1: "json_defaults top_place json_attrs s = Inr (0, s1)" "sized json_attrs s1"
    "\<forall>k. k \<in> at_addr ` set json_attrs \<or> cstr (js_string s k) = [] \<longrightarrow> cstr (js_string s1 k) = []"
    using json_defaults_string [OF json_attrs_facts(1) pos s] by auto
  have ok: "\<forall>kv\<in>set ?kvs. fits_table json_attrs kv" using col_member_ok(1) [OF row(1-3)] by auto
  have ne: "?kvs \<noteq> []" using row(1,4) by (cases names; cases row) (auto simp: row_ok_def)
  let ?s = "fold (store_member json_attrs) ?kvs s1"
  have r: "json_read_object ra g buf json_attrs s = Inr (0, Some [], ?s)"
    by (rule read_members [OF ne ok json_attrs_facts(1) s1(2,1) buf])
  have sz: "sized json_attrs ?s" using ok s1(2) by (rule sized_fold)
  have "map fst ?kvs = names" using row(1) by (simp add: row_ok_def col_member_def comp_def)
  then have d: "distinct (map fst ?kvs)" using row(1) by (simp add: row_ok_def)
  have n: "\<forall>kv\<in>set ?kvs. fst kv \<in> at_name ` set json_attrs" using ok by (auto simp: fits_table_def)
  have "case map_of (zip names row) k of
        None \<Rightarrow> cstr (js_string ?s (at_addr (attr_of json_attrs k))) = []
      | Some v \<Rightarrow> js_string ?s (at_addr (attr_of json_attrs k)) = strncpy_chars IPLEN (column names row k)"
    if k: "k \<in> at_name ` set json_attrs" for k
  proof -
    let ?a = "attr_of json_attrs k"
    have a: "?a \<in> set json_attrs" "at_len ?a = IPLEN" using attr_of_table(2) [OF k] json_attrs_facts(8) by auto
    note f = fold_store_member [OF d n json_attrs_facts(2) k, of s1, unfolded a(2)]
    have m: "map_of ?kvs k = map_option (\<lambda>v. case v of None \<Rightarrow> SQL_NULL | Some s \<Rightarrow> s) (map_of (zip names row) k)"
      by (rule map_of_col_member)
    have "cstr (js_string s1 (at_addr ?a)) = []" using s1(3) a(1) by blast
    then show ?thesis using f m by (simp add: column_def split: option.split)
  qed
  with r sz show ?thesis by blast
qed

text \<open>The round up to the reload of the pool.\<close>

lemma res_check_reads:
  assumes row: "row_ok n names row" "6 \<le> n" "n \<le> IPLEN" "names \<noteq> []" and s: "sized json_attrs s"
    and buf: "length buf = 1024"
  shows "\<exists>buf' s'. length buf' = 1024 \<and> sized json_attrs s' \<and>
     res_check inet_aton tmp answers ra g names (stored [row]) (buf, s, r, pool) =
       bind_ro (Some (res_fields s' r)) (\<lambda>r. bind_ro (res_ip_reload inet_aton tmp answers (r, pool))
         (\<lambda>(r, pool). Some (Inr (buf', s', r, pool)))) \<and>
     (\<forall>k \<in> at_name ` set json_attrs. case map_of (zip names row) k of
        None \<Rightarrow> cstr (js_string s' (at_addr (attr_of json_attrs k))) = []
      | Some v \<Rightarrow> js_string s' (at_addr (attr_of json_attrs k)) = strncpy_chars IPLEN (column names row k))"
proof -
  have "zip names row \<noteq> []" using row(1,4) by (cases names; cases row) (auto simp: row_ok_def)
  then obtain buf' where b: "sql_query_res names (stored [row]) buf 1024 = Inr (0, buf')" "length buf' = 1024"
    "cstr buf' = json_text (map col_member (zip names row))"
    using sql_query_res_text [OF _ _ buf, of names row] length_cols_text [OF row(1-3)] row(1) by (auto simp: row_ok_def)
  from read_row [OF row s b(3), of ra g] obtain s' where
    s': "json_read_object ra g buf' json_attrs s = Inr (0, Some [], s')" "sized json_attrs s'"
      "\<forall>k \<in> at_name ` set json_attrs. case map_of (zip names row) k of
        None \<Rightarrow> cstr (js_string s' (at_addr (attr_of json_attrs k))) = []
      | Some v \<Rightarrow> js_string s' (at_addr (attr_of json_attrs k)) = strncpy_chars IPLEN (column names row k)"
    by blast
  then show ?thesis
    using b by (intro exI [of _ buf'] exI [of _ s']) (simp add: res_check_def)
qed

lemma res_check_row:
  assumes "row_ok 19 names row" "names \<noteq> []" "sized json_attrs s" "length buf = 1024"
  shows "\<exists>buf' s'. length buf' = 1024 \<and> sized json_attrs s' \<and>
     res_check inet_aton tmp answers ra g names (stored [row]) (buf, s, r, pool) =
       bind_ro (res_ip_reload inet_aton tmp answers
           (r\<lparr>ip_start := column names row ''ip_start'', ip_end := column names row ''ip_end'',
              ip_mask := column names row ''ip_mask''\<rparr>, pool))
         (\<lambda>(r, pool). Some (Inr (buf', s', r, pool)))"
proof -
  have i: "6 \<le> (19 :: nat)" "19 \<le> IPLEN" by (simp_all add: IPLEN_def)
  from res_check_reads [OF assms(1) i assms(2-4), of inet_aton tmp answers ra g r pool] obtain buf' s' where
    b: "length buf' = 1024" "sized json_attrs s'"
      "res_check inet_aton tmp answers ra g names (stored [row]) (buf, s, r, pool) =
       bind_ro (Some (res_fields s' r)) (\<lambda>r. bind_ro (res_ip_reload inet_aton tmp answers (r, pool))
         (\<lambda>(r, pool). Some (Inr (buf', s', r, pool))))"
    and v: "\<forall>k \<in> at_name ` set json_attrs. case map_of (zip names row) k of
        None \<Rightarrow> cstr (js_string s' (at_addr (attr_of json_attrs k))) = []
      | Some v \<Rightarrow> js_string s' (at_addr (attr_of json_attrs k)) = strncpy_chars IPLEN (column names row k)"
    by (elim exE conjE) (rule that)
  have c: "cstr (js_string s' (at_addr (attr_of json_attrs k))) = column names row k \<and>
      NUL \<in> set (js_string s' (at_addr (attr_of json_attrs k)))" if k: "k \<in> at_name ` set json_attrs" for k
  proof (cases "map_of (zip names row) k")
    case None
    have "length (js_string s' (at_addr (attr_of json_attrs k))) = IPLEN"
      using b(2) attr_of_table(2) [OF k] json_attrs_facts(8) by (simp add: sized_def)
    then have "js_string s' (at_addr (attr_of json_attrs k)) \<noteq> []" by (auto simp: IPLEN_def)
    then show ?thesis using v [rule_format, OF k] None cstr_Nil_NUL by (simp add: column_def)
  next
    case (Some v)
    then have "(k, v) \<in> set (zip names row)" by (rule map_of_SomeD)
    from col_member_ok(1,2) [OF assms(1) i this] Some
    have "plain (column names row k)" "length (column names row k) < IPLEN"
      by (auto simp: fits_table_def col_member_def column_def IPLEN_def split: option.splits)
    from strncpy_reads [OF this] show ?thesis using v [rule_format, OF k] Some by simp
  qed
  have "res_fields s' r = Inr (r\<lparr>ip_start := column names row ''ip_start'',
      ip_end := column names row ''ip_end'', ip_mask := column names row ''ip_mask''\<rparr>)"
    using c [of "''ip_start''"] c [of "''ip_end''"] c [of "''ip_mask''"]
    by (simp add: res_fields_def json_attrs_facts(3,5-7) res_attr_def)
  with b show ?thesis by (intro exI [of _ buf'] exI [of _ s']) simp
qed

section \<open>Properties\<close>

text \<open>
  C32. From the database to the pool: a row whose columns are among the three known ones, in any
  order, with values of at most 19 plain chars, passes through the text and the reader
  unchanged: the round is a reload of the pool with exactly these strings, empty for a missing
  column and \<^verbatim>\<open>(null)\<close> for an SQL \<^verbatim>\<open>NULL\<close>.
\<close>

theorem resource_row_loaded:
  assumes "row_ok 19 names row" "names \<noteq> []" "sized json_attrs s" "length buf = 1024"
  shows "\<exists>buf' s'. length buf' = 1024 \<and> sized json_attrs s' \<and>
     res_check inet_aton tmp answers ra g names (stored [row]) (buf, s, r, pool) =
       bind_ro (res_ip_reload inet_aton tmp answers
           (r\<lparr>ip_start := column names row ''ip_start'', ip_end := column names row ''ip_end'',
              ip_mask := column names row ''ip_mask''\<rparr>, pool))
         (\<lambda>(r, pool). Some (Inr (buf', s', r, pool)))"
  by (rule res_check_row [OF assms])

definition ex_store :: "res_key json_store" where
  "ex_store = \<lparr>js_integer = (\<lambda>_. 0), js_uinteger = (\<lambda>_. 0), js_real = (\<lambda>_. []),
     js_string = (\<lambda>_. replicate IPLEN NUL), js_boolean = (\<lambda>_. False), js_character = (\<lambda>_. NUL), js_ptr = (\<lambda>k. k),
     js_cells = (\<lambda>_ _. False)\<rparr>"

abbreviation ex_nodes :: "nat \<Rightarrow> ptr option" where "ex_nodes \<equiv> (\<lambda>j. Some ([3, 4, 5] ! j))"

abbreviation ex_check :: "string list \<Rightarrow> sql_answer \<Rightarrow>
    string \<times> res_key json_store \<times> res_t \<times> ippool_t \<Rightarrow> (string \<times> res_key json_store \<times> res_t \<times> ippool_t) res option" where
  "ex_check \<equiv> res_check ex_aton zero_sockaddr ex_nodes (\<lambda>_ _ s. Inr (10, 0, s)) NUL"

lemma ex_store_sized: "sized json_attrs ex_store"
  by (simp add: sized_def ex_store_def json_attrs_defs)

theorem resource_row_loaded_witness:
  "\<exists>buf' s'. ex_check [''ip_mask'', ''ip_start'', ''ip_end'']
       (stored [[Some ''255.255.255.0'', Some ''10.0.0.1'', Some ''10.0.0.3'']])
       (replicate 1024 NUL, ex_store, ex_res\<lparr>ip_start := [], ip_end := []\<rparr>, res_ip_init) =
     bind_ro (res_ip_reload ex_aton zero_sockaddr ex_nodes (ex_res, res_ip_init)) (\<lambda>(r, pool). Some (Inr (buf', s', r, pool)))"
proof -
  let ?names = "[''ip_mask'', ''ip_start'', ''ip_end'']"
  let ?row = "[Some ''255.255.255.0'', Some ''10.0.0.1'', Some ''10.0.0.3'']"
  have ok: "row_ok 19 ?names ?row" by (simp add: row_ok_def plain_def NUL_def)
  have ne: "?names \<noteq> []" and b: "length (replicate 1024 NUL) = 1024" by simp_all
  have "ex_res\<lparr>ip_start := column ?names ?row ''ip_start'', ip_end := column ?names ?row ''ip_end'',
      ip_mask := column ?names ?row ''ip_mask''\<rparr> = ex_res"
    by (simp add: column_def ex_res_def)
  with resource_row_loaded [OF ok ne ex_store_sized b, of ex_aton zero_sockaddr ex_nodes "\<lambda>_ _ s. Inr (10, 0, s)" NUL
      "ex_res\<lparr>ip_start := [], ip_end := []\<rparr>" res_ip_init]
  show ?thesis by auto
qed

text \<open>
  A value that fills its array: the reader accepts 20 chars for an array of 20, one more
  than its limit says, and copies them without a NUL. The reload then reads behind the array.
\<close>

theorem resource_value_unterminated:
  assumes "row_ok IPLEN names row" "sized json_attrs s" "length buf = 1024"
    and "(k, Some v) \<in> set (zip names row)" "length v = IPLEN"
  shows "res_check inet_aton tmp answers ra g names (stored [row]) (buf, s, r, pool) = Some (Inl OutOfBounds)"
proof -
  have i: "6 \<le> IPLEN" "IPLEN \<le> IPLEN" "names \<noteq> []" using assms(4) by (auto simp: IPLEN_def)
  obtain buf' s' where
    b: "res_check inet_aton tmp answers ra g names (stored [row]) (buf, s, r, pool) =
       bind_ro (Some (res_fields s' r)) (\<lambda>r. bind_ro (res_ip_reload inet_aton tmp answers (r, pool))
         (\<lambda>(r, pool). Some (Inr (buf', s', r, pool))))"
    and v: "\<forall>k \<in> at_name ` set json_attrs. case map_of (zip names row) k of
        None \<Rightarrow> cstr (js_string s' (at_addr (attr_of json_attrs k))) = []
      | Some v \<Rightarrow> js_string s' (at_addr (attr_of json_attrs k)) = strncpy_chars IPLEN (column names row k)"
    using res_check_reads [OF assms(1) i assms(2,3), of inet_aton tmp answers ra g r pool]
    by (elim exE conjE) (rule that)
  have "distinct (map fst (zip names row))" using assms(1) by (simp add: row_ok_def)
  then have m: "map_of (zip names row) k = Some (Some v)" using assms(4) by simp
  have k: "k \<in> at_name ` set json_attrs"
    using assms(1) set_zip_leftD [OF assms(4)] by (auto simp: row_ok_def json_attrs_facts(3))
  have "js_string s' (at_addr (attr_of json_attrs k)) = v"
    using v [rule_format, OF k] m assms(5) by (simp add: column_def strncpy_chars_def)
  moreover have "NUL \<notin> set v"
    using assms(1) set_zip_rightD [OF assms(4)] by (simp add: row_ok_def plain_def)
  moreover have "at_addr (attr_of json_attrs k) \<in> {K_start, K_end, K_mask}"
    using attr_of_table(2) [OF k] json_attrs_facts(4) by blast
  ultimately have "res_fields s' r = Inl OutOfBounds" unfolding res_fields_def by auto
  then show ?thesis using b by simp
qed

theorem resource_value_unterminated_witness:
  "ex_check [''ip_mask''] (stored [[Some ''255.255.255.0       '']])
     (replicate 1024 NUL, ex_store, ex_res, res_ip_init) = Some (Inl OutOfBounds)"
proof (rule resource_value_unterminated [where k = "''ip_mask''" and v = "''255.255.255.0       ''"])
  show "row_ok IPLEN [''ip_mask''] [Some ''255.255.255.0       '']"
    by (simp add: row_ok_def plain_def NUL_def IPLEN_def)
qed (simp_all add: ex_store_sized IPLEN_def)

section \<open>An unknown column\<close>

lemma loop_members_open:
  assumes "ps_phase st = P_await_attr" "\<forall>kv\<in>set kvs. fits_table attrs kv"
    and "string_table attrs" "sized attrs (ps_store st)"
  shows "\<exists>st'. json_loop top_place ra g attrs (concat (map (\<lambda>(k, v). json_member k v @ [CHR '','']) kvs) @ cp) st =
     json_loop top_place ra g attrs cp st' \<and> ps_phase st' = P_await_attr"
  using assms
proof (induction kvs arbitrary: st)
  case Nil
  then show ?case by auto
next
  case (Cons kv kvs)
  obtain k v where kv: "kv = (k, v)" by (cases kv)
  let ?rest = "concat (map (\<lambda>(k, v). json_member k v @ [CHR '','']) kvs) @ cp"
  have ok: "fits_table attrs (k, v)" using Cons.prems(2) by (simp add: kv)
  then obtain st' where st': "json_loop top_place ra g attrs (json_member k v @ CHR '','' # ?rest) st =
        json_loop top_place ra g attrs ?rest (st'\<lparr>ps_phase := P_await_attr\<rparr>)"
      "ps_store st' = store_member attrs (k, v) (ps_store st)"
    using Cons.prems loop_member [of st attrs k v ra g "CHR '',''" ?rest] by (auto simp: step_post_array_def isspace_def)
  have "sized attrs (ps_store (st'\<lparr>ps_phase := P_await_attr\<rparr>))"
    using sized_store_member [OF Cons.prems(4), of "(k, v)"] ok st'(2) by (simp add: fits_table_def)
  with Cons.IH [of "st'\<lparr>ps_phase := P_await_attr\<rparr>"] Cons.prems st'(1) show ?case by (simp add: kv)
qed

lemma loop_unknown_name:
  assumes "ps_phase st = P_await_attr" "k \<notin> at_name ` set attrs" "plain k" "length k < JSON_ATTR_MAX"
  shows "\<exists>st'. json_loop top_place ra g attrs (json_member k v @ cp) st = Inr (JSON_ERR_BADATTR, st')"
proof -
  let ?rest = "CHR 0x22 # CHR '':'' # CHR 0x22 # v @ CHR 0x22 # cp"
  define st1 where "st1 = st\<lparr>ps_phase := P_in_attr, ps_attr := Some [], ps_end := Some (CHR 0x22 # k @ ?rest)\<rparr>"
  have "json_loop top_place ra g attrs (json_member k v @ cp) st = json_loop top_place ra g attrs (k @ ?rest) st1"
    using assms(1) by (simp add: json_member_def json_step_defs isspace_def st1_def)
  also have "\<dots> = json_loop top_place ra g attrs ?rest (st1\<lparr>ps_attr := Some k\<rparr>)"
    using loop_attr_name [of st1 "[]" k top_place ra g attrs ?rest] assms(3,4) by (simp add: st1_def plain_def)
  finally have l: "json_loop top_place ra g attrs (json_member k v @ cp) st = json_loop top_place ra g attrs ?rest (st1\<lparr>ps_attr := Some k\<rparr>)" .
  have d: "dropWhile (\<lambda>a. at_name a \<noteq> k) attrs = []" using assms(2) by (auto simp: dropWhile_eq_Nil_conv)
  show ?thesis unfolding l using assms(4) by (simp add: json_step_defs st1_def d put_attr_fits)
qed

lemma cols_text_append: "cols_text (cs @ cs') = concat (map (\<lambda>c. json_member (fst (col_member c)) (snd (col_member c)) @ [CHR '','']) cs) @ cols_text cs'"
  by (induction cs rule: cols_text.induct) (auto simp: col_member_def)

lemma json_members_snoc_brace:
  "cs \<noteq> [] \<Longrightarrow> json_members (map col_member (cs0 @ cs)) =
     concat (map (\<lambda>(k, v). json_member k v @ [CHR '','']) (map col_member cs0)) @ json_members (map col_member cs)"
proof (induction cs0)
  case (Cons c cs0)
  obtain c' cs' where "map col_member (cs0 @ cs) = c' # cs'" using Cons.prems by (cases "map col_member (cs0 @ cs)") auto
  with Cons show ?case by (cases "col_member c") simp
qed simp

text \<open>
  A column that the table of attributes does not know, such as a key of the database table,
  ends the controller: the reader refuses the name and \<^verbatim>\<open>res_check\<close> exits, wherever the column
  stands behind known ones and whatever its value is.
\<close>

theorem unknown_column_exits:
  assumes "row_ok IPLEN names row" "length row' = length names'"
    and "k \<notin> {''ip_start'', ''ip_end'', ''ip_mask''}" "plain k" "length k < JSON_ATTR_MAX"
    and "NUL \<notin> set (cols_text (zip (names @ k # names') (row @ v # row')))"
    and "length (cols_text (zip (names @ k # names') (row @ v # row'))) + 3 \<le> 1024"
    and "sized json_attrs s" "length buf = 1024"
  shows "res_check inet_aton tmp answers ra g (names @ k # names') (stored [row @ v # row']) (buf, s, r, pool) =
     Some (Inl ProcessExit)"
proof -
  have z: "zip (names @ k # names') (row @ v # row') = zip names row @ (k, v) # zip names' row'"
    using assms(1) by (simp add: row_ok_def)
  obtain buf' where b: "sql_query_res (names @ k # names') (stored [row @ v # row']) buf 1024 = Inr (0, buf')"
    "cstr buf' = json_text (map col_member (zip names row @ (k, v) # zip names' row'))"
    using sql_query_res_text [OF _ _ assms(9), of "names @ k # names'" "row @ v # row'"] assms(1,2,6,7) z
    by (auto simp: row_ok_def)
  have pos: "\<forall>a\<in>set json_attrs. \<not> at_nodefault a \<and> 0 < at_len a"
    using json_attrs_facts(8,9) by (simp add: IPLEN_def)
  obtain s1 where s1: "json_defaults top_place json_attrs s = Inr (0, s1)" "sized json_attrs s1"
    using json_defaults_string [OF json_attrs_facts(1) pos assms(8)] by auto
  let ?kvs = "map col_member (zip names row)"
  have ok: "\<forall>kv\<in>set ?kvs. fits_table json_attrs kv"
    using col_member_ok(1) [OF assms(1)] by (auto simp: IPLEN_def)
  obtain val cp where m: "json_members (map col_member ((k, v) # zip names' row')) @ [CHR ''}''] = json_member k val @ cp"
    by (cases "map col_member (zip names' row')") (auto simp: col_member_def)
  let ?st = "(json_start s1)\<lparr>ps_phase := P_await_attr\<rparr>"
  have "json_loop top_place ra g json_attrs (json_text (map col_member (zip names row @ (k, v) # zip names' row'))) (json_start s1) =
      json_loop top_place ra g json_attrs (concat (map (\<lambda>(k, v). json_member k v @ [CHR '','']) ?kvs) @ json_member k val @ cp) ?st"
    using m json_members_snoc_brace [of "(k, v) # zip names' row'" "zip names row"]
    by (simp add: json_text_def json_step_def step_init_def json_start_def isspace_def del: json_members.simps list.map)
  moreover obtain st1 where "json_loop top_place ra g json_attrs
      (concat (map (\<lambda>(k, v). json_member k v @ [CHR '','']) ?kvs) @ json_member k val @ cp) ?st =
      json_loop top_place ra g json_attrs (json_member k val @ cp) st1" "ps_phase st1 = P_await_attr"
    using loop_members_open [OF _ ok json_attrs_facts(1), of ?st ra g "json_member k val @ cp"] s1(2)
    by (auto simp: json_start_def)
  moreover obtain st2 where "json_loop top_place ra g json_attrs (json_member k val @ cp) st1 = Inr (JSON_ERR_BADATTR, st2)"
    using loop_unknown_name [OF calculation(3), of k json_attrs ra g val cp] assms(3-5) json_attrs_facts(3) by auto
  ultimately have "json_read_object ra g buf' json_attrs s = Inr (JSON_ERR_BADATTR, ps_end st2, ps_store st2)"
    using s1(1) b(2) by (simp add: json_read_object_defs)
  then show ?thesis using b(1) by (simp add: res_check_def JSON_ERR_BADATTR_def)
qed

theorem unknown_column_exits_witness:
  "ex_check [''ip_start'', ''id'', ''ip_end'']
     (stored [[Some ''10.0.0.1'', Some ''1'', None]]) (replicate 1024 NUL, ex_store, ex_res, res_ip_init) =
     Some (Inl ProcessExit)"
proof -
  have ok: "row_ok IPLEN [''ip_start''] [Some ''10.0.0.1'']"
    by (simp add: row_ok_def plain_def NUL_def IPLEN_def)
  have k: "''id'' \<notin> {''ip_start'', ''ip_end'', ''ip_mask''}" "plain ''id''" "length ''id'' < JSON_ATTR_MAX"
    by (simp_all add: plain_def NUL_def json_maxima)
  have t: "NUL \<notin> set (cols_text (zip ([''ip_start''] @ ''id'' # [''ip_end'']) ([Some ''10.0.0.1''] @ Some ''1'' # [None])))"
    "length (cols_text (zip ([''ip_start''] @ ''id'' # [''ip_end'']) ([Some ''10.0.0.1''] @ Some ''1'' # [None]))) + 3 \<le> 1024"
    by (simp_all add: json_member_def NUL_def SQL_NULL_def)
  have l: "length [None :: string option] = length [''ip_end'']" "length (replicate 1024 NUL) = 1024" by simp_all
  from unknown_column_exits [OF ok l(1) k t ex_store_sized l(2)] show ?thesis by simp
qed

end
