(* ===== verification/Cmdarg.thy ===== *)
theory Cmdarg
  imports C_Strings Msg "HOL-Library.Signed_Division"
begin

text \<open>
  The arguments of both programs, \<^verbatim>\<open>lib/arg.c\<close> and \<^verbatim>\<open>lib/cmdarg.c\<close>: the tables of options, what
  \<^verbatim>\<open>getopt_long\<close> returns for them, the loop over its answers, and the defaults. \<open>build\<close> tells the
  two compilations apart.
\<close>

datatype build = SERVER | CLIENT

section \<open>State\<close>

definition IFNAMSIZ :: nat where "IFNAMSIZ = 16"
definition ACPORT :: u32 where "ACPORT = 7960"

text \<open>\<open>ar_brditv\<close>, \<open>ar_reschkitv\<close> exist in the controller, \<open>ar_reportitv\<close>, \<open>ar_acaddr\<close> in the access point.\<close>

record arg_t =
  ar_port :: u32
  ar_brditv :: u32
  ar_reschkitv :: u32
  ar_reportitv :: u32
  ar_acaddr :: sockaddr_in
  ar_msgitv :: u32
  ar_nic :: string
  ar_mac :: "byte list"
  ar_addr :: sockaddr_in

text \<open>The globals \<^verbatim>\<open>argument\<close>, \<^verbatim>\<open>debug\<close> and \<^verbatim>\<open>daemon_mode\<close>.\<close>

record arg_state =
  argument :: arg_t
  debug_level :: u32
  daemon_mode :: bool

definition zero_arg :: arg_t where
  "zero_arg = \<lparr>ar_port = 0, ar_brditv = 0, ar_reschkitv = 0, ar_reportitv = 0, ar_acaddr = zero_sockaddr,
     ar_msgitv = 0, ar_nic = replicate IFNAMSIZ NUL, ar_mac = replicate ETH_ALEN 0, ar_addr = zero_sockaddr\<rparr>"

section \<open>The tables of options and \<^verbatim>\<open>getopt_long\<close>\<close>

datatype has_arg = No_arg | Required_arg | Optional_arg

definition long_arg :: "build \<Rightarrow> (string \<times> has_arg \<times> char) list" where
  "long_arg b =
     [(''nic'', Required_arg, CHR ''n''), (''daemon'', No_arg, CHR ''d''), (''port'', Required_arg, CHR ''p'')] @
     (case b of
        SERVER \<Rightarrow> [(''brditv'', Required_arg, CHR ''b''), (''reschkitv'', Required_arg, CHR ''c'')]
      | CLIENT \<Rightarrow> [(''reportitv'', Required_arg, CHR ''r''), (''domain'', Required_arg, CHR ''a'')]) @
     [(''msgitv'', Required_arg, CHR ''m''), (''debug'', Required_arg, CHR ''l''), (''help'', No_arg, CHR ''h'')]"

definition SHORT_STR :: "build \<Rightarrow> string" where
  "SHORT_STR b = (case b of SERVER \<Rightarrow> ''n:db:p:m:l::hc:'' | CLIENT \<Rightarrow> ''n:dm:p:r:l::a:h'')"

text \<open>An answer of \<^verbatim>\<open>getopt_long\<close> is the char it returns with \<^verbatim>\<open>optarg\<close>, \<open>None\<close> for a null pointer.\<close>

type_synonym opt_answer = "char \<times> string option"

definition short_lookup :: "string \<Rightarrow> char \<Rightarrow> has_arg option" where
  "short_lookup str c =
     (if c = CHR '':'' \<or> c \<notin> set str then None
      else let r = tl (dropWhile (\<lambda>x. x \<noteq> c) str) in
        Some (if take 2 r = ''::'' then Optional_arg else if take 1 r = '':'' then Required_arg else No_arg))"

text \<open>An exact name, or a name that only one option begins with.\<close>

definition long_lookup :: "build \<Rightarrow> string \<Rightarrow> (has_arg \<times> char) option" where
  "long_lookup b name =
     (case map_of (long_arg b) name of
        Some o' \<Rightarrow> Some o'
      | None \<Rightarrow>
          (case filter (\<lambda>(n, _). take (length name) n = name) (long_arg b) of
             [(_, o')] \<Rightarrow> Some o'
           | _ \<Rightarrow> None))"

text \<open>The answer for the text after \<^verbatim>\<open>--\<close>, and the arguments that are left.\<close>

definition long_option :: "build \<Rightarrow> string \<Rightarrow> string list \<Rightarrow> opt_answer \<times> string list" where
  "long_option b s args =
     (let name = takeWhile (\<lambda>c. c \<noteq> CHR ''='') s;
          val = (if CHR ''='' \<in> set s then Some (tl (dropWhile (\<lambda>c. c \<noteq> CHR ''='') s)) else None)
      in case long_lookup b name of
           None \<Rightarrow> ((CHR ''?'', None), args)
         | Some (No_arg, c) \<Rightarrow> ((if val = None then c else CHR ''?'', None), args)
         | Some (Required_arg, c) \<Rightarrow>
             (case val of
                Some v \<Rightarrow> ((c, Some v), args)
              | None \<Rightarrow> (case args of [] \<Rightarrow> ((CHR ''?'', None), []) | v # args \<Rightarrow> ((c, Some v), args)))
         | Some (Optional_arg, c) \<Rightarrow> ((c, val), args))"

lemma long_option_shrinks: "long_option b s args = (r, args') \<Longrightarrow> length args' \<le> length args"
  by (auto simp: long_option_def Let_def split: option.splits has_arg.splits list.splits if_splits)

text \<open>
  All answers up to the end of the options. The first string holds the chars of a cluster of
  short options that are still to be looked at; an argument that is no option is passed over,
  since the library moves it behind the options.
\<close>

function getopt_calls :: "build \<Rightarrow> string \<Rightarrow> string list \<Rightarrow> opt_answer list" where
  "getopt_calls b [] [] = []"
| "getopt_calls b [] (a # args) =
     (if take 2 a = ''--'' then
        if a = ''--'' then []
        else (let (r, args') = long_option b (drop 2 a) args in r # getopt_calls b [] args')
      else if take 1 a = ''-'' \<and> a \<noteq> ''-'' then getopt_calls b (tl a) args
      else getopt_calls b [] args)"
| "getopt_calls b (c # cs) args =
     (case short_lookup (SHORT_STR b) c of
        None \<Rightarrow> (CHR ''?'', None) # getopt_calls b cs args
      | Some No_arg \<Rightarrow> (c, None) # getopt_calls b cs args
      | Some Required_arg \<Rightarrow>
          if cs \<noteq> [] then (c, Some cs) # getopt_calls b [] args
          else (case args of
                  [] \<Rightarrow> [(CHR ''?'', None)]
                | a # args \<Rightarrow> (c, Some a) # getopt_calls b [] args)
      | Some Optional_arg \<Rightarrow> (c, if cs = [] then None else Some cs) # getopt_calls b [] args)"
  by pat_completeness auto
termination
  by (relation "measures [\<lambda>(_, _, args). length args, \<lambda>(_, cs, _). length cs]")
    (auto simp: less_Suc_eq_le dest: long_option_shrinks [OF sym])

section \<open>\<^verbatim>\<open>proc_cmdarg\<close>\<close>

text \<open>\<^verbatim>\<open>__strtol\<close> exits when \<^verbatim>\<open>errno\<close> is set, and its result is cut to an \<^verbatim>\<open>int\<close>.\<close>

definition strtol_arg :: "string option \<Rightarrow> u32 res" where
  "strtol_arg optarg =
     (case optarg of
        None \<Rightarrow> Inl NullDeref
      | Some s \<Rightarrow> (case strtol10 s of None \<Rightarrow> Inl ProcessExit | Some v \<Rightarrow> Inr (word_of_int v)))"

text \<open>
  The body of the loop. \<open>gethostbyname\<close> gives the address of a name in network byte order. The
  options \<open>b\<close>, \<open>c\<close> are compiled for the controller, \<open>r\<close>, \<open>a\<close> for the access point.
\<close>

definition proc_option :: "build \<Rightarrow> (string \<Rightarrow> u32 option) \<Rightarrow> opt_answer \<Rightarrow> arg_state \<Rightarrow> arg_state res" where
  "proc_option b gethostbyname ans st =
     (let (c, optarg) = ans; arg = argument st in
      if c = CHR ''n'' then
        (case optarg of
           None \<Rightarrow> Inl NullDeref
         | Some s \<Rightarrow> Inr (st\<lparr>argument := arg\<lparr>ar_nic := put_at 0 (strncpy_chars (IFNAMSIZ - 1) s) (ar_nic arg)\<rparr>\<rparr>))
      else if c = CHR ''d'' then Inr (if debug_level st = 0 then st\<lparr>daemon_mode := True\<rparr> else st)
      else if c = CHR ''p'' then
        bind_res (strtol_arg optarg) (\<lambda>v. Inr (st\<lparr>argument := arg\<lparr>ar_port := v\<rparr>\<rparr>))
      else if b = SERVER \<and> c = CHR ''b'' then
        bind_res (strtol_arg optarg) (\<lambda>v. Inr (st\<lparr>argument := arg\<lparr>ar_brditv := v\<rparr>\<rparr>))
      else if b = SERVER \<and> c = CHR ''c'' then
        bind_res (strtol_arg optarg) (\<lambda>v. Inr (st\<lparr>argument := arg\<lparr>ar_reschkitv := v\<rparr>\<rparr>))
      else if b = CLIENT \<and> c = CHR ''r'' then
        bind_res (strtol_arg optarg) (\<lambda>v. Inr (st\<lparr>argument := arg\<lparr>ar_reportitv := v\<rparr>\<rparr>))
      else if b = CLIENT \<and> c = CHR ''a'' then
        (case optarg of
           None \<Rightarrow> Inl NullDeref
         | Some s \<Rightarrow>
             (case gethostbyname s of
                None \<Rightarrow> Inr st
              | Some a \<Rightarrow> Inr (st\<lparr>argument := arg\<lparr>ar_acaddr := (ar_acaddr arg)\<lparr>s_addr := a\<rparr>\<rparr>\<rparr>)))
      else if c = CHR ''l'' then bind_res (strtol_arg optarg) (\<lambda>v. Inr (st\<lparr>debug_level := v\<rparr>))
      else if c = CHR ''m'' then
        bind_res (strtol_arg optarg) (\<lambda>v. Inr (st\<lparr>argument := arg\<lparr>ar_msgitv := v\<rparr>\<rparr>))
      else if c = CHR ''h'' then Inl ProcessExit
      else Inr st)"

fun proc_options :: "build \<Rightarrow> (string \<Rightarrow> u32 option) \<Rightarrow> opt_answer list \<Rightarrow> arg_state \<Rightarrow> arg_state res" where
  "proc_options b gh [] st = Inr st"
| "proc_options b gh (ans # answers) st = bind_res (proc_option b gh ans st) (proc_options b gh answers)"

text \<open>\<^verbatim>\<open>__early_init\<close> with \<^verbatim>\<open>__early_is_debug\<close>.\<close>

definition early_is_debug :: "string list \<Rightarrow> u32" where
  "early_is_debug argv = (if ''--debug'' \<in> set argv then 4 else 0)"

definition early_init :: "string list \<Rightarrow> arg_state \<Rightarrow> arg_state res" where
  "early_init argv st =
     (if length argv < 2 then Inl ProcessExit
      else Inr (st\<lparr>argument := zero_arg, debug_level := early_is_debug argv\<rparr>))"

definition proc_cmdarg :: "build \<Rightarrow> (string \<Rightarrow> u32 option) \<Rightarrow> string list \<Rightarrow> arg_state \<Rightarrow> arg_state res" where
  "proc_cmdarg b gh argv st =
     bind_res (early_init argv st) (proc_options b gh (getopt_calls b [] (tl argv)))"

section \<open>\<^verbatim>\<open>proc_arg\<close>\<close>

text \<open>
  The kernel: whether a socket is created, and what the \<^verbatim>\<open>ifreq\<close> holds after \<^verbatim>\<open>ioctl\<close> for a
  name, whatever its result is.
\<close>

record nic_env =
  ne_socket :: "nat \<Rightarrow> bool"
  ne_hwaddr :: "string \<Rightarrow> byte list"
  ne_ifaddr :: "string \<Rightarrow> sockaddr_in"

definition getmac :: "nic_env \<Rightarrow> string \<Rightarrow> byte list res" where
  "getmac env nic =
     (if ne_socket env 0 then Inr (take ETH_ALEN (ne_hwaddr env (strncpy_chars IFNAMSIZ (cstr nic))))
      else Inl ProcessExit)"

definition getaddr :: "nic_env \<Rightarrow> string \<Rightarrow> sockaddr_in res" where
  "getaddr env nic =
     (if ne_socket env 1 then Inr (ne_ifaddr env (strncpy_chars IFNAMSIZ (cstr nic))) else Inl ProcessExit)"

definition htons :: "u32 \<Rightarrow> u16" where
  "htons p = of_le16 (rev (le16 (ucast p)))"

text \<open>The quotient of \<^verbatim>\<open>int\<close> values, which cuts towards zero.\<close>

definition int_div :: "u32 \<Rightarrow> int \<Rightarrow> u32" where
  "int_div x d = word_of_int (sint x sdiv d)"

definition dflt :: "u32 \<Rightarrow> u32 \<Rightarrow> u32" where
  "dflt v d = (if v = 0 then d else v)"

definition check_arg :: "build \<Rightarrow> nic_env \<Rightarrow> arg_t \<Rightarrow> arg_t res" where
  "check_arg b env arg =
     (if ar_nic arg ! 0 = NUL then Inl ProcessExit
      else
        bind_res (getmac env (ar_nic arg)) (\<lambda>hw.
        bind_res (getaddr env (ar_nic arg)) (\<lambda>ad.
          let arg = arg\<lparr>ar_mac := hw, ar_addr := ad\<rparr>;
              arg = arg\<lparr>ar_port := dflt (ar_port arg) ACPORT\<rparr>
          in Inr (case b of
            SERVER \<Rightarrow>
              let arg = arg\<lparr>ar_reschkitv := dflt (ar_reschkitv arg) 300\<rparr>;
                  arg = arg\<lparr>ar_brditv := dflt (ar_brditv arg) 30\<rparr>;
                  arg = arg\<lparr>ar_msgitv := dflt (ar_msgitv arg) (int_div (ar_brditv arg) 10)\<rparr>
              in arg\<lparr>ar_addr := (ar_addr arg)\<lparr>sin_port := htons (ar_port arg)\<rparr>\<rparr>
          | CLIENT \<Rightarrow>
              let arg = arg\<lparr>ar_reportitv := dflt (ar_reportitv arg) 30\<rparr>;
                  arg = arg\<lparr>ar_msgitv := dflt (ar_msgitv arg) (int_div (ar_reportitv arg) 10)\<rparr>
              in arg\<lparr>ar_acaddr := (ar_acaddr arg)\<lparr>sin_port := htons (ar_port arg)\<rparr>\<rparr>))))"

text \<open>\<^verbatim>\<open>proc_cfgarg\<close> returns at once.\<close>

definition proc_cfgarg :: "arg_state \<Rightarrow> arg_state" where
  "proc_cfgarg st = st"

definition proc_arg :: "build \<Rightarrow> (string \<Rightarrow> u32 option) \<Rightarrow> nic_env \<Rightarrow> string list \<Rightarrow> arg_state \<Rightarrow> arg_state res" where
  "proc_arg b gh env argv st =
     bind_res (proc_cmdarg b gh argv (proc_cfgarg st)) (\<lambda>st.
     bind_res (check_arg b env (argument st)) (\<lambda>arg. Inr (st\<lparr>argument := arg\<rparr>)))"

end
