(* ===== verification/Cmdarg_Read.thy ===== *)
theory Cmdarg_Read
  imports Cmdarg
begin

text \<open>
  What a command line means: settings written in any of the four forms of \<^verbatim>\<open>getopt_long\<close> are
  read back, the defaults, what holds of the arguments of every program that starts, and the
  options whose handling fails.
\<close>

section \<open>Settings and their forms\<close>

datatype setting =
    Nic string | Port nat | Msgitv nat | Debug nat | Daemon
  | Brditv nat | Reschkitv nat | Reportitv nat | Domain string

datatype opt_form = Short_joined | Short_apart | Long_equals | Long_apart

fun setting_key :: "setting \<Rightarrow> char \<times> string" where
  "setting_key (Nic _) = (CHR ''n'', ''nic'')"
| "setting_key (Port _) = (CHR ''p'', ''port'')"
| "setting_key (Msgitv _) = (CHR ''m'', ''msgitv'')"
| "setting_key (Debug _) = (CHR ''l'', ''debug'')"
| "setting_key Daemon = (CHR ''d'', ''daemon'')"
| "setting_key (Brditv _) = (CHR ''b'', ''brditv'')"
| "setting_key (Reschkitv _) = (CHR ''c'', ''reschkitv'')"
| "setting_key (Reportitv _) = (CHR ''r'', ''reportitv'')"
| "setting_key (Domain _) = (CHR ''a'', ''domain'')"

fun setting_value :: "setting \<Rightarrow> string option" where
  "setting_value (Nic s) = Some s"
| "setting_value (Domain s) = Some s"
| "setting_value Daemon = None"
| "setting_value (Port n) = Some (show_nat n)"
| "setting_value (Msgitv n) = Some (show_nat n)"
| "setting_value (Debug n) = Some (show_nat n)"
| "setting_value (Brditv n) = Some (show_nat n)"
| "setting_value (Reschkitv n) = Some (show_nat n)"
| "setting_value (Reportitv n) = Some (show_nat n)"

fun write_option :: "opt_form \<Rightarrow> char \<times> string \<Rightarrow> string option \<Rightarrow> string list" where
  "write_option Short_joined (c, n) v = [CHR ''-'' # c # (case v of None \<Rightarrow> [] | Some v \<Rightarrow> v)]"
| "write_option Short_apart (c, n) v = [CHR ''-'', c] # (case v of None \<Rightarrow> [] | Some v \<Rightarrow> [v])"
| "write_option Long_equals (c, n) v = [''--'' @ n @ (case v of None \<Rightarrow> [] | Some v \<Rightarrow> CHR ''='' # v)]"
| "write_option Long_apart (c, n) v = (''--'' @ n) # (case v of None \<Rightarrow> [] | Some v \<Rightarrow> [v])"

fun setting_number :: "setting \<Rightarrow> nat" where
  "setting_number (Port n) = n" | "setting_number (Msgitv n) = n" | "setting_number (Debug n) = n"
| "setting_number (Brditv n) = n" | "setting_number (Reschkitv n) = n" | "setting_number (Reportitv n) = n"
| "setting_number _ = 0"

text \<open>
  The settings of a program. The value of \<open>-l\<close> is optional, so it must be joined; an empty
  value cannot be joined.
\<close>

fun allowed :: "build \<Rightarrow> opt_form \<times> setting \<Rightarrow> bool" where
  "allowed b (f, s) \<longleftrightarrow>
     (case s of Brditv _ \<Rightarrow> b = SERVER | Reschkitv _ \<Rightarrow> b = SERVER | Reportitv _ \<Rightarrow> b = CLIENT
      | Domain _ \<Rightarrow> b = CLIENT | Debug _ \<Rightarrow> f \<noteq> Short_apart | _ \<Rightarrow> True) \<and>
     setting_number s < 2 ^ 63 \<and> (f = Short_joined \<longrightarrow> setting_value s \<noteq> Some [])"

definition write_setting :: "opt_form \<times> setting \<Rightarrow> string list" where
  "write_setting fs = write_option (fst fs) (setting_key (snd fs)) (setting_value (snd fs))"

text \<open>What a setting means; numbers are cut to 32 bits.\<close>

fun set_arg :: "(string \<Rightarrow> u32 option) \<Rightarrow> setting \<Rightarrow> arg_t \<Rightarrow> arg_t" where
  "set_arg gh (Nic s) a = a\<lparr>ar_nic := put_at 0 (strncpy_chars (IFNAMSIZ - 1) s) (ar_nic a)\<rparr>"
| "set_arg gh (Port n) a = a\<lparr>ar_port := of_nat n\<rparr>"
| "set_arg gh (Msgitv n) a = a\<lparr>ar_msgitv := of_nat n\<rparr>"
| "set_arg gh (Brditv n) a = a\<lparr>ar_brditv := of_nat n\<rparr>"
| "set_arg gh (Reschkitv n) a = a\<lparr>ar_reschkitv := of_nat n\<rparr>"
| "set_arg gh (Reportitv n) a = a\<lparr>ar_reportitv := of_nat n\<rparr>"
| "set_arg gh (Domain s) a =
     (case gh s of None \<Rightarrow> a | Some ip \<Rightarrow> a\<lparr>ar_acaddr := (ar_acaddr a)\<lparr>s_addr := ip\<rparr>\<rparr>)"
| "set_arg gh _ a = a"

fun set_state :: "(string \<Rightarrow> u32 option) \<Rightarrow> setting \<Rightarrow> arg_state \<Rightarrow> arg_state" where
  "set_state gh (Debug n) st = st\<lparr>debug_level := of_nat n\<rparr>"
| "set_state gh Daemon st = (if debug_level st = 0 then st\<lparr>daemon_mode := True\<rparr> else st)"
| "set_state gh s st = st\<lparr>argument := set_arg gh s (argument st)\<rparr>"

section \<open>Reading a setting back\<close>

lemmas option_tables = long_arg_def SHORT_STR_def short_lookup_def long_lookup_def

lemma short_lookup_key:
  "allowed b (f, s) \<Longrightarrow> short_lookup (SHORT_STR b) (fst (setting_key s)) =
     Some (case s of Daemon \<Rightarrow> No_arg | Debug _ \<Rightarrow> Optional_arg | _ \<Rightarrow> Required_arg)"
  by (cases s; cases b) (simp_all add: option_tables)

lemma long_lookup_key:
  "allowed b (f, s) \<Longrightarrow> long_lookup b (snd (setting_key s)) =
     Some (case s of Daemon \<Rightarrow> No_arg | _ \<Rightarrow> Required_arg, fst (setting_key s))"
  by (cases s; cases b) (simp_all add: option_tables)

lemma setting_key_plain:
  "fst (setting_key s) \<noteq> CHR ''-''" "snd (setting_key s) \<noteq> []" "CHR ''='' \<notin> set (snd (setting_key s))"
  by (cases s; simp)+

lemma takeWhile_key:
  "CHR ''='' \<notin> set n \<Longrightarrow> takeWhile (\<lambda>c. c \<noteq> CHR ''='') n = n"
  "CHR ''='' \<notin> set n \<Longrightarrow> takeWhile (\<lambda>c. c \<noteq> CHR ''='') (n @ CHR ''='' # v) = n"
  "CHR ''='' \<notin> set n \<Longrightarrow> dropWhile (\<lambda>c. c \<noteq> CHR ''='') (n @ CHR ''='' # v) = CHR ''='' # v"
  by (auto simp: takeWhile_append dropWhile_append takeWhile_eq_all_conv)

lemma getopt_calls_long:
  assumes "allowed b (f, s)" "f = Long_equals \<or> f = Long_apart"
  shows "getopt_calls b [] (write_setting (f, s) @ args) = (fst (setting_key s), setting_value s) # getopt_calls b [] args"
proof -
  obtain c n where k: "setting_key s = (c, n)" by (cases "setting_key s")
  have n: "n \<noteq> []" "CHR ''='' \<notin> set n" using setting_key_plain [of s] by (simp_all add: k)
  have l: "long_lookup b n = Some (case s of Daemon \<Rightarrow> No_arg | _ \<Rightarrow> Required_arg, c)"
    using long_lookup_key [OF assms(1)] by (simp add: k)
  show ?thesis
  proof (cases "setting_value s")
    case None
    then have "s = Daemon" by (cases s) simp_all
    then show ?thesis
      using assms(2) l n k None by (auto simp: write_setting_def long_option_def takeWhile_key Let_def)
  next
    case (Some v)
    then have "s \<noteq> Daemon" by auto
    then have "long_lookup b n = Some (Required_arg, c)" using l by (cases s) simp_all
    then show ?thesis
      using assms(2) n k Some by (auto simp: write_setting_def long_option_def takeWhile_key Let_def)
  qed
qed

lemma getopt_calls_short:
  assumes "allowed b (f, s)" "f = Short_joined \<or> f = Short_apart"
  shows "getopt_calls b [] (write_setting (f, s) @ args) = (fst (setting_key s), setting_value s) # getopt_calls b [] args"
proof -
  obtain c n where k: "setting_key s = (c, n)" by (cases "setting_key s")
  have c: "c \<noteq> CHR ''-''" using setting_key_plain(1) [of s] by (simp add: k)
  have l: "short_lookup (SHORT_STR b) c = Some (case s of Daemon \<Rightarrow> No_arg | Debug _ \<Rightarrow> Optional_arg | _ \<Rightarrow> Required_arg)"
    using short_lookup_key [OF assms(1)] by (simp add: k)
  show ?thesis
    using assms c l k by (cases s) (auto simp: write_setting_def)
qed

lemma getopt_calls_setting:
  "allowed b (f, s) \<Longrightarrow>
     getopt_calls b [] (write_setting (f, s) @ args) = (fst (setting_key s), setting_value s) # getopt_calls b [] args"
  by (cases f) (simp_all add: getopt_calls_long getopt_calls_short)

lemma proc_option_setting:
  assumes "allowed b (f, s)"
  shows "proc_option b gh (fst (setting_key s), setting_value s) st = Inr (set_state gh s st)"
  using assms
  by (cases s) (simp_all add: proc_option_def strtol_arg_def strtol10_show_nat Let_def split: option.split)

lemma proc_options_settings:
  assumes "\<forall>fs\<in>set fss. allowed b fs"
  shows "proc_options b gh (getopt_calls b [] (concat (map write_setting fss) @ args)) st =
     proc_options b gh (getopt_calls b [] args) (fold (\<lambda>(f, s). set_state gh s) fss st)"
  using assms
proof (induction fss arbitrary: st)
  case (Cons fs fss)
  obtain f s where fs: "fs = (f, s)" by (cases fs)
  with Cons.prems have "allowed b (f, s)" by simp
  from getopt_calls_setting [OF this] proc_option_setting [OF this] Cons fs show ?case by simp
qed simp

lemma write_setting_not_Nil: "write_setting fs \<noteq> []"
  by (cases "(fst fs, setting_key (snd fs), setting_value (snd fs))" rule: write_option.cases)
    (simp_all add: write_setting_def)

section \<open>What holds of every accepted command line\<close>

definition arg_ok :: "arg_t \<Rightarrow> bool" where
  "arg_ok a \<longleftrightarrow> length (ar_nic a) = IFNAMSIZ \<and> ar_nic a ! (IFNAMSIZ - 1) = NUL \<and> sin_family (ar_acaddr a) = 0"

lemma arg_ok_zero: "arg_ok zero_arg"
  by (simp add: arg_ok_def zero_arg_def IFNAMSIZ_def zero_sockaddr_def)

lemma put_nic_ok:
  "length nic = IFNAMSIZ \<Longrightarrow> length (put_at 0 (strncpy_chars (IFNAMSIZ - Suc 0) s) nic) = IFNAMSIZ"
  "length nic = IFNAMSIZ \<Longrightarrow> put_at 0 (strncpy_chars (IFNAMSIZ - Suc 0) s) nic ! (IFNAMSIZ - Suc 0) = nic ! (IFNAMSIZ - Suc 0)"
  by (simp_all add: put_at_def nth_append IFNAMSIZ_def)

lemma proc_option_ok:
  "proc_option b gh ans st = Inr st' \<Longrightarrow> arg_ok (argument st) \<Longrightarrow> arg_ok (argument st')"
  by (cases ans)
    (auto simp: proc_option_def Let_def arg_ok_def put_nic_ok bind_res_Inr_iff split: if_splits option.splits)

lemma proc_options_ok:
  "proc_options b gh answers st = Inr st' \<Longrightarrow> arg_ok (argument st) \<Longrightarrow> arg_ok (argument st')"
  by (induction answers arbitrary: st) (auto simp: bind_res_Inr_iff intro: proc_option_ok)

lemma proc_cmdarg_ok: "proc_cmdarg b gh argv st = Inr st' \<Longrightarrow> arg_ok (argument st')"
  by (auto simp: proc_cmdarg_def early_init_def bind_res_Inr_iff arg_ok_zero split: if_splits
      elim!: proc_options_ok)

lemma dflt_not_0: "d \<noteq> 0 \<Longrightarrow> dflt v d \<noteq> 0"
  by (simp add: dflt_def)

text \<open>A command line that names a device only.\<close>

lemma proc_arg_nic:
  assumes "length nic < IFNAMSIZ"
  shows "proc_arg b gh env [prog, ''-n'', nic] st =
     bind_res (check_arg b env (zero_arg\<lparr>ar_nic := nic @ replicate (IFNAMSIZ - length nic) NUL\<rparr>))
       (\<lambda>a. Inr (st\<lparr>debug_level := early_is_debug [prog, ''-n'', nic], argument := a\<rparr>))"
proof -
  have "put_at 0 (strncpy_chars (IFNAMSIZ - 1) nic) (replicate IFNAMSIZ NUL) =
      nic @ replicate (IFNAMSIZ - length nic) NUL"
    using assms by (simp add: put_at_def strncpy_chars_def IFNAMSIZ_def flip: replicate_Suc replicate_add)
  then have "proc_cmdarg b gh [prog, ''-n'', nic] st =
      Inr (st\<lparr>argument := zero_arg\<lparr>ar_nic := nic @ replicate (IFNAMSIZ - length nic) NUL\<rparr>,
              debug_level := early_is_debug [prog, ''-n'', nic]\<rparr>)"
    using proc_options_settings [of "[(Short_apart, Nic nic)]" b gh "[]"]
    by (simp add: write_setting_def proc_cmdarg_def early_init_def zero_arg_def)
  then show ?thesis by (simp add: proc_arg_def proc_cfgarg_def)
qed

lemma nic_chars:
  assumes "nic \<noteq> []" "NUL \<notin> set nic"
  shows "cstr (nic @ replicate n NUL) = nic" "(nic @ replicate n NUL) ! 0 \<noteq> NUL"
proof -
  show "cstr (nic @ replicate n NUL) = nic"
    using assms(2) unfolding cstr_def by (subst takeWhile_append2) auto
  show "(nic @ replicate n NUL) ! 0 \<noteq> NUL" using assms by (cases nic) auto
qed

section \<open>Properties\<close>

text \<open>
  C17. The command line is read back: settings of the program, each written as \<open>-pVALUE\<close>,
  \<open>-p VALUE\<close>, \<open>--port=VALUE\<close> or \<open>--port VALUE\<close>, in any order and number, take effect from
  left to right, later ones over earlier ones, and nothing else changes.
\<close>

theorem command_line_read:
  assumes "\<forall>fs\<in>set fss. allowed b fs" "fss \<noteq> []"
  shows "proc_cmdarg b gh (prog # concat (map write_setting fss)) st =
     Inr (fold (\<lambda>(f, s). set_state gh s) fss
       (st\<lparr>argument := zero_arg, debug_level := early_is_debug (prog # concat (map write_setting fss))\<rparr>))"
proof -
  have "concat (map write_setting fss) \<noteq> []"
    using assms(2) write_setting_not_Nil by (cases fss) auto
  then show ?thesis
    using proc_options_settings [OF assms(1), of gh "[]"]
    by (simp add: proc_cmdarg_def early_init_def Suc_le_eq not_less)
qed

definition ex_arg_state :: arg_state where
  "ex_arg_state = \<lparr>argument = zero_arg, debug_level = 0, daemon_mode = False\<rparr>"

theorem command_line_read_witness:
  "proc_cmdarg SERVER (\<lambda>_. None) ([''acser''] @ [''-n'', ''eth0''] @ [''--port=8000''] @ [''-b5''] @ [''--daemon'']) ex_arg_state =
     Inr \<lparr>argument = zero_arg\<lparr>ar_nic := ''eth0'' @ replicate 12 NUL, ar_port := 8000, ar_brditv := 5\<rparr>,
          debug_level = 0, daemon_mode = True\<rparr>"
proof -
  let ?fss = "[(Short_apart, Nic ''eth0''), (Long_equals, Port 8000), (Short_joined, Brditv 5), (Long_apart, Daemon)]"
  have num: "show_nat 8000 = ''8000''" "show_nat 5 = ''5''" by (simp_all add: show_nat.simps char_of_def bit_Suc_0_iff)
  have cl: "concat (map write_setting ?fss) = [''-n'', ''eth0'', ''--port=8000'', ''-b5'', ''--daemon'']"
    by (simp add: write_setting_def num)
  have nic: "put_at 0 (strncpy_chars (IFNAMSIZ - 1) ''eth0'') (replicate IFNAMSIZ NUL) = ''eth0'' @ replicate 12 NUL"
    by (simp add: put_at_def strncpy_chars_def IFNAMSIZ_def numeral_eq_Suc)
  have "\<forall>fs\<in>set ?fss. allowed SERVER fs" by (simp add: num)
  from command_line_read [OF this, of "\<lambda>_. None" "''acser''" ex_arg_state]
  show ?thesis
    unfolding cl by (simp add: early_is_debug_def ex_arg_state_def zero_arg_def nic [simplified])
qed

text \<open>
  C18. The arguments of a program that starts: on every accepted command line the name of the
  device is a non-empty string that ends within its array, port and intervals are not zero
  and the port is entered in network byte order; the address of a remote controller never gets an
  address family, which \<^verbatim>\<open>connect\<close> needs.
\<close>

theorem arguments_of_started_program:
  assumes "proc_arg b gh env argv st = Inr st'"
  shows "length (ar_nic (argument st')) = IFNAMSIZ \<and> ar_nic (argument st') ! (IFNAMSIZ - 1) = NUL \<and>
     ar_nic (argument st') ! 0 \<noteq> NUL \<and> ar_port (argument st') \<noteq> 0 \<and>
     (case b of
        SERVER \<Rightarrow> ar_brditv (argument st') \<noteq> 0 \<and> ar_reschkitv (argument st') \<noteq> 0 \<and>
          sin_port (ar_addr (argument st')) = htons (ar_port (argument st'))
      | CLIENT \<Rightarrow> ar_reportitv (argument st') \<noteq> 0 \<and>
          sin_port (ar_acaddr (argument st')) = htons (ar_port (argument st')) \<and>
          sin_family (ar_acaddr (argument st')) = 0)"
proof -
  obtain st1 arg where 1: "proc_cmdarg b gh argv st = Inr st1" "check_arg b env (argument st1) = Inr arg"
    "st' = st1\<lparr>argument := arg\<rparr>"
    using assms by (auto simp: proc_arg_def proc_cfgarg_def bind_res_Inr_iff)
  have "arg_ok (argument st1)" using proc_cmdarg_ok [OF 1(1)] .
  with 1(2,3) show ?thesis
    by (auto simp: check_arg_def arg_ok_def Let_def bind_res_Inr_iff dflt_not_0 ACPORT_def
        split: if_splits build.split)
qed

definition ex_nic_env :: nic_env where
  "ex_nic_env = \<lparr>ne_socket = (\<lambda>_. True), ne_hwaddr = (\<lambda>_. [2, 0, 0, 0, 0, 1]), ne_ifaddr = (\<lambda>_. zero_sockaddr)\<rparr>"

theorem arguments_of_started_program_witness:
  "\<exists>st'. proc_arg CLIENT (\<lambda>_. None) ex_nic_env [''apctl'', ''-n'', ''eth0''] ex_arg_state = Inr st' \<and>
     sin_family (ar_acaddr (argument st')) = 0 \<and> ar_port (argument st') \<noteq> 0"
proof -
  have "\<exists>st'. proc_arg CLIENT (\<lambda>_. None) ex_nic_env [''apctl'', ''-n'', ''eth0''] ex_arg_state = Inr st'"
    by (subst proc_arg_nic)
      (simp_all add: IFNAMSIZ_def check_arg_def getmac_def getaddr_def ex_nic_env_def NUL_def)
  then obtain st' where "proc_arg CLIENT (\<lambda>_. None) ex_nic_env [''apctl'', ''-n'', ''eth0''] ex_arg_state = Inr st'" by blast
  with arguments_of_started_program [OF this] show ?thesis by auto
qed

text \<open>
  The defaults: with nothing but the name of a device the port is 7960, the controller
  broadcasts every 30 seconds and reloads its addresses every 300, the access point reports every 30, and
  both look at their messages every 3 seconds.
\<close>

theorem argument_defaults:
  assumes "nic \<noteq> []" "NUL \<notin> set nic" "length nic < IFNAMSIZ" "ne_socket env 0" "ne_socket env 1"
  shows "\<exists>st'. proc_arg b gh env [prog, ''-n'', nic] st = Inr st' \<and>
     cstr (ar_nic (argument st')) = nic \<and>
     ar_mac (argument st') = take ETH_ALEN (ne_hwaddr env (strncpy_chars IFNAMSIZ nic)) \<and>
     s_addr (ar_addr (argument st')) = s_addr (ne_ifaddr env (strncpy_chars IFNAMSIZ nic)) \<and>
     ar_port (argument st') = 7960 \<and> ar_msgitv (argument st') = 3 \<and>
     (case b of
        SERVER \<Rightarrow> ar_brditv (argument st') = 30 \<and> ar_reschkitv (argument st') = 300
      | CLIENT \<Rightarrow> ar_reportitv (argument st') = 30)"
proof -
  have d: "int_div 30 10 = 3" by (simp add: int_div_def)
  show ?thesis
    using assms(4,5) nic_chars [OF assms(1,2)] d
    by (subst proc_arg_nic [OF assms(3)])
      (cases b; simp add: check_arg_def getmac_def getaddr_def Let_def zero_arg_def dflt_def ACPORT_def)
qed

theorem argument_defaults_witness:
  "\<exists>st'. proc_arg SERVER (\<lambda>_. None) ex_nic_env [''acser'', ''-n'', ''eth0''] ex_arg_state = Inr st' \<and>
     cstr (ar_nic (argument st')) = ''eth0'' \<and> ar_mac (argument st') = [2, 0, 0, 0, 0, 1] \<and>
     ar_port (argument st') = 7960 \<and> ar_brditv (argument st') = 30"
  using argument_defaults [of "''eth0''" ex_nic_env SERVER "\<lambda>_. None" "''acser''" ex_arg_state]
  by (auto simp: NUL_def IFNAMSIZ_def ex_nic_env_def ETH_ALEN_def)

text \<open>
  The option \<open>-l\<close> without a joined value makes the program follow a null pointer: its value
  is optional in the table, and \<^verbatim>\<open>strtol\<close> is called on \<^verbatim>\<open>optarg\<close> in any case. It happens behind any
  settings, with anything behind it.
\<close>

theorem option_l_alone_faults:
  assumes "\<forall>fs\<in>set fss. allowed b fs"
  shows "proc_cmdarg b gh (prog # concat (map write_setting fss) @ ''-l'' # args) st = Inl NullDeref"
proof -
  have "short_lookup (SHORT_STR b) (CHR ''l'') = Some Optional_arg"
    by (cases b) (simp_all add: short_lookup_def SHORT_STR_def)
  then have "proc_options b gh (getopt_calls b [] (''-l'' # args)) st = Inl NullDeref" for st
    by (simp add: proc_option_def strtol_arg_def Let_def)
  then show ?thesis
    using proc_options_settings [OF assms, of gh "''-l'' # args"]
    by (simp add: proc_cmdarg_def early_init_def)
qed

theorem option_l_alone_faults_witness:
  "proc_cmdarg SERVER (\<lambda>_. None) ([''acser''] @ [''-n'', ''eth0''] @ [''-l'', ''3'']) ex_arg_state = Inl NullDeref"
  using option_l_alone_faults [of "[(Short_apart, Nic ''eth0'')]" SERVER "\<lambda>_. None" "''acser''" "[''3'']" ex_arg_state]
  by (simp add: write_setting_def)

text \<open>
  \<^verbatim>\<open>--debug\<close>, which the help text shows without a value, takes the next argument for its value:
  the device named behind it is lost and the program exits.
\<close>

lemma debug_takes_next_argument:
  assumes "take 1 nic \<noteq> ''-''"
  shows "proc_arg b gh env [prog, ''--debug'', ''-n'', nic] st = Inl ProcessExit"
proof -
  have v: "strtol10 ''-n'' = Some 0"
    by (simp add: strtol10_def signed_value_def digits_value_def isspace_def isdigit_def)
  have l: "long_lookup b ''debug'' = Some (Required_arg, CHR ''l'')"
    by (cases b) (simp_all add: option_tables)
  have "take 2 nic \<noteq> ''--''" using assms by (cases nic) auto
  then have "getopt_calls b [] [''--debug'', ''-n'', nic] = [(CHR ''l'', Some ''-n'')]"
    using assms l by (simp add: long_option_def)
  then have "proc_cmdarg b gh [prog, ''--debug'', ''-n'', nic] st = Inr (st\<lparr>argument := zero_arg, debug_level := 0\<rparr>)"
    by (simp add: proc_cmdarg_def early_init_def proc_option_def strtol_arg_def v Let_def)
  then show ?thesis by (simp add: proc_arg_def proc_cfgarg_def check_arg_def zero_arg_def IFNAMSIZ_def)
qed

end
