(* ===== verification/Ap_Typed.thy ===== *)
theory Ap_Typed
  imports Ap_Answers
begin

text \<open>
  The shape of the state of an access point in every run: the arrays keep their lengths, the
  packet buffers their headers, the fields their ranges, and everything put on the wire
  is a packet of its own. It holds for all messages and all answers of the system.
\<close>

section \<open>What may be on the wire\<close>

text \<open>
  A frame goes out with the own hardware address as its source, and carries a registration request or a
  response to a broadcast, filled with the own hardware address; a connection only sees the
  first bytes of the status packet.
\<close>

fun own_wire :: "byte list \<Rightarrow> wire \<Rightarrow> bool" where
  "own_wire hw (Frame f) \<longleftrightarrow> (\<exists>d p. f = eth_header d hw @ p \<and> length d = ETH_ALEN \<and> mac (dec_head p) = hw \<and>
     (msg_type (dec_head p), length p) \<in> {(MSG_AP_REG, sizeof_ap_reg), (MSG_AP_RESP, sizeof_head)})"
| "own_wire hw (Stream s bs) \<longleftrightarrow> (\<exists>k. bs = take k (status_packet hw))"

definition ap_typed :: "ap_state \<Rightarrow> bool" where
  "ap_typed st \<longleftrightarrow> ap_wf st \<and> length (ss_acuuid (sysstat st)) = UUID_LEN \<and>
     length (ss_dmac (sysstat st)) = ETH_ALEN \<and> ss_isreg (sysstat st) \<in> {0, 1} \<and> -1 \<le> ss_sock (sysstat st) \<and>
     (\<forall>(r, hw)\<in>set (random_map st). length hw = ETH_ALEN) \<and> (\<forall>w\<in>set (sent st). own_wire (my_mac st) w)"

text \<open>The parts that a handler changes one by one.\<close>

lemma ap_typed_wf: "ap_typed st \<Longrightarrow> ap_wf st"
  by (simp add: ap_typed_def)

lemma ap_typed_links [simp]: "ap_typed (st\<lparr>ap_links := l\<rparr>) = ap_typed st"
  by (simp add: ap_typed_def ap_wf_def)

lemma ap_typed_sock: "ap_typed st \<Longrightarrow> -1 \<le> k \<Longrightarrow> ap_typed (st\<lparr>sysstat := (sysstat st)\<lparr>ss_sock := k\<rparr>\<rparr>)"
  "ap_typed st \<Longrightarrow> -1 \<le> k \<Longrightarrow> ap_typed (st\<lparr>ap_links := l, sysstat := (sysstat st)\<lparr>ss_sock := k\<rparr>\<rparr>)"
  by (simp_all add: ap_typed_def ap_wf_def)

lemma ap_typed_ring_put:
  assumes "ap_typed st" "length hw = ETH_ALEN"
  shows "ap_typed (ring_put hw r st)"
proof -
  have "\<forall>(r, hw)\<in>set (random_map (ring_put hw r st)). length hw = ETH_ALEN"
    using assms set_update_subset_insert [of "random_map st" "rm_offset st" "(r, take ETH_ALEN hw)"]
    by (auto simp: ap_typed_def ring_put_def)
  then show ?thesis
    using assms by (simp add: ap_typed_def ap_wf_def) (simp add: ring_put_def LOCAL_AC_MAX_def)
qed

section \<open>Every operation keeps it\<close>

lemma ap_typed_reconnect: "ap_typed st \<Longrightarrow> ac_reconnect env st = Inr st' \<Longrightarrow> ap_typed st'"
  by (auto simp: ac_reconnect_def Let_def bind_res_Inr_iff ap_typed_sock split: if_splits prod.splits)

lemma ap_typed_lost: "ap_typed st \<Longrightarrow> ac_lost st = Some (Inr st') \<Longrightarrow> ap_typed st'"
  by (auto simp: ac_lost_def ap_typed_sock split: option.splits sum.splits)

lemma ap_typed_send_eth:
  assumes "ap_typed st" "ap_send_eth env dmac p len st = Some (Inr st')"
    and "length dmac = ETH_ALEN" "length p = len" "mac (dec_head p) = my_mac st"
    and "(msg_type (dec_head p), len) \<in> {(MSG_AP_REG, sizeof_ap_reg), (MSG_AP_RESP, sizeof_head)}"
  shows "ap_typed st'"
proof -
  have wf: "dll_wf (my_mac st) (ap_dll st)" using assms(1) by (simp add: ap_typed_def ap_wf_def)
  have "len \<le> DLL_PKT_DATALEN" using assms(6) by (auto simp: sizeof_ap_reg_def sizeof_head_def dll_lens)
  from dll_sendpkt_eq [OF wf this, of p dmac "e_eth_ok env"] assms(3,4) obtain dll where
    d: "dll_sendpkt dmac p len (e_eth_ok env) (ap_dll st) = Inr (if e_eth_ok env then 0 else -1,
       if e_eth_ok env then Some (eth_header dmac (my_mac st) @ p) else None, dll)" "dll_wf (my_mac st) dll"
    by auto
  have w: "own_wire (my_mac st) (Frame (eth_header dmac (my_mac st) @ p))"
    using assms(3-6) by auto
  have "st' = st\<lparr>ap_dll := dll,
      sent := sent st @ (if e_eth_ok env then [Frame (eth_header dmac (my_mac st) @ p)] else [])\<rparr>"
    using assms(2) d(1) by (simp add: ap_send_eth_def net_send_def split: if_splits)
  then show ?thesis
    using assms(1) d(2) w
    by (cases "e_eth_ok env") (auto simp: ap_typed_def ap_wf_def simp del: own_wire.simps)
qed

text \<open>What \<^verbatim>\<open>malloc\<close> returned has the size that was asked for.\<close>

definition mem_ok :: "ap_env \<Rightarrow> bool" where
  "mem_ok env \<longleftrightarrow> sizeof_ap_reg \<le> length (e_mem env)"

lemma packet_sent_typed:
  assumes "ap_typed st" "mem_ok env" "80 \<le> length brd" "wf_head q" "mac q = my_mac st"
    and "ap_send_eth env (mac (dec_head brd)) (chap_fill_msg_md5 passwd (enc_head q @ rest) len rnd) len
       (ring_put (mac (dec_head brd)) r st) = Some (Inr st')"
    and "(msg_type q, len) \<in> {(MSG_AP_REG, sizeof_ap_reg), (MSG_AP_RESP, sizeof_head)}" "len = 80 + length rest"
  shows "ap_typed st'"
proof -
  define q' where "q' = q\<lparr>chap := chap_get_md5 passwd (enc_head (q\<lparr>chap := replicate CHAP_LEN 0\<rparr>) @ rest) len rnd\<rparr>"
  have w: "wf_head q'" "mac q' = my_mac st" "msg_type q' = msg_type q"
    using assms(4,5) by (simp_all add: q'_def wf_head_def)
  have "ap_send_eth env (mac (dec_head brd)) (enc_head q' @ rest) len
      (ring_put (mac (dec_head brd)) r st) = Some (Inr st')"
    using assms(6) unfolding chap_fill_enc [OF assms(4)] q'_def .
  from ap_typed_send_eth [OF ap_typed_ring_put [OF assms(1)] this] show ?thesis
    using w assms(3,7,8) by (simp add: mac_dec_head_length msg_head_t.defs)
qed

lemma proc_brd_reg_typed:
  assumes "ap_typed st" "mem_ok env" "80 \<le> length brd" "proc_brd_reg passwd env brd st = Some (Inr st')"
  shows "ap_typed st'"
proof (cases "e_malloc env")
  case True
  let ?q = "reg_request env brd st" and ?r = "chap_get_random (e_dev env)"
  have m: "sizeof_ap_reg \<le> length (e_mem env)" using assms(2) by (simp add: mem_ok_def)
  note wf = reg_request_wf [OF ap_typed_wf [OF assms(1)] m assms(3)]
  have s: "ap_send_eth env (mac (dec_head brd)) (chap_fill_msg_md5 passwd (enc_head ?q @ enc_sockaddr (ipv4 ?q))
      sizeof_ap_reg (random (dec_head brd))) sizeof_ap_reg (ring_put (mac (dec_head brd)) ?r st) = Some (Inr st')"
    using assms(4) True by (simp add: proc_brd_reg_def Let_def new_random_eq reg_request_def enc_ap_reg_def)
  have "mac ?q = my_mac st" "msg_type ?q = MSG_AP_REG"
    using ap_wf_mac [OF ap_typed_wf [OF assms(1)]] by (simp_all add: reg_request_def)
  then show ?thesis
    using wf(2) by (intro packet_sent_typed [OF assms(1-3) wf(1) _ s]) (simp_all add: sizeof_ap_reg_def)
qed (use assms in \<open>simp add: proc_brd_reg_def\<close>)

lemma proc_brd_isreg_typed:
  assumes "ap_typed st" "mem_ok env" "80 \<le> length brd" "proc_brd_isreg passwd env brd st = Some (Inr st')"
  shows "ap_typed st'"
proof -
  let ?same = "uuid_equ (acuuid (dec_head brd)) (ss_acuuid (sysstat st))"
  let ?take = "uuid_equ (slice 80 UUID_LEN brd) (ss_acuuid (sysstat st))"
  define st0 where "st0 = (if ss_sock (sysstat st) \<ge> 0
    then st\<lparr>ap_links := close_fd (ss_sock (sysstat st)) (ap_links st), sysstat := (sysstat st)\<lparr>ss_sock := -1\<rparr>\<rparr>
    else st)"
  have st0: "ap_typed st0" using assms(1) by (simp add: st0_def ap_typed_sock)
  consider "st' = st" | "\<not> ?same" "?take" | "\<not> ?same" "\<not> ?take" "e_malloc env"
    using assms(4) by (cases ?same; cases ?take; cases "e_malloc env")
      (simp_all add: proc_brd_isreg_def Let_def)
  then show ?thesis
  proof cases
    case 2
    then have "proc_brd_reg passwd env brd st0 = Some (Inr st')"
      using assms(4) by (simp add: proc_brd_isreg_def Let_def st0_def)
    with proc_brd_reg_typed [OF st0 assms(2,3)] show ?thesis .
  next
    case 3
    let ?q = "fill_msg_header (my_mac st) (dec_head (e_mem env)) MSG_AP_RESP (Some (acuuid (dec_head brd)))
      (chap_get_random (e_dev env))"
    have "length (my_mac st) = ETH_ALEN" by (rule ap_wf_mac [OF ap_typed_wf [OF assms(1)]])
    moreover from this have "wf_head ?q"
      using assms(2,3) dec_head_lengths [of "e_mem env"] dec_head_lengths [of brd]
      by (intro wf_head_fill) (simp_all add: mem_ok_def sizeof_ap_reg_def)
    ultimately show ?thesis
      using packet_sent_typed [OF assms(1-3), of ?q passwd "[]"] assms(4) 3
      by (simp add: proc_brd_isreg_def Let_def new_random_eq sizeof_head_def)
  qed (use assms(1) in simp)
qed

lemma length_strncpy: "length (strncpy n bs) = n"
  using length_takeWhile_le [of "\<lambda>c. c \<noteq> 0" "take n bs"] by (simp add: strncpy_def Let_def)

lemma accept_resp_typed:
  assumes "ap_typed st" "accept_resp env (dec_ac_reg_resp bs) st = Inr st'" "80 \<le> length bs"
  shows "ap_typed st'"
proof -
  let ?msg = "dec_ac_reg_resp bs"
  define ss where "ss = (sysstat st)\<lparr>ss_acuuid := strncpy UUID_LEN (acuuid ?msg), ss_dmac := mac ?msg,
      ss_server := (if s_addr (acaddr ?msg) \<noteq> 0 then acaddr ?msg else ss_server (sysstat st))\<rparr>"
  define st1 where "st1 = (if s_addr (apaddr ?msg) \<noteq> 0 then setaddr (e_setaddr env) (apaddr ?msg) (st\<lparr>sysstat := ss\<rparr>)
      else st\<lparr>sysstat := ss\<rparr>)"
  define st2 where "st2 = (if ss_sock ss \<ge> 0 then st1\<lparr>ap_links := close_fd (ss_sock ss) (ap_links st1)\<rparr> else st1)"
  have "ap_typed (st\<lparr>sysstat := ss\<rparr>)"
    using assms(1,3) by (simp add: ap_typed_def ap_wf_def ss_def length_strncpy mac_dec_head_length)
  then have "ap_typed st2"
    by (simp add: st2_def st1_def setaddr_def) (simp add: ap_typed_def ap_wf_def)
  moreover obtain st3 where "ac_reconnect env st2 = Inr st3" "st' = st3\<lparr>sysstat := (sysstat st3)\<lparr>ss_isreg := 1\<rparr>\<rparr>"
    using assms(2) by (auto simp: accept_resp_def Let_def bind_res_Inr_iff st2_def st1_def ss_def split: if_splits)
  ultimately show ?thesis
    using ap_typed_reconnect [of st2 env st3] by (simp add: ap_typed_def ap_wf_def)
qed

lemma proc_reg_resp_typed:
  assumes "ap_typed st" "proc_reg_resp passwd env m st = Inr st'" "80 \<le> length (data m)"
  shows "ap_typed st'"
proof -
  have "length (zero_chap (data m)) = length (data m)"
    using assms(3) by (simp add: zero_chap_def length_put_at CHAP_LEN_def)
  with assms show ?thesis
    by (auto simp: proc_reg_resp_def bind_res_Inr_iff case_prod_beta split: if_splits dest: accept_resp_typed)
qed

lemma ap_msg_proc_typed:
  assumes "ap_typed st" "mem_ok env" "DLL_PKT_DATALEN \<le> length (data m)"
    and "ap_msg_proc passwd env m st = Some (Inr st')"
  shows "ap_typed st'"
proof -
  have "80 \<le> length (data m)" using assms(3) by (simp add: dll_lens)
  with assms show ?thesis
    by (auto simp: ap_msg_proc_def proc_brd_def Let_def split: if_splits
        dest: proc_reg_resp_typed proc_brd_reg_typed proc_brd_isreg_typed exec_cmd_state)
qed

lemma tcp_send_loop_prefix: "tcp_send_loop bs as = Some (r, out) \<Longrightarrow> \<exists>k. out = take k bs"
  by (induction bs as rule: tcp_send_loop.induct) auto

lemma report_apstatus_typed:
  assumes "ap_typed st" "report_apstatus env st = Some (Inr st')"
  shows "ap_typed st'"
proof (cases "ss_sock (sysstat st) \<ge> 0")
  case False
  then show ?thesis using assms by (auto simp: report_apstatus_def dest: ap_typed_reconnect)
next
  case True
  then obtain ret w dll where s: "net_send MSG_PROTO_TCP (ss_sock (sysstat st)) (ss_dmac (sysstat st))
      (status_packet (my_mac st)) 864 (e_eth_ok env) (e_tcp env) (ap_dll st) = Some (Inr (ret, w, dll))"
    using assms by (auto simp: report_apstatus_def split: option.splits sum.splits)
  define st1 where "st1 = st\<lparr>ap_dll := dll, sent := sent st @ w\<rparr>"
  have "dll = ap_dll st \<and> (\<forall>x\<in>set w. own_wire (my_mac st) x)"
    using s True by (auto simp: net_send_def tcp_sendpkt_def MSG_PROTO_TCP_def MSG_PROTO_ETH_def dest!: tcp_send_loop_prefix
        split: option.splits sum.splits if_splits)
  then have st1: "ap_typed st1"
    using assms(1) by (auto simp: st1_def ap_typed_def ap_wf_def simp del: own_wire.simps)
  consider "st' = st1" | st2 where "ac_lost st1 = Some (Inr st2)" "ac_reconnect env st2 = Inr st'"
    using assms True s by (auto simp: report_apstatus_def st1_def Let_def split: if_splits option.splits sum.splits)
  then show ?thesis
    by cases (use st1 in \<open>auto intro: ap_typed_lost ap_typed_reconnect\<close>)
qed

section \<open>Every run keeps it\<close>

fun event_mem_ok :: "ap_event \<Rightarrow> bool" where
  "event_mem_ok (Handle m env) = mem_ok env"
| "event_mem_ok e = True"

lemma ap_run_typed:
  "ap_run passwd st es st' \<Longrightarrow> ap_typed st \<Longrightarrow> \<forall>e\<in>set es. event_mem_ok e \<Longrightarrow> ap_typed st'"
proof (induction rule: ap_run.induct)
  case (step es st1 e st2)
  then have t: "ap_typed st1" "event_mem_ok e" by simp_all
  from step(2) show ?case
    by cases (use t in \<open>auto intro: ap_msg_proc_typed report_apstatus_typed ap_typed_lost\<close>)
qed simp

lemma ap_init_typed:
  assumes "dll_wf hw dll" "wf_sockaddr addr"
  shows "ap_typed (ap_init hw addr server dll links)"
  using assms by (simp add: ap_typed_def ap_wf_def ap_init_def LOCAL_AC_MAX_def split: prod.split)

section \<open>Property\<close>

text \<open>
  C16. The types of the C structs hold at run time. In every run of an access point from its initial state, for all
  messages and all answers of the system, the arrays of the identity, of the hardware addresses
  and of the ring have their sizes, the offset is an index of the ring, the packet buffers keep
  their headers, the registration flag is 0 or 1 and the socket at least -1. Everything sent is a
  frame from the own hardware address with a registration request or a response to a broadcast,
  of exactly the size of its struct, or the beginning of the status packet.
\<close>

theorem access_point_run_typed:
  assumes "ap_run passwd (ap_init hw addr server dll links) es st"
    and "dll_wf hw dll" "wf_sockaddr addr" "\<forall>e\<in>set es. event_mem_ok e"
  shows "ap_typed st"
  using ap_run_typed [OF assms(1) ap_init_typed [OF assms(2,3)] assms(4)] .

theorem access_point_run_typed_witness:
  "\<exists>st f. ap_run [119] ex_ap [Handle ex_brd_msg ex_ap_env] st \<and> ap_typed st \<and> sent st = [Frame f] \<and>
     own_wire ex_ap_mac (Frame f)"
proof -
  have b: "ss_isreg (sysstat ex_ap) = 0" "msg_type (dec_head (data ex_brd_msg)) = MSG_AC_BRD"
    "proto ex_brd_msg = MSG_PROTO_ETH" "int sizeof_ac_brd \<le> msg_len ex_brd_msg" "msg_len ex_brd_msg < 2 ^ 31"
    "sizeof_ac_brd \<le> length (data ex_brd_msg)" "DLL_PKT_DATALEN \<le> length (data ex_brd_msg)"
    unfolding ex_brd_head(2,3)
    by (simp_all add: msg_head_t.defs ex_brd_def ex_brd_msg_def ex_ap_def ap_init_def sizeof_ac_brd_def dll_lens)
  obtain st f where st: "ap_msg_proc [119] ex_ap_env ex_brd_msg ex_ap = Some (Inr st)" "sent st = sent ex_ap @ [Frame f]"
    "ap_static ex_ap st"
    using broadcast_answer [OF ex_ap_wf ex_env_wf b(1-6), of "[119]"] by blast
  have r: "ap_run [119] ex_ap ([] @ [Handle ex_brd_msg ex_ap_env]) st"
    by (rule ap_run.step [OF ap_run.start ap_step.handle [OF b(7) st(1)]])
  have i: "dll_wf ex_ap_mac (init_pktbuf ex_ap_mac (replicate 1536 0))" "wf_sockaddr zero_sockaddr"
    using ex_ap_wf by (simp_all add: ex_ap_def ap_wf_def ap_init_def)
  have m: "\<forall>e\<in>set ([] @ [Handle ex_brd_msg ex_ap_env]). event_mem_ok e"
    by (simp add: mem_ok_def ex_ap_env_def sizeof_ap_reg_def)
  have t: "ap_typed st"
    by (rule access_point_run_typed [OF r [unfolded ex_ap_def] i m])
  have s: "sent st = [Frame f]" "my_mac st = ex_ap_mac"
    using st(2,3) by (simp_all add: ex_ap_def ap_init_def ap_static_def)
  show ?thesis using t s r by (intro exI [of _ st] exI [of _ f]) (simp add: ap_typed_def)
qed

end
