(* ===== verification/Dll_Init.thy ===== *)
theory Dll_Init
  imports Dllayer C_Strings
begin

text \<open>
  Setting up the Ethernet layer, \<^verbatim>\<open>dll_init\<close> of \<^verbatim>\<open>lib/dllayer.c\<close>: the device, the packet buffers, the
  sockets for broadcasting, receiving and sending, and the addresses they use. The answers of
  the kernel are arguments; the theory proves what a call that returns has set up.
\<close>

section \<open>State\<close>

definition PF_PACKET :: u16 where "PF_PACKET = 17"

record dllnic_t =
  dn_nic :: string
  dn_mac :: "byte list"
  dn_ifiindex :: int

record sockaddr_ll =
  sll_family :: u16
  sll_protocol :: "byte list"
  sll_ifindex :: int
  sll_hatype :: u16
  sll_pkttype :: byte
  sll_halen :: byte
  sll_addr :: "byte list"

definition zero_ll :: sockaddr_ll where
  "zero_ll = \<lparr>sll_family = 0, sll_protocol = [0, 0], sll_ifindex = 0, sll_hatype = 0, sll_pkttype = 0,
     sll_halen = 0, sll_addr = replicate 8 0\<rparr>"

text \<open>
  The globals \<^verbatim>\<open>dllnic\<close>, \<^verbatim>\<open>dllsdr\<close>, \<^verbatim>\<open>dllrcv\<close>, \<^verbatim>\<open>dllbrd\<close>, with the packet buffers as one
  value, \<open>None\<close> before they are allocated, and the part of the kernel they act on: the open
  descriptors, those that may broadcast, and the addresses that sockets are bound to.
\<close>

record dll_glob =
  dg_nic :: dllnic_t
  dg_bufs :: "dll_state option"
  dg_sdrsock :: int
  dg_rcvsock :: int
  dg_brdsock :: int
  dg_rcvll :: sockaddr_ll
  dg_brdll :: sockaddr_ll
  dg_fds :: "int set"
  dg_mayctl :: "int set"
  dg_bound :: "int \<rightharpoonup> sockaddr_ll"

definition dll_zero :: "int set \<Rightarrow> dll_glob" where
  "dll_zero fds = \<lparr>dg_nic = \<lparr>dn_nic = replicate 16 NUL, dn_mac = replicate ETH_ALEN 0, dn_ifiindex = 0\<rparr>,
     dg_bufs = None, dg_sdrsock = 0, dg_rcvsock = 0, dg_brdsock = 0, dg_rcvll = zero_ll, dg_brdll = zero_ll,
     dg_fds = fds, dg_mayctl = {}, dg_bound = Map.empty\<rparr>"

text \<open>
  The answers: of the four calls of \<^verbatim>\<open>socket\<close> in their order, of \<^verbatim>\<open>setsockopt\<close>, of the two calls
  of \<^verbatim>\<open>ioctl\<close> for the name of a device, of \<^verbatim>\<open>malloc\<close> and of \<^verbatim>\<open>bind\<close>.
\<close>

record dll_env =
  de_socket :: "nat \<Rightarrow> int"
  de_setsockopt :: int
  de_ifindex :: "string \<Rightarrow> int option"
  de_hwaddr :: "string \<Rightarrow> byte list option"
  de_malloc :: "byte list option"
  de_bind :: int

section \<open>The steps\<close>

text \<open>\<open>n\<close> is the number of the call of \<^verbatim>\<open>socket\<close>.\<close>

definition create_sock :: "dll_env \<Rightarrow> nat \<Rightarrow> bool \<Rightarrow> dll_glob \<Rightarrow> (int \<times> dll_glob) res" where
  "create_sock env n brdcst g =
     (let sock = de_socket env n in
      if sock < 0 then Inl ProcessExit
      else let g = g\<lparr>dg_fds := insert sock (dg_fds g)\<rparr> in
        if brdcst then
          if de_setsockopt env < 0 then Inl ProcessExit
          else Inr (sock, g\<lparr>dg_mayctl := insert sock (dg_mayctl g)\<rparr>)
        else Inr (sock, g))"

text \<open>The kernel reads at most 15 chars of the name in an \<^verbatim>\<open>ifreq\<close>.\<close>

definition init_nic :: "dll_env \<Rightarrow> string \<Rightarrow> dll_glob \<Rightarrow> dll_glob res" where
  "init_nic env nic g =
     (let ifr_name = take 15 (cstr nic) in
      case de_ifindex env ifr_name of
        None \<Rightarrow> Inl ProcessExit
      | Some ix \<Rightarrow>
          let g = g\<lparr>dg_nic := (dg_nic g)\<lparr>dn_ifiindex := ix\<rparr>\<rparr> in
          case de_hwaddr env ifr_name of
            None \<Rightarrow> Inl ProcessExit
          | Some hw \<Rightarrow> Inr (g\<lparr>dg_nic := (dg_nic g)\<lparr>
              dn_nic := put_at 0 (strncpy_chars 15 (cstr nic)) (dn_nic (dg_nic g)), dn_mac := take ETH_ALEN hw\<rparr>\<rparr>))"

definition init_bufs :: "dll_env \<Rightarrow> dll_glob \<Rightarrow> dll_glob res" where
  "init_bufs env g =
     (if dg_bufs g \<noteq> None then Inl AssertFail
      else case de_malloc env of
        None \<Rightarrow> Inl ProcessExit
      | Some mem \<Rightarrow> Inr (g\<lparr>dg_bufs := Some (init_pktbuf (dn_mac (dg_nic g)) mem)\<rparr>))"

definition build_brdll :: "dll_glob \<Rightarrow> dll_glob" where
  "build_brdll g = g\<lparr>dg_brdll := zero_ll\<lparr>sll_family := PF_PACKET, sll_ifindex := dn_ifiindex (dg_nic g),
     sll_halen := 6, sll_addr := replicate 6 0xff @ [0, 0]\<rparr>\<rparr>"

definition build_rcvll :: "bool \<Rightarrow> dll_glob \<Rightarrow> dll_glob" where
  "build_rcvll bound g =
     (let ll = zero_ll\<lparr>sll_family := PF_PACKET, sll_protocol := ETH_INNO, sll_ifindex := dn_ifiindex (dg_nic g)\<rparr>
      in g\<lparr>dg_rcvll := (if bound then ll else ll\<lparr>sll_pkttype := 0\<rparr>)\<rparr>)"

definition init_brdcast :: "dll_env \<Rightarrow> dll_glob \<Rightarrow> dll_glob res" where
  "init_brdcast env g =
     bind_res (create_sock env 1 True g) (\<lambda>(sock, g). Inr (build_brdll (g\<lparr>dg_brdsock := sock\<rparr>)))"

definition init_rcv :: "dll_env \<Rightarrow> dll_glob \<Rightarrow> dll_glob res" where
  "init_rcv env g =
     bind_res (create_sock env 2 False g) (\<lambda>(sock, g).
       let g = build_rcvll True (g\<lparr>dg_rcvsock := sock\<rparr>) in
       if de_bind env < 0 then Inl ProcessExit
       else Inr (g\<lparr>dg_bound := (dg_bound g)(sock \<mapsto> dg_rcvll g)\<rparr>))"

definition init_sdr :: "dll_env \<Rightarrow> dll_glob \<Rightarrow> dll_glob res" where
  "init_sdr env g = bind_res (create_sock env 3 False g) (\<lambda>(sock, g). Inr (g\<lparr>dg_sdrsock := sock\<rparr>))"

text \<open>
  The descriptors that the pointers of \<^verbatim>\<open>dll_init\<close> receive are \<open>dg_rcvsock\<close>, \<open>dg_sdrsock\<close> and
  \<open>dg_brdsock\<close>.
\<close>

definition dll_init :: "dll_env \<Rightarrow> string \<Rightarrow> dll_glob \<Rightarrow> dll_glob res" where
  "dll_init env nic g =
     bind_res (create_sock env 0 False g) (\<lambda>(sock, g).
     bind_res (init_nic env nic g) (\<lambda>g.
       let g = g\<lparr>dg_fds := dg_fds g - {sock}\<rparr> in
       bind_res (init_bufs env g) (\<lambda>g.
       bind_res (init_brdcast env g) (\<lambda>g.
       bind_res (init_rcv env g) (init_sdr env)))))"

text \<open>
  The address that \<^verbatim>\<open>dll_sendpkt\<close> gives to \<^verbatim>\<open>sendto\<close>; it is built anew for every packet, so the
  model of sending does not keep it.
\<close>

definition build_sdrll :: "byte list \<Rightarrow> dllnic_t \<Rightarrow> sockaddr_ll" where
  "build_sdrll dmac nic = zero_ll\<lparr>sll_family := PF_PACKET, sll_ifindex := dn_ifiindex nic,
     sll_halen := of_nat ETH_ALEN, sll_addr := take ETH_ALEN dmac @ [0, 0]\<rparr>"

section \<open>What is set up\<close>

lemmas dll_init_defs = dll_init_def create_sock_def init_nic_def init_bufs_def init_brdcast_def init_rcv_def
  init_sdr_def build_brdll_def build_rcvll_def

text \<open>The answers of a kernel that grants everything.\<close>

definition dll_granted :: "dll_env \<Rightarrow> string \<Rightarrow> bool" where
  "dll_granted env nic \<longleftrightarrow> (\<forall>n\<le>3. 0 \<le> de_socket env n) \<and> 0 \<le> de_setsockopt env \<and> 0 \<le> de_bind env \<and>
     de_ifindex env (take 15 (cstr nic)) \<noteq> None \<and>
     (\<exists>hw. de_hwaddr env (take 15 (cstr nic)) = Some hw \<and> ETH_ALEN \<le> length hw) \<and>
     (\<exists>mem. de_malloc env = Some mem \<and> length mem = 3 * DLL_PKT_MAXLEN)"

lemma dll_init_ready:
  assumes "dll_granted env nic" "dg_bufs g = None"
  shows "\<exists>g' hw bufs. dll_init env nic g = Inr g' \<and> de_hwaddr env (take 15 (cstr nic)) = Some hw \<and>
     dn_mac (dg_nic g') = take ETH_ALEN hw \<and> dg_bufs g' = Some bufs \<and> dll_wf (take ETH_ALEN hw) bufs \<and>
     rcv_locked bufs = False \<and> dg_rcvsock g' = de_socket env 2 \<and> dg_brdsock g' = de_socket env 1 \<and>
     dg_sdrsock g' = de_socket env 3 \<and> dg_bound g' = (dg_bound g)(de_socket env 2 \<mapsto> dg_rcvll g') \<and>
     de_ifindex env (take 15 (cstr nic)) = Some (sll_ifindex (dg_rcvll g')) \<and> sll_protocol (dg_rcvll g') = ETH_INNO \<and>
     sll_ifindex (dg_brdll g') = sll_ifindex (dg_rcvll g') \<and> sll_ifindex (dg_rcvll g') = dn_ifiindex (dg_nic g') \<and> take 6 (sll_addr (dg_brdll g')) = replicate 6 0xff \<and>
     dg_fds g' = {de_socket env 1, de_socket env 2, de_socket env 3} \<union> (dg_fds g - {de_socket env 0}) \<and>
     dg_mayctl g' = insert (de_socket env 1) (dg_mayctl g)"
proof -
  obtain ix where ix: "de_ifindex env (take 15 (cstr nic)) = Some ix" using assms(1) by (auto simp: dll_granted_def)
  obtain hw where hw: "de_hwaddr env (take 15 (cstr nic)) = Some hw" "ETH_ALEN \<le> length hw"
    using assms(1) by (auto simp: dll_granted_def)
  obtain mem where mem: "de_malloc env = Some mem" "length mem = 3 * DLL_PKT_MAXLEN"
    using assms(1) by (auto simp: dll_granted_def)
  have s: "\<not> de_socket env 0 < 0" "\<not> de_socket env 1 < 0" "\<not> de_socket env 2 < 0" "\<not> de_socket env 3 < 0"
    "\<not> de_setsockopt env < 0" "\<not> de_bind env < 0"
    using assms(1) by (simp_all add: dll_granted_def not_less)
  have wf: "dll_wf (take ETH_ALEN hw) (init_pktbuf (take ETH_ALEN hw) mem)"
    using dll_wf_init [of "take ETH_ALEN hw" mem] hw(2) mem(2) by simp
  have l: "rcv_locked (init_pktbuf (take ETH_ALEN hw) mem) = False" by (simp add: init_pktbuf_def Let_def)
  show ?thesis
    using ix hw mem s assms(2) wf l
    by (simp add: dll_init_defs Let_def zero_ll_def insert_Diff_if) (auto simp: numeral_eq_Suc)
qed

text \<open>A packet and the answer to it leave through the device that frames are received from.\<close>

lemma sdrll_same_device:
  assumes "dll_granted env nic" "dg_bufs g = None" "length dmac = ETH_ALEN"
  shows "\<exists>g'. dll_init env nic g = Inr g' \<and>
    sll_ifindex (build_sdrll dmac (dg_nic g')) = sll_ifindex (dg_rcvll g') \<and>
    take 6 (sll_addr (build_sdrll dmac (dg_nic g'))) = dmac"
proof -
  obtain g' where "dll_init env nic g = Inr g'" "sll_ifindex (dg_rcvll g') = dn_ifiindex (dg_nic g')"
    using dll_init_ready [OF assms(1,2)] by blast
  with assms(3) show ?thesis by (simp add: build_sdrll_def zero_ll_def ETH_ALEN_def)
qed

end
