(* ===== verification/Event_Loop.thy ===== *)
theory Event_Loop
  imports Link
begin

text \<open>
  The threads around the list of sockets: \<^verbatim>\<open>net_epoll_init\<close>, \<^verbatim>\<open>net_nonblock\<close> and the endless loop of
  \<^verbatim>\<open>net_recv\<close> in \<^verbatim>\<open>lib/link.c\<close>, and the loop over \<^verbatim>\<open>accept\<close> of \<^verbatim>\<open>ac/net.c\<close>. An endless loop is followed
  along a list of answers of the kernel; at its end the thread waits.
\<close>

section \<open>Set-up\<close>

text \<open>The answers of \<^verbatim>\<open>fcntl\<close>; \<^verbatim>\<open>epoll_create1\<close> gives a descriptor or the process exits.\<close>

definition net_nonblock :: "int \<times> int \<Rightarrow> int" where
  "net_nonblock ans = (let (flags, set) = ans in if flags < 0 then -1 else if set < 0 then -1 else 0)"

definition net_epoll_init :: "int \<Rightarrow> int res" where
  "net_epoll_init epl = (if epl < 0 then Inl ProcessExit else Inr epl)"

section \<open>The loop of \<^verbatim>\<open>net_recv\<close>\<close>

definition EPOLLNUM :: nat where "EPOLLNUM = 10"

text \<open>
  \<^verbatim>\<open>epoll_wait\<close> fails, with or without \<^verbatim>\<open>EINTR\<close>, or reports sockets with their events. The kernel
  hands out the \<^verbatim>\<open>data.ptr\<close> that it keeps for a socket that is still watched.
\<close>

datatype wait_answer = Wait_failed bool | Ready "(int \<times> u32) list"

definition epoll_ptrs :: "'f link_state \<Rightarrow> (int \<times> u32) list \<Rightarrow> (ptr \<times> u32) list" where
  "epoll_ptrs st evs =
     take EPOLLNUM (map (\<lambda>(k, ev). (the (watched st k), ev)) (filter (\<lambda>(k, _). watched st k \<noteq> None) evs))"

fun net_recv :: "('f \<Rightarrow> ptr \<Rightarrow> 'w \<times> 'f link_state \<Rightarrow> ('w \<times> 'f link_state) res option) \<Rightarrow>
    wait_answer list \<Rightarrow> 'w \<times> 'f link_state \<Rightarrow> ('w \<times> 'f link_state) res option" where
  "net_recv call [] s = Some (Inr s)"
| "net_recv call (Wait_failed eintr # as) s = (if eintr then net_recv call as s else Some (Inl ProcessExit))"
| "net_recv call (Ready evs # as) s =
     bind_ro (net_recv_batch call (epoll_ptrs (snd s) evs) s) (net_recv call as)"

section \<open>The loop of \<^verbatim>\<open>net_netlisten\<close>\<close>

text \<open>
  An answer of \<^verbatim>\<open>accept\<close> comes with the answers to \<^verbatim>\<open>fcntl\<close> and \<^verbatim>\<open>malloc\<close>. The address that the
  socket is bound to is the kernel's matter.
\<close>

fun accept_loop :: "'f \<Rightarrow> (int \<times> (int \<times> int) \<times> ptr option) list \<Rightarrow> 'f link_state \<Rightarrow> 'f link_state res" where
  "accept_loop func [] st = Inr st"
| "accept_loop func ((clisock, fc, node) # as) st =
     bind_res (tcp_accept clisock func (net_nonblock fc = 0) node st) (\<lambda>(_, st). accept_loop func as st)"

definition net_netlisten :: "'f \<Rightarrow> listen_answers \<Rightarrow> (int \<times> (int \<times> int) \<times> ptr option) list \<Rightarrow>
    'f link_state \<Rightarrow> 'f link_state res" where
  "net_netlisten func las as st =
     (let (sock, opened, closed) = tcp_listen las;
          st = st\<lparr>open_fds := (open_fds st \<union> set opened) - set closed\<rparr>
      in if sock < 0 then Inl ProcessExit else accept_loop func as st)"

section \<open>What the loops keep\<close>

lemma net_recv_append:
  "net_recv call (as @ bs) s = bind_ro (net_recv call as s) (net_recv call bs)"
proof (induction call as s rule: net_recv.induct)
  case (3 call evs as s)
  show ?case
  proof (cases "net_recv_batch call (epoll_ptrs (snd s) evs) s")
    case (Some r)
    with 3 show ?thesis by (cases r) auto
  qed simp
qed auto

lemma epoll_ptrs_live:
  assumes inv: "link_inv st ps" and d: "distinct (map fst evs)"
  shows "distinct (map fst (epoll_ptrs st evs))" "fst ` set (epoll_ptrs st evs) \<subseteq> set ps"
proof -
  let ?P = "\<lambda>(k, _ :: u32). watched st k \<noteq> None" and ?f = "\<lambda>(k, ev :: u32). (the (watched st k), ev)"
  have w: "watched st k = Some p \<longleftrightarrow> p \<in> set ps \<and> sock_of st p = k" for k p
    using inv by (simp add: link_inv_def)
  have "inj_on (\<lambda>k. the (watched st k)) {k. watched st k \<noteq> None}"
  proof (rule inj_onI)
    fix j k assume "j \<in> {k. watched st k \<noteq> None}" "k \<in> {k. watched st k \<noteq> None}"
      "the (watched st j) = the (watched st k)"
    then obtain p where "watched st j = Some p" "watched st k = Some p" by auto
    then show "j = k" using w [of j p] w [of k p] by simp
  qed
  moreover have "set (map fst (filter ?P evs)) \<subseteq> {k. watched st k \<noteq> None}" by auto
  moreover have "distinct (map fst (filter ?P evs))" using d by (simp add: distinct_map_filter)
  ultimately have "distinct (map (\<lambda>k. the (watched st k)) (map fst (filter ?P evs)))"
    using inj_on_subset by (subst distinct_map) blast
  moreover have "map fst (map ?f (filter ?P evs)) = map (\<lambda>k. the (watched st k)) (map fst (filter ?P evs))"
    by (simp add: case_prod_beta comp_def)
  ultimately show "distinct (map fst (epoll_ptrs st evs))"
    unfolding epoll_ptrs_def by (metis distinct_take take_map)
  have "the (watched st k) \<in> set ps" if "watched st k \<noteq> None" for k
    using that w [of k "the (watched st k)"] by simp
  note live = this
  have "fst x \<in> set ps" if x: "x \<in> set (epoll_ptrs st evs)" for x
  proof -
    have "x \<in> set (map ?f (filter ?P evs))" using x unfolding epoll_ptrs_def by (rule in_set_takeD)
    then obtain k ev where "x = (the (watched st k), ev)" "watched st k \<noteq> None" by fastforce
    then show ?thesis using live by simp
  qed
  then show "fst ` set (epoll_ptrs st evs) \<subseteq> set ps" by blast
qed

fun wait_ok :: "wait_answer \<Rightarrow> bool" where
  "wait_ok (Wait_failed eintr) \<longleftrightarrow> eintr"
| "wait_ok (Ready evs) \<longleftrightarrow> distinct (map fst evs)"

section \<open>The contract of the registered functions\<close>

text \<open>
  A program provides \<open>call\<close>, which runs the function \<open>f\<close> that a node is registered with. Under its invariant
  \<open>J\<close> it returns without a fault, keeps \<open>J\<close> and the list of sockets, and frees no node but
  its own. Storing the events in a node keeps \<open>J\<close>.
\<close>

locale local_callbacks =
  fixes call :: "'f \<Rightarrow> ptr \<Rightarrow> 'w \<times> 'f link_state \<Rightarrow> ('w \<times> 'f link_state) res option"
    and J :: "'w \<times> 'f link_state \<Rightarrow> bool"
  assumes events_kept:
      "J (w, st) \<Longrightarrow> nodes st p = Some n \<Longrightarrow> J (w, st\<lparr>nodes := (nodes st)(p \<mapsto> n\<lparr>retevents := ev\<rparr>)\<rparr>)"
    and call_local:
      "J (w, st) \<Longrightarrow> link_inv st ps \<Longrightarrow> nodes st p = Some n \<Longrightarrow>
       \<exists>w' st' ps'. call (sa_func n) p (w, st) = Some (Inr (w', st')) \<and> J (w', st') \<and> link_inv st' ps' \<and>
         set ps - {p} \<subseteq> set ps'"
begin

lemma batch_safe:
  "J (w, st) \<Longrightarrow> link_inv st ps \<Longrightarrow> distinct (map fst evs) \<Longrightarrow> fst ` set evs \<subseteq> set ps \<Longrightarrow>
   \<exists>w' st' ps'. net_recv_batch call evs (w, st) = Some (Inr (w', st')) \<and> J (w', st') \<and> link_inv st' ps'"
proof (induction evs arbitrary: w st ps)
  case Nil
  then show ?case by auto
next
  case (Cons pe evs)
  obtain p ev where pe: "pe = (p, ev)" by (cases pe)
  obtain n where n: "nodes st p = Some n"
    using link_inv_node [OF Cons.prems(2), of p] Cons.prems(4) by (auto simp: pe)
  let ?st = "st\<lparr>nodes := (nodes st)(p \<mapsto> n\<lparr>retevents := ev\<rparr>)\<rparr>"
  have "link_inv ?st ps" using link_inv_retevents [OF Cons.prems(2) n] .
  moreover have "nodes ?st p = Some (n\<lparr>retevents := ev\<rparr>)" by simp
  ultimately obtain w1 st1 ps1 where s1: "call (sa_func n) p (w, ?st) = Some (Inr (w1, st1))" "J (w1, st1)"
    "link_inv st1 ps1" "set ps - {p} \<subseteq> set ps1"
    using call_local [OF events_kept [OF Cons.prems(1) n, of ev]] by fastforce
  have "fst ` set evs \<subseteq> set ps - {p}" using Cons.prems(3,4) by (simp add: pe) blast
  then have "fst ` set evs \<subseteq> set ps1" using s1(4) by blast
  moreover have "distinct (map fst evs)" using Cons.prems(3) by simp
  ultimately obtain w2 st2 ps2 where "net_recv_batch call evs (w1, st1) = Some (Inr (w2, st2))" "J (w2, st2)"
    "link_inv st2 ps2"
    using Cons.IH [OF s1(2,3)] by blast
  then show ?case using n s1(1) by (auto simp: pe)
qed

text \<open>The event loop never ends in a fault, whatever sockets the kernel reports ready.\<close>

lemma recv_runs:
  assumes "J (w, st)" "link_inv st ps" "\<forall>a\<in>set as. wait_ok a"
  shows "\<exists>w' st' ps'. net_recv call as (w, st) = Some (Inr (w', st')) \<and> J (w', st') \<and> link_inv st' ps'"
  using assms
proof (induction as arbitrary: w st ps)
  case Nil
  then show ?case by auto
next
  case (Cons a as)
  show ?case
  proof (cases a)
    case (Wait_failed eintr)
    then show ?thesis using Cons by auto
  next
    case (Ready evs)
    then have "distinct (map fst evs)" using Cons.prems(3) by simp
    note live = epoll_ptrs_live [OF Cons.prems(2) this]
    obtain w1 st1 ps1 where "net_recv_batch call (epoll_ptrs st evs) (w, st) = Some (Inr (w1, st1))"
      "J (w1, st1)" "link_inv st1 ps1"
      using batch_safe [OF Cons.prems(1,2) live] by blast
    with Cons.IH [of w1 st1 ps1] Cons.prems(3) Ready show ?thesis by auto
  qed
qed

end

text \<open>
  The connections that get watched. The kernel hands out new descriptors, and \<^verbatim>\<open>malloc\<close> new
  memory.
\<close>

definition accepted :: "(int \<times> (int \<times> int) \<times> ptr option) list \<Rightarrow> (int \<times> ptr) list" where
  "accepted as = map (\<lambda>(k, _, node). (k, the node)) (filter (\<lambda>(k, fc, _). 0 \<le> k \<and> net_nonblock fc = 0) as)"

definition accepts_ok :: "(int \<times> (int \<times> int) \<times> ptr option) list \<Rightarrow> 'f link_state \<Rightarrow> bool" where
  "accepts_ok as st \<longleftrightarrow>
     distinct (filter (\<lambda>k. 0 \<le> k) (map fst as)) \<and> (\<forall>k\<in>fst ` set as. 0 \<le> k \<longrightarrow> k \<notin> open_fds st) \<and>
     (\<forall>(k, fc, node)\<in>set as. node \<noteq> None) \<and>
     distinct (map snd (accepted as)) \<and> (\<forall>p\<in>snd ` set (accepted as). nodes st p = None)"

lemma accepted_Cons [simp]:
  "accepted ((k, fc, node) # as) =
     (if 0 \<le> k \<and> net_nonblock fc = 0 then (k, the node) # accepted as else accepted as)"
  by (simp add: accepted_def)

lemma insert_sockarr_nodes:
  "insert_sockarr k f True (Some p) st = Inr (q, st') \<Longrightarrow> dom (nodes st') = insert p (dom (nodes st))"
  by (auto simp: insert_sockarr_def Let_def split: if_splits)

lemma accept_loop_keeps:
  assumes "link_inv st ps" "accepts_ok as st"
  shows "\<exists>st'. accept_loop func as st = Inr st' \<and> link_inv st' (ps @ map snd (accepted as)) \<and>
     (\<forall>(k, p)\<in>set (accepted as). watched st' k = Some p) \<and>
     (\<forall>k. k \<notin> fst ` set (accepted as) \<longrightarrow> watched st' k = watched st k)"
  using assms
proof (induction as arbitrary: st ps)
  case Nil
  then show ?case by (auto simp: accepted_def)
next
  case (Cons a as)
  obtain k fc node where a: "a = (k, fc, node)" by (cases a)
  let ?st = "st\<lparr>open_fds := insert k (open_fds st)\<rparr>"
  consider "k < 0" | "0 \<le> k" "net_nonblock fc \<noteq> 0" | p where "0 \<le> k" "net_nonblock fc = 0" "node = Some p"
    using Cons.prems(2) by (cases "k < 0") (auto simp: a accepts_ok_def)
  then show ?case
  proof cases
    case 1
    then have "accepted (a # as) = accepted as" "accepts_ok as st"
      using Cons.prems(2) by (simp_all add: a accepts_ok_def)
    with Cons.IH [OF Cons.prems(1)] 1 show ?thesis by (simp add: a tcp_accept_def)
  next
    case 2
    have e: "accepted (a # as) = accepted as" using 2 by (simp add: a)
    have "accepts_ok as ?st" using Cons.prems(2) 2 by (auto simp: a accepts_ok_def)
    from Cons.IH [OF link_inv_open [OF Cons.prems(1)] this] show ?thesis
      using 2 e by (simp add: a tcp_accept_def insert_sockarr_def)
  next
    case 3
    have e: "accepted (a # as) = (k, p) # accepted as" using 3 by (simp add: a)
    have k: "k \<notin> open_fds st" "nodes st p = None" using Cons.prems(2) 3 by (auto simp: a accepts_ok_def)
    have "link_inv ?st ps" "nodes ?st p = None" "k \<in> open_fds ?st" "watched ?st k = None"
      using link_inv_open [OF Cons.prems(1)] k link_inv_closed [OF Cons.prems(1) k(1)] by simp_all
    from insert_sockarr_inv [OF this, of func] obtain st1 where
      st1: "insert_sockarr k func True (Some p) ?st = Inr (Some p, st1)" "link_inv st1 (ps @ [p])"
        "watched st1 = (watched st)(k \<mapsto> p)" "open_fds st1 = insert k (open_fds st)"
      by auto
    have "dom (nodes st1) = insert p (dom (nodes st))" using insert_sockarr_nodes [OF st1(1)] by simp
    then have n: "nodes st1 q = None \<longleftrightarrow> q \<noteq> p \<and> nodes st q = None" for q by blast
    have "accepts_ok as st1" using Cons.prems(2) 3 by (auto simp: a accepts_ok_def n st1(4))
    from Cons.IH [OF st1(2) this] obtain st2 where
      st2: "accept_loop func as st1 = Inr st2" "link_inv st2 ((ps @ [p]) @ map snd (accepted as))"
        "\<forall>(k, p)\<in>set (accepted as). watched st2 k = Some p"
        "\<forall>j. j \<notin> fst ` set (accepted as) \<longrightarrow> watched st2 j = watched st1 j"
      by blast
    have "fst ` set (accepted as) \<subseteq> fst ` set as" by (force simp: accepted_def)
    moreover have "k \<notin> fst ` set as" using Cons.prems(2) 3(1) by (simp add: a accepts_ok_def)
    ultimately have "k \<notin> fst ` set (accepted as)" by blast
    then show ?thesis
      using st1(1,3) st2 3 e by (auto simp: a tcp_accept_def)
  qed
qed

end
