(* ===== verification/Loop_Run.thy ===== *)
theory Loop_Run
  imports Event_Loop Ap_Net Ac_Net
begin

text \<open>
  The event loop of both programs: what the registered functions are, and that the callbacks of
  \<^verbatim>\<open>ap/net.c\<close> and \<^verbatim>\<open>ac/net.c\<close> meet the contract of the event loop, so that the thread \<^verbatim>\<open>net_recv\<close>
  of either program runs on. The other threads rest meanwhile.
\<close>

section \<open>What a callback gets from outside\<close>

text \<open>
  The result of \<^verbatim>\<open>malloc\<close> for the message with the content of its data area, the result of
  \<^verbatim>\<open>calloc\<close> for a node of the table, and what the kernel has received on the socket.
\<close>

record cb_env =
  cb_alloc :: "ptr option"
  cb_mem :: "byte list"
  cb_node :: "ptr option"
  cb_frame :: "byte list option"
  cb_recv :: "recv_answer list"

text \<open>
  A benign environment: \<^verbatim>\<open>malloc\<close> fails or returns an area of the size asked for, \<^verbatim>\<open>calloc\<close> succeeds, the
  receive socket delivers frames of the protocol it is bound to, and a connection has nothing
  more to read or fails before the peer closes it and before more bytes arrive than the buffer has.
\<close>

definition delivers :: "recv_answer list \<Rightarrow> bool" where
  "delivers as \<longleftrightarrow> length (received as) \<le> NET_PKT_DATALEN \<and>
     (case stopped_by as of None \<Rightarrow> False | Some a \<Rightarrow> a \<noteq> Closed)"

definition frame_ok :: "byte list \<Rightarrow> bool" where
  "frame_ok f \<longleftrightarrow> length f < ETH_HLEN \<or> slice 12 2 f = ETH_INNO"

definition cb_ok :: "cb_env \<Rightarrow> bool" where
  "cb_ok e \<longleftrightarrow> NET_PKT_DATALEN \<le> length (cb_mem e) \<and> cb_node e \<noteq> None \<and>
     (\<exists>f. cb_frame e = Some f \<and> frame_ok f) \<and> delivers (cb_recv e)"

text \<open>The memory that the calls from \<open>k\<close> on get is new for the queue \<open>q\<close>, and not handed out twice.\<close>

definition allocs_fresh :: "(nat \<Rightarrow> cb_env) \<Rightarrow> nat \<Rightarrow> bool" where
  "allocs_fresh envs k \<longleftrightarrow> (\<forall>j p. k \<le> j \<longrightarrow> cb_alloc (envs j) = Some p \<longrightarrow>
     (\<forall>i. k \<le> i \<longrightarrow> i < j \<longrightarrow> cb_alloc (envs i) \<noteq> Some p))"

definition allocs_for :: "(nat \<Rightarrow> cb_env) \<Rightarrow> nat \<Rightarrow> msg_queue \<Rightarrow> bool" where
  "allocs_for envs k q \<longleftrightarrow> (\<forall>j p. k \<le> j \<longrightarrow> cb_alloc (envs j) = Some p \<longrightarrow> queue_fresh q p)"

lemma allocs_fresh_Suc: "allocs_fresh envs k \<Longrightarrow> allocs_fresh envs (Suc k)"
  by (auto simp: allocs_fresh_def dest: Suc_leD)

lemma allocs_for_Suc: "allocs_for envs k q \<Longrightarrow> allocs_for envs (Suc k) q"
  by (auto simp: allocs_for_def dest: Suc_leD)

lemma allocs_for_insert:
  assumes "allocs_for envs k q" "allocs_fresh envs k" "cb_alloc (envs k) = Some p" "cells q' = (cells q)(p \<mapsto> m)"
  shows "allocs_for envs (Suc k) q'"
proof -
  have "cb_alloc (envs j) \<noteq> Some p" if "Suc k \<le> j" for j
    using assms(2,3) that unfolding allocs_fresh_def by (metis Suc_le_eq order_refl less_imp_le)
  then show ?thesis
    using assms(1,4) by (auto simp: allocs_for_def queue_fresh_def dest: Suc_leD)
qed

lemma dll_rcv_benign:
  assumes "dll_wf hw dll" "\<not> rcv_locked dll" "frame_ok f"
  shows "\<exists>ret buf dll'. dll_rcv DLL_PKT_DATALEN (Some f) dll = Inr (ret, buf, dll') \<and> dll_wf hw dll' \<and>
     \<not> rcv_locked dll' \<and> (case buf of None \<Rightarrow> ret < int ETH_HLEN | Some b \<Rightarrow> length b = DLL_PKT_DATALEN)"
proof -
  let ?n = "min (length f) DLL_PKT_MAXLEN" and ?pkt = "put_at 0 (take DLL_PKT_MAXLEN f) (rcvpkt dll)"
  have m: "length (rcvpkt dll) = DLL_PKT_MAXLEN" using assms(1) by (simp add: dll_wf_def)
  then have l: "length ?pkt = DLL_PKT_MAXLEN" by (simp add: length_put_at)
  have wf: "dll_wf hw (dll\<lparr>rcvpkt := ?pkt\<rparr>)" using assms(1) l by (simp add: dll_wf_def)
  have lt: "(word_of_int (int ?n) :: 64 word) < of_nat ETH_HLEN \<longleftrightarrow> ?n < ETH_HLEN"
    by (simp add: word_less_nat_alt dll_lens unat_of_nat take_bit_nat_eq_self)
  show ?thesis
  proof (cases "?n < ETH_HLEN")
    case True
    then show ?thesis
      using assms(2) wf lt by (simp add: dll_rcv_def Let_def)
  next
    case False
    then have "slice 12 2 f = ETH_INNO" "14 \<le> length f"
      using assms(3) by (auto simp: frame_ok_def dll_lens)
    then have "slice 12 2 ?pkt = ETH_INNO"
      using m by (simp add: put_at_0 slice_def dll_lens drop_take)
    then show ?thesis
      using False assms(2) wf lt l
      by (auto simp: dll_rcv_def Let_def length_slice dll_lens)
  qed
qed

lemma tcp_rcv_benign:
  assumes "0 \<le> sock" "NET_PKT_DATALEN \<le> length buf" "delivers as"
  shows "tcp_rcv sock buf NET_PKT_DATALEN as = Some (Inr (length (received as), put_at 0 (received as) buf))"
  using assms(3) tcp_rcv_spec [OF assms(1,2), of as] by (auto simp: delivers_def split: option.splits)

section \<open>The access point\<close>

text \<open>\<open>envs k\<close> is what the \<open>k\<close>-th call gets; the list of sockets is shared.\<close>

definition ap_call :: "(nat \<Rightarrow> cb_env) \<Rightarrow> ap_func \<Rightarrow> ptr \<Rightarrow> (nat \<times> ap_state \<times> msg_queue) \<times> ap_func link_state \<Rightarrow>
    ((nat \<times> ap_state \<times> msg_queue) \<times> ap_func link_state) res option" where
  "ap_call envs f p s =
     (let ((k, st, q), socks) = s; e = envs k; sq = (st\<lparr>ap_links := socks\<rparr>, q) in
      bind_ro (case f of
          Net_dllrecv \<Rightarrow> Some (ap_net_dllrecv (cb_alloc e) (cb_mem e) (cb_frame e) sq)
        | Net_netrcv \<Rightarrow> (case nodes socks p of
            None \<Rightarrow> Some (Inl UseAfterFree)
          | Some n \<Rightarrow> ap_net_netrcv n (cb_alloc e) (cb_mem e) (cb_recv e) sq))
        (\<lambda>(st, q). Some (Inr ((k + 1, st, q), ap_links st))))"

text \<open>The only connection that the access point watches is the one to its controller.\<close>

definition one_connection :: "ap_func link_state \<Rightarrow> int \<Rightarrow> bool" where
  "one_connection socks sock \<longleftrightarrow> (\<forall>p n. nodes socks p = Some n \<longrightarrow>
     0 \<le> sa_sock n \<and> (sa_func n = Net_netrcv \<longrightarrow> sa_sock n = sock))"

definition ap_loop_inv :: "(nat \<Rightarrow> cb_env) \<Rightarrow> (nat \<times> ap_state \<times> msg_queue) \<times> ap_func link_state \<Rightarrow> bool" where
  "ap_loop_inv envs s \<longleftrightarrow> (let ((k, st, q), socks) = s in
     dll_wf (my_mac st) (ap_dll st) \<and> \<not> rcv_locked (ap_dll st) \<and> (\<exists>pms. queue_holds q pms) \<and>
     (\<forall>j\<ge>k. cb_ok (envs j)) \<and> allocs_fresh envs k \<and> allocs_for envs k q \<and>
     one_connection socks (ss_sock (sysstat st)))"

lemma ap_receive_fresh:
  assumes "queue_holds q pms" "allocs_for envs k q" "allocs_fresh envs k" "cb_alloc (envs k) = Some p"
  shows "\<exists>q'. ap_receive p m q = Inr q' \<and> queue_holds q' (pms @ [(p, m)]) \<and> allocs_for envs (Suc k) q'"
proof -
  have "queue_fresh q p" using assms(2,4) by (auto simp: allocs_for_def)
  from queue_holds_ap_receive [OF assms(1) this, of m] obtain q' where
    "ap_receive p m q = Inr q'" "queue_holds q' (pms @ [(p, m)])" by blast
  with allocs_for_insert [OF assms(2-4) ap_receive_cells] show ?thesis by blast
qed

lemma one_connection_deleted:
  assumes "link_inv socks (xs @ p # ys)" "one_connection socks sock" "sock_of socks p = sock"
    and "nodes socks' = (nodes socks)(p := None)"
  shows "one_connection socks' (-1)"
proof -
  have "sa_func n \<noteq> Net_netrcv \<and> 0 \<le> sa_sock n" if "nodes socks' q = Some n" for q n
  proof -
    have q: "nodes socks q = Some n" "q \<noteq> p" using that assms(4) by (auto split: if_splits)
    then have "q \<in> set (xs @ p # ys)" using assms(1) by (auto simp: link_inv_def)
    moreover have "inj_on (sock_of socks) (set (xs @ p # ys))"
      using assms(1) unfolding link_inv_def distinct_map by blast
    ultimately have "sock_of socks q \<noteq> sock_of socks p"
      using q(2) by (metis in_set_conv_decomp inj_onD)
    then have "sa_sock n \<noteq> sock" using assms(3) q(1) by (simp add: sock_of_def)
    then show ?thesis using assms(2) q(1) by (auto simp: one_connection_def)
  qed
  then show ?thesis by (auto simp: one_connection_def)
qed

lemma ap_lost_conn_local:
  assumes "link_inv socks ps" "one_connection socks (ss_sock (sysstat st))" "nodes socks p = Some n"
    and "sa_func n = Net_netrcv"
  shows "\<exists>st' ps'. ap_lost_conn (st\<lparr>ap_links := socks\<rparr>, q) = Some (Inr (st', q)) \<and>
     link_inv (ap_links st') ps' \<and> set ps - {p} \<subseteq> set ps' \<and> one_connection (ap_links st') (ss_sock (sysstat st')) \<and>
     my_mac st' = my_mac st \<and> ap_dll st' = ap_dll st"
proof -
  have "p \<in> set ps" using assms(1,3) by (auto simp: link_inv_def)
  then obtain xs ys where ps: "ps = xs @ p # ys" by (auto dest: split_list)
  have s: "sock_of socks p = ss_sock (sysstat st)"
    using assms(2-4) by (simp add: one_connection_def sock_of_def)
  obtain socks' where d: "delete_sockarr (ss_sock (sysstat st)) socks = Some (Inr socks')" "link_inv socks' (xs @ ys)"
    "nodes socks' = (nodes socks)(p := None)"
    using delete_sockarr_hit [OF assms(1) [unfolded ps] s] by blast
  from one_connection_deleted [OF assms(1) [unfolded ps] assms(2) s d(3)] d(1,2) show ?thesis
    by (auto simp: ap_lost_conn_def ac_lost_def ps)
qed

lemma ap_call_local:
  assumes J: "ap_loop_inv envs ((k, st, q), socks)" and inv: "link_inv socks ps" and n: "nodes socks p = Some n"
  shows "\<exists>w' socks' ps'. ap_call envs (sa_func n) p ((k, st, q), socks) = Some (Inr (w', socks')) \<and>
     ap_loop_inv envs (w', socks') \<and> link_inv socks' ps' \<and> set ps - {p} \<subseteq> set ps'"
proof -
  have dll: "dll_wf (my_mac st) (ap_dll st)" "\<not> rcv_locked (ap_dll st)"
    and env: "\<forall>j\<ge>k. cb_ok (envs j)" "allocs_fresh envs k" "allocs_for envs k q"
    and one: "one_connection socks (ss_sock (sysstat st))"
    using J by (simp_all add: ap_loop_inv_def)
  obtain pms where q: "queue_holds q pms" using J by (auto simp: ap_loop_inv_def)
  have next': "\<forall>j\<ge>Suc k. cb_ok (envs j)" "allocs_fresh envs (Suc k)" "allocs_for envs (Suc k) q"
    using env by (auto simp: allocs_fresh_Suc allocs_for_Suc)
  have cb: "cb_ok (envs k)" using env(1) by simp
  have got: "\<exists>q'. (case cb_alloc (envs k) of None \<Rightarrow> q' = q | Some p \<Rightarrow> ap_receive p m q = Inr q') \<and>
      (\<exists>pms. queue_holds q' pms) \<and> allocs_for envs (Suc k) q'" for m
    using ap_receive_fresh [OF q env(3,2), of _ m] q next'(3) by (cases "cb_alloc (envs k)") auto
  show ?thesis
  proof (cases "sa_func n")
    case Net_dllrecv
    obtain f where f: "cb_frame (envs k) = Some f" "frame_ok f" using cb by (auto simp: cb_ok_def)
    obtain ret buf dll' where r: "dll_rcv DLL_PKT_DATALEN (Some f) (ap_dll st) = Inr (ret, buf, dll')"
      "dll_wf (my_mac st) dll'" "\<not> rcv_locked dll'"
      using dll_rcv_benign [OF dll f(2)] by blast
    define m where "m = \<lparr>proto = MSG_PROTO_ETH, msg_len = ret, data = (case buf of None \<Rightarrow> cb_mem (envs k) | Some b \<Rightarrow> b)\<rparr>"
    obtain q' where q': "case cb_alloc (envs k) of None \<Rightarrow> q' = q | Some p \<Rightarrow> ap_receive p m q = Inr q'"
      "\<exists>pms. queue_holds q' pms" "allocs_for envs (Suc k) q'"
      using got by blast
    have "\<exists>dll2 q2. ap_net_dllrecv (cb_alloc (envs k)) (cb_mem (envs k)) (cb_frame (envs k)) (st\<lparr>ap_links := socks\<rparr>, q) =
        Inr (st\<lparr>ap_links := socks, ap_dll := dll2\<rparr>, q2) \<and> dll_wf (my_mac st) dll2 \<and> \<not> rcv_locked dll2 \<and>
        (\<exists>pms. queue_holds q2 pms) \<and> allocs_for envs (Suc k) q2"
    proof (cases "cb_alloc (envs k)")
      case None
      then show ?thesis using dll q next'(3)
        by (intro exI [of _ "ap_dll st"] exI [of _ q]) (auto simp: ap_net_dllrecv_def)
    next
      case (Some a)
      show ?thesis
      proof (cases "ret < int ETH_HLEN")
        case True
        then show ?thesis using Some f(1) r q next'(3)
          by (intro exI [of _ dll'] exI [of _ q]) (auto simp: ap_net_dllrecv_def Let_def)
      next
        case False
        then show ?thesis using Some f(1) r q'
          by (intro exI [of _ dll'] exI [of _ q']) (auto simp: ap_net_dllrecv_def Let_def m_def)
      qed
    qed
    then show ?thesis
      using Net_dllrecv inv next'(1,2) one by (force simp: ap_call_def ap_loop_inv_def Let_def)
  next
    case Net_netrcv
    note lost1 = ap_lost_conn_local [OF inv one n Net_netrcv, of q]
    have "0 \<le> sa_sock n" using one n by (simp add: one_connection_def)
    define bs where "bs = received (cb_recv (envs k))"
    have bs: "tcp_rcv (sa_sock n) (cb_mem (envs k)) NET_PKT_DATALEN (cb_recv (envs k)) =
        Some (Inr (length bs, put_at 0 bs (cb_mem (envs k))))"
      using tcp_rcv_benign [OF \<open>0 \<le> sa_sock n\<close>] cb by (simp add: cb_ok_def bs_def)
    define m where "m = \<lparr>proto = MSG_PROTO_TCP, msg_len = int (length bs), data = put_at 0 bs (cb_mem (envs k))\<rparr>"
    obtain q' where q': "case cb_alloc (envs k) of None \<Rightarrow> q' = q | Some p \<Rightarrow> ap_receive p m q = Inr q'"
      "\<exists>pms. queue_holds q' pms" "allocs_for envs (Suc k) q'"
      using got by blast
    consider (lost) "ap_net_netrcv n (cb_alloc (envs k)) (cb_mem (envs k)) (cb_recv (envs k)) (st\<lparr>ap_links := socks\<rparr>, q) =
        ap_lost_conn (st\<lparr>ap_links := socks\<rparr>, q)"
      | (kept) q2 where "ap_net_netrcv n (cb_alloc (envs k)) (cb_mem (envs k)) (cb_recv (envs k)) (st\<lparr>ap_links := socks\<rparr>, q) =
        Some (Inr (st\<lparr>ap_links := socks\<rparr>, q2))" "\<exists>pms. queue_holds q2 pms" "allocs_for envs (Suc k) q2"
    proof (cases "epoll_error (retevents n) \<or> cb_alloc (envs k) \<noteq> None \<and> bs = []")
      case True
      with bs show ?thesis by (intro that(1)) (auto simp: ap_net_netrcv_def)
    next
      case False
      with bs q' show ?thesis by (intro that(2) [of q']) (auto simp: ap_net_netrcv_def m_def split: option.splits)
    qed
    then show ?thesis
    proof cases
      case lost
      with lost1 show ?thesis
        using Net_netrcv n dll q next' by (force simp: ap_call_def ap_loop_inv_def Let_def)
    next
      case kept
      then show ?thesis
        using Net_netrcv n inv dll next'(1,2) one by (force simp: ap_call_def ap_loop_inv_def Let_def)
    qed
  qed
qed

interpretation ap_loop: local_callbacks "ap_call envs" "ap_loop_inv envs" for envs
proof (unfold_locales, goal_cases)
  case (1 w st p n ev)
  then show ?case by (cases w) (auto simp: ap_loop_inv_def one_connection_def)
next
  case (2 w st ps p n)
  then show ?case by (cases w) (use ap_call_local in blast)
qed

section \<open>The controller\<close>

text \<open>
  The table between two calls: no lock is held, every node has a well-formed queue, and that of an
  idle bucket is empty.
\<close>

definition table_ok :: "hash_state \<Rightarrow> bool" where
  "table_ok tbl \<longleftrightarrow> hash_inv tbl \<and> (\<forall>i. \<not> held tbl i) \<and>
     (\<forall>r n. get_node tbl r = Some n \<longrightarrow> (\<exists>pms. queue_holds (queue n) pms)) \<and>
     (\<forall>i. key (buckets tbl i) = IDLE_AP \<longrightarrow> queue_holds (queue (buckets tbl i)) [])"

definition allocs_table :: "(nat \<Rightarrow> cb_env) \<Rightarrow> nat \<Rightarrow> hash_state \<Rightarrow> bool" where
  "allocs_table envs k tbl \<longleftrightarrow> (\<forall>r n. get_node tbl r = Some n \<longrightarrow> allocs_for envs k (queue n))"

definition ac_call :: "(nat \<Rightarrow> cb_env) \<Rightarrow> ac_func \<Rightarrow> ptr \<Rightarrow> (nat \<times> ac_state \<times> hash_state) \<times> ac_func link_state \<Rightarrow>
    ((nat \<times> ac_state \<times> hash_state) \<times> ac_func link_state) res option" where
  "ac_call envs f p s =
     (let ((k, st, tbl), socks) = s; e = envs k; sh = (st\<lparr>ac_links := socks\<rparr>, tbl) in
      bind_ro (case f of
          Ac_dllrecv \<Rightarrow> ac_net_dllrecv (cb_alloc e) (cb_mem e) (cb_node e) (cb_frame e) sh
        | Ac_netrcv \<Rightarrow> (case nodes socks p of
            None \<Rightarrow> Some (Inl UseAfterFree)
          | Some n \<Rightarrow> ac_net_netrcv n (cb_alloc e) (cb_mem e) (cb_node e) (cb_recv e) sh))
        (\<lambda>(st, tbl). Some (Inr ((k + 1, st, tbl), ac_links st))))"

definition ac_loop_inv :: "(nat \<Rightarrow> cb_env) \<Rightarrow> (nat \<times> ac_state \<times> hash_state) \<times> ac_func link_state \<Rightarrow> bool" where
  "ac_loop_inv envs s \<longleftrightarrow> (let ((k, st, tbl), socks) = s in
     ac_wf st \<and> \<not> rcv_locked (ac_dll st) \<and> table_ok tbl \<and> (\<forall>j\<ge>k. cb_ok (envs j)) \<and>
     allocs_fresh envs k \<and> allocs_table envs k tbl \<and> (\<forall>p n. nodes socks p = Some n \<longrightarrow> 0 \<le> sa_sock n))"

lemma get_node_upd:
  "get_node (upd_node r f tbl) r' = (if r' = r then map_option f (get_node tbl r) else get_node tbl r')"
  by (cases r; cases r') auto

lemma table_ok_upd:
  assumes "table_ok tbl" "get_node tbl r = Some n" "\<And>i. r = Bucket i \<Longrightarrow> key n \<noteq> IDLE_AP"
    and "key (f n) = key n" "apnext (f n) = apnext n" "length (ap_mac (ap (f n))) = ETH_ALEN"
    and "queue_holds (queue (f n)) pms"
  shows "table_ok (upd_node r f tbl)"
proof -
  have "hash_inv (upd_node r f tbl)" "held (upd_node r f tbl) = held tbl"
    using assms by (cases r; auto simp: table_ok_def hash_inv_def)+
  moreover have "\<exists>pms. queue_holds (queue n') pms" if "get_node (upd_node r f tbl) r' = Some n'" for r' n'
    using that assms(1,2,7) by (auto simp: get_node_upd table_ok_def split: if_splits)
  moreover have "queue_holds (queue (buckets (upd_node r f tbl) i)) []"
    if "key (buckets (upd_node r f tbl) i) = IDLE_AP" for i
    using that assms(1-4) by (cases r) (auto simp: table_ok_def split: if_splits)
  ultimately show ?thesis using assms(1) by (simp add: table_ok_def)
qed

lemma ac_receive_cells: "ac_receive p m q = Inr q' \<Longrightarrow> cells q' = (cells q)(p \<mapsto> m)"
  by (auto simp: ac_receive_def ac_message_insert_def message_malloc_def Let_def split: if_splits)

lemma queue_packet_ok:
  assumes t: "table_ok tbl" "get_node tbl r = Some n" "\<And>i. r = Bucket i \<Longrightarrow> key n \<noteq> IDLE_AP"
    and f: "length (ap_mac (f (ap n))) = ETH_ALEN"
    and a: "allocs_table envs k tbl" "allocs_fresh envs k" "cb_alloc (envs k) = Some p"
  shows "\<exists>tbl'. queue_packet r f p m (st, tbl) = Inr (st, tbl') \<and> table_ok tbl' \<and> allocs_table envs (Suc k) tbl'"
proof -
  obtain pms where q: "queue_holds (queue n) pms" using t(1,2) unfolding table_ok_def by blast
  have al: "allocs_for envs k (queue n)" using a(1) t(2) by (auto simp: allocs_table_def)
  then have "queue_fresh (queue n) p" using a(3) by (auto simp: allocs_for_def)
  from queue_holds_ac_receive [OF q this, of m] obtain q' where
    q': "ac_receive p m (queue n) = Inr q'" "queue_holds q' (pms @ [(p, m)])" by blast
  let ?g = "\<lambda>n. n\<lparr>ap := f (ap n)\<rparr>" and ?h = "\<lambda>n. n\<lparr>queue := q'\<rparr>"
  let ?t = "upd_node r ?h (upd_node r ?g tbl)"
  have "queue_packet r f p m (st, tbl) = Inr (st, ?t)"
    using q'(1) t(2) by (simp add: queue_packet_def node_receive_def on_node_def get_node_upd)
  moreover have "table_ok (upd_node r ?g tbl)"
    by (rule table_ok_upd [OF t]) (use f q in auto)
  then have "table_ok ?t"
    by (rule table_ok_upd [where n = "?g n" and pms = "pms @ [(p, m)]"]) (use t(2,3) f q'(2) in \<open>auto simp: get_node_upd\<close>)
  moreover have "allocs_for envs (Suc k) q'"
    by (rule allocs_for_insert [OF al a(2,3) ac_receive_cells [OF q'(1)]])
  then have "allocs_table envs (Suc k) ?t"
    using a(1) t(2) by (auto simp: allocs_table_def get_node_upd allocs_for_Suc split: if_splits)
  ultimately show ?thesis by blast
qed

lemma allocs_for_zero: "cells q = (\<lambda>_. None) \<Longrightarrow> allocs_for envs k q"
  by (simp add: allocs_for_def queue_fresh_def)

lemma hash_ap_ok:
  assumes t: "table_ok tbl" and a: "allocs_table envs k tbl" and hw: "length hw = 6" and c: "alloc = Some c"
  shows "\<exists>r tbl' n. hash_ap hw alloc tbl = Some (Inr (Some r, tbl')) \<and> table_ok tbl' \<and> allocs_table envs k tbl' \<and>
     get_node tbl' r = Some n \<and> (\<forall>i. r = Bucket i \<longrightarrow> key n \<noteq> IDLE_AP)"
proof -
  let ?i = "hash_key hw 6"
  have inv: "hash_inv tbl" and free: "\<not> held tbl ?i" using t by (simp_all add: table_ok_def)
  have idle: "?i \<noteq> IDLE_AP" using hash_key_bound [of hw 6] by (simp add: IDLE_AP_def)
  let ?b = "buckets tbl ?i"
  obtain pms where q: "queue_holds (queue ?b) pms" "key ?b = IDLE_AP \<Longrightarrow> pms = []"
    using t get_node.simps(1) [of tbl ?i] unfolding table_ok_def by metis
  have al: "allocs_for envs k (queue ?b)"
    using a get_node.simps(1) [of tbl ?i] unfolding allocs_table_def by blast
  consider (idle) "key ?b = IDLE_AP" | (hit) "key ?b \<noteq> IDLE_AP" "strncmp_eq ETH_ALEN (ap_mac (ap ?b)) hw"
    | (miss) "key ?b \<noteq> IDLE_AP" "\<not> strncmp_eq ETH_ALEN (ap_mac (ap ?b)) hw"
    by blast
  then show ?thesis
  proof cases
    case idle
    let ?n = "?b\<lparr>key := ?i, queue := (queue ?b)\<lparr>tail := HeadSlot\<rparr>, ap := (ap ?b)\<lparr>ap_mac := hw\<rparr>\<rparr>"
    let ?t = "hash_new (Bucket ?i) ?i hw tbl"
    have "tail (queue ?b) = HeadSlot" using q idle by (simp add: queue_holds_Nil queue_rel_def chain_rel_def)
    then have same: "(queue ?b)\<lparr>tail := HeadSlot\<rparr> = queue ?b" by simp
    have n: "get_node ?t r = (if r = Bucket ?i then Some ?n else get_node tbl r)" for r
      using hw by (cases r) (simp_all add: hash_new_def Let_def)
    have "table_ok ?t"
      using t q idle hash_inv_new_bucket [OF inv, of hw ?i] hw \<open>?i \<noteq> IDLE_AP\<close>
      unfolding table_ok_def n by (auto simp: same hash_new_def Let_def)
    moreover have "allocs_table envs k ?t"
      using a al by (auto simp: allocs_table_def n same)
    ultimately show ?thesis
      using hash_ap_idle [OF free idle, of alloc] n [of "Bucket ?i"] \<open>?i \<noteq> IDLE_AP\<close>
      by (intro exI [of _ "Bucket ?i"] exI [of _ ?t] exI [of _ ?n]) simp
  next
    case hit
    then show ?thesis
      using hash_ap_hit [OF inv free refl hit, of alloc] t a
      by (intro exI [of _ "Bucket ?i"] exI [of _ tbl] exI [of _ ?b]) simp
  next
    case miss
    let ?t1 = "tbl\<lparr>conflict_count := conflict_count tbl + 1\<rparr>"
    let ?t = "hash_new (Node c) ?i hw (hash_alloc c ?t1)"
    let ?n = "zero_node\<lparr>apnext := Some (Node c), key := ?i\<rparr>" and ?m = "?b\<lparr>ap := (ap ?b)\<lparr>ap_mac := hw\<rparr>\<rparr>"
    have n: "get_node ?t r = (if r = Node c then Some ?n else if r = Bucket ?i then Some ?m else get_node tbl r)" for r
      using hw by (cases r) (simp_all add: hash_new_def hash_alloc_def Let_def zero_node_def zero_queue_def)
    have z: "queue_holds (queue ?n) []" "cells (queue ?n) = (\<lambda>_. None)"
      by (simp_all add: zero_node_def zero_queue_def queue_holds_Nil queue_rel_def chain_rel_def)
    have "hash_inv ?t1" using inv by simp
    then have "hash_inv ?t" using miss(1) hw by (simp add: hash_inv_new_node)
    moreover have "\<exists>pms. queue_holds (queue n') pms" if g: "get_node ?t r = Some n'" for r n'
    proof -
      consider "n' = ?n" | "n' = ?m" | "get_node tbl r = Some n'"
        using trans [OF n [symmetric] g] by (metis (lifting) option.inject)
      then show ?thesis
      proof cases
        case 1
        then show ?thesis using z(1) by blast
      next
        case 2
        have "queue ?m = queue ?b" by simp
        then show ?thesis using q(1) 2 by metis
      next
        case 3
        then show ?thesis using t unfolding table_ok_def by blast
      qed
    qed
    moreover have "buckets ?t = (buckets tbl)(?i := ?m)" "held ?t = held tbl"
      using hw by (simp_all add: hash_new_def hash_alloc_def Let_def)
    ultimately have "table_ok ?t"
      using t miss(1) unfolding table_ok_def by simp
    moreover have "allocs_table envs k ?t"
      using a al allocs_for_zero [OF z(2)] by (auto simp: allocs_table_def n split: if_splits)
    moreover have "hash_ap hw alloc tbl = Some (Inr (Some (Node c), ?t))"
      using hash_ap_miss [OF inv free refl miss, of alloc] c by (simp add: Let_def)
    ultimately show ?thesis
      using n [of "Node c"] by (intro exI [of _ "Node c"] exI [of _ ?t] exI [of _ ?n]) simp
  qed
qed

text \<open>A packet that a callback has read is queued at the node of its access point.\<close>

lemma packet_queued:
  assumes t: "table_ok tbl" "allocs_table envs k tbl" "allocs_fresh envs k" "cb_alloc (envs k) = Some p"
    and hw: "length hw = 6" and node: "cb_node (envs k) \<noteq> None"
    and f: "\<And>a. length (ap_mac a) = ETH_ALEN \<Longrightarrow> length (ap_mac (f a)) = ETH_ALEN"
  shows "\<exists>r tbl1 tbl2. hash_ap hw (cb_node (envs k)) tbl = Some (Inr (Some r, tbl1)) \<and>
     queue_packet r f p m (st, tbl1) = Inr (st, tbl2) \<and> table_ok tbl2 \<and> allocs_table envs (Suc k) tbl2"
proof -
  obtain c where c: "cb_node (envs k) = Some c" using node by blast
  obtain r tbl1 n where h: "hash_ap hw (cb_node (envs k)) tbl = Some (Inr (Some r, tbl1))" "table_ok tbl1"
    "allocs_table envs k tbl1" "get_node tbl1 r = Some n" "\<And>i. r = Bucket i \<Longrightarrow> key n \<noteq> IDLE_AP"
    using hash_ap_ok [OF t(1,2) hw c] c by auto
  have "length (ap_mac (ap n)) = ETH_ALEN"
    using h(2,4) by (cases r) (auto simp: table_ok_def hash_inv_def)
  from queue_packet_ok [where f = f and m = m and st = st, OF h(2,4,5) f [OF this] h(3) t(3,4)] h(1) show ?thesis by auto
qed

lemma ac_lost_conn_local:
  assumes "link_inv socks ps" "nodes socks p = Some n" "\<forall>p n. nodes socks p = Some n \<longrightarrow> 0 \<le> sa_sock n"
  shows "\<exists>socks' ps'. ac_lost_conn (sa_sock n) (st\<lparr>ac_links := socks\<rparr>, tbl) = Some (Inr (st\<lparr>ac_links := socks'\<rparr>, tbl)) \<and>
     link_inv socks' ps' \<and> set ps - {p} \<subseteq> set ps' \<and> (\<forall>p n. nodes socks' p = Some n \<longrightarrow> 0 \<le> sa_sock n)"
proof -
  have "p \<in> set ps" using assms(1,2) by (auto simp: link_inv_def)
  then obtain xs ys where ps: "ps = xs @ p # ys" by (auto dest: split_list)
  have "sock_of socks p = sa_sock n" using assms(2) by (simp add: sock_of_def)
  from delete_sockarr_hit [OF assms(1) [unfolded ps] this] obtain socks' where
    "delete_sockarr (sa_sock n) socks = Some (Inr socks')" "link_inv socks' (xs @ ys)"
    "nodes socks' = (nodes socks)(p := None)" by blast
  then show ?thesis
    using assms(3) by (intro exI [of _ socks'] exI [of _ "xs @ ys"]) (auto simp: ac_lost_conn_def ap_lost_def ps)
qed

lemma ac_call_local:
  assumes J: "ac_loop_inv envs ((k, st, tbl), socks)" and inv: "link_inv socks ps" and n: "nodes socks p = Some n"
  shows "\<exists>w' socks' ps'. ac_call envs (sa_func n) p ((k, st, tbl), socks) = Some (Inr (w', socks')) \<and>
     ac_loop_inv envs (w', socks') \<and> link_inv socks' ps' \<and> set ps - {p} \<subseteq> set ps'"
proof -
  have st: "ac_wf st" "\<not> rcv_locked (ac_dll st)"
    and env: "\<forall>j\<ge>k. cb_ok (envs j)" "allocs_fresh envs k" "allocs_table envs k tbl"
    and t: "table_ok tbl" and socks: "\<forall>p n. nodes socks p = Some n \<longrightarrow> 0 \<le> sa_sock n"
    using J by (simp_all add: ac_loop_inv_def)
  have next': "\<forall>j\<ge>Suc k. cb_ok (envs j)" "allocs_fresh envs (Suc k)" "allocs_table envs (Suc k) tbl"
    using env by (auto simp: allocs_fresh_Suc allocs_table_def allocs_for_Suc)
  have cb: "cb_ok (envs k)" using env(1) by simp
  then have node: "cb_node (envs k) \<noteq> None" and mem: "NET_PKT_DATALEN \<le> length (cb_mem (envs k))"
    by (simp_all add: cb_ok_def)
  show ?thesis
  proof (cases "sa_func n")
    case Ac_dllrecv
    obtain f where f: "cb_frame (envs k) = Some f" "frame_ok f" using cb by (auto simp: cb_ok_def)
    have "dll_wf (ac_mac st) (ac_dll st)" using st(1) by (simp add: ac_wf_def)
    from dll_rcv_benign [OF this st(2) f(2)] obtain ret buf dll' where
      r: "dll_rcv DLL_PKT_DATALEN (Some f) (ac_dll st) = Inr (ret, buf, dll')" "dll_wf (ac_mac st) dll'"
        "\<not> rcv_locked dll'" "case buf of None \<Rightarrow> ret < int ETH_HLEN | Some b \<Rightarrow> length b = DLL_PKT_DATALEN"
      by blast
    let ?bytes = "case buf of None \<Rightarrow> cb_mem (envs k) | Some b \<Rightarrow> b"
    have "76 \<le> length ?bytes" using r(4) mem by (auto simp: dll_lens NET_PKT_DATALEN_def split: option.splits)
    then have hw: "length (mac (dec_head ?bytes)) = 6" using mac_dec_head_length [of ?bytes] by (simp add: ETH_ALEN_def)
    have "\<exists>dll2 tbl2. ac_net_dllrecv (cb_alloc (envs k)) (cb_mem (envs k)) (cb_node (envs k)) (cb_frame (envs k))
        (st\<lparr>ac_links := socks\<rparr>, tbl) = Some (Inr (st\<lparr>ac_links := socks, ac_dll := dll2\<rparr>, tbl2)) \<and>
        dll_wf (ac_mac st) dll2 \<and> \<not> rcv_locked dll2 \<and> table_ok tbl2 \<and> allocs_table envs (Suc k) tbl2"
    proof (cases "cb_alloc (envs k)")
      case None
      then show ?thesis using st t next'(3)
        by (intro exI [of _ "ac_dll st"] exI [of _ tbl]) (auto simp: ac_net_dllrecv_def ac_wf_def)
    next
      case (Some a)
      show ?thesis
      proof (cases "ret < int ETH_HLEN")
        case True
        then show ?thesis using Some f(1) r t next'(3)
          by (intro exI [of _ dll'] exI [of _ tbl]) (auto simp: ac_net_dllrecv_def Let_def)
      next
        case False
        then show ?thesis
          using packet_queued [OF t env(3,2) Some hw node, of "\<lambda>a. a\<lparr>ap_mac := mac (dec_head ?bytes)\<rparr>"
              "\<lparr>proto = MSG_PROTO_ETH, msg_len = ret, data = ?bytes\<rparr>" "st\<lparr>ac_links := socks, ac_dll := dll'\<rparr>"]
            hw Some f(1) r(1-3)
          by (force simp: ac_net_dllrecv_def Let_def ETH_ALEN_def)
      qed
    qed
    then show ?thesis
      using Ac_dllrecv inv next'(1,2) socks st(1) by (force simp: ac_call_def ac_loop_inv_def ac_wf_def Let_def)
  next
    case Ac_netrcv
    note lost1 = ac_lost_conn_local [OF inv n socks, of st tbl]
    have "0 \<le> sa_sock n" using socks n by blast
    define bs where "bs = received (cb_recv (envs k))"
    have bs: "tcp_rcv (sa_sock n) (cb_mem (envs k)) NET_PKT_DATALEN (cb_recv (envs k)) =
        Some (Inr (length bs, put_at 0 bs (cb_mem (envs k))))" "length bs \<le> NET_PKT_DATALEN"
      using tcp_rcv_benign [OF \<open>0 \<le> sa_sock n\<close>] cb by (simp_all add: cb_ok_def bs_def delivers_def)
    let ?bytes = "put_at 0 bs (cb_mem (envs k))" and ?st = "st\<lparr>ac_links := socks\<rparr>"
    have "76 \<le> length ?bytes" using bs(2) mem by (simp add: length_put_at NET_PKT_DATALEN_def)
    then have hw: "length (mac (dec_head ?bytes)) = 6" using mac_dec_head_length [of ?bytes] by (simp add: ETH_ALEN_def)
    let ?run = "ac_net_netrcv n (cb_alloc (envs k)) (cb_mem (envs k)) (cb_node (envs k)) (cb_recv (envs k)) (?st, tbl)"
    consider (lost) "?run = ac_lost_conn (sa_sock n) (?st, tbl)"
      | (kept) tbl2 where "?run = Some (Inr (?st, tbl2))" "table_ok tbl2" "allocs_table envs (Suc k) tbl2"
    proof (cases "epoll_error (retevents n) \<or> retevents n AND EPOLLIN \<noteq> 0 \<and> cb_alloc (envs k) \<noteq> None \<and> bs = []")
      case True
      with bs(1) show ?thesis by (intro that(1)) (auto simp: ac_net_netrcv_def)
    next
      case err: False
      show ?thesis
      proof (cases "retevents n AND EPOLLIN = 0 \<or> cb_alloc (envs k) = None")
        case True
        with err t next'(3) show ?thesis by (intro that(2) [of tbl]) (auto simp: ac_net_netrcv_def)
      next
        case False
        then obtain a where a: "cb_alloc (envs k) = Some a" by blast
        have "length (ap_mac (b\<lparr>ap_sock := sa_sock n\<rparr>)) = ETH_ALEN" if "length (ap_mac b) = ETH_ALEN" for b
          using that by simp
        from packet_queued [OF t env(3,2) a hw node, of "\<lambda>a. a\<lparr>ap_sock := sa_sock n\<rparr>"
            "\<lparr>proto = MSG_PROTO_TCP, msg_len = int (length bs), data = ?bytes\<rparr>" ?st, OF this]
        obtain r tbl1 tbl2 where q: "hash_ap (mac (dec_head ?bytes)) (cb_node (envs k)) tbl = Some (Inr (Some r, tbl1))"
          "queue_packet r (\<lambda>a. a\<lparr>ap_sock := sa_sock n\<rparr>) a
             \<lparr>proto = MSG_PROTO_TCP, msg_len = int (length bs), data = ?bytes\<rparr> (?st, tbl1) = Inr (?st, tbl2)"
          "table_ok tbl2" "allocs_table envs (Suc k) tbl2" by blast
        have "?run = Some (Inr (?st, tbl2))"
          using err False bs(1) a q(1,2) by (simp add: ac_net_netrcv_def Let_def)
        with q(3,4) show ?thesis by (intro that(2))
      qed
    qed
    then show ?thesis
    proof cases
      case lost
      with lost1 show ?thesis
        using Ac_netrcv n st t next' by (force simp: ac_call_def ac_loop_inv_def ac_wf_def Let_def)
    next
      case kept
      then show ?thesis
        using Ac_netrcv n inv st next'(1,2) socks by (force simp: ac_call_def ac_loop_inv_def ac_wf_def Let_def)
    qed
  qed
qed

interpretation ac_loop: local_callbacks "ac_call envs" "ac_loop_inv envs" for envs
proof (unfold_locales, goal_cases)
  case (1 w st p n ev)
  then show ?case by (cases w) (auto simp: ac_loop_inv_def)
next
  case (2 w st ps p n)
  then show ?case by (cases w) (use ac_call_local in blast)
qed

section \<open>Properties\<close>

text \<open>
  C14. The event loop of the controller runs on in a benign environment. Assume that every \<^verbatim>\<open>calloc\<close> of a table
  node succeeds, memory is not handed out twice, every frame read is of the protocol of the receive
  socket (or shorter than a header), and a ready connection has nothing more to read or fails before the peer closes it and before
  more than the 2048 bytes of the buffer arrive; \<^verbatim>\<open>malloc\<close> of a message may fail. Then, whatever watched sockets
  become ready with whatever events, in any number of rounds and with interrupted waits between them, every callback of
  \<^verbatim>\<open>ac/net.c\<close> returns without a fault and without leaving a lock held, the list of sockets agrees with
  epoll afterwards, and the table, all its queues and the buffers keep their invariants. Outside of these
  conditions the program does stop: \<open>tcp_rcv_abort\<close> and \<open>dll_rcv_loses_lock\<close> show it, and a failed \<^verbatim>\<open>calloc\<close>
  leaves the lock of its bucket locked.
\<close>

theorem controller_event_loop_runs:
  assumes st: "ac_wf st" "\<not> rcv_locked (ac_dll st)" and tbl: "table_ok tbl"
    and socks: "link_inv socks ps" "\<forall>p\<in>set ps. 0 \<le> sock_of socks p"
    and env: "\<forall>j. cb_ok (envs j)" "allocs_fresh envs 0" "allocs_table envs 0 tbl" "\<forall>a\<in>set as. wait_ok a"
  shows "\<exists>k st' tbl' socks' ps'. net_recv (ac_call envs) as ((0, st, tbl), socks) =
       Some (Inr ((k, st', tbl'), socks')) \<and> link_inv socks' ps' \<and> ac_wf st' \<and> \<not> rcv_locked (ac_dll st') \<and>
     table_ok tbl'"
proof -
  have "0 \<le> sa_sock n" if "nodes socks p = Some n" for p n
  proof -
    have "p \<in> set ps" using that socks(1) unfolding link_inv_def by blast
    then show ?thesis using that socks(2) by (auto simp: sock_of_def)
  qed
  then have J: "ac_loop_inv envs ((0, st, tbl), socks)"
    using st tbl env(1-3) by (simp add: ac_loop_inv_def)
  obtain w socks' ps' where "net_recv (ac_call envs) as ((0, st, tbl), socks) = Some (Inr (w, socks'))"
    "ac_loop_inv envs (w, socks')" "link_inv socks' ps'"
    using ac_loop.recv_runs [OF J socks(1) env(4)] by blast
  then show ?thesis by (cases w) (auto simp: ac_loop_inv_def)
qed

definition ex_socks :: "'f \<Rightarrow> 'f \<Rightarrow> 'f link_state" where
  "ex_socks f g = \<lparr>hd_ptr = Some 1, next_of = (\<lambda>_. None)(1 := Some 2), sa_tail = NextSlot 2,
     nodes = [1 \<mapsto> \<lparr>sa_sock = 5, sa_func = f, retevents = 0\<rparr>, 2 \<mapsto> \<lparr>sa_sock = 6, sa_func = g, retevents = 0\<rparr>],
     watched = [5 \<mapsto> 1, 6 \<mapsto> 2], open_fds = {5, 6}\<rparr>"

lemma ex_socks_inv: "link_inv (ex_socks f g) [1, 2]" "\<forall>p\<in>set [1, 2]. 0 \<le> sock_of (ex_socks f g) p"
  by (auto simp: ex_socks_def link_inv_def chain_rel_def end_slot_def sock_of_def)

definition ex_cb :: "nat \<Rightarrow> cb_env" where
  "ex_cb k = \<lparr>cb_alloc = Some (100 + k), cb_mem = replicate 2048 0, cb_node = Some 7,
     cb_frame = Some (eth_header ex_ac_mac ex_ap_mac @ replicate 96 (of_nat k)), cb_recv = [Got [1, 2, 3], Eagain]\<rparr>"

lemma ex_cb_ok: "cb_ok (ex_cb k)"
  by (simp add: cb_ok_def ex_cb_def delivers_def NET_PKT_DATALEN_def frame_ok_def slice_def eth_header_def ex_ac_mac_def ex_ap_mac_def
      ETH_INNO_def)

lemma ex_cb_fresh: "allocs_fresh ex_cb 0" by (simp add: allocs_fresh_def ex_cb_def)

theorem controller_event_loop_runs_witness:
  "\<exists>k st tbl socks ps. net_recv (ac_call ex_cb) [Ready [(5, 1), (6, 1)], Wait_failed True, Ready [(6, 8192), (9, 1)]]
       ((0, ex_ac, hash_init), ex_socks Ac_dllrecv Ac_netrcv) = Some (Inr ((k, st, tbl), socks)) \<and>
     link_inv socks ps \<and> table_ok tbl"
proof -
  have z: "queue_holds zero_queue []" "cells zero_queue = (\<lambda>_. None)"
    by (simp_all add: zero_queue_def queue_holds_Nil queue_rel_def chain_rel_def)
  have g: "get_node hash_init r = Some n \<Longrightarrow> queue n = zero_queue" for r n
    by (cases r) (auto simp: hash_init_def zero_node_def)
  have "table_ok hash_init"
    using hash_inv_init z g unfolding table_ok_def by (auto simp: hash_init_def zero_node_def)
  moreover have "allocs_table ex_cb 0 hash_init"
    using g allocs_for_zero [OF z(2)] by (auto simp: allocs_table_def)
  moreover have "\<not> rcv_locked (ac_dll ex_ac)" by (simp add: ex_ac_def init_pktbuf_def Let_def)
  moreover have "\<forall>a\<in>set [Ready [(5, 1), (6, 1)], Wait_failed True, Ready [(6, 8192), (9, 1)]]. wait_ok a" by simp
  ultimately show ?thesis
    using controller_event_loop_runs [OF ex_ac_wf _ _ ex_socks_inv _ ex_cb_fresh] ex_cb_ok by blast
qed

text \<open>
  C15. The event loop of the access point runs on under the same conditions on the environment (frames of the own
  protocol, a connection that has nothing more to read or fails before it is closed and before more than 2048 bytes arrive,
  memory not handed out twice; \<^verbatim>\<open>malloc\<close> may fail), as long as the connection to its controller is the only
  one that it watches: an error of the connection deletes it, and everything received is in the queue.
\<close>

theorem access_point_event_loop_runs:
  assumes st: "ap_wf st" "\<not> rcv_locked (ap_dll st)" and q: "queue_holds q pms"
    and socks: "link_inv socks ps" "one_connection socks (ss_sock (sysstat st))"
    and env: "\<forall>j. cb_ok (envs j)" "allocs_fresh envs 0" "allocs_for envs 0 q" "\<forall>a\<in>set as. wait_ok a"
  shows "\<exists>k st' q' pms' socks' ps'. net_recv (ap_call envs) as ((0, st, q), socks) =
       Some (Inr ((k, st', q'), socks')) \<and> link_inv socks' ps' \<and> one_connection socks' (ss_sock (sysstat st')) \<and>
     dll_wf (my_mac st') (ap_dll st') \<and> \<not> rcv_locked (ap_dll st') \<and> queue_holds q' pms'"
proof -
  have J: "ap_loop_inv envs ((0, st, q), socks)"
    using st q socks env(1-3) by (auto simp: ap_loop_inv_def ap_wf_def)
  obtain w socks' ps' where "net_recv (ap_call envs) as ((0, st, q), socks) = Some (Inr (w, socks'))"
    "ap_loop_inv envs (w, socks')" "link_inv socks' ps'"
    using ap_loop.recv_runs [OF J socks(1) env(4)] by blast
  then show ?thesis by (cases w) (auto simp: ap_loop_inv_def)
qed

theorem access_point_event_loop_runs_witness:
  "\<exists>k st q pms socks ps. net_recv (ap_call ex_cb) [Ready [(5, 1), (6, 1)], Wait_failed True, Ready [(6, 8192), (9, 1)]]
       ((0, ex_ap\<lparr>sysstat := (sysstat ex_ap)\<lparr>ss_sock := 6\<rparr>\<rparr>, ap_queue_init), ex_socks Net_dllrecv Net_netrcv) =
     Some (Inr ((k, st, q), socks)) \<and> link_inv socks ps \<and> queue_holds q pms"
proof -
  let ?st = "ex_ap\<lparr>sysstat := (sysstat ex_ap)\<lparr>ss_sock := 6\<rparr>\<rparr>"
  have "ap_wf ?st" using ex_ap_wf by (simp add: ap_wf_def)
  moreover have "\<not> rcv_locked (ap_dll ?st)" by (simp add: ex_ap_def ap_init_def init_pktbuf_def Let_def)
  moreover have "queue_holds ap_queue_init []"
    by (simp add: ap_queue_init_def queue_holds_Nil queue_rel_def chain_rel_def)
  moreover have "allocs_for ex_cb 0 ap_queue_init"
    by (rule allocs_for_zero) (simp add: ap_queue_init_def)
  moreover have "one_connection (ex_socks Net_dllrecv Net_netrcv) (ss_sock (sysstat ?st))"
    by (simp add: one_connection_def ex_socks_def)
  moreover have "\<forall>a\<in>set [Ready [(5, 1), (6, 1)], Wait_failed True, Ready [(6, 8192), (9, 1)]]. wait_ok a" by simp
  ultimately show ?thesis
    using access_point_event_loop_runs [of ?st ap_queue_init "[]", OF _ _ _ ex_socks_inv(1) _ _ ex_cb_fresh] ex_cb_ok by blast
qed

section \<open>The report thread and a fetched event\<close>

lemma ac_reconnect_fails:
  assumes "fst (tcp_connect (ss_server (sysstat st)) (e_connect env)) < 0"
  shows "\<exists>st'. ac_reconnect env st = Inr st' \<and> nodes (ap_links st') = nodes (ap_links st) \<and> sysstat st' = sysstat st"
proof -
  have n: "nodes (close_fds socks l) = nodes l" for socks and l :: "ap_func link_state"
    unfolding close_fds_def by (induction socks arbitrary: l) (simp_all add: close_fd_def)
  show ?thesis
    using assms by (auto simp: ac_reconnect_def Let_def n open_fd_def split: prod.split)
qed

lemma status_packet_send:
  "0 \<le> sock \<Longrightarrow> e_tcp env = Send_err # as \<Longrightarrow>
   net_send MSG_PROTO_TCP sock dmac (status_packet mc) 864 ok (e_tcp env) dll = Some (Inr (-1, [], dll))"
  by (simp add: net_send_def tcp_sendpkt_def NET_PKT_DATALEN_def MSG_PROTO_TCP_def MSG_PROTO_ETH_def)

text \<open>
  C19. Two threads of the access point, one freed node. The thread \<^verbatim>\<open>net_recv\<close> has fetched a batch that starts
  with an event of the connection to the controller. Before it dispatches the event, a round of the thread
  \<^verbatim>\<open>report_apstatus\<close> finds that its send on the connection fails, calls \<^verbatim>\<open>ac_lost\<close>, which frees the node of the
  connection, and cannot connect again. Then \<^verbatim>\<open>net_recv\<close> writes \<^verbatim>\<open>retevents\<close> into the freed node: it takes no lock and
  deleting a socket does not cancel an event.
\<close>

theorem pending_event_use_after_free:
  assumes "link_inv (ap_links st) ps" "watched (ap_links st) (ss_sock (sysstat st)) = Some p"
    and "0 \<le> ss_sock (sysstat st)" "e_tcp env = Send_err # as"
    and "fst (tcp_connect (ss_server (sysstat st)) (e_connect env)) < 0"
  shows "\<exists>st'. report_apstatus env st = Some (Inr st') \<and> ss_sock (sysstat st') = -1 \<and>
     net_recv_batch (ap_call envs) ((p, ev) # evs) ((k, st', q), ap_links st') = Some (Inl UseAfterFree)"
proof -
  obtain l where l: "delete_sockarr (ss_sock (sysstat st)) (ap_links st) = Some (Inr l)" "nodes l p = None"
    using fetched_event_of_deleted [OF assms(1,2)] by blast
  let ?st = "st\<lparr>ap_links := l, sysstat := (sysstat st)\<lparr>ss_sock := -1\<rparr>\<rparr>"
  obtain st' where st': "ac_reconnect env ?st = Inr st'" "nodes (ap_links st') = nodes l" "sysstat st' = sysstat ?st"
    using ac_reconnect_fails [of ?st env] assms(5) by auto
  have "report_apstatus env st = Some (Inr st')"
    using assms(3) st'(1) l(1) status_packet_send [OF assms(3,4)]
    by (simp add: report_apstatus_def ac_lost_def)
  moreover have "net_recv_batch (ap_call envs) ((p, ev) # evs) ((k, st', q), ap_links st') = Some (Inl UseAfterFree)"
    using l(2) st'(2) by simp
  ultimately show ?thesis using st'(3) by auto
qed

theorem pending_event_use_after_free_witness:
  "\<exists>st'. report_apstatus (ex_ap_env\<lparr>e_tcp := [Send_err], e_connect := \<lparr>c_socket = 5, c_setsockopt = [], c_connect = -1\<rparr>\<rparr>)
       (ex_ap\<lparr>sysstat := (sysstat ex_ap)\<lparr>ss_sock := 6\<rparr>, ap_links := ex_socks Net_dllrecv Net_netrcv\<rparr>) = Some (Inr st') \<and>
     ss_sock (sysstat st') = -1 \<and>
     net_recv_batch (ap_call ex_cb) [(2, EPOLLIN)] ((0, st', ap_queue_init), ap_links st') = Some (Inl UseAfterFree)"
proof (rule pending_event_use_after_free [of _ "[1, 2]" _ _ "[]"], goal_cases)
  case 1
  then show ?case using ex_socks_inv(1) by simp
qed (simp_all add: ex_socks_def tcp_connect_def tcp_alive_def)

end
