(* ===== verification/Startup.thy ===== *)
theory Startup
  imports Cmdarg_Read Dll_Init Event_Loop Handshake Res_Check
begin

text \<open>
  The start of both programs: \<^verbatim>\<open>main\<close> of \<^verbatim>\<open>ac/main.c\<close> and \<^verbatim>\<open>ap/main.c\<close> with \<^verbatim>\<open>net_init\<close> of either
  side, \<^verbatim>\<open>create_pthread\<close>, and the first round of \<^verbatim>\<open>res_check\<close>. The theory proves that a start
  that the system grants ends in the states from which the registration of an access point
  succeeds.
\<close>

section \<open>Threads\<close>

datatype thread_fn =
    Thr_res_check | Thr_message_travel | Thr_net_recv | Thr_net_netlisten | Thr_net_dllbrd | Thr_report_apstatus

text \<open>\<open>ans\<close> are the results of \<^verbatim>\<open>pthread_create\<close> and \<^verbatim>\<open>pthread_detach\<close>.\<close>

definition create_pthread :: "thread_fn \<Rightarrow> int \<times> int \<Rightarrow> thread_fn list \<Rightarrow> thread_fn list res" where
  "create_pthread f ans ts =
     (let (created, detached) = ans in
      if created \<noteq> 0 then Inl ProcessExit
      else if detached \<noteq> 0 then Inl ProcessExit
      else Inr (ts @ [f]))"

fun create_all :: "(thread_fn \<Rightarrow> int \<times> int) \<Rightarrow> thread_fn list \<Rightarrow> thread_fn list \<Rightarrow> thread_fn list res" where
  "create_all ans [] ts = Inr ts"
| "create_all ans (f # fs) ts = bind_res (create_pthread f (ans f) ts) (create_all ans fs)"

section \<open>Set-up of the network\<close>

text \<open>
  What the start gets from the system. \<open>bo_uuid\<close> is the output of the command for the identity
  of the machine, \<open>bo_sql\<close> the answers of the database client, and \<open>bo_calloc\<close> tells whether
  the pool and the table are allocated.
\<close>

record boot_env =
  bo_host :: "string \<Rightarrow> u32 option"
  bo_nic :: nic_env
  bo_epoll :: int
  bo_dll :: dll_env
  bo_fcntl :: "int \<times> int"
  bo_node :: "ptr option"
  bo_thread :: "thread_fn \<Rightarrow> int \<times> int"
  bo_uuid :: "byte list"
  bo_sql :: sql_env
  bo_calloc :: bool

text \<open>The part that both \<^verbatim>\<open>net_init\<close> begin with; \<open>func\<close> is the callback for frames.\<close>

definition net_setup :: "boot_env \<Rightarrow> string \<Rightarrow> 'f \<Rightarrow> (dll_glob \<times> 'f link_state) res" where
  "net_setup env nic func =
     bind_res (net_epoll_init (bo_epoll env)) (\<lambda>epl.
     bind_res (dll_init (bo_dll env) nic (dll_zero {0, 1, 2, epl})) (\<lambda>g.
     bind_res (insert_sockarr (dg_rcvsock g) func (net_nonblock (bo_fcntl env) = 0) (bo_node env)
         (link_init (dg_fds g))) (\<lambda>(_, links).
       Inr (g, links))))"

definition ap_net_init :: "boot_env \<Rightarrow> string \<Rightarrow> thread_fn list \<Rightarrow> (dll_glob \<times> ap_func link_state \<times> thread_fn list) res" where
  "ap_net_init env nic ts =
     bind_res (net_setup env nic Net_dllrecv) (\<lambda>(g, links).
     bind_res (create_pthread Thr_net_recv (bo_thread env Thr_net_recv) ts) (\<lambda>ts. Inr (g, links, ts)))"

definition ac_net_init :: "boot_env \<Rightarrow> string \<Rightarrow> thread_fn list \<Rightarrow> (dll_glob \<times> ac_func link_state \<times> thread_fn list) res" where
  "ac_net_init env nic ts =
     bind_res (net_setup env nic Ac_dllrecv) (\<lambda>(g, links).
     bind_res (create_all (bo_thread env) [Thr_net_recv, Thr_net_netlisten, Thr_net_dllbrd] ts) (\<lambda>ts.
       Inr (g, links, ts)))"

section \<open>\<^verbatim>\<open>main\<close>\<close>

text \<open>\<^verbatim>\<open>init_report\<close> sets the address of a remote controller.\<close>

definition init_report :: "sockaddr_in \<Rightarrow> ap_state \<Rightarrow> ap_state" where
  "init_report remote st = st\<lparr>sysstat := (sysstat st)\<lparr>ss_server := remote\<rparr>\<rparr>"

text \<open>The globals before \<^verbatim>\<open>main\<close>.\<close>

definition arg_boot :: arg_state where
  "arg_boot = \<lparr>argument = zero_arg, debug_level = 0, daemon_mode = False\<rparr>"

definition ap_main :: "boot_env \<Rightarrow> string list \<Rightarrow> (ap_state \<times> msg_queue \<times> thread_fn list) res" where
  "ap_main env argv =
     bind_res (proc_arg CLIENT (bo_host env) (bo_nic env) argv arg_boot) (\<lambda>args.
       let arg = argument args in
       bind_res (ap_net_init env (cstr (ar_nic arg)) []) (\<lambda>(g, links, ts).
         let st = ap_init (ar_mac arg) (ar_addr arg) zero_sockaddr (the (dg_bufs g)) links in
         bind_res (create_pthread Thr_message_travel (bo_thread env Thr_message_travel) ts) (\<lambda>ts.
           let st = init_report (ar_acaddr arg) st in
           bind_res (create_pthread Thr_report_apstatus (bo_thread env Thr_report_apstatus) ts) (\<lambda>ts.
             Inr (st, ap_queue_init, ts)))))"

definition ac_main :: "boot_env \<Rightarrow> string list \<Rightarrow> (tbl_dsc_t \<times> ac_state \<times> hash_state \<times> thread_fn list) res" where
  "ac_main env argv =
     bind_res (sql_init (bo_sql env)) (\<lambda>tables.
     bind_res (proc_arg SERVER (bo_host env) (bo_nic env) argv arg_boot) (\<lambda>args.
        let arg = argument args in
        if \<not> bo_calloc env then Inl ProcessExit
        else bind_res (create_pthread Thr_res_check (bo_thread env Thr_res_check) []) (\<lambda>ts.
        bind_res (ac_init_uuid (bo_uuid env)) (\<lambda>uuid.
        bind_res (create_pthread Thr_message_travel (bo_thread env Thr_message_travel) ts) (\<lambda>ts.
        bind_res (ac_net_init env (cstr (ar_nic arg)) ts) (\<lambda>(g, links, ts).
          Inr (tables, \<lparr>ac_random = 0, ac_uuid = uuid, ac_mac = ar_mac arg, ac_addr = ar_addr arg, ap_reg_cnt = 0,
                ac_pool = res_ip_init, ac_dll = the (dg_bufs g), ac_links = links, ac_sent = []\<rparr>,
               hash_init, ts)))))))"

section \<open>A start that the system grants\<close>

text \<open>The addresses that the system gives for a device.\<close>

definition nic_hwaddr :: "boot_env \<Rightarrow> string \<Rightarrow> byte list" where
  "nic_hwaddr env nic = take ETH_ALEN (ne_hwaddr (bo_nic env) (strncpy_chars IFNAMSIZ nic))"

definition nic_ipv4 :: "boot_env \<Rightarrow> string \<Rightarrow> u32" where
  "nic_ipv4 env nic = s_addr (ne_ifaddr (bo_nic env) (strncpy_chars IFNAMSIZ nic))"

text \<open>
  The system answers every call, with new descriptors; the two ways to ask for the hardware
  address of the device agree.
\<close>

definition boot_granted :: "boot_env \<Rightarrow> string \<Rightarrow> bool" where
  "boot_granted env nic \<longleftrightarrow> nic \<noteq> [] \<and> NUL \<notin> set nic \<and> length nic < IFNAMSIZ \<and>
     ne_socket (bo_nic env) 0 \<and> ne_socket (bo_nic env) 1 \<and>
     wf_sockaddr (ne_ifaddr (bo_nic env) (strncpy_chars IFNAMSIZ nic)) \<and>
     de_hwaddr (bo_dll env) nic = Some (ne_hwaddr (bo_nic env) (strncpy_chars IFNAMSIZ nic)) \<and>
     0 \<le> bo_epoll env \<and> dll_granted (bo_dll env) nic \<and> net_nonblock (bo_fcntl env) = 0 \<and>
     bo_node env \<noteq> None \<and> (\<forall>f. bo_thread env f = (0, 0))"

lemma create_pthread_granted: "boot_granted env nic \<Longrightarrow> create_pthread f (bo_thread env f) ts = Inr (ts @ [f])"
  by (simp add: boot_granted_def create_pthread_def)

lemma net_setup_granted:
  assumes b: "boot_granted env nic" and p: "bo_node env = Some p"
  shows "\<exists>g links bufs. net_setup env nic func = Inr (g, links) \<and> dg_bufs g = Some bufs \<and>
     dll_wf (nic_hwaddr env nic) bufs \<and> \<not> rcv_locked bufs \<and>
     link_inv links [p] \<and> watched links = [de_socket (bo_dll env) 2 \<mapsto> p] \<and>
     open_fds links \<subseteq> {0, 1, 2, bo_epoll env} \<union> de_socket (bo_dll env) ` {1, 2, 3}"
proof -
  have nic: "take 15 (cstr nic) = nic"
    using b by (simp add: boot_granted_def IFNAMSIZ_def cstr_plain)
  let ?g0 = "dll_zero {0, 1, 2, bo_epoll env}"
  have "dll_granted (bo_dll env) nic" "dg_bufs ?g0 = None" using b by (simp_all add: boot_granted_def dll_zero_def)
  from dll_init_ready [OF this] obtain g bufs where
    g: "dll_init (bo_dll env) nic ?g0 = Inr g" "dg_bufs g = Some bufs" "\<not> rcv_locked bufs"
      "dll_wf (nic_hwaddr env nic) bufs"
      "dg_rcvsock g = de_socket (bo_dll env) 2" "de_socket (bo_dll env) 2 \<in> dg_fds g"
      "dg_fds g \<subseteq> {0, 1, 2, bo_epoll env} \<union> de_socket (bo_dll env) ` {1, 2, 3}"
    using b unfolding nic by (auto simp: boot_granted_def nic_hwaddr_def dll_zero_def)
  have l: "link_inv (link_init (dg_fds g)) []" "nodes (link_init (dg_fds g)) p = None"
    "dg_rcvsock g \<in> open_fds (link_init (dg_fds g))" "watched (link_init (dg_fds g)) (dg_rcvsock g) = None"
    using g(5,6) by (simp_all add: link_inv_init) (simp_all add: link_init_def)
  from insert_sockarr_inv [OF l, of func, unfolded append_Nil] obtain links where
    "insert_sockarr (dg_rcvsock g) func True (Some p) (link_init (dg_fds g)) = Inr (Some p, links)"
    "link_inv links [p]" "sock_of links p = dg_rcvsock g" "watched links = [dg_rcvsock g \<mapsto> p]"
    "open_fds links = dg_fds g"
    by (auto simp: link_init_def)
  then show ?thesis
    using b p g by (simp add: net_setup_def net_epoll_init_def boot_granted_def link_init_def)
qed

lemma proc_arg_granted:
  assumes b: "boot_granted env nic"
  shows "\<exists>args. proc_arg bd (bo_host env) (bo_nic env) [prog, ''-n'', nic] arg_boot = Inr args \<and>
     cstr (ar_nic (argument args)) = nic \<and>
     ar_mac (argument args) = nic_hwaddr env nic \<and>
     s_addr (ar_acaddr (argument args)) = 0 \<and> s_addr (ar_addr (argument args)) = nic_ipv4 env nic \<and>
     wf_sockaddr (ar_addr (argument args))"
proof -
  have n: "nic \<noteq> []" "NUL \<notin> set nic" "length nic < IFNAMSIZ" "ne_socket (bo_nic env) 0" "ne_socket (bo_nic env) 1"
    "wf_sockaddr (ne_ifaddr (bo_nic env) (strncpy_chars IFNAMSIZ nic))"
    using b by (simp_all add: boot_granted_def)
  show ?thesis
    using n(4-6) nic_chars [OF n(1,2)]
    by (subst proc_arg_nic [OF n(3)])
      (cases bd; simp add: nic_hwaddr_def nic_ipv4_def check_arg_def getmac_def getaddr_def Let_def zero_arg_def zero_sockaddr_def wf_sockaddr_def)
qed

lemma ap_main_granted:
  assumes b: "boot_granted env nic" and p: "bo_node env = Some p"
  shows "\<exists>st. ap_main env [prog, ''-n'', nic] =
       Inr (st, ap_queue_init, [Thr_net_recv, Thr_message_travel, Thr_report_apstatus]) \<and>
     ap_waits st ap_queue_init [p] \<and> sent st = [] \<and>
     my_mac st = nic_hwaddr env nic \<and>
     s_addr (my_addr st) = nic_ipv4 env nic \<and>
     s_addr (ss_server (sysstat st)) = 0 \<and>
     watched (ap_links st) = [de_socket (bo_dll env) 2 \<mapsto> p] \<and>
     open_fds (ap_links st) \<subseteq> {0, 1, 2, bo_epoll env} \<union> de_socket (bo_dll env) ` {1, 2, 3}"
proof -
  obtain args where a: "proc_arg CLIENT (bo_host env) (bo_nic env) [prog, ''-n'', nic] arg_boot = Inr args"
    "cstr (ar_nic (argument args)) = nic"
    "ar_mac (argument args) = nic_hwaddr env nic"
    "s_addr (ar_acaddr (argument args)) = 0" "s_addr (ar_addr (argument args)) = nic_ipv4 env nic" "wf_sockaddr (ar_addr (argument args))"
    using proc_arg_granted [OF b] by blast
  obtain g links bufs where g: "net_setup env nic Net_dllrecv = Inr (g, links)" "dg_bufs g = Some bufs"
    "dll_wf (ar_mac (argument args)) bufs" "\<not> rcv_locked bufs" "link_inv links [p]"
    "watched links = [de_socket (bo_dll env) 2 \<mapsto> p]"
    "open_fds links \<subseteq> {0, 1, 2, bo_epoll env} \<union> de_socket (bo_dll env) ` {1, 2, 3}"
    using net_setup_granted [OF b p, of Net_dllrecv] a(3) by auto
  let ?st = "init_report (ar_acaddr (argument args))
      (ap_init (ar_mac (argument args)) (ar_addr (argument args)) zero_sockaddr bufs links)"
  have "ap_main env [prog, ''-n'', nic] = Inr (?st, ap_queue_init, [Thr_net_recv, Thr_message_travel, Thr_report_apstatus])"
    using a(1,2) g(1,2) by (simp add: ap_main_def ap_net_init_def create_pthread_granted [OF b] Let_def)
  moreover have "queue_holds ap_queue_init []"
    by (simp add: ap_queue_init_def queue_holds_Nil queue_rel_def chain_rel_def)
  then have "ap_waits ?st ap_queue_init [p]"
    using a(6) g(3-5) by (simp add: ap_waits_def ap_wf_def init_report_def ap_init_def LOCAL_AC_MAX_def)
  ultimately show ?thesis
    using a(3-5) g(6,7) by (simp add: init_report_def ap_init_def)
qed

lemma ac_init_uuid_length: "ac_init_uuid out = Inr uuid \<Longrightarrow> length uuid = UUID_LEN"
  by (auto simp: ac_init_uuid_def Let_def put_at_def UUID_LEN_def split: if_splits)

lemma ac_main_granted:
  assumes b: "boot_granted env nic" and p: "bo_node env = Some p"
    and e: "sql_granted (bo_sql env) names" "bo_calloc env" "bo_uuid env \<noteq> []"
  shows "\<exists>tables st. ac_main env [prog, ''-n'', nic] =
       Inr (tables, st, hash_init, [Thr_res_check, Thr_message_travel, Thr_net_recv, Thr_net_netlisten, Thr_net_dllbrd]) \<and>
     col_names tables = names \<and> ac_wf st \<and> \<not> rcv_locked (ac_dll st) \<and> ac_pool st = res_ip_init \<and> ac_sent st = [] \<and>
     ac_mac st = nic_hwaddr env nic \<and>
     s_addr (ac_addr st) = nic_ipv4 env nic \<and>
     link_inv (ac_links st) [p] \<and> watched (ac_links st) = [de_socket (bo_dll env) 2 \<mapsto> p]"
proof -
  obtain args where a: "proc_arg SERVER (bo_host env) (bo_nic env) [prog, ''-n'', nic] arg_boot = Inr args"
    "cstr (ar_nic (argument args)) = nic"
    "ar_mac (argument args) = nic_hwaddr env nic"
    "s_addr (ar_addr (argument args)) = nic_ipv4 env nic"
    "wf_sockaddr (ar_addr (argument args))"
    using proc_arg_granted [OF b] by blast
  obtain g links bufs where g: "net_setup env nic Ac_dllrecv = Inr (g, links)" "dg_bufs g = Some bufs"
    "dll_wf (ar_mac (argument args)) bufs" "\<not> rcv_locked bufs" "link_inv links [p]"
    "watched links = [de_socket (bo_dll env) 2 \<mapsto> p]"
    using net_setup_granted [OF b p, of Ac_dllrecv] a(3) by auto
  obtain tables where t: "sql_init (bo_sql env) = Inr tables" "col_names tables = names"
    using sql_init_granted [OF e(1)] by blast
  obtain uuid where u: "ac_init_uuid (bo_uuid env) = Inr uuid"
    using e(3) by (auto simp: ac_init_uuid_def Let_def UUID_LEN_def)
  show ?thesis
    using a g u t ac_init_uuid_length [OF u] e(2)
    by (simp add: ac_main_def ac_net_init_def create_pthread_granted [OF b] Let_def ac_wf_def)
qed

section \<open>The first round of \<^verbatim>\<open>res_check\<close>\<close>

lemma res_ip_add_wf:
  assumes "res_ip_add addr ans st = Some (Inr (c, st'))" "wf_sockaddr addr"
    and "\<forall>x\<in>ran (ips st). wf_sockaddr (ip_ipv4 x)"
  shows "\<forall>x\<in>ran (ips st'). wf_sockaddr (ip_ipv4 x)"
  using assms
  by (auto simp: res_ip_add_def calloc_ip_def ip_at_def ran_def Let_def bind_res_Inr_iff
      split: option.splits sum.splits if_splits) blast

lemma add_range_wf:
  "add_range tmp answers k i a st = Some (Inr st') \<Longrightarrow> wf_sockaddr tmp \<Longrightarrow>
     \<forall>x\<in>ran (ips st). wf_sockaddr (ip_ipv4 x) \<Longrightarrow> \<forall>x\<in>ran (ips st'). wf_sockaddr (ip_ipv4 x)"
proof (induction k arbitrary: i a st)
  case (Suc k)
  obtain c st1 where st1: "res_ip_add (tmp\<lparr>s_addr := bswap32 a\<rparr>) (answers i) st = Some (Inr (c, st1))"
    "add_range tmp answers k (i + 1) (a + 1) st1 = Some (Inr st')"
    using Suc.prems(1) by (auto split: option.splits sum.splits)
  have "wf_sockaddr (tmp\<lparr>s_addr := bswap32 a\<rparr>)" using Suc.prems(2) by (simp add: wf_sockaddr_def)
  from Suc.IH [OF st1(2) Suc.prems(2) res_ip_add_wf [OF st1(1) this Suc.prems(3)]] show ?case .
qed simp

lemma res_ip_clear_init: "res_ip_clear res_ip_init = Some (Inr res_ip_init)"
  using res_ip_clear_eq [OF pool_inv_init] by (simp add: res_ip_init_def)

lemma res_ip_reload_wf:
  assumes "res_ip_reload inet_aton tmp answers (r, res_ip_init) = Some (Inr (r', st'))" "wf_sockaddr tmp"
  shows "\<forall>x\<in>ran (ips st'). wf_sockaddr (ip_ipv4 x)"
proof -
  have "\<forall>x\<in>ran (ips res_ip_init). wf_sockaddr (ip_ipv4 x)" by (simp add: res_ip_init_def)
  with assms add_range_wf [OF _ assms(2), of answers _ _ _ res_ip_init] show ?thesis
    by (auto simp: res_ip_reload_def Let_def res_ip_clear_init split: option.splits sum.splits if_splits prod.splits)
qed

text \<open>
  The globals of \<^verbatim>\<open>ac/resource.c\<close> before the first round, and the row of a database with a range
  of addresses: the texts are valid addresses, and memory for \<open>ns\<close> is there.
\<close>

definition res_boot :: "string \<times> res_key json_store \<times> res_t \<times> ippool_t" where
  "res_boot = (replicate 1024 NUL,
     \<lparr>js_integer = (\<lambda>_. 0), js_uinteger = (\<lambda>_. 0), js_real = (\<lambda>_. []), js_string = (\<lambda>_. replicate IPLEN NUL),
      js_boolean = (\<lambda>_. False), js_character = (\<lambda>_. NUL), js_ptr = (\<lambda>k. k),
     js_cells = (\<lambda>_ _. False)\<rparr>,
     \<lparr>ip_start = [], ip_end = [], ip_mask = [], bak_start = [], bak_end = [], bak_mask = []\<rparr>, res_ip_init)"

definition row_range :: "(string \<Rightarrow> u32 option) \<Rightarrow> string list \<Rightarrow> string option list \<Rightarrow> u32 \<Rightarrow> int \<Rightarrow> bool" where
  "row_range inet_aton names row a n \<longleftrightarrow> row_ok 19 names row \<and> names \<noteq> [] \<and>
     (\<exists>s e m. inet_aton (column names row ''ip_start'') = Some s \<and> inet_aton (column names row ''ip_end'') = Some e \<and>
        inet_aton (column names row ''ip_mask'') = Some m \<and>
        0 < reload_num (bswap32 s) (bswap32 e) (bswap32 m) \<and>
        reload_range (bswap32 s) (bswap32 e) (bswap32 m) = (a, n)) \<and>
     inet_aton [] = None \<and> inet_aton SQL_NULL = None \<and> 0 < n"

definition nodes_for :: "int \<Rightarrow> ptr list \<Rightarrow> (nat \<Rightarrow> ptr option) \<Rightarrow> bool" where
  "nodes_for n ns answers \<longleftrightarrow> length ns = nat n \<and> distinct ns \<and> POOL \<notin> set ns \<and> ALLOC \<notin> set ns \<and>
     (\<forall>j < length ns. answers j = Some (ns ! j))"

lemma first_round:
  assumes "row_range inet_aton names row a n" "nodes_for n ns answers" "wf_sockaddr tmp"
  shows "\<exists>buf s r pool. res_check inet_aton tmp answers ra g names (stored [row]) res_boot =
       Some (Inr (buf, s, r, pool)) \<and> pool_inv pool ns [] \<and> ns \<noteq> [] \<and>
     map (addr_of pool) ns = map (\<lambda>j. bswap32 (a + of_nat j)) [0..<nat n] \<and>
     (\<forall>p\<in>set ns. wf_sockaddr (ip_ipv4 (the (ips pool p))))"
proof -
  obtain s e m where row: "row_ok 19 names row" "names \<noteq> []"
      "inet_aton (column names row ''ip_start'') = Some s" "inet_aton (column names row ''ip_end'') = Some e"
      "inet_aton (column names row ''ip_mask'') = Some m"
      "0 < reload_num (bswap32 s) (bswap32 e) (bswap32 m)" "reload_range (bswap32 s) (bswap32 e) (bswap32 m) = (a, n)"
      "inet_aton [] = None" "inet_aton SQL_NULL = None" "0 < n"
    using assms(1) by (auto simp: row_range_def)
  obtain buf st r pool where boot: "res_boot = (buf, st, r, pool)" "sized json_attrs st" "length buf = 1024"
    "pool = res_ip_init" "r = \<lparr>ip_start = [], ip_end = [], ip_mask = [], bak_start = [], bak_end = [], bak_mask = []\<rparr>"
    using ex_store_sized by (simp add: res_boot_def ex_store_def)
  let ?r = "r\<lparr>ip_start := column names row ''ip_start'', ip_end := column names row ''ip_end'',
              ip_mask := column names row ''ip_mask''\<rparr>"
  from res_check_row [OF row(1,2) boot(2,3), of inet_aton tmp answers ra g r pool] obtain buf' s' where
    rc: "res_check inet_aton tmp answers ra g names (stored [row]) (buf, st, r, pool) =
       bind_ro (res_ip_reload inet_aton tmp answers (?r, pool)) (\<lambda>(r, pool). Some (Inr (buf', s', r, pool)))"
    by blast
  have ne: "ip_start ?r \<noteq> SQL_NULL" "ip_end ?r \<noteq> SQL_NULL" "ip_mask ?r \<noteq> SQL_NULL" "ip_start ?r \<noteq> []"
    using row(3-5,8,9) by auto
  have eq: "fst (res_ip_equ_bak ?r) = 0" using ne(4) by (simp add: res_ip_equ_bak_def boot(5))
  have ns: "length ns = nat n" "distinct ns" "POOL \<notin> set ns" "ALLOC \<notin> set ns"
    "\<forall>j < length ns. answers j = Some (ns ! j)"
    using assms(2) by (simp_all add: nodes_for_def)
  have i: "inet_aton (ip_start ?r) = Some s" "inet_aton (ip_end ?r) = Some e" "inet_aton (ip_mask ?r) = Some m"
    using row(3-5) by simp_all
  from res_ip_reload_inv [OF pool_inv_init ne(1-3) i eq row(6,7) ns(1-5), of tmp] obtain r' pool' where
    rl: "res_ip_reload inet_aton tmp answers (?r, res_ip_init) = Some (Inr (r', pool'))" "pool_inv pool' ns []"
      "map (addr_of pool') ns = map (\<lambda>j. bswap32 (a + of_nat j)) [0..<nat n]"
    by blast
  have "set ns = dom (ips pool')" using rl(2) by (simp add: pool_inv_def)
  then have "\<forall>p\<in>set ns. the (ips pool' p) \<in> ran (ips pool')" by (auto simp: ran_def)
  then have "\<forall>p\<in>set ns. wf_sockaddr (ip_ipv4 (the (ips pool' p)))"
    using res_ip_reload_wf [OF rl(1) assms(3)] by blast
  moreover have "ns \<noteq> []" using ns(1) row(10) by auto
  ultimately show ?thesis using rc rl unfolding boot(1) boot(4) by auto
qed

lemma ac_main_serves:
  assumes b: "boot_granted env nic" "bo_node env = Some p" "sql_granted (bo_sql env) names" "bo_calloc env" "bo_uuid env \<noteq> []"
    and a: "nic_ipv4 env nic \<noteq> 0"
    and r: "row_range inet_aton names row a n" "nodes_for n ns answers" "wf_sockaddr tmp"
  shows "\<exists>tables st buf s r pool. ac_main env [prog, ''-n'', nic] =
       Inr (tables, st, hash_init, [Thr_res_check, Thr_message_travel, Thr_net_recv, Thr_net_netlisten, Thr_net_dllbrd]) \<and>
     res_check inet_aton tmp answers ra g (col_names tables) (stored [row]) res_boot = Some (Inr (buf, s, r, pool)) \<and>
     ac_mac st = nic_hwaddr env nic \<and>
     s_addr (ac_addr st) = nic_ipv4 env nic \<and> ac_sent st = [] \<and>
     map (addr_of pool) ns = map (\<lambda>j. bswap32 (a + of_nat j)) [0..<nat n] \<and>
     (\<forall>hw. ac_serves hw (st\<lparr>ac_pool := pool\<rparr>) hash_init ns [])"
proof -
  obtain tables st where st: "ac_main env [prog, ''-n'', nic] =
       Inr (tables, st, hash_init, [Thr_res_check, Thr_message_travel, Thr_net_recv, Thr_net_netlisten, Thr_net_dllbrd])"
    "ac_wf st" "\<not> rcv_locked (ac_dll st)" "ac_sent st = []" "col_names tables = names"
    "ac_mac st = nic_hwaddr env nic"
    "s_addr (ac_addr st) = nic_ipv4 env nic"
    using ac_main_granted [OF b] by blast
  obtain buf s r' pool where rc: "res_check inet_aton tmp answers ra g names (stored [row]) res_boot = Some (Inr (buf, s, r', pool))"
    "pool_inv pool ns []" "ns \<noteq> []" "\<forall>p\<in>set ns. wf_sockaddr (ip_ipv4 (the (ips pool p)))"
    "map (addr_of pool) ns = map (\<lambda>j. bswap32 (a + of_nat j)) [0..<nat n]"
    using first_round [OF r, of ra g] by blast
  have "at_home hw hash_init []" for hw
    by (simp add: at_home_def hash_init_def zero_node_def zero_queue_def queue_holds_Nil queue_rel_def chain_rel_def)
  then have "ac_serves hw (st\<lparr>ac_pool := pool\<rparr>) hash_init ns []" for hw
    using st(2,3,7) rc(2-4) a hash_inv_init by (simp add: ac_serves_def ac_wf_def)
  then show ?thesis
    using st(1,4,6,7) rc(1) [folded st(5)] rc(5) by (intro exI conjI allI) assumption+
qed

section \<open>Properties\<close>

text \<open>
  What the registration gets from the system: the connection of the access point uses a new
  descriptor, and the watch a new node.
\<close>

definition connect_granted :: "ap_env \<Rightarrow> boot_env \<Rightarrow> ptr \<Rightarrow> ptr \<Rightarrow> bool" where
  "connect_granted env benv p l \<longleftrightarrow> 0 \<le> c_socket (e_connect env) \<and>
     (\<forall>r\<in>set (take 4 (c_setsockopt (e_connect env))). -1 \<le> r) \<and> 0 \<le> c_connect (e_connect env) \<and>
     e_nonblock env \<and> e_node env = Some l \<and> l \<noteq> p \<and>
     c_socket (e_connect env) \<notin> {0, 1, 2, bo_epoll benv} \<union> de_socket (bo_dll benv) ` {1, 2, 3}"

lemma started_connects:
  assumes "connect_granted env benv p l" "link_inv (ap_links st) [p]"
    and "open_fds (ap_links st) \<subseteq> {0, 1, 2, bo_epoll benv} \<union> de_socket (bo_dll benv) ` {1, 2, 3}"
  shows "connects env st l"
proof -
  have "nodes (ap_links st) l = None"
    using assms(1,2) by (auto simp: link_inv_def connect_granted_def)
  moreover have "c_socket (e_connect env) \<notin> open_fds (ap_links st)"
    using assms(1) subsetD [OF assms(3)] unfolding connect_granted_def by blast
  ultimately show ?thesis
    using assms(1) by (simp add: connects_def connect_granted_def)
qed

text \<open>The registration from the states after the start and a first round.\<close>

lemma started_handshake:
  assumes ap: "ap_waits st ap_queue_init [p]" "sent st = []" "watched (ap_links st) = [k \<mapsto> p]"
    and ac: "ac_serves (my_mac st) ac hash_init ns []" "ac_sent ac = []"
    and env: "env_wf env1" "e_chap_malloc env2" "connects env2 st l" "a_chap_malloc aenv" "a_calloc aenv" "a_eth_ok aenv"
    and brd: "length brdmem = sizeof_ac_brd" and pw: "length passwd + 64 \<le> 2 ^ 32"
  shows "\<exists>mem' ac1 brd st1 q1 req ac2 tbl2 resp ip st2 q2.
     net_dllbrd brdmem dev True ac = Inr (mem', ac1) \<and> ac_sent ac1 = [Frame brd] \<and>
     ap_turn passwd env1 m1 junk brd (st, ap_queue_init) = Some (Inr (st1, q1)) \<and> sent st1 = [Frame req] \<and>
     ac_turn debug_build passwd aenv m2 junk node req (hash_key (my_mac st) 6) (ac1, hash_init) =
       Some (Inr (ac2, tbl2)) \<and> ac_sent ac2 = [Frame brd, Frame resp] \<and>
     ap_turn passwd env2 m3 junk resp (st1, q1) = Some (Inr (st2, q2)) \<and>
     ss_isreg (sysstat st2) = 1 \<and> ss_dmac (sysstat st2) = ac_mac ac \<and> ss_server (sysstat st2) = ac_addr ac \<and>
     ss_sock (sysstat st2) = c_socket (e_connect env2) \<and>
     watched (ap_links st2) = [k \<mapsto> p, c_socket (e_connect env2) \<mapsto> l] \<and>
     ip \<in> set ns \<and> pool_inv (ac_pool ac2) (remove1 ip ns) [ip] \<and> owner_of (ac_pool ac2) ip = my_mac st"
proof -
  have f: "queue_fresh ap_queue_init q" "queue_fresh (queue (buckets hash_init i)) q" for q i
    by (simp_all add: queue_fresh_def ap_queue_init_def hash_init_def zero_node_def zero_queue_def)
  have may: "may_have (my_addr st) (my_mac st) (ac_pool ac) []"
    by (simp add: may_have_def lease_map_def)
  obtain mem' ac1 brd st1 q1 req ac2 tbl2 resp ip st2 q2 where h:
    "net_dllbrd brdmem dev True ac = Inr (mem', ac1)" "ac_sent ac1 = ac_sent ac @ [Frame brd]"
    "ap_turn passwd env1 m1 junk brd (st, ap_queue_init) = Some (Inr (st1, q1))" "sent st1 = sent st @ [Frame req]"
    "ac_turn debug_build passwd aenv m2 junk node req (hash_key (my_mac st) 6) (ac1, hash_init) = Some (Inr (ac2, tbl2))"
    "ac_sent ac2 = ac_sent ac1 @ [Frame resp]"
    "ap_turn passwd env2 m3 junk resp (st1, q1) = Some (Inr (st2, q2))"
    "ip \<in> set ns" "pool_inv (ac_pool ac2) (remove1 ip ns) [ip]" "owner_of (ac_pool ac2) ip = my_mac st"
    "(let a = ip_ipv4 (the (ips (ac_pool ac) ip)) in
      ap_view st2 = (strncpy UUID_LEN (ac_uuid ac), ac_mac ac, 1, ac_addr ac,
        if s_addr a \<noteq> 0 \<and> e_setaddr env2 then Some (a\<lparr>sin_family := 2\<rparr>) else nic_addr st))"
    "ss_sock (sysstat st2) = c_socket (e_connect env2)"
    "watched (ap_links st2) = (watched (ap_links st))(c_socket (e_connect env2) \<mapsto> l)"
    using handshake_runs [OF ap(1) f(1) f(1) ac(1) may f(2) env brd pw, of dev m1 junk debug_build m2 node m3]
    by (elim exE conjE) (rule that)
  have v: "ss_isreg (sysstat st2) = 1" "ss_dmac (sysstat st2) = ac_mac ac" "ss_server (sysstat st2) = ac_addr ac"
    using h(11) by (simp_all add: ap_view_def Let_def)
  have k: "ac_sent ac1 = [Frame brd]" "sent st1 = [Frame req]" "ac_sent ac2 = [Frame brd, Frame resp]"
    "watched (ap_links st2) = [k \<mapsto> p, c_socket (e_connect env2) \<mapsto> l]"
    using h(2,4,6) ap(2) ac(2) by (simp_all only: h(13) ap(3)) simp_all
  show ?thesis
    by (intro exI conjI) (rule k v h(1) h(3) h(5) h(7) h(8) h(9) h(10) h(12))+
qed

text \<open>
  C1. From the command line to a registered access point. Both programs are started with the
  name of a device and the system grants what they ask for; the controller reads the columns of its
  table from the database, and the first round of the resource check reads a range of addresses. Then the broadcast of the controller, the request, the response and its
  handling succeed, in this order, each on the frame that the step before sent: the access point is
  registered with this controller, connected to its address and watches the connection, and
  an address of the range is leased to its hardware address.
\<close>

theorem started_programs_register:
  assumes ap: "boot_granted benv nic" "bo_node benv = Some p"
    and ac: "boot_granted cenv cnic" "bo_node cenv = Some pc" "sql_granted (bo_sql cenv) names" "bo_calloc cenv" "bo_uuid cenv \<noteq> []"
      "nic_ipv4 cenv cnic \<noteq> 0"
    and db: "row_range inet_aton names row a n" "nodes_for n ns answers" "wf_sockaddr tmp"
    and env: "env_wf env1" "e_chap_malloc env2" "connect_granted env2 benv p l"
      "a_chap_malloc aenv" "a_calloc aenv" "a_eth_ok aenv"
    and brd: "length brdmem = sizeof_ac_brd" and pw: "length passwd + 64 \<le> 2 ^ 32"
  shows "\<exists>tables st ac buf s r pool mem' ac1 brd st1 q1 req ac2 tbl2 resp ip st2 q2.
     ap_main benv [aprog, ''-n'', nic] =
       Inr (st, ap_queue_init, [Thr_net_recv, Thr_message_travel, Thr_report_apstatus]) \<and>
     ac_main cenv [cprog, ''-n'', cnic] =
       Inr (tables, ac, hash_init, [Thr_res_check, Thr_message_travel, Thr_net_recv, Thr_net_netlisten, Thr_net_dllbrd]) \<and>
     res_check inet_aton tmp answers ra g (col_names tables) (stored [row]) res_boot = Some (Inr (buf, s, r, pool)) \<and>
     net_dllbrd brdmem dev True (ac\<lparr>ac_pool := pool\<rparr>) = Inr (mem', ac1) \<and> ac_sent ac1 = [Frame brd] \<and>
     ap_turn passwd env1 m1 junk brd (st, ap_queue_init) = Some (Inr (st1, q1)) \<and> sent st1 = [Frame req] \<and>
     ac_turn debug_build passwd aenv m2 junk node req (hash_key (nic_hwaddr benv nic) 6) (ac1, hash_init) =
       Some (Inr (ac2, tbl2)) \<and> ac_sent ac2 = [Frame brd, Frame resp] \<and>
     ap_turn passwd env2 m3 junk resp (st1, q1) = Some (Inr (st2, q2)) \<and>
     ss_isreg (sysstat st2) = 1 \<and> ss_dmac (sysstat st2) = nic_hwaddr cenv cnic \<and>
     s_addr (ss_server (sysstat st2)) = nic_ipv4 cenv cnic \<and>
     ss_sock (sysstat st2) = c_socket (e_connect env2) \<and>
     watched (ap_links st2) = [de_socket (bo_dll benv) 2 \<mapsto> p, c_socket (e_connect env2) \<mapsto> l] \<and>
     addr_of pool ip \<in> (\<lambda>j. bswap32 (a + of_nat j)) ` {..<nat n} \<and>
     pool_inv (ac_pool ac2) (remove1 ip ns) [ip] \<and> owner_of (ac_pool ac2) ip = nic_hwaddr benv nic"
proof -
  obtain st where st: "ap_main benv [aprog, ''-n'', nic] =
       Inr (st, ap_queue_init, [Thr_net_recv, Thr_message_travel, Thr_report_apstatus])"
    "ap_waits st ap_queue_init [p]" "sent st = []" "my_mac st = nic_hwaddr benv nic"
    "watched (ap_links st) = [de_socket (bo_dll benv) 2 \<mapsto> p]"
    "open_fds (ap_links st) \<subseteq> {0, 1, 2, bo_epoll benv} \<union> de_socket (bo_dll benv) ` {1, 2, 3}"
    using ap_main_granted [OF ap] by blast
  obtain tables ac buf s r pool where ac0: "ac_main cenv [cprog, ''-n'', cnic] =
       Inr (tables, ac, hash_init, [Thr_res_check, Thr_message_travel, Thr_net_recv, Thr_net_netlisten, Thr_net_dllbrd])"
    "res_check inet_aton tmp answers ra g (col_names tables) (stored [row]) res_boot = Some (Inr (buf, s, r, pool))"
    "ac_mac ac = nic_hwaddr cenv cnic" "s_addr (ac_addr ac) = nic_ipv4 cenv cnic" "ac_sent ac = []"
    "map (addr_of pool) ns = map (\<lambda>j. bswap32 (a + of_nat j)) [0..<nat n]"
    "ac_serves (nic_hwaddr benv nic) (ac\<lparr>ac_pool := pool\<rparr>) hash_init ns []"
    using ac_main_serves [OF ac db] by blast
  let ?ac = "ac\<lparr>ac_pool := pool\<rparr>"
  have c: "connects env2 st l"
    using started_connects [OF env(3) _ st(6)] st(2) by (simp add: ap_waits_def)
  have s: "ac_sent ?ac = []" "ac_mac ?ac = nic_hwaddr cenv cnic" "s_addr (ac_addr ?ac) = nic_ipv4 cenv cnic"
    using ac0(3-5) by simp_all
  obtain mem' ac1 brd st1 q1 req ac2 tbl2 resp ip st2 q2 where h:
    "net_dllbrd brdmem dev True ?ac = Inr (mem', ac1)" "ac_sent ac1 = [Frame brd]"
    "ap_turn passwd env1 m1 junk brd (st, ap_queue_init) = Some (Inr (st1, q1))" "sent st1 = [Frame req]"
    "ac_turn debug_build passwd aenv m2 junk node req (hash_key (my_mac st) 6) (ac1, hash_init) = Some (Inr (ac2, tbl2))"
    "ac_sent ac2 = [Frame brd, Frame resp]" "ap_turn passwd env2 m3 junk resp (st1, q1) = Some (Inr (st2, q2))"
    "ss_isreg (sysstat st2) = 1" "ss_dmac (sysstat st2) = ac_mac ?ac" "ss_server (sysstat st2) = ac_addr ?ac"
    "ss_sock (sysstat st2) = c_socket (e_connect env2)"
    "watched (ap_links st2) = [de_socket (bo_dll benv) 2 \<mapsto> p, c_socket (e_connect env2) \<mapsto> l]"
    "ip \<in> set ns" "pool_inv (ac_pool ac2) (remove1 ip ns) [ip]" "owner_of (ac_pool ac2) ip = my_mac st"
    using started_handshake [OF st(2,3,5) ac0(7) [folded st(4)] s(1) env(1,2) c env(4-6) brd pw,
        of dev m1 junk debug_build m2 node m3]
    by (elim exE conjE) (rule that)
  have "set (map (addr_of pool) ns) = (\<lambda>j. bswap32 (a + of_nat j)) ` {..<nat n}"
    unfolding ac0(6) by auto
  then have ip: "addr_of pool ip \<in> (\<lambda>j. bswap32 (a + of_nat j)) ` {..<nat n}"
    using h(13) by auto
  show ?thesis
    by (intro exI conjI) (rule st(1) ac0(1,2) ip h(1-4) h(5) [unfolded st(4)] h(6-8) h(9) [unfolded s(2)]
        arg_cong [OF h(10), of s_addr, unfolded s(3)] h(11,12,14) h(15) [unfolded st(4)])+
qed

definition ex_sql :: sql_env where
  "ex_sql = \<lparr>sq_init = True, sq_connect = True, sq_select = 0, sq_fields = Some [''ip_start'', ''ip_end'', ''ip_mask''],
     sq_malloc = (\<lambda>n. Some (replicate n (replicate COLMAX (CHR ''?''))))\<rparr>"

lemma ex_sql_granted: "sql_granted ex_sql [''ip_start'', ''ip_end'', ''ip_mask'']"
  by (simp add: sql_granted_def ex_sql_def COLMAX_def NUL_def)

definition ex_boot :: "byte list \<Rightarrow> u32 \<Rightarrow> boot_env" where
  "ex_boot hw ip = \<lparr>bo_host = (\<lambda>_. None),
     bo_nic = \<lparr>ne_socket = (\<lambda>_. True), ne_hwaddr = (\<lambda>_. hw), ne_ifaddr = (\<lambda>_. zero_sockaddr\<lparr>s_addr := ip\<rparr>)\<rparr>,
     bo_epoll = 3,
     bo_dll = \<lparr>de_socket = (\<lambda>n. if n = 0 then 4 else 3 + int n), de_setsockopt = 0, de_ifindex = (\<lambda>_. Some 1),
       de_hwaddr = (\<lambda>_. Some hw), de_malloc = Some (replicate (3 * DLL_PKT_MAXLEN) 0), de_bind = 0\<rparr>,
     bo_fcntl = (0, 0), bo_node = Some 2, bo_thread = (\<lambda>_. (0, 0)), bo_uuid = [65], bo_sql = ex_sql, bo_calloc = True\<rparr>"

lemma ex_boot_granted: "length hw = ETH_ALEN \<Longrightarrow> boot_granted (ex_boot hw ip) ''eth0''"
  by (simp add: boot_granted_def ex_boot_def dll_granted_def IFNAMSIZ_def NUL_def wf_sockaddr_def zero_sockaddr_def
      net_nonblock_def ETH_ALEN_def nic_hwaddr_def)

lemma ex_boot_nic:
  "length hw = ETH_ALEN \<Longrightarrow> nic_hwaddr (ex_boot hw ip) nic = hw" "nic_ipv4 (ex_boot hw ip) nic = ip"
  by (simp_all add: nic_hwaddr_def nic_ipv4_def ex_boot_def)

lemma ex_row_range:
  "row_range ex_aton [''ip_start'', ''ip_end'', ''ip_mask''] [Some ''10.0.0.1'', Some ''10.0.0.3'', Some ''255.255.255.0'']
     0x0A000001 3"
  by (simp add: row_range_def row_ok_def plain_def NUL_def column_def ex_aton_def ex_range SQL_NULL_def)

lemma ex_nodes_for: "nodes_for 3 [3, 4, 5] ex_nodes"
  by (simp add: nodes_for_def pool_heads)

theorem started_programs_register_witness:
  "\<exists>tables st ac buf s r pool mem' ac1 brd st1 q1 req ac2 tbl2 resp ip st2 q2.
     ap_main (ex_boot ex_ap_mac 0) [''apctl'', ''-n'', ''eth0''] =
       Inr (st, ap_queue_init, [Thr_net_recv, Thr_message_travel, Thr_report_apstatus]) \<and>
     ac_main (ex_boot [2, 0, 0, 0, 0, 9] 0x0100000A) [''acser'', ''-n'', ''eth0''] =
       Inr (tables, ac, hash_init, [Thr_res_check, Thr_message_travel, Thr_net_recv, Thr_net_netlisten, Thr_net_dllbrd]) \<and>
     ex_check (col_names tables)
       (stored [[Some ''10.0.0.1'', Some ''10.0.0.3'', Some ''255.255.255.0'']]) res_boot = Some (Inr (buf, s, r, pool)) \<and>
     net_dllbrd (replicate 130 0) ([7, 0, 0, 0], 0) True (ac\<lparr>ac_pool := pool\<rparr>) = Inr (mem', ac1) \<and>
     ap_turn [119] ex_ap_env 20 [] brd (st, ap_queue_init) = Some (Inr (st1, q1)) \<and>
     ac_turn True [119] ex_ac_env 21 [] None req (hash_key ex_ap_mac 6) (ac1, hash_init) = Some (Inr (ac2, tbl2)) \<and>
     ap_turn [119] (ex_ap_env\<lparr>e_connect := \<lparr>c_socket = 7, c_setsockopt = [], c_connect = 0\<rparr>\<rparr>) 22 [] resp (st1, q1) =
       Some (Inr (st2, q2)) \<and>
     ss_isreg (sysstat st2) = 1 \<and> s_addr (ss_server (sysstat st2)) = 0x0100000A \<and>
     watched (ap_links st2) = [5 \<mapsto> 2, 7 \<mapsto> 1] \<and> owner_of (ac_pool ac2) ip = ex_ap_mac"
proof -
  let ?env = "ex_ap_env\<lparr>e_connect := \<lparr>c_socket = 7, c_setsockopt = [], c_connect = 0\<rparr>\<rparr>"
  let ?b = "ex_boot ex_ap_mac 0" and ?c = "ex_boot [2, 0, 0, 0, 0, 9] 0x0100000A"
  have l: "length ex_ap_mac = ETH_ALEN" "length [2, 0, 0, 0, 0, 9 :: byte] = ETH_ALEN"
    by (simp_all add: ex_ap_mac_def ETH_ALEN_def)
  have b: "bo_node ?b = Some 2" "bo_node ?c = Some 2" "sql_granted (bo_sql ?c) [''ip_start'', ''ip_end'', ''ip_mask'']" "bo_calloc ?c" "bo_uuid ?c \<noteq> []" "nic_ipv4 ?c ''eth0'' \<noteq> 0"
    "de_socket (bo_dll ?b) 2 = 5"
    using ex_sql_granted by (simp_all add: ex_boot_def nic_ipv4_def)
  have t: "wf_sockaddr zero_sockaddr" by (simp add: wf_sockaddr_def zero_sockaddr_def)
  have c: "connect_granted ?env ?b 2 1" by (simp add: connect_granted_def ex_ap_env_def ex_boot_def)
  have e: "e_chap_malloc ?env" "a_chap_malloc ex_ac_env" "a_calloc ex_ac_env" "a_eth_ok ex_ac_env"
    "c_socket (e_connect ?env) = 7"
    by (simp_all add: ex_ap_env_def ex_ac_env_def)
  have m: "length (replicate 130 (0 :: byte)) = sizeof_ac_brd" by (simp add: sizeof_ac_brd_def)
  have pw: "length [119 :: byte] + 64 \<le> 2 ^ 32" by simp
  show ?thesis
    using started_programs_register [OF ex_boot_granted [OF l(1)] b(1) ex_boot_granted [OF l(2)] b(2-6) ex_row_range
        ex_nodes_for t ex_env_wf e(1) c e(2-4) m pw, where aprog = "''apctl''" and cprog = "''acser''"
        and dev = "([7, 0, 0, 0], 0)" and junk = "[]" and debug_build = True and node = None and ?m1.0 = 20 and ?m2.0 = 21
        and ?m3.0 = 22 and ra = "\<lambda>_ _ s. Inr (10, 0, s)" and g = NUL]
    unfolding ex_boot_nic(1) [OF l(1)] ex_boot_nic(2) b(7) e(5)
    by (elim exE conjE) (intro exI conjI, assumption+)
qed

end
