(* ===== verification/Log.thy ===== *)
theory Log
  imports Chap C_Strings
begin

text \<open>
  The logging macros of \<^verbatim>\<open>include/log.h\<close>: what goes to the system log and to the standard error
  output, on which level of the option \<open>debug\<close>, in the release and in the debug build; the
  hexadecimal texts of packets, digests and hardware addresses; and what \<^verbatim>\<open>lib/chap.c\<close> logs while it
  checks a digest. The other theories leave the log out, except where a
  macro follows a null pointer, since no value of the program depends on it.
\<close>

section \<open>Messages\<close>

definition ARG_DEBUG :: int where "ARG_DEBUG = 1"
definition ARG_WARN :: int where "ARG_WARN = 2"
definition ARG_LOCK :: int where "ARG_LOCK = 3"

text \<open>The priorities of \<^verbatim>\<open>syslog.h\<close> or'ed with \<^verbatim>\<open>LOG_USER\<close>, 8.\<close>

definition SYSLOG_ERR :: nat where "SYSLOG_ERR = 3 + 8"
definition SYSLOG_WARN :: nat where "SYSLOG_WARN = 4 + 8"
definition SYSLOG_LOCK :: nat where "SYSLOG_LOCK = 5 + 8"
definition SYSLOG_INFO :: nat where "SYSLOG_INFO = 6 + 8"
definition SYSLOG_DEBUG :: nat where "SYSLOG_DEBUG = 7 + 8"

lemmas syslog_levels = SYSLOG_ERR_def SYSLOG_WARN_def SYSLOG_LOCK_def SYSLOG_INFO_def SYSLOG_DEBUG_def
lemmas debug_levels = ARG_DEBUG_def ARG_WARN_def ARG_LOCK_def

text \<open>What has been written: the messages of \<^verbatim>\<open>syslog\<close> with their levels, and the text on \<^verbatim>\<open>stderr\<close>.\<close>

record log_out =
  log_sys :: "(nat \<times> string) list"
  log_err :: string

text \<open>Whether \<^verbatim>\<open>DEBUG\<close> is defined, the global \<^verbatim>\<open>debug\<close>, and the thread.\<close>

record log_conf =
  lg_build :: bool
  lg_debug :: int
  lg_thread :: u32

text \<open>\<^verbatim>\<open>__FILE__\<close>, \<^verbatim>\<open>__LINE__\<close>, \<^verbatim>\<open>__FUNCTION__\<close>.\<close>

type_synonym log_place = "string \<times> nat \<times> string"

definition log_prefix :: "log_conf \<Rightarrow> log_place \<Rightarrow> string" where
  "log_prefix c pl = (case pl of (file, line, func) \<Rightarrow>
     ''('' @ show_nat (unat (lg_thread c)) @ '')'' @ file @ '' +'' @ show_nat line @ '' '' @ func @ ''(): '')"

definition on_stderr :: "int \<Rightarrow> nat \<Rightarrow> bool" where
  "on_stderr debug level =
     (if debug = ARG_DEBUG then level = SYSLOG_DEBUG
      else if debug = ARG_WARN then level = SYSLOG_WARN
      else if debug = ARG_LOCK then level = SYSLOG_LOCK
      else True)"

definition sys_log :: "log_conf \<Rightarrow> log_place \<Rightarrow> nat \<Rightarrow> string \<Rightarrow> log_out \<Rightarrow> log_out" where
  "sys_log c pl level msg out =
     (let out = out\<lparr>log_sys := log_sys out @ [(level, log_prefix c pl @ msg)]\<rparr>
      in if on_stderr (lg_debug c) level then out\<lparr>log_err := log_err out @ log_prefix c pl @ msg\<rparr> else out)"

definition sys_log2 :: "log_conf \<Rightarrow> string \<Rightarrow> log_out \<Rightarrow> log_out" where
  "sys_log2 c msg out =
     (let out = out\<lparr>log_sys := log_sys out @ [(SYSLOG_INFO, msg)]\<rparr>
      in if lg_debug c \<noteq> 0 then out\<lparr>log_err := log_err out @ msg\<rparr> else out)"

definition sys_err :: "log_conf \<Rightarrow> log_place \<Rightarrow> string \<Rightarrow> log_out \<Rightarrow> log_out" where
  "sys_err c pl msg = sys_log c pl SYSLOG_ERR (''ERR: '' @ msg)"

definition sys_warn :: "log_conf \<Rightarrow> log_place \<Rightarrow> string \<Rightarrow> log_out \<Rightarrow> log_out" where
  "sys_warn c pl msg out = (if lg_build c then sys_log c pl SYSLOG_WARN (''WARNING: '' @ msg) out else out)"

definition sys_debug :: "log_conf \<Rightarrow> log_place \<Rightarrow> string \<Rightarrow> log_out \<Rightarrow> log_out" where
  "sys_debug c pl msg out = (if lg_build c then sys_log c pl SYSLOG_DEBUG (''DEBUG: '' @ msg) out else out)"

definition sys_lock :: "log_conf \<Rightarrow> log_place \<Rightarrow> string \<Rightarrow> log_out \<Rightarrow> log_out" where
  "sys_lock c pl msg out = (if lg_build c then sys_log c pl SYSLOG_LOCK (''LOCK: '' @ msg) out else out)"

definition pure_info :: "log_conf \<Rightarrow> string \<Rightarrow> log_out \<Rightarrow> log_out" where
  "pure_info c msg out = (if lg_build c then sys_log2 c msg out else out)"

text \<open>
  An error always reaches the system log. With one of the three selecting levels it is not
  shown on \<^verbatim>\<open>stderr\<close>; with \<^verbatim>\<open>debug\<close> 0, when nothing was asked for, every message is.
\<close>

lemma error_logged: "log_sys (sys_err c pl msg out) = log_sys out @ [(SYSLOG_ERR, log_prefix c pl @ ''ERR: '' @ msg)]"
  by (simp add: sys_err_def sys_log_def Let_def)

lemma error_hidden: "lg_debug c \<in> {1, 2, 3} \<Longrightarrow> log_err (sys_err c pl msg out) = log_err out"
  by (auto simp: sys_err_def sys_log_def on_stderr_def syslog_levels debug_levels Let_def)

lemma all_shown: "lg_debug c = 0 \<Longrightarrow> log_err (sys_log c pl level msg out) = log_err out @ log_prefix c pl @ msg"
  by (simp add: sys_log_def on_stderr_def debug_levels Let_def)

section \<open>Texts\<close>

definition LF :: char where "LF = CHR 0x0A"
definition TAB :: char where "TAB = CHR 0x09"

definition hex_digit :: "nat \<Rightarrow> char" where
  "hex_digit n = char_of (if n < 10 then 48 + n else 87 + n)"

text \<open>\<^verbatim>\<open>%02x\<close> of an unsigned char.\<close>

definition hex2 :: "byte \<Rightarrow> string" where
  "hex2 b = [hex_digit (unat b div 16), hex_digit (unat b mod 16)]"

definition mac_text :: "byte list \<Rightarrow> string" where
  "mac_text m = hex2 (m ! 0) @ concat (map (\<lambda>b. CHR '':'' # hex2 b) (tl (take 6 m)))"

definition md5_text :: "byte list \<Rightarrow> string" where
  "md5_text m = concat (map hex2 (take 16 m))"

text \<open>\<^verbatim>\<open>inet_ntop\<close> for IPv4: the bytes in the order of the memory.\<close>

definition ipv4_text :: "u32 \<Rightarrow> string" where
  "ipv4_text a = (case le32 a of
      [b0, b1, b2, b3] \<Rightarrow> show_nat (unat b0) @ ''.'' @ show_nat (unat b1) @ ''.'' @ show_nat (unat b2) @ ''.'' @ show_nat (unat b3)
    | _ \<Rightarrow> [])"

definition ntohs :: "u16 \<Rightarrow> nat" where
  "ntohs p = unat (of_le16 (rev (le16 p)))"

text \<open>\<open>uuid\<close> is the memory from the pointer on, of which \<^verbatim>\<open>%s\<close> prints up to a NUL.\<close>

definition pr_ap :: "log_conf \<Rightarrow> log_place \<Rightarrow> byte list \<Rightarrow> string \<Rightarrow> log_out \<Rightarrow> log_out res" where
  "pr_ap c pl m uuid out =
     (if \<not> lg_build c then Inr out
      else if length m < 6 \<or> NUL \<notin> set uuid then Inl OutOfBounds
      else Inr (sys_debug c pl (mac_text m @ '' reg in: '' @ cstr uuid @ [LF]) out))"

definition pr_mac :: "log_conf \<Rightarrow> log_place \<Rightarrow> byte list \<Rightarrow> log_out \<Rightarrow> log_out res" where
  "pr_mac c pl m out =
     (if \<not> lg_build c then Inr out
      else if length m < 6 then Inl OutOfBounds
      else Inr (sys_debug c pl (mac_text m @ [LF]) out))"

definition pr_ipv4 :: "log_conf \<Rightarrow> log_place \<Rightarrow> sockaddr_in option \<Rightarrow> log_out \<Rightarrow> log_out res" where
  "pr_ipv4 c pl addr out =
     (if \<not> lg_build c then Inr out
      else case addr of
        None \<Rightarrow> Inl NullDeref
      | Some a \<Rightarrow> Inr (sys_debug c pl
          (''address:'' @ ipv4_text (s_addr a) @ '', port:'' @ show_nat (ntohs (sin_port a)) @ [LF]) out))"

text \<open>\<open>ptr_text\<close> is how the library prints a pointer.\<close>

definition pr_hash :: "log_conf \<Rightarrow> log_place \<Rightarrow> int \<Rightarrow> string \<Rightarrow> byte list \<Rightarrow> log_out \<Rightarrow> log_out res" where
  "pr_hash c pl key ptr_text m out =
     (if \<not> lg_build c then Inr out
      else if length m < 6 then Inl OutOfBounds
      else Inr (sys_debug c pl
        (''key: '' @ show_int key @ '', aphash: '' @ ptr_text @ '', mac: '' @ mac_text m @ [LF]) out))"

definition pr_md5 :: "log_conf \<Rightarrow> log_place \<Rightarrow> byte list \<Rightarrow> log_out \<Rightarrow> log_out res" where
  "pr_md5 c pl m out =
     (if \<not> lg_build c then Inr out
      else if length m < 16 then Inl OutOfBounds
      else Inr (sys_debug c pl (''md5: '' @ md5_text m @ [LF]) out))"

text \<open>The calls of \<^verbatim>\<open>pure_info\<close> in the loop of \<^verbatim>\<open>pr_pkt\<close>, from index \<open>i\<close> on.\<close>

fun pkt_calls :: "nat \<Rightarrow> byte list \<Rightarrow> string list" where
  "pkt_calls i [] = [[LF]]"
| "pkt_calls i (b # bs) =
     (hex2 b @ '' '') # (if (i + 1) mod 8 = 0 then [[TAB]] else []) @ (if (i + 1) mod 16 = 0 then [[LF]] else []) @
     pkt_calls (i + 1) bs"

definition pr_pkt :: "log_conf \<Rightarrow> byte list \<Rightarrow> int \<Rightarrow> log_out \<Rightarrow> log_out res" where
  "pr_pkt c pkt len out =
     (if \<not> lg_build c then Inr out
      else if length pkt < nat len then Inl OutOfBounds
      else Inr (fold (pure_info c) (pkt_calls 0 (take (nat len) pkt)) out))"

section \<open>Reading the texts\<close>

definition hex_value :: "char \<Rightarrow> nat option" where
  "hex_value ch =
     (if 48 \<le> code_of ch \<and> code_of ch \<le> 57 then Some (code_of ch - 48)
      else if 97 \<le> code_of ch \<and> code_of ch \<le> 102 then Some (code_of ch - 87)
      else None)"

fun unhex :: "string \<Rightarrow> byte list" where
  "unhex (a # b # cs) = of_nat (16 * the (hex_value a) + the (hex_value b)) # unhex cs"
| "unhex _ = []"

lemma hex_value_digit [simp]: "n < 16 \<Longrightarrow> hex_value (hex_digit n) = Some n"
  by (simp add: hex_value_def hex_digit_def)

lemma unhex_hex2 [simp]: "unhex (hex2 b @ cs) = b # unhex cs"
proof -
  have "unat b < 256" using unsigned_less [of b] by simp
  then have "unat b div 16 < 16" "unat b mod 16 < 16" by auto
  then show ?thesis by (simp add: hex2_def)
qed

lemma unhex_concat: "unhex (concat (map hex2 bs)) = bs"
  by (induction bs) simp_all

definition is_hex :: "char \<Rightarrow> bool" where
  "is_hex ch \<longleftrightarrow> hex_value ch \<noteq> None"

lemma is_hex_hex2: "filter is_hex (hex2 b) = hex2 b"
proof -
  have "unat b < 256" using unsigned_less [of b] by simp
  then show ?thesis by (simp add: hex2_def is_hex_def)
qed

lemma is_hex_space [simp]: "\<not> is_hex (CHR '' '')" "\<not> is_hex (CHR '':'')" "\<not> is_hex TAB" "\<not> is_hex LF"
  by (simp_all add: is_hex_def hex_value_def TAB_def LF_def)

lemma unhex_pkt_calls: "unhex (filter is_hex (concat (pkt_calls i bs))) = bs"
  by (induction i bs rule: pkt_calls.induct) (simp_all add: is_hex_hex2)

lemma pure_info_fold:
  assumes "lg_build c"
  shows "log_sys (fold (pure_info c) ss out) = log_sys out @ map (Pair SYSLOG_INFO) ss"
    "lg_debug c \<noteq> 0 \<Longrightarrow> log_err (fold (pure_info c) ss out) = log_err out @ concat ss"
  using assms by (induction ss arbitrary: out) (simp_all add: pure_info_def sys_log2_def Let_def)

text \<open>The dump of a packet in the system log can be read back, whatever the level.\<close>

lemma pr_pkt_readable:
  assumes "lg_build c" "nat len \<le> length pkt"
  shows "\<exists>out' new. pr_pkt c pkt len out = Inr out' \<and> log_sys out' = log_sys out @ map (Pair SYSLOG_INFO) new \<and>
    unhex (filter is_hex (concat new)) = take (nat len) pkt"
  using assms by (auto simp: pr_pkt_def pure_info_fold unhex_pkt_calls)

text \<open>The texts fit the buffers and show what they print.\<close>

lemma length_show_nat_byte: "n < 256 \<Longrightarrow> length (show_nat n) \<le> 3"
  by (subst show_nat.simps, subst show_nat.simps, subst show_nat.simps) auto

lemma ipv4_text_fits: "length (ipv4_text a) < 19"
proof -
  have l: "length (show_nat (unat b)) \<le> 3" for b :: byte
    using length_show_nat_byte [of "unat b"] unsigned_less [of b] by simp
  from l [of "ucast a"] l [of "ucast (drop_bit 8 a)"] l [of "ucast (drop_bit 16 a)"] l [of "ucast (drop_bit 24 a)"]
  show ?thesis unfolding ipv4_text_def le32_def by (simp del: unsigned_ucast_eq)
qed

lemma mac_text_inj:
  assumes "length m = 6" "length m' = 6" "mac_text m = mac_text m'"
  shows "m = m'"
proof -
  have "filter is_hex (concat (map (\<lambda>b. CHR '':'' # hex2 b) bs)) = concat (map hex2 bs)" for bs
    by (induction bs) (simp_all add: is_hex_hex2)
  then have "filter is_hex (mac_text m) = concat (map hex2 m)" if "length m = 6" for m
    using that by (cases m) (simp_all add: mac_text_def is_hex_hex2)
  then have "unhex (filter is_hex (mac_text m)) = m" if "length m = 6" for m
    using that by (simp add: unhex_concat)
  with assms show ?thesis by metis
qed

section \<open>The log of a digest check\<close>

text \<open>
  \<^verbatim>\<open>chap_get_md5\<close> and its callers with what they log; \<open>p\<close> is how the address of the packet is
  printed. The macros name the place of their expansion.
\<close>

definition chap_place :: "nat \<Rightarrow> string \<Rightarrow> log_place" where
  "chap_place line func = (''chap.c'', line, func)"

definition chap_get_md5_log ::
  "log_conf \<Rightarrow> byte list \<Rightarrow> string \<Rightarrow> byte list \<Rightarrow> nat \<Rightarrow> u32 \<Rightarrow> log_out \<Rightarrow> (byte list \<times> log_out) res" where
  "chap_get_md5_log c passwd p data len rnd out =
     bind_res (pr_pkt c data (int len) out) (\<lambda>out.
       let decrypt = chap_get_md5 passwd data len rnd;
           out = sys_debug c (chap_place 44 ''chap_get_md5'')
             (''data: '' @ p @ '', len: '' @ show_int (int len) @ '', random: '' @ show_nat (unat rnd) @ [LF]) out
       in bind_res (pr_md5 c (chap_place 45 ''chap_get_md5'') decrypt out) (\<lambda>out. Inr (decrypt, out)))"

definition chap_cmp_md5_log ::
  "log_conf \<Rightarrow> byte list \<Rightarrow> bool \<Rightarrow> string \<Rightarrow> byte list \<Rightarrow> nat \<Rightarrow> u32 \<Rightarrow> byte list \<Rightarrow> string \<Rightarrow> log_out \<Rightarrow> (int \<times> log_out) res" where
  "chap_cmp_md5_log c passwd malloc_ok p data len rnd oldmd5 why out =
     (if \<not> malloc_ok
      then Inr (-1, sys_err c (chap_place 54 ''chap_cmp_md5'') (''Malloc decrypt failed: '' @ why @ [LF]) out)
      else bind_res (chap_get_md5_log c passwd p data len rnd out) (\<lambda>(decrypt, out).
        Inr (memcmp CHAP_LEN decrypt oldmd5, out)))"

definition chap_msg_cmp_md5_log ::
  "log_conf \<Rightarrow> byte list \<Rightarrow> bool \<Rightarrow> string \<Rightarrow> byte list \<Rightarrow> nat \<Rightarrow> u32 \<Rightarrow> string \<Rightarrow> log_out \<Rightarrow> (byte list \<times> int \<times> log_out) res" where
  "chap_msg_cmp_md5_log c passwd malloc_ok p msg len rnd why out =
     (let oldmd5 = slice 4 CHAP_LEN msg;
          msg = put_at 4 (replicate CHAP_LEN 0) msg
      in bind_res (chap_cmp_md5_log c passwd malloc_ok p msg len rnd oldmd5 why out) (\<lambda>(r, out). Inr (msg, r, out)))"

lemma chap_get_md5_log_eq:
  assumes "len \<le> length data"
  shows "\<exists>out'. chap_get_md5_log c passwd p data len rnd out = Inr (chap_get_md5 passwd data len rnd, out') \<and>
    (\<not> lg_build c \<longrightarrow> out' = out) \<and>
    (lg_build c \<longrightarrow> last (log_sys out') = (SYSLOG_DEBUG, log_prefix c (chap_place 45 ''chap_get_md5'') @
       ''DEBUG: md5: '' @ md5_text (chap_get_md5 passwd data len rnd) @ [LF]))"
proof (cases "lg_build c")
  case True
  with assms length_chap_get_md5 [of passwd data len rnd] show ?thesis
    by (simp add: chap_get_md5_log_def pr_pkt_def pr_md5_def sys_debug_def sys_log_def Let_def CHAP_LEN_def)
next
  case False
  then show ?thesis by (simp add: chap_get_md5_log_def pr_pkt_def pr_md5_def sys_debug_def)
qed

text \<open>The log does not change what is computed: it is that of \<^verbatim>\<open>chap_msg_cmp_md5\<close>.\<close>

lemma chap_msg_cmp_md5_log_result:
  assumes "len \<le> length msg" "4 + CHAP_LEN \<le> length msg"
  shows "\<exists>out'. chap_msg_cmp_md5_log c passwd malloc_ok p msg len rnd why out =
    Inr (fst (chap_msg_cmp_md5 passwd malloc_ok msg len rnd), snd (chap_msg_cmp_md5 passwd malloc_ok msg len rnd), out')"
proof -
  have "len \<le> length (put_at 4 (replicate CHAP_LEN 0) msg)" using assms by (simp add: length_put_at)
  from chap_get_md5_log_eq [OF this] obtain out' where
    "chap_get_md5_log c passwd p (put_at 4 (replicate CHAP_LEN 0) msg) len rnd out =
      Inr (chap_get_md5 passwd (put_at 4 (replicate CHAP_LEN 0) msg) len rnd, out')"
    by blast
  then show ?thesis
    by (cases malloc_ok) (simp_all add: chap_msg_cmp_md5_log_def chap_cmp_md5_log_def chap_msg_cmp_md5_def chap_cmp_md5_def Let_def)
qed

lemma md5_text_read: "length d = CHAP_LEN \<Longrightarrow> unhex (md5_text d) = d"
  by (simp add: md5_text_def unhex_concat CHAP_LEN_def)

text \<open>
  C7. The log of a debug build gives away the digests. When a packet is checked, accepted or
  refused, the last entry of the system log, at every level of \<^verbatim>\<open>debug\<close>, is the right digest
  in hexadecimal: whoever reads it and puts these bytes in the packet passes the check of
  the same challenge, without the password. A release build writes nothing.
\<close>

theorem debug_log_gives_digest:
  assumes "len \<le> length msg" "4 + CHAP_LEN \<le> len"
  shows "\<exists>r out'. chap_msg_cmp_md5_log c passwd True p msg len rnd why out = Inr (put_at 4 (replicate CHAP_LEN 0) msg, r, out') \<and>
    (\<not> lg_build c \<longrightarrow> out' = out) \<and>
    (lg_build c \<longrightarrow> (\<exists>t. last (log_sys out') =
        (SYSLOG_DEBUG, log_prefix c (chap_place 45 ''chap_get_md5'') @ ''DEBUG: md5: '' @ t @ [LF]) \<and>
      length (unhex t) = CHAP_LEN \<and>
      snd (chap_msg_cmp_md5 passwd True (put_at 4 (unhex t) msg) len rnd) = 0))"
proof -
  let ?m = "put_at 4 (replicate CHAP_LEN 0) msg"
  let ?d = "chap_get_md5 passwd ?m len rnd"
  have l: "4 + CHAP_LEN \<le> length msg" "len \<le> length ?m" using assms by (simp_all add: length_put_at)
  obtain out' where out': "chap_get_md5_log c passwd p ?m len rnd out = Inr (?d, out')"
    "\<not> lg_build c \<longrightarrow> out' = out"
    "lg_build c \<longrightarrow> last (log_sys out') = (SYSLOG_DEBUG, log_prefix c (chap_place 45 ''chap_get_md5'') @
       ''DEBUG: md5: '' @ md5_text ?d @ [LF])"
    using chap_get_md5_log_eq [OF l(2)] by blast
  have d: "unhex (md5_text ?d) = ?d" by (simp add: md5_text_read)
  have p: "put_at 4 (replicate CHAP_LEN 0) (put_at 4 ?d msg) = ?m"
    using l(1) by (intro put_at_put_at_same) simp_all
  have s: "slice 4 CHAP_LEN (put_at 4 ?d msg) = ?d"
    using l(1) slice_put_at_same [of 4 msg ?d] by simp
  have "snd (chap_msg_cmp_md5 passwd True (put_at 4 ?d msg) len rnd) = 0"
    by (simp add: chap_msg_cmp_md5_def chap_cmp_md5_def p s memcmp_0_iff Let_def)
  with out' d show ?thesis
    by (intro exI [of _ "memcmp CHAP_LEN ?d (slice 4 CHAP_LEN msg)"] exI [of _ out'] conjI impI exI [of _ "md5_text ?d"])
      (simp_all add: chap_msg_cmp_md5_log_def chap_cmp_md5_log_def Let_def)
qed

theorem debug_log_gives_digest_witness:
  "\<exists>r out'. chap_msg_cmp_md5_log \<lparr>lg_build = True, lg_debug = 0, lg_thread = 1\<rparr> [119] True ''0x1'' (replicate 130 0) 130 7 []
      \<lparr>log_sys = [], log_err = []\<rparr> = Inr (put_at 4 (replicate CHAP_LEN 0) (replicate 130 0), r, out') \<and>
    (\<exists>t. length (unhex t) = CHAP_LEN \<and>
      snd (chap_msg_cmp_md5 [119] True (put_at 4 (unhex t) (replicate 130 0)) 130 7) = 0)"
  using debug_log_gives_digest [of 130 "replicate 130 0" "\<lparr>lg_build = True, lg_debug = 0, lg_thread = 1\<rparr>" "[119]" "''0x1''" 7 "[]"
      "\<lparr>log_sys = [], log_err = []\<rparr>"]
  by (auto simp: CHAP_LEN_def)

end
