(* ===== verification/Help.thy ===== *)
theory Help
  imports Cmdarg Log
begin

text \<open>
  What the programs say at the terminal: the help text of \<^verbatim>\<open>lib/cmdarg.c\<close>, an array that a null
  pointer ends, with the function that prints it and the options it documents; and the menu of
  \<^verbatim>\<open>ac/main.c\<close>.
\<close>

text \<open>A missing null pointer would let the loop run behind the array.\<close>

definition help_array :: "build \<Rightarrow> string option list" where
  "help_array b =
     [Some ''USAGE: ac [options]'',
      Some ''acctl server'',
      Some (''  -n, --nic '' @ [TAB, TAB] @ '' nic which controller [required]''),
      Some (''  -d, --daemon '' @ [TAB, TAB] @ '' daemon mode''),
      Some (''  -p, --port '' @ [TAB, TAB] @ '' ac listen port (default 7960)'')] @
     (case b of
        SERVER \<Rightarrow>
          [Some (''  -b, --brditv '' @ [TAB] @ '' ac broadcast interval (default 30)''),
           Some (''  -c, --reschkitv '' @ [TAB] @ '' resource check interval (default 300)'')]
      | CLIENT \<Rightarrow>
          [Some (''  -r, --reportitv '' @ [TAB] @ '' ap report status interval (default 30)''),
           Some (''  -a, --domain '' @ [TAB, TAB] @ '' remote ac address(e.g: www.baiud.com, localhost, '' @
             ''192.168.10.1), when no local ac, ap will connect to remote ac'')]) @
     [Some (''  -m, --msgitv '' @ [TAB] @ '' interval travel all recevied message (default 30)''),
      Some (''  --debug '' @ [TAB] @ '' enable debug (DEBUG = 1, WARN = 2, LOCK = 3, ALL = other), will auto disable daemon_mode''),
      Some (''  -h, --help '' @ [TAB] @ '' help info''),
      None]"

fun print_lines :: "string option list \<Rightarrow> string \<Rightarrow> string res" where
  "print_lines [] out = Inl OutOfBounds"
| "print_lines (None # ls) out = Inr out"
| "print_lines (Some s # ls) out = print_lines ls (out @ s @ [LF])"

definition print_help :: "build \<Rightarrow> string \<Rightarrow> string res" where
  "print_help b = print_lines (help_array b)"

lemma print_lines_null: "print_lines (map Some ls @ None # r) out = Inr (out @ concat (map (\<lambda>s. s @ [LF]) ls))"
  by (induction ls arbitrary: out) simp_all

lemma help_prints: "print_help b out = Inr (out @ concat (map (\<lambda>s. s @ [LF]) (map the (butlast (help_array b)))))"
  using print_lines_null [of "map the (butlast (help_array b))" "[]" out]
  by (cases b) (simp_all add: print_help_def help_array_def)

text \<open>The lines that document a long option: behind the short one, or on their own.\<close>

definition documents :: "string \<Rightarrow> char \<Rightarrow> string \<Rightarrow> bool" where
  "documents name c line \<longleftrightarrow>
     take (length name + 9) line = ''  -'' @ [c] @ '', --'' @ name @ '' '' \<or>
     take (length name + 5) line = ''  --'' @ name @ '' ''"

text \<open>
  Every long option of the table has its line, with the short option that the table gives for it;
  only \<^verbatim>\<open>--debug\<close> stands alone, its short form \<^verbatim>\<open>-l\<close> is not documented.
\<close>

lemma options_documented:
  "list_all (\<lambda>(n, _, c). list_ex (\<lambda>l. case l of None \<Rightarrow> False | Some line \<Rightarrow> documents n c line) (help_array b)) (long_arg b)"
  by (cases b; hypsubst; code_simp)

lemma short_debug_undocumented:
  "CHR ''l'' \<in> set (SHORT_STR b) \<and>
   list_all (\<lambda>l. case l of None \<Rightarrow> True | Some line \<Rightarrow> take 4 line \<noteq> ''  -l'') (help_array b)"
  by (cases b; hypsubst; code_simp)

section \<open>The menu\<close>

text \<open>
  \<^verbatim>\<open>ui\<close> along the results of \<^verbatim>\<open>scanf\<close>, \<open>None\<close> when it reads no number, as at the end of the
  input; \<open>num\<close> is what the uninitialised variable holds. No number does anything.
\<close>

fun ui_loop :: "int option list \<Rightarrow> int \<times> string \<Rightarrow> int \<times> string" where
  "ui_loop [] s = s"
| "ui_loop (r # rs) (num, out) =
     (let out = out @ ''Input num: '';
          num = (case r of None \<Rightarrow> num | Some n \<Rightarrow> n)
      in if num = 1 then ui_loop rs (num, out) else ui_loop rs (num, out))"

definition ui :: "int \<Rightarrow> int option list \<Rightarrow> string" where
  "ui num rs = snd (ui_loop rs (num, ''1 system status'' @ [LF]))"

text \<open>At the end of the input the loop prints its prompt without a pause, for ever.\<close>

lemma ui_prompts: "ui num rs = ''1 system status'' @ [LF] @ concat (replicate (length rs) ''Input num: '')"
proof -
  have "snd (ui_loop rs (num, out)) = out @ concat (replicate (length rs) ''Input num: '')" for out
    by (induction rs arbitrary: num out) (simp_all add: Let_def)
  then show ?thesis by (simp add: ui_def)
qed

end
