(* ===== verification/Test_Tools.thy ===== *)
theory Test_Tools
  imports Dll_Init C_Strings
begin

text \<open>
  The programs of \<^verbatim>\<open>test\<close>, which try the datalink layer between two machines: \<^verbatim>\<open>dllser\<close> broadcasts a
  text, \<^verbatim>\<open>dllcli\<close> prints what it receives.
\<close>

definition test_text :: string where
  "test_text =
     ''wirelesserwirelesserwirelesserwirelesserwirelesserwirelesser'' @
     ''wirelesserwirelesserwirelesserwirelesserirelesser''"

definition chars_bytes :: "string \<Rightarrow> byte list" where
  "chars_bytes = map (\<lambda>c. of_nat (code_of c))"

definition bytes_chars :: "byte list \<Rightarrow> string" where
  "bytes_chars = map (\<lambda>b. char_of (unat b))"

text \<open>\<open>ok\<close> tells whether \<^verbatim>\<open>sendto\<close> succeeds; the second component is the frame.\<close>

definition dllser :: "dll_env \<Rightarrow> bool \<Rightarrow> (int \<times> byte list option \<times> dll_state) res" where
  "dllser env ok =
     bind_res (dll_init env ''enp3s0'' (dll_zero {0, 1, 2})) (\<lambda>g.
       dll_brdcast (chars_bytes test_text) (length test_text) ok (the (dg_bufs g)))"

text \<open>A round of the loop of \<^verbatim>\<open>dllcli\<close>: the line that it prints. \<^verbatim>\<open>data\<close> is cleared before every call.\<close>

definition dllcli_round :: "byte list option \<Rightarrow> dll_state \<Rightarrow> (string \<times> dll_state) res" where
  "dllcli_round frame st =
     bind_res (dll_rcv 99 frame st) (\<lambda>(ret, out, st).
       let data = (case out of None \<Rightarrow> replicate 100 0 | Some d \<Rightarrow> put_at 0 d (replicate 100 0))
       in Inr (''ret:'' @ show_int ret @ '', data:'' @ cstr (bytes_chars (drop 14 data)) @ [CHR 0x0A], st))"

fun dllcli_loop :: "byte list option list \<Rightarrow> dll_state \<Rightarrow> (string \<times> dll_state) res" where
  "dllcli_loop [] st = Inr ([], st)"
| "dllcli_loop (f # fs) st =
     bind_res (dllcli_round f st) (\<lambda>(line, st).
     bind_res (dllcli_loop fs st) (\<lambda>(out, st). Inr (line @ out, st)))"

definition dllcli :: "dll_env \<Rightarrow> byte list option list \<Rightarrow> (string \<times> dll_state) res" where
  "dllcli env frames =
     bind_res (dll_init env ''enp3s0'' (dll_zero {0, 1, 2})) (\<lambda>g. dllcli_loop frames (the (dg_bufs g)))"

lemma bytes_chars_inverse: "bytes_chars (chars_bytes s) = s"
  by (induction s) (simp_all add: bytes_chars_def chars_bytes_def unat_of_nat)

lemma test_text_facts: "length test_text = 109" "NUL \<notin> set test_text"
  by (simp_all add: test_text_def NUL_def)

text \<open>
  The two tools together, on machines that grant the set-up: \<^verbatim>\<open>dllcli\<close> reports 99 bytes and prints the text
  of \<^verbatim>\<open>dllser\<close> without its first 14 chars, because it skips a header that \<^verbatim>\<open>dll_rcv\<close> no longer hands over.
\<close>

lemma tools_together:
  assumes "dll_granted senv ''enp3s0''" "dll_granted cenv ''enp3s0''"
  shows "\<exists>frame st st'. dllser senv True = Inr (0, Some frame, st) \<and>
    dllcli cenv [Some frame] = Inr (''ret:99, data:'' @ drop 14 (take 99 test_text) @ [CHR 0x0A], st')"
proof -
  let ?d = "chars_bytes test_text" and ?ff = "replicate ETH_ALEN (0xff :: byte)"
  have ld: "length ?d = length test_text" by (simp add: chars_bytes_def)
  have z: "dg_bufs (dll_zero {0, 1, 2}) = None" by (simp add: dll_zero_def)
  obtain g1 hw1 b1 where s: "dll_init senv ''enp3s0'' (dll_zero {0, 1, 2}) = Inr g1" "dg_bufs g1 = Some b1"
    "dll_wf (take ETH_ALEN hw1) b1"
    using dll_init_ready [OF assms(1) z] by blast
  obtain g2 hw2 b2 where c: "dll_init cenv ''enp3s0'' (dll_zero {0, 1, 2}) = Inr g2" "dg_bufs g2 = Some b2"
    "dll_wf (take ETH_ALEN hw2) b2" "rcv_locked b2 = False"
    using dll_init_ready [OF assms(2) z] by blast
  define m where "m = take ETH_ALEN hw1"
  have m: "length m = 6" using s(3) by (simp add: m_def dll_wf_def ETH_ALEN_def)
  let ?f = "eth_header ?ff m @ ?d"
  obtain st where b: "dll_brdcast ?d (length test_text) True b1 = Inr (0, Some ?f, st)"
    using dll_brdcast_eq [OF s(3), of "length test_text" ?d] ld by (auto simp: test_text_facts dll_lens m_def)
  have h: "length (eth_header ?ff m) = 14" "slice 12 2 (eth_header ?ff m @ r) = ETH_INNO" for r
    using m by (simp_all add: eth_header_def slice_def ETH_INNO_def ETH_ALEN_def)
  have lb: "length (rcvpkt b2) = 512" using c(3) by (simp add: dll_wf_def dll_lens)
  let ?pkt = "put_at 0 ?f (rcvpkt b2)"
  have p: "?pkt = ?f @ drop (length ?f) (rcvpkt b2)"
    using lb h(1) ld by (simp add: put_at_0 test_text_facts)
  have sl: "slice 14 99 ?pkt = take 99 ?d"
    unfolding p using h(1) ld by (simp add: slice_def test_text_facts)
  have pr: "slice 12 2 ?pkt = ETH_INNO" unfolding p using h(2) by simp
  have r: "dll_rcv 99 (Some ?f) b2 = Inr (99, Some (take 99 ?d), b2\<lparr>rcvpkt := ?pkt\<rparr>)"
    using c(4) h(1) ld sl pr by (simp add: dll_rcv_def dll_lens test_text_facts Let_def)
  have printed: "cstr (bytes_chars (drop 14 (put_at 0 (take 99 ?d) (replicate 100 0)))) = drop 14 (take 99 test_text)"
  proof -
    have "put_at 0 (take 99 ?d) (replicate 100 0) = take 99 ?d @ [0]"
      using ld by (simp add: put_at_def test_text_facts)
    moreover have "bytes_chars (drop 14 (take 99 ?d)) = drop 14 (take 99 (bytes_chars ?d))"
      by (simp only: bytes_chars_def drop_map take_map)
    moreover have "bytes_chars [0] = [NUL]" by (simp add: bytes_chars_def NUL_def char_of_def)
    moreover have "drop 14 (take 99 ?d @ [0]) = drop 14 (take 99 ?d) @ [0]" using ld by (simp add: test_text_facts)
    ultimately have "bytes_chars (drop 14 (put_at 0 (take 99 ?d) (replicate 100 0))) = drop 14 (take 99 test_text) @ NUL # []"
      using bytes_chars_inverse [of test_text] by (simp add: bytes_chars_def)
    moreover have "NUL \<notin> set (drop 14 (take 99 test_text))"
      using test_text_facts(2) in_set_takeD in_set_dropD by metis
    ultimately show ?thesis using cstr_append by simp
  qed
  have n: "show_int 99 = ''99''" by code_simp
  have "dllcli_round (Some ?f) b2 =
      Inr (''ret:99, data:'' @ drop 14 (take 99 test_text) @ [CHR 0x0A], b2\<lparr>rcvpkt := ?pkt\<rparr>)"
    by (simp only: dllcli_round_def r bind_res.simps prod.case Let_def option.case printed n) simp
  moreover have "dllser senv True = Inr (0, Some ?f, st)" using s(1,2) b by (simp add: dllser_def)
  ultimately show ?thesis using c(1,2) by (simp add: dllcli_def)
qed

end
