(* ===== verification/Spec2Isabelle.thy ===== *)
theory Spec2Isabelle
  imports Prelude Md5 Msg Chap Slist Msg_Queue Ap_Message Aphash Ac_Travel List_Head Resource Simulation List_Ops List_Splice List_Runs List_Loops Hlist
    Dllayer Netlayer Link Ap_Process Ap_Trust Ap_Answers Ac_Process Ac_Trust Ap_Net Ac_Net Handshake
    C_Strings C_Numbers Json Json_Members Json_Array Json_Nested Json_Bounds Json_Lists Json_Structs Sql Res_Check Cmdarg Cmdarg_Read Ap_Typed Dll_Init Event_Loop Loop_Run Startup Log Help Test_Tools
begin

text \<open>
  \<^bold>\<open>acctl: a controller of wireless access points.\<close>

  The repository builds two programs from common layers. The controller (\<^verbatim>\<open>src/ac\<close>, built with
  \<^verbatim>\<open>SERVER\<close>) broadcasts its presence on the Ethernet, checks registration requests and leases
  IPv4 addresses; the access point (\<^verbatim>\<open>src/ap\<close>, built with \<^verbatim>\<open>CLIENT\<close>) answers broadcasts, accepts the
  response and then reports its status over TCP. Every packet begins with the header of
  \<^verbatim>\<open>src/include/msg.h\<close>, whose digest field is an MD5 digest over packet, challenge and password.

  \<^bold>\<open>How the parts interact.\<close> A frame or the bytes of a connection wake the event loop
  \<^verbatim>\<open>net_recv\<close> (\<^verbatim>\<open>lib/link.c\<close>), which calls the function that the socket was registered with. That
  callback (\<^verbatim>\<open>ac/net.c\<close>, \<^verbatim>\<open>ap/net.c\<close>) reads the packet (\<^verbatim>\<open>lib/dllayer.c\<close>, \<^verbatim>\<open>lib/netlayer.c\<close>) into a
  message and inserts it in a queue: one queue of the access point (\<^verbatim>\<open>ap/message.c\<close>), one queue
  per node of the hash table of the controller (\<^verbatim>\<open>ac/aphash.c\<close>). The thread \<^verbatim>\<open>message_travel\<close>
  takes the messages and calls \<^verbatim>\<open>msg_proc\<close> (\<^verbatim>\<open>ac/process.c\<close>, \<^verbatim>\<open>ap/process.c\<close>), which checks digests
  (\<^verbatim>\<open>lib/chap.c\<close>, \<^verbatim>\<open>lib/md5.c\<close>), leases addresses (\<^verbatim>\<open>ac/resource.c\<close> on the lists of
  \<^verbatim>\<open>include/list.h\<close>) and sends the answer.

  \<^bold>\<open>The theories\<close>, in the order of the imports.

  \<^item> \<^verbatim>\<open>Prelude\<close>: bytes and little-endian words, buffers (\<open>slice\<close>, \<open>put_at\<close>), faults
    and their binds. A computation returns \<open>'a res\<close>, a fault or a value; with a further
    \<open>option\<close> around it, \<open>None\<close> means that it does not return.
  \<^item> \<^verbatim>\<open>Md5\<close>: \<^verbatim>\<open>lib/md5.c\<close> on 32-bit words with the 64 macro calls as in the source. Shown: the calls
    are the round loop of RFC 1321, and feeding data in parts gives the padded block hash.
  \<^item> \<^verbatim>\<open>Msg\<close>: the packed structs of \<^verbatim>\<open>include/msg.h\<close> as records. The source reads and
    writes them by casts, so \<open>enc_\<close> and \<open>dec_\<close> are the layout that the compiler gives the packed declarations on a
    little-endian machine; shown is the offset of every field, the sizes, and that a cast reads back what was written. \<^verbatim>\<open>Chap\<close>: \<^verbatim>\<open>lib/chap.c\<close>; what a receiver accepts, the round trip, and that a
    digest binds packet and challenge up to a collision of MD5.
  \<^item> \<^verbatim>\<open>Slist\<close>, \<^verbatim>\<open>Msg_Queue\<close>: chains of \<^verbatim>\<open>next\<close> pointers with a pointer to the last slot, as the
    queues and the list of sockets have them, and the contract of a message queue as the locale
    \<open>message_queue\<close> with its consumer \<open>message_consumer\<close>. \<^verbatim>\<open>Ap_Message\<close> (\<^verbatim>\<open>ap/message.c\<close>) and
    \<^verbatim>\<open>Ac_Travel\<close> (the queues and \<^verbatim>\<open>message_travel\<close> of \<^verbatim>\<open>ac/aphash.c\<close>) interpret both: queues are first
    in, first out, and a round of \<^verbatim>\<open>message_travel\<close> ends with every queue empty.
  \<^item> \<^verbatim>\<open>Aphash\<close>: the hash, the table and \<^verbatim>\<open>hash_ap\<close>. Shown: bounds of the hash, lookup after insertion,
    that it returns, and what happens on a collision.
  \<^item> \<^verbatim>\<open>List_Head\<close>, \<^verbatim>\<open>Resource\<close>: circular lists as pointer maps, and the address pool of
    \<^verbatim>\<open>ac/resource.c\<close> on them; the pool implements the locale of a lease table, so that no
    address is leased twice. The faults of exhaustion and of a second reload are shown too.
  \<^item> \<^verbatim>\<open>List_Ops\<close>, \<^verbatim>\<open>List_Splice\<close>, \<^verbatim>\<open>List_Runs\<close>: the other operations of \<^verbatim>\<open>include/list.h\<close>, and their sequences on
    two lists as a simulation (locale \<open>simulation\<close> of \<^verbatim>\<open>Simulation\<close>) of the operations on two sequences.
    \<^verbatim>\<open>List_Loops\<close>: the loops of the macros and what they visit. \<^verbatim>\<open>Hlist\<close>: the same for the lists with
    a single pointer head.
  \<^item> \<^verbatim>\<open>Dllayer\<close>, \<^verbatim>\<open>Netlayer\<close>, \<^verbatim>\<open>Link\<close>: frames, the loops over \<^verbatim>\<open>recv\<close> and \<^verbatim>\<open>send\<close>, connecting,
    listening, accepting, the list of sockets with its agreement with epoll, and the event loop. \<^verbatim>\<open>recv\<close> is a stream: a call
    takes at most as many bytes as its size argument says and leaves the others, and the receive loop of
    \<^verbatim>\<open>tcp_rcv\<close> writes them into the memory that its pointer has, out of bounds where it ends.
  \<^item> \<^verbatim>\<open>Ap_Process\<close>: state and handlers of \<^verbatim>\<open>ap/process.c\<close>. \<^verbatim>\<open>Ap_Trust\<close> follows them through a run
    (\<open>ap_run\<close>, a step relation over handled messages, reports and lost connections);
    \<^verbatim>\<open>Ap_Answers\<close> states what the access point answers and whom it trusts. \<^verbatim>\<open>Ap_Typed\<close>: in every run
    the fields keep their sizes and ranges, and what is sent is a packet of its own.
  \<^item> \<^verbatim>\<open>Ac_Process\<close>, \<^verbatim>\<open>Ac_Trust\<close>: the same for \<^verbatim>\<open>ac/process.c\<close>, with \<open>ac_run\<close> over requests,
    broadcasts and lost connections; who holds an address asked for it with a right digest. A run has
    no reload of the address range (\<open>res_ip_reload\<close> frees every lease), and each handler is one step of it, also
    where the code takes no lock.
  \<^item> \<^verbatim>\<open>Ap_Net\<close>, \<^verbatim>\<open>Ac_Net\<close>: the receive callbacks. \<^verbatim>\<open>Handshake\<close>: a frame of one side runs through the
    callback, the queue and the handler of the other, and the three frames of a
    registration end with a registered access point.

  \<^item> \<^verbatim>\<open>C_Strings\<close>: strings that end at a NUL, \<^verbatim>\<open>strtol\<close>, \<^verbatim>\<open>atoi\<close> and decimal notation. \<^verbatim>\<open>Cmdarg\<close>:
    \<^verbatim>\<open>lib/arg.c\<close>, \<^verbatim>\<open>lib/cmdarg.c\<close> and \<^verbatim>\<open>lib/cfgarg.c\<close> for both compilations. \<open>getopt_calls\<close> is the
    documented behaviour of \<^verbatim>\<open>getopt_long\<close> on the tables of the program. \<^verbatim>\<open>Cmdarg_Read\<close>: a
    written command line is read back, what every accepted one satisfies, the
    defaults, and an option that makes the program follow a null pointer.
  \<^item> \<^verbatim>\<open>Dll_Init\<close>: \<^verbatim>\<open>dll_init\<close> with its sockets, addresses and buffers. \<^verbatim>\<open>Event_Loop\<close>: the endless loop of
    \<^verbatim>\<open>net_recv\<close> and the loop over \<^verbatim>\<open>accept\<close>, along a list of answers of the kernel, with the contract of the
    registered functions as the locale \<open>local_callbacks\<close>: under an invariant each returns and frees no node but
    its own. \<^verbatim>\<open>Loop_Run\<close> interprets it on the callbacks of both programs, so that both event loops
    run on, as long as \<open>cb_ok\<close> holds of every call: a table node can be allocated, a frame is of the own protocol or
    shorter than a header, and a ready connection is not closed by the peer while it is read and has no more bytes than the buffer. Outside of
    these conditions the programs do stop, and with a thread that deletes a socket \<^verbatim>\<open>net_recv\<close> writes to a freed node. \<^verbatim>\<open>Startup\<close>: both \<^verbatim>\<open>main\<close> functions,
    both \<^verbatim>\<open>net_init\<close>, \<^verbatim>\<open>create_pthread\<close> and \<^verbatim>\<open>init_report\<close>, in the order of the code, the other threads
    starting when \<^verbatim>\<open>main\<close> is done. Shown: programs that the system lets start end the registration with
    a connected access point that holds a leased address.

  \<^bold>\<open>State and environment.\<close> A mutex makes the code between lock and unlock one step of the
  model; a lock that a return forgets to release stays in the state (\<open>held\<close>,
  \<open>rcv_locked\<close>). What the program gets from outside is an argument: results of \<^verbatim>\<open>malloc\<close>
  with the content of fresh memory, bytes read from \<^verbatim>\<open>/dev/random\<close>
  together with the value of the variable that a short read leaves, answers of \<^verbatim>\<open>recv\<close>, \<^verbatim>\<open>send\<close>, \<^verbatim>\<open>connect\<close> and
  \<^verbatim>\<open>epoll_wait\<close>. Memory is not a flat array: a pointer to a node is a key of a map, a read
  of a freed node is the fault \<open>UseAfterFree\<close>, an index outside of an array \<open>OutOfBounds\<close>.

  \<^bold>\<open>Bounds and termination.\<close> No definition takes fuel. Loops that follow pointers are
  \<open>partial_function (option)\<close>; that they end is part of the properties. Lengths are compared
  as in C: \<^verbatim>\<open>len < sizeof\<close> on unsigned 64-bit words, so properties state \<open>msg_len < 2 ^ 31\<close>
  where the length of a packet matters. MD5 properties hold below \<open>2 ^ 32\<close> bytes, where the
  block loop does not wrap.

  \<^bold>\<open>The JSON text.\<close> \<^verbatim>\<open>Json\<close> models \<^verbatim>\<open>json_internal_read_object\<close> of \<^verbatim>\<open>lib/mjson.c\<close> as the loop \<open>json_loop\<close> over
  one definition per phase. \<^verbatim>\<open>attrbuf\<close> has 32 chars, \<^verbatim>\<open>valbuf\<close> 513, the store says at which addresses
  there is a variable of which type (\<open>js_cells\<close>), and every write outside is a fault. Arguments are
  the place of the targets, the reader of arrays, and \<open>garbage\<close>, the uninitialised char that a \<^verbatim>\<open>\u\<close>
  escape stores. \<^verbatim>\<open>C_Numbers\<close>: \<^verbatim>\<open>strtol\<close>, \<^verbatim>\<open>strtoul\<close>, \<^verbatim>\<open>strtod\<close> with an end pointer. \<^verbatim>\<open>Json_Array\<close>:
  \<^verbatim>\<open>json_read_array\<close> and \<^verbatim>\<open>json_target_address\<close> over byte addresses. \<^verbatim>\<open>Json_Nested\<close> shows how far each function
  gets in the text, and defines \<open>read_array_at\<close>, the reader that calls itself for the arrays inside elements, by
  the equation of the code: its termination rests on a congruence rule, that \<open>json_read_array\<close> calls its
  reader on shorter texts only. \<^verbatim>\<open>Json_Members\<close> follows the loop over a
  list of string members, \<^verbatim>\<open>Json_Bounds\<close> shows that a text without a backslash is read in
  bounds, with arrays at any depth, and that escapes are not. \<^verbatim>\<open>Json_Lists\<close>: lists of strings and numbers
  read back, and parallel arrays take one string at most. \<^verbatim>\<open>Json_Structs\<close>: an array of structures inside an
  object. \<^verbatim>\<open>Res_Check\<close> models the text that \<^verbatim>\<open>ac/sql.c\<close> writes for a row
  and a round of \<^verbatim>\<open>res_check\<close>: the row reaches \<^verbatim>\<open>res_ip_reload\<close> as it is in the database, and
  the values and columns for which it does not.

  \<^bold>\<open>Around the programs\<close>: \<^verbatim>\<open>Sql\<close>, the query, the columns and the start of \<^verbatim>\<open>ac/sql.c\<close>. \<^verbatim>\<open>Log\<close>: the macros of
  \<^verbatim>\<open>include/log.h\<close>, and that the log of a debug build gives away the digests. The handlers are
  modelled without their log messages, except where a macro follows a null pointer; \<^verbatim>\<open>Log\<close> shows
  for the digest check that its log does not change what it computes. \<^verbatim>\<open>Help\<close>: the help text
  and the menu. \<^verbatim>\<open>Test_Tools\<close>: the programs of \<^verbatim>\<open>test\<close> on the datalink layer.

  \<^bold>\<open>Not modelled\<close>: the code behind calls that leave the repository (the MySQL client, the C library
  where it is not named above, the kernel), which is an argument of the definitions; the time stamps
  of \<^verbatim>\<open>ac/aphash.c\<close> and the pauses of the threads; interleavings within a section that a mutex
  protects; the tracing and the ISO times of \<^verbatim>\<open>lib/mjson.c\<close>, which are not compiled.
\<close>

end
